(* ===== verification/Prelude.thy ===== *)
theory Prelude
  imports Main "HOL-Library.AList" "HOL-Library.Sublist"
begin

text \<open>
  Shared vocabulary of the development.

  \<^item> Go strings are byte strings, modelled as \<open>string\<close> (a list of 8-bit characters); the
    functions of package strings that the program calls are given on them. Case folding and
    white space are the ASCII ones.
  \<^item> A Go map with string keys is an association list with distinct keys (\<open>gmap\<close>); reading
    is \<open>map_of\<close>, writing \<open>AList.update\<close>, deleting \<open>AList.delete\<close>.
  \<^item> \<open>time.Time\<close> and \<open>time.Duration\<close> are integers in nanoseconds.
  \<^item> A Go result pair of a value and an error is a sum: \<open>Inl\<close> the error, \<open>Inr\<close> the value.
  \<^item> Decimal printing and parsing (package strconv) are \<open>itoa\<close> and \<open>parse_int64\<close>.
\<close>

named_theorems store_simps \<open>defining equations of the store operations\<close>
named_theorems handler_simps \<open>defining equations of the request handlers\<close>

type_synonym gotime = int
type_synonym duration = int
type_synonym 'v gmap = "(string \<times> 'v) list"

abbreviation millisecond :: duration where "millisecond \<equiv> 1000000"
abbreviation second :: duration where "second \<equiv> 1000000000"

text \<open>\<open>t.Sub(u)\<close> and \<open>t.Unix()\<close>.\<close>

definition time_sub :: "gotime \<Rightarrow> gotime \<Rightarrow> duration" where
  "time_sub t u = t - u"

definition unix_sec :: "gotime \<Rightarrow> int" where
  "unix_sec t = t div second"

definition of_unix :: "int \<Rightarrow> gotime" where
  "of_unix s = s * second"

lemma of_unix_le: "of_unix (unix_sec t) \<le> t"
proof -
  have "t = second * (t div second) + t mod second" by simp
  moreover have "0 \<le> t mod second" by simp
  ultimately show ?thesis unfolding of_unix_def unix_sec_def by linarith
qed

lemma of_unix_gt: "t < of_unix (unix_sec t) + second"
proof -
  have "t = second * (t div second) + t mod second" by simp
  moreover have "t mod second < second" by simp
  ultimately show ?thesis unfolding of_unix_def unix_sec_def by linarith
qed

section \<open>Results\<close>

definition is_ok :: "'e + 'a \<Rightarrow> bool" where
  "is_ok r = (case r of Inl _ \<Rightarrow> False | Inr _ \<Rightarrow> True)"

lemma is_ok_simps [simp]: "\<not> is_ok (Inl e)" "is_ok (Inr a)"
  by (simp_all add: is_ok_def)

section \<open>Association lists as Go maps\<close>

definition wf_map :: "('k \<times> 'v) list \<Rightarrow> bool" where
  "wf_map m \<longleftrightarrow> distinct (map fst m)"

lemma wf_map_Nil [simp, intro]: "wf_map []"
  by (simp add: wf_map_def)

lemma wf_map_update [simp, intro]: "wf_map m \<Longrightarrow> wf_map (AList.update k v m)"
  by (simp add: wf_map_def distinct_update)

lemma wf_map_delete [simp, intro]: "wf_map m \<Longrightarrow> wf_map (AList.delete k m)"
  by (simp add: wf_map_def distinct_delete)

lemma map_of_update [simp]: "map_of (AList.update k v m) = (map_of m)(k \<mapsto> v)"
  by (rule update_conv')

lemma map_of_delete [simp]: "map_of (AList.delete k m) = (map_of m)(k := None)"
  by (rule delete_conv')

lemma wf_map_lookup: "wf_map m \<Longrightarrow> (k, v) \<in> set m \<longleftrightarrow> map_of m k = Some v"
  by (simp add: wf_map_def map_of_eq_Some_iff)

text \<open>How many entries satisfy a predicate: the Go loops that count while ranging over a map.\<close>

definition count_if :: "('a \<Rightarrow> bool) \<Rightarrow> 'a list \<Rightarrow> nat" where
  "count_if P xs = length (filter P xs)"

lemma count_if_Nil [simp]: "count_if P [] = 0"
  by (simp add: count_if_def)

lemma count_if_Cons [simp]:
  "count_if P (x # xs) = (if P x then Suc (count_if P xs) else count_if P xs)"
  by (simp add: count_if_def)

lemma count_if_append [simp]: "count_if P (xs @ ys) = count_if P xs + count_if P ys"
  by (simp add: count_if_def)

lemma count_if_mono:
  "(\<And>x. x \<in> set xs \<Longrightarrow> P x \<Longrightarrow> Q x) \<Longrightarrow> count_if P xs \<le> count_if Q xs"
  by (induction xs) auto

lemma count_if_cong:
  "(\<And>x. x \<in> set xs \<Longrightarrow> P x = Q x) \<Longrightarrow> count_if P xs = count_if Q xs"
  by (induction xs) auto

lemma update_fresh: "map_of m k = None \<Longrightarrow> AList.update k v m = m @ [(k, v)]"
  by (induction m) (auto split: if_splits)

text \<open>Replacing the value of a present key leaves a count of the entries unchanged
  when the new value satisfies the predicate as the old one did.\<close>

lemma count_if_update_same:
  assumes "map_of m k = Some v" and "P (k, v') = P (k, v)"
  shows "count_if P (AList.update k v' m) = count_if P m"
  using assms by (induction m) (auto split: if_splits)

section \<open>Strings\<close>

text \<open>The byte of a character, and the byte ranges the code tests (\<open>'a' <= c && c <= 'z'\<close>).\<close>

definition byte :: "char \<Rightarrow> nat" where
  "byte c = of_char c"

definition is_lower_chr :: "char \<Rightarrow> bool" where
  "is_lower_chr c \<longleftrightarrow> 97 \<le> byte c \<and> byte c \<le> 122"

definition is_upper_chr :: "char \<Rightarrow> bool" where
  "is_upper_chr c \<longleftrightarrow> 65 \<le> byte c \<and> byte c \<le> 90"

definition chr_upper :: "char \<Rightarrow> char" where
  "chr_upper c = (if is_lower_chr c then char_of (byte c - 32) else c)"

definition chr_lower :: "char \<Rightarrow> char" where
  "chr_lower c = (if is_upper_chr c then char_of (byte c + 32) else c)"

definition to_upper :: "string \<Rightarrow> string" where
  "to_upper = map chr_upper"

definition to_lower :: "string \<Rightarrow> string" where
  "to_lower = map chr_lower"

lemma to_upper_Nil_iff [simp]: "to_upper s = [] \<longleftrightarrow> s = []" "to_upper [] = []"
  by (simp_all add: to_upper_def)

text \<open>strings.EqualFold, on ASCII letters.\<close>

definition equal_fold :: "string \<Rightarrow> string \<Rightarrow> bool" where
  "equal_fold a b \<longleftrightarrow> to_lower a = to_lower b"

text \<open>Code equations that read the bits of a character directly, so that evaluating a definition
  on concrete strings does no arithmetic on type classes.\<close>

definition nat_chr :: "nat \<Rightarrow> char" where
  "nat_chr n = Char (n mod 2 = 1) (n div 2 mod 2 = 1) (n div 4 mod 2 = 1) (n div 8 mod 2 = 1)
     (n div 16 mod 2 = 1) (n div 32 mod 2 = 1) (n div 64 mod 2 = 1) (n div 128 mod 2 = 1)"

lemma byte_code [code]: "byte (Char b0 b1 b2 b3 b4 b5 b6 b7) =
  (if b0 then 1 else 0) + (if b1 then 2 else 0) + (if b2 then 4 else 0) + (if b3 then 8 else 0)
  + (if b4 then 16 else 0) + (if b5 then 32 else 0) + (if b6 then 64 else 0) + (if b7 then 128 else 0)"
  by (simp add: byte_def)

lemma of_char_byte [code_unfold]: "(of_char :: char \<Rightarrow> nat) = byte"
  by (simp add: byte_def fun_eq_iff)

lemma char_of_nat_chr [code_unfold]: "(char_of :: nat \<Rightarrow> char) = nat_chr"
  by (auto simp: nat_chr_def fun_eq_iff char_of_def odd_iff_mod_2_eq_one bit_iff_odd drop_bit_eq_div)

lemma is_lower_chr_code [code]: "is_lower_chr (Char b0 b1 b2 b3 b4 b5 b6 b7) \<longleftrightarrow>
  \<not> b7 \<and> b6 \<and> b5 \<and> (b0 \<or> b1 \<or> b2 \<or> b3 \<or> b4) \<and> \<not> (b4 \<and> b3 \<and> (b2 \<or> b1 \<and> b0))"
  by (simp add: is_lower_chr_def byte_code)

lemma is_upper_chr_code [code]: "is_upper_chr (Char b0 b1 b2 b3 b4 b5 b6 b7) \<longleftrightarrow>
  \<not> b7 \<and> b6 \<and> \<not> b5 \<and> (b0 \<or> b1 \<or> b2 \<or> b3 \<or> b4) \<and> \<not> (b4 \<and> b3 \<and> (b2 \<or> b1 \<and> b0))"
  by (simp add: is_upper_chr_def byte_code)

text \<open>\<open>strings.Split\<close> with a one-byte separator: never the empty list.\<close>

fun split_on :: "char \<Rightarrow> string \<Rightarrow> string list" where
  "split_on c [] = [[]]"
| "split_on c (x # xs) =
     (if x = c then [] # split_on c xs
      else (case split_on c xs of [] \<Rightarrow> [[x]] | w # ws \<Rightarrow> (x # w) # ws))"

text \<open>\<open>strings.Join\<close> with a one-byte separator.\<close>

fun join_on :: "char \<Rightarrow> string list \<Rightarrow> string" where
  "join_on c [] = []"
| "join_on c [w] = w"
| "join_on c (w # ws) = w @ c # join_on c ws"

text \<open>\<open>strings.Cut\<close> with a one-byte separator.\<close>

fun cut_at :: "char \<Rightarrow> string \<Rightarrow> (string \<times> string) option" where
  "cut_at c [] = None"
| "cut_at c (x # xs) =
     (if x = c then Some ([], xs)
      else map_option (\<lambda>(a, b). (x # a, b)) (cut_at c xs))"

definition has_prefix :: "string \<Rightarrow> string \<Rightarrow> bool" where
  "has_prefix p s \<longleftrightarrow> take (length p) s = p"

definition trim_prefix :: "string \<Rightarrow> string \<Rightarrow> string" where
  "trim_prefix p s = (if has_prefix p s then drop (length p) s else s)"

definition cut_prefix :: "string \<Rightarrow> string \<Rightarrow> string option" where
  "cut_prefix p s = (if has_prefix p s then Some (drop (length p) s) else None)"

definition is_space :: "char \<Rightarrow> bool" where
  "is_space c \<longleftrightarrow> c = CHR '' '' \<or> (9 \<le> (of_char c :: nat) \<and> (of_char c :: nat) \<le> 13)"

lemma is_space_code [code]: "is_space (Char b0 b1 b2 b3 b4 b5 b6 b7) \<longleftrightarrow>
  \<not> b7 \<and> \<not> b6 \<and> \<not> b4 \<and>
  (if b5 then \<not> b3 \<and> \<not> b2 \<and> \<not> b1 \<and> \<not> b0 else b3 \<and> (if b2 then \<not> b1 else b1 \<or> b0))"
  by (simp add: is_space_def)

definition trim_space :: "string \<Rightarrow> string" where
  "trim_space s = rev (dropWhile is_space (rev (dropWhile is_space s)))"

definition contains_chr :: "char \<Rightarrow> string \<Rightarrow> bool" where
  "contains_chr c s \<longleftrightarrow> c \<in> set s"

lemma split_on_ne [simp]: "split_on c s \<noteq> []"
  by (induction s) (auto split: list.splits)

lemma split_on_no_sep: "c \<notin> set s \<Longrightarrow> split_on c s = [s]"
  by (induction s) auto

lemma split_on_append: "c \<notin> set a \<Longrightarrow> split_on c (a @ c # s) = a # split_on c s"
  by (induction a) auto

lemma split_on_parts: "w \<in> set (split_on c s) \<Longrightarrow> c \<notin> set w"
  by (induction s arbitrary: w) (auto split: list.splits if_splits)

lemma join_on_split_on: "join_on c (split_on c s) = s"
proof (induction s)
  case Nil
  then show ?case by simp
next
  case (Cons x xs)
  obtain w ws where "split_on c xs = w # ws" by (cases "split_on c xs") auto
  with Cons show ?case by (cases ws) auto
qed

lemma split_on_join_on:
  "ws \<noteq> [] \<Longrightarrow> (\<And>w. w \<in> set ws \<Longrightarrow> c \<notin> set w) \<Longrightarrow> split_on c (join_on c ws) = ws"
proof (induction c ws rule: join_on.induct)
  case (3 c w v vs)
  then show ?case by (simp add: split_on_append)
qed (auto simp: split_on_no_sep)

lemma cut_at_append: "c \<notin> set a \<Longrightarrow> cut_at c (a @ c # b) = Some (a, b)"
  by (induction a) auto

lemma cut_at_SomeD: "cut_at c s = Some (a, b) \<Longrightarrow> s = a @ c # b \<and> c \<notin> set a"
  by (induction s arbitrary: a) (auto split: if_splits)

lemma cut_at_None_iff: "cut_at c s = None \<longleftrightarrow> c \<notin> set s"
  by (induction s) auto

lemma has_prefix_append [simp]: "has_prefix p (p @ s)"
  by (simp add: has_prefix_def)

lemma has_prefix_iff: "has_prefix p s \<longleftrightarrow> (\<exists>r. s = p @ r)"
  by (metis append_eq_conv_conj append_take_drop_id has_prefix_def)

lemma cut_prefix_append [simp]: "cut_prefix p (p @ s) = Some s"
  by (simp add: cut_prefix_def)

lemma trim_prefix_append [simp]: "trim_prefix p (p @ s) = s"
  by (simp add: trim_prefix_def)

text \<open>String order is byte-wise.\<close>

fun str_le :: "string \<Rightarrow> string \<Rightarrow> bool" where
  "str_le [] ys = True"
| "str_le (x # xs) [] = False"
| "str_le (x # xs) (y # ys) = (byte x < byte y \<or> (x = y \<and> str_le xs ys))"

text \<open>Joining two fields with a separator determines both when the first field has none.\<close>

lemma sep_inject:
  fixes c :: char
  assumes "c \<notin> set a" "c \<notin> set a'"
  shows "a @ c # b = a' @ c # b' \<longleftrightarrow> a = a' \<and> b = b'"
proof
  assume "a @ c # b = a' @ c # b'"
  then have "cut_at c (a @ c # b) = cut_at c (a' @ c # b')" by simp
  then show "a = a' \<and> b = b'" using assms by (simp add: cut_at_append)
qed simp

section \<open>Decimal numbers\<close>

definition digit_chr :: "nat \<Rightarrow> char" where
  "digit_chr d = char_of (48 + d)"

fun nat_digits :: "nat \<Rightarrow> string" where
  "nat_digits n = (if n < 10 then [digit_chr n] else nat_digits (n div 10) @ [digit_chr (n mod 10)])"

declare nat_digits.simps [simp del]

definition itoa :: "int \<Rightarrow> string" where
  "itoa n = (if n < 0 then CHR ''-'' # nat_digits (nat (- n)) else nat_digits (nat n))"

definition is_digit :: "char \<Rightarrow> bool" where
  "is_digit c \<longleftrightarrow> 48 \<le> (of_char c :: nat) \<and> (of_char c :: nat) \<le> 57"

fun dec_value :: "nat \<Rightarrow> string \<Rightarrow> nat option" where
  "dec_value acc [] = Some acc"
| "dec_value acc (c # cs) =
     (if is_digit c then dec_value (acc * 10 + (of_char c - 48)) cs else None)"

definition dec_nat :: "string \<Rightarrow> nat option" where
  "dec_nat s = (if s = [] then None else dec_value 0 s)"

definition int64_min :: int where "int64_min = - (2 ^ 63)"
definition int64_max :: int where "int64_max = 2 ^ 63 - 1"

lemma is_digit_code [code]: "is_digit (Char b0 b1 b2 b3 b4 b5 b6 b7) \<longleftrightarrow>
  \<not> b7 \<and> \<not> b6 \<and> b5 \<and> b4 \<and> (b3 \<longrightarrow> \<not> b2 \<and> \<not> b1)"
  by (simp add: is_digit_def)

text \<open>\<open>strconv.ParseInt(s, 10, 64)\<close> and \<open>strconv.Atoi\<close>: an optional sign, at least one digit,
  nothing else, and a range error outside 64 bits.\<close>

definition parse_int64 :: "string \<Rightarrow> int option" where
  "parse_int64 s =
     (let (neg, body) = (case s of [] \<Rightarrow> (False, [])
                         | c # cs \<Rightarrow> if c = CHR ''-'' then (True, cs)
                                     else if c = CHR ''+'' then (False, cs) else (False, s))
      in case dec_nat body of None \<Rightarrow> None
         | Some n \<Rightarrow> (let v = (if neg then - int n else int n)
                     in if int64_min \<le> v \<and> v \<le> int64_max then Some v else None))"

lemma digit_chr_digit [simp]: "d < 10 \<Longrightarrow> is_digit (digit_chr d)"
  "d < 10 \<Longrightarrow> (of_char (digit_chr d) :: nat) = 48 + d"
  by (simp_all add: digit_chr_def is_digit_def)

lemma dec_value_append: "dec_value acc (xs @ ys) = Option.bind (dec_value acc xs) (\<lambda>a. dec_value a ys)"
  by (induction xs arbitrary: acc) auto

lemma dec_value_digits: "dec_value 0 (nat_digits n) = Some n"
proof (induction n rule: nat_digits.induct)
  case (1 n)
  then show ?case
    by (cases "n < 10") (auto simp: nat_digits.simps[of n] dec_value_append mult.commute)
qed

lemma nat_digits_ne [simp]: "nat_digits n \<noteq> []"
  by (subst nat_digits.simps) simp

lemma nat_digits_digits: "c \<in> set (nat_digits n) \<Longrightarrow> is_digit c"
proof (induction n rule: nat_digits.induct)
  case (1 n)
  then show ?case by (cases "n < 10") (auto simp: nat_digits.simps[of n])
qed

lemma dec_nat_digits [simp]: "dec_nat (nat_digits n) = Some n"
  by (simp add: dec_nat_def dec_value_digits)

lemma nat_digits_inject: "nat_digits m = nat_digits n \<longleftrightarrow> m = n"
  by (metis dec_nat_digits option.inject)

lemma parse_int64_digits:
  assumes "int n \<le> int64_max"
  shows "parse_int64 (nat_digits n) = Some (int n)"
proof -
  obtain c cs where d: "nat_digits n = c # cs" by (cases "nat_digits n") auto
  have "is_digit c" using nat_digits_digits[of c n] d by simp
  then have "c \<noteq> CHR ''-''" "c \<noteq> CHR ''+''" by (auto simp: is_digit_def)
  then show ?thesis
    using assms d dec_nat_digits[of n] by (simp add: parse_int64_def int64_min_def)
qed

lemma parse_itoa:
  assumes "int64_min \<le> n" "n \<le> int64_max"
  shows "parse_int64 (itoa n) = Some n"
  using assms parse_int64_digits[of "nat n"]
  by (auto simp: itoa_def) (simp add: parse_int64_def int64_max_def int64_min_def)

lemma itoa_chars: "c \<in> set (itoa n) \<Longrightarrow> is_digit c \<or> c = CHR ''-''"
  by (auto simp: itoa_def nat_digits_digits split: if_splits)

lemma itoa_inject: "itoa m = itoa n \<longleftrightarrow> m = n"
proof -
  have neq: "CHR ''-'' # xs \<noteq> nat_digits k" for xs k
  proof
    assume "CHR ''-'' # xs = nat_digits k"
    then have "is_digit (CHR ''-'')" using nat_digits_digits by (metis list.set_intros(1))
    then show False by (simp add: is_digit_def)
  qed
  show ?thesis
    using neq neq[symmetric] by (auto simp: itoa_def nat_digits_inject split: if_splits)
qed

end
