(* ===== verification/Store_Iface.thy ===== *)
theory Store_Iface
  imports Prelude Complex_Main
begin

text \<open>
  The store interfaces of internal/broker/store.go and owner.go.

  A Go interface is a record of functions over the state of the store that implements it
  (\<open>usage_ops\<close> for Store, \<open>prov_ops\<close> for ProvisionStore, \<open>owner_ops\<close> for OwnerStore); the two
  type assertions the broker makes on its Store are the two option fields of \<open>store_ops\<close>.

  What each interface promises is a specification on an abstract ledger (\<open>spec_*\<close>) and a locale
  that says the operations compute the specification through an abstraction function. The facts
  the broker relies on are proved once inside the locales. Amounts and counts are mathematical
  integers: the 64-bit range of Go's int is far above any balance in micro-dollars.
\<close>

section \<open>Data\<close>

datatype store_err = ErrIPCap | ErrCooldown | ErrOwned | ErrClaimArgs | ErrDriver

record cell =
  cl_calls :: int
  cl_cents :: rat

record prov_record =
  pr_app :: string
  pr_caller :: string
  pr_ip :: string
  pr_first_seen :: gotime
  pr_last_mint :: gotime
  pr_credits :: int
  pr_rot :: int
  pr_new :: bool

definition zero_record :: prov_record where
  "zero_record = \<lparr>pr_app = [], pr_caller = [], pr_ip = [], pr_first_seen = 0, pr_last_mint = 0,
     pr_credits = 0, pr_rot = 0, pr_new = False\<rparr>"

section \<open>The interfaces\<close>

record 's usage_ops =
  op_admit :: "'s \<Rightarrow> string \<Rightarrow> string \<Rightarrow> int \<Rightarrow> (bool \<times> int) \<times> 's"
  op_add_cost :: "'s \<Rightarrow> string \<Rightarrow> string \<Rightarrow> rat \<Rightarrow> 's"
  op_usage :: "'s \<Rightarrow> string \<Rightarrow> string \<Rightarrow> int \<times> rat"

record 's prov_ops =
  op_provision :: "'s \<Rightarrow> string \<Rightarrow> string \<Rightarrow> string \<Rightarrow> int \<Rightarrow> int \<Rightarrow> duration \<Rightarrow> gotime
     \<Rightarrow> (store_err + prov_record) \<times> 's"
  op_credit :: "'s \<Rightarrow> string \<Rightarrow> string \<Rightarrow> store_err + int"
  op_debit :: "'s \<Rightarrow> string \<Rightarrow> string \<Rightarrow> int \<Rightarrow> (store_err + bool \<times> int) \<times> 's"
  op_refund :: "'s \<Rightarrow> string \<Rightarrow> string \<Rightarrow> int \<Rightarrow> 's"
  op_settle :: "'s \<Rightarrow> string \<Rightarrow> string \<Rightarrow> int \<Rightarrow> (store_err + int) \<times> 's"
  op_get :: "'s \<Rightarrow> string \<Rightarrow> string \<Rightarrow> store_err + prov_record option"
  op_rotate :: "'s \<Rightarrow> string \<Rightarrow> string \<Rightarrow> (store_err + prov_record option) \<times> 's"

record 's owner_ops =
  op_claim :: "'s \<Rightarrow> string \<Rightarrow> string \<Rightarrow> string \<Rightarrow> string \<Rightarrow> gotime \<Rightarrow> (store_err + unit) \<times> 's"
  op_owner_of :: "'s \<Rightarrow> string \<Rightarrow> string \<Rightarrow> string \<Rightarrow> store_err + string option"
  op_owned_set :: "'s \<Rightarrow> string \<Rightarrow> string \<Rightarrow> string \<Rightarrow> store_err + string list"
  op_release :: "'s \<Rightarrow> string \<Rightarrow> string \<Rightarrow> string \<Rightarrow> (store_err + unit) \<times> 's"

record 's store_ops =
  so_usage :: "'s usage_ops"
  so_prov :: "'s prov_ops option"
  so_owner :: "'s owner_ops option"

section \<open>Specification: call counters\<close>

type_synonym counters = "string \<times> string \<Rightarrow> int"

definition spec_admit :: "counters \<Rightarrow> string \<times> string \<Rightarrow> int \<Rightarrow> (bool \<times> int) \<times> counters" where
  "spec_admit C k quota =
     (if quota > 0 \<and> C k \<ge> quota then ((False, C k), C)
      else ((True, C k + 1), C(k := C k + 1)))"

text \<open>How many of a sequence of calls of one caller are admitted.\<close>

fun admit_run :: "'s usage_ops \<Rightarrow> 's \<Rightarrow> string \<Rightarrow> string \<Rightarrow> int \<Rightarrow> nat \<Rightarrow> nat \<times> 's" where
  "admit_run ops s a c q 0 = (0, s)"
| "admit_run ops s a c q (Suc n) =
     (let ((adm, _), s') = op_admit ops s a c q; (k, s'') = admit_run ops s' a c q n
      in (if adm then Suc k else k, s''))"

locale usage_meter =
  fixes ops :: "'s usage_ops"
    and inv :: "'s \<Rightarrow> bool"
    and calls :: "'s \<Rightarrow> counters"
    and ok_app :: "string \<Rightarrow> bool"
  assumes admit_spec: "inv s \<Longrightarrow> ok_app a \<Longrightarrow> op_admit ops s a c q = (r, s') \<Longrightarrow>
      (r, calls s') = spec_admit (calls s) (a, c) q \<and> inv s'"
    and calls_nonneg: "inv s \<Longrightarrow> 0 \<le> calls s k"
begin

lemma admit_run_count:
  assumes "inv s" "ok_app a" "0 < q" "calls s (a, c) \<le> q"
  shows "case admit_run ops s a c q n of (k, s') \<Rightarrow>
    int k = min (int n) (q - calls s (a, c)) \<and> inv s'"
  using assms
proof (induction n arbitrary: s)
  case 0
  then show ?case by simp
next
  case (Suc n)
  obtain adm m s1 where A: "op_admit ops s a c q = ((adm, m), s1)" by (metis prod.exhaust)
  obtain k s2 where R: "admit_run ops s1 a c q n = (k, s2)" by fastforce
  from admit_spec[OF Suc.prems(1,2) A]
  have S: "((adm, m), calls s1) = spec_admit (calls s) (a, c) q" and I: "inv s1" by auto
  show ?case
  proof (cases "calls s (a, c) \<ge> q")
    case True
    with S Suc.prems have "\<not> adm" "calls s1 = calls s" by (auto simp: spec_admit_def)
    with Suc.IH[OF I Suc.prems(2,3)] Suc.prems True R A show ?thesis by auto
  next
    case False
    with S have "adm" "calls s1 (a, c) = calls s (a, c) + 1" by (auto simp: spec_admit_def)
    with Suc.IH[OF I Suc.prems(2,3)] False R A show ?thesis by (auto simp: min_def)
  qed
qed

end

section \<open>Specification: the credit ledger\<close>

record acct =
  ac_ip :: string
  ac_credits :: int
  ac_rot :: int
  ac_mint :: gotime

type_synonym ledger = "string \<times> string \<Rightarrow> acct option"

definition bal :: "ledger \<Rightarrow> string \<times> string \<Rightarrow> int" where
  "bal L k = (case L k of None \<Rightarrow> 0 | Some x \<Rightarrow> ac_credits x)"

definition seats :: "ledger \<Rightarrow> string \<Rightarrow> string \<Rightarrow> nat" where
  "seats L a ip = card {c. \<exists>x. L (a, c) = Some x \<and> ac_ip x = ip}"

definition add_credits :: "int \<Rightarrow> acct \<Rightarrow> acct" where
  "add_credits n x = x\<lparr>ac_credits := ac_credits x + n\<rparr>"

definition spec_debit :: "ledger \<Rightarrow> string \<times> string \<Rightarrow> int \<Rightarrow> (bool \<times> int) \<times> ledger" where
  "spec_debit L k n =
     (if n \<le> 0 then ((True, bal L k), L)
      else if L k = None \<or> bal L k < n then ((False, bal L k), L)
      else ((True, bal L k - n), L(k := map_option (add_credits (- n)) (L k))))"

definition spec_refund :: "ledger \<Rightarrow> string \<times> string \<Rightarrow> int \<Rightarrow> ledger" where
  "spec_refund L k n = (if n \<le> 0 then L else L(k := map_option (add_credits n) (L k)))"

definition spec_settle :: "ledger \<Rightarrow> string \<times> string \<Rightarrow> int \<Rightarrow> int \<times> ledger" where
  "spec_settle L k n =
     (let d = min n (bal L k) in (bal L k - d, L(k := map_option (add_credits (- d)) (L k))))"

definition spec_rotate :: "ledger \<Rightarrow> string \<times> string \<Rightarrow> ledger" where
  "spec_rotate L k = L(k := map_option (\<lambda>x. x\<lparr>ac_rot := ac_rot x + 1\<rparr>) (L k))"

text \<open>\<open>stamp\<close> is how the store keeps a time: exactly, or truncated to seconds.\<close>

definition spec_provision ::
  "(gotime \<Rightarrow> gotime) \<Rightarrow> ledger \<Rightarrow> string \<times> string \<Rightarrow> string \<Rightarrow> int \<Rightarrow> int \<Rightarrow> duration \<Rightarrow> gotime
    \<Rightarrow> (store_err + acct \<times> bool) \<times> ledger" where
  "spec_provision stamp L k ip seed cap cooldown now =
     (case L k of
        Some x \<Rightarrow>
          if cooldown > 0 \<and> now - ac_mint x < cooldown then (Inl ErrCooldown, L)
          else let y = x\<lparr>ac_mint := stamp now\<rparr> in (Inr (y, False), L(k \<mapsto> y))
      | None \<Rightarrow>
          if cap > 0 \<and> int (seats L (fst k) ip) \<ge> cap then (Inl ErrIPCap, L)
          else let y = \<lparr>ac_ip = ip, ac_credits = seed, ac_rot = 0, ac_mint = stamp now\<rparr>
               in (Inr (y, True), L(k \<mapsto> y)))"

definition finite_ledger :: "ledger \<Rightarrow> bool" where
  "finite_ledger L \<longleftrightarrow> finite (dom L)"

definition nonneg_ledger :: "ledger \<Rightarrow> bool" where
  "nonneg_ledger L \<longleftrightarrow> (\<forall>k. 0 \<le> bal L k)"

text \<open>What the broker reads of a returned record: the balance, the rotation counter, the flag.\<close>

definition rec_agrees :: "prov_record \<Rightarrow> acct \<Rightarrow> bool \<Rightarrow> bool" where
  "rec_agrees r x new \<longleftrightarrow> pr_credits r = ac_credits x \<and> pr_rot r = ac_rot x \<and> pr_new r = new"

lemma bal_simps [simp]:
  "L k = None \<Longrightarrow> bal L k = 0"
  "L k = Some x \<Longrightarrow> bal L k = ac_credits x"
  "bal (L(k := v)) k' = (if k' = k then (case v of None \<Rightarrow> 0 | Some x \<Rightarrow> ac_credits x) else bal L k')"
  by (auto simp: bal_def)

lemma add_credits_simps [simp]:
  "ac_credits (add_credits n x) = ac_credits x + n"
  "ac_ip (add_credits n x) = ac_ip x" "ac_rot (add_credits n x) = ac_rot x"
  "ac_mint (add_credits n x) = ac_mint x" "add_credits m (add_credits n x) = add_credits (n + m) x"
  "add_credits 0 x = x"
  by (simp_all add: add_credits_def)

lemma nonneg_bal: "nonneg_ledger L \<Longrightarrow> 0 \<le> bal L k"
  by (cases k) (simp add: nonneg_ledger_def)

lemma nonneg_upd:
  "nonneg_ledger L \<Longrightarrow> (\<And>x. v = Some x \<Longrightarrow> 0 \<le> ac_credits x) \<Longrightarrow> nonneg_ledger (L(k := v))"
  by (auto simp: nonneg_ledger_def split: option.splits)

lemma nonneg_cred: "nonneg_ledger L \<Longrightarrow> L k = Some x \<Longrightarrow> 0 \<le> ac_credits x"
  by (metis bal_simps(2) nonneg_bal)

lemma spec_debit_nonneg: "nonneg_ledger L \<Longrightarrow> (r, L') = spec_debit L k n \<Longrightarrow> nonneg_ledger L'"
  by (auto simp: spec_debit_def split: if_splits intro!: nonneg_upd)

lemma spec_refund_nonneg: "nonneg_ledger L \<Longrightarrow> nonneg_ledger (spec_refund L k n)"
  by (auto simp: spec_refund_def intro!: nonneg_upd dest: nonneg_cred)

lemma spec_settle_nonneg: "nonneg_ledger L \<Longrightarrow> (r, L') = spec_settle L k n \<Longrightarrow> nonneg_ledger L'"
  by (auto simp: spec_settle_def Let_def intro!: nonneg_upd)

lemma spec_rotate_nonneg: "nonneg_ledger L \<Longrightarrow> nonneg_ledger (spec_rotate L k)"
  by (auto simp: spec_rotate_def intro!: nonneg_upd dest: nonneg_cred)

lemma spec_provision_nonneg:
  "nonneg_ledger L \<Longrightarrow> 0 \<le> seed \<Longrightarrow>
   (r, L') = spec_provision stamp L k ip seed cap cd now \<Longrightarrow> nonneg_ledger L'"
  by (auto simp: spec_provision_def Let_def split: option.splits if_splits
           intro!: nonneg_upd dest: nonneg_cred)

text \<open>A reservation that is given back leaves the ledger as it was.\<close>

lemma spec_debit_refund:
  assumes "((True, r), L') = spec_debit L k n"
  shows "spec_refund L' k n = L"
proof (cases "n \<le> 0")
  case True
  with assms show ?thesis by (auto simp: spec_debit_def spec_refund_def)
next
  case False
  with assms obtain x where "L k = Some x" "L' = L(k \<mapsto> add_credits (- n) x)"
    by (auto simp: spec_debit_def split: if_splits)
  with False show ?thesis by (auto simp: spec_refund_def)
qed

text \<open>Only a first provisioning adds a caller to an address.\<close>

lemma seats_upd_same:
  assumes "L k = Some x" "ac_ip y = ac_ip x"
  shows "seats (L(k \<mapsto> y)) a ip = seats L a ip"
proof -
  have "{c. \<exists>z. (L(k \<mapsto> y)) (a, c) = Some z \<and> ac_ip z = ip} =
        {c. \<exists>z. L (a, c) = Some z \<and> ac_ip z = ip}"
    using assms by auto
  then show ?thesis by (simp add: seats_def)
qed

lemma seats_map_option:
  assumes "\<And>x. ac_ip (f x) = ac_ip x"
  shows "seats (L(k := map_option f (L k))) a ip = seats L a ip"
proof (cases "L k")
  case None
  then have "L(k := map_option f (L k)) = L" by auto
  then show ?thesis by simp
next
  case (Some x)
  then show ?thesis using assms seats_upd_same[of L k x "f x"] by simp
qed

lemma finite_seats: "finite_ledger L \<Longrightarrow> finite {c. \<exists>x. L (a, c) = Some x \<and> ac_ip x = ip}"
proof -
  assume "finite_ledger L"
  then have "finite (snd ` dom L)" by (simp add: finite_ledger_def)
  moreover have "{c. \<exists>x. L (a, c) = Some x \<and> ac_ip x = ip} \<subseteq> snd ` dom L" by force
  ultimately show ?thesis by (rule rev_finite_subset)
qed

lemma seats_new:
  assumes "finite_ledger L" "L (a, c) = None"
  shows "seats (L((a, c) \<mapsto> y)) b ip =
    (if b = a \<and> ip = ac_ip y then Suc (seats L b ip) else seats L b ip)"
proof -
  let ?S = "{d. \<exists>x. L (b, d) = Some x \<and> ac_ip x = ip}"
  have "{d. \<exists>x. (L((a, c) \<mapsto> y)) (b, d) = Some x \<and> ac_ip x = ip} =
        (if b = a \<and> ip = ac_ip y then insert c ?S else ?S)"
    using assms(2) by auto
  moreover have "c \<notin> ?S" if "b = a" using assms(2) that by simp
  ultimately show ?thesis using finite_seats[OF assms(1), of b ip] by (auto simp: seats_def)
qed

lemma finite_ledger_upd [intro]: "finite_ledger L \<Longrightarrow> finite_ledger (L(k := v))"
proof -
  assume "finite_ledger L"
  moreover have "dom (L(k := v)) \<subseteq> insert k (dom L)" by (auto split: if_splits)
  ultimately show ?thesis by (auto simp: finite_ledger_def intro: finite_subset)
qed


lemma seats_add_credits: "L k = Some x \<Longrightarrow> seats (L(k \<mapsto> add_credits n x)) a ip = seats L a ip"
  by (rule seats_upd_same) auto

lemma spec_debit_seats: "(r, L') = spec_debit L k n \<Longrightarrow> seats L' a ip = seats L a ip"
  by (auto simp: spec_debit_def seats_add_credits split: if_splits)

lemma spec_refund_seats: "seats (spec_refund L k n) a ip = seats L a ip"
  by (auto simp: spec_refund_def seats_map_option)

lemma spec_settle_seats: "(r, L') = spec_settle L k n \<Longrightarrow> seats L' a ip = seats L a ip"
  by (auto simp: spec_settle_def Let_def seats_map_option)

lemma spec_rotate_seats: "seats (spec_rotate L k) a ip = seats L a ip"
  by (auto simp: spec_rotate_def seats_map_option)

lemma spec_provision_seats:
  assumes "finite_ledger L" "(r, L') = spec_provision stamp L (a, c) ip seed cap cd now"
  shows "seats L' b jp = (case r of Inr (x, True) \<Rightarrow> if b = a \<and> jp = ip then Suc (seats L b jp) else seats L b jp
                          | _ \<Rightarrow> seats L b jp)"
proof (cases "L (a, c)")
  case None
  with assms show ?thesis
    by (auto simp: spec_provision_def Let_def seats_new split: if_splits)
next
  case (Some x)
  with assms(2) show ?thesis
    using seats_upd_same[of L "(a, c)" x "x\<lparr>ac_mint := stamp now\<rparr>"]
    by (auto simp: spec_provision_def Let_def split: if_splits)
qed

section \<open>The contract of a provisioning store\<close>

locale credit_ledger =
  fixes ops :: "'s prov_ops"
    and inv :: "'s \<Rightarrow> bool"
    and led :: "'s \<Rightarrow> ledger"
    and ok_app :: "string \<Rightarrow> bool"
    and stamp :: "gotime \<Rightarrow> gotime"
  assumes provision_spec: "inv s \<Longrightarrow> ok_app a \<Longrightarrow>
      op_provision ops s a c ip seed cap cd now = (rp, s') \<Longrightarrow>
      inv s' \<and> (\<exists>r0. (r0, led s') = spec_provision stamp (led s) (a, c) ip seed cap cd now \<and>
        (case (rp, r0) of (Inl e, Inl e0) \<Rightarrow> e = e0 | (Inr p, Inr (x, new)) \<Rightarrow> rec_agrees p x new | _ \<Rightarrow> False))"
    and credit_spec: "inv s \<Longrightarrow> ok_app a \<Longrightarrow> op_credit ops s a c = Inr (bal (led s) (a, c))"
    and debit_spec: "inv s \<Longrightarrow> ok_app a \<Longrightarrow> op_debit ops s a c n = (rd, s') \<Longrightarrow>
      inv s' \<and> (\<exists>b m. rd = Inr (b, m) \<and> ((b, m), led s') = spec_debit (led s) (a, c) n)"
    and refund_spec: "inv s \<Longrightarrow> ok_app a \<Longrightarrow>
      inv (op_refund ops s a c n) \<and> led (op_refund ops s a c n) = spec_refund (led s) (a, c) n"
    and settle_spec: "inv s \<Longrightarrow> ok_app a \<Longrightarrow> 0 < n \<Longrightarrow> 0 \<le> bal (led s) (a, c) \<Longrightarrow>
      op_settle ops s a c n = (rs, s') \<Longrightarrow>
      inv s' \<and> (\<exists>m. rs = Inr m \<and> (m, led s') = spec_settle (led s) (a, c) n)"
    and get_spec: "inv s \<Longrightarrow> ok_app a \<Longrightarrow> \<exists>rg. op_get ops s a c = Inr rg \<and>
      (case (rg, led s (a, c)) of (None, None) \<Rightarrow> True | (Some p, Some x) \<Rightarrow> rec_agrees p x False \<or> rec_agrees p x True
        | _ \<Rightarrow> False)"
    and rotate_spec: "inv s \<Longrightarrow> ok_app a \<Longrightarrow> op_rotate ops s a c = (rr, s') \<Longrightarrow>
      inv s' \<and> led s' = spec_rotate (led s) (a, c) \<and>
      (\<exists>r0. rr = Inr r0 \<and> (case (r0, led s' (a, c)) of (None, None) \<Rightarrow> True
        | (Some p, Some x) \<Rightarrow> pr_credits p = ac_credits x \<and> pr_rot p = ac_rot x | _ \<Rightarrow> False))"
    and led_finite: "inv s \<Longrightarrow> finite_ledger (led s)"
    and stamp_near: "stamp t \<le> t \<and> t < stamp t + second"
begin

lemma debit_cases:
  assumes "inv s" "ok_app a" "op_debit ops s a c n = (r, s')"
  obtains (refused) m where "r = Inr (False, m)" "led s' = led s" "m = bal (led s) (a, c)" "inv s'"
    | (taken) m where "r = Inr (True, m)" "m = bal (led s) (a, c) - max 0 n"
        "bal (led s') (a, c) = m" "\<And>k. k \<noteq> (a, c) \<Longrightarrow> led s' k = led s k" "inv s'"
proof -
  from debit_spec[OF assms] obtain b m where I: "inv s'" and r: "r = Inr (b, m)"
    and S: "((b, m), led s') = spec_debit (led s) (a, c) n" by auto
  show ?thesis
  proof (cases b)
    case True
    with S have "m = bal (led s) (a, c) - max 0 n" "bal (led s') (a, c) = m"
      "\<And>k. k \<noteq> (a, c) \<Longrightarrow> led s' k = led s k"
      by (auto simp: spec_debit_def split: if_splits option.splits)
    with r True I show ?thesis by (intro taken) auto
  next
    case False
    with S have "led s' = led s" "m = bal (led s) (a, c)"
      by (auto simp: spec_debit_def split: if_splits)
    with r False I show ?thesis by (intro refused) auto
  qed
qed

text \<open>A call that fails after its reservation costs nothing.\<close>

lemma debit_then_refund:
  assumes "inv s" "ok_app a" "op_debit ops s a c n = (Inr (True, m), s')"
  shows "led (op_refund ops s' a c n) = led s"
  using debit_spec[OF assms] refund_spec[of s' a c n] assms(2) by (auto intro: spec_debit_refund)

text \<open>Two reservations against the same balance cannot both succeed when it covers only one.\<close>

lemma no_double_spend:
  assumes "inv s" "ok_app a" "0 < n" "bal (led s) (a, c) < 2 * n"
    and "op_debit ops s a c n = (Inr (True, m), s1)"
    and "op_debit ops s1 a c n = (Inr (b, k), s2)"
  shows "\<not> b"
proof -
  from debit_spec[OF assms(1,2,5)] have "inv s1" and
    "((True, m), led s1) = spec_debit (led s) (a, c) n" by auto
  then have "bal (led s1) (a, c) = bal (led s) (a, c) - n"
    using assms(3) by (auto simp: spec_debit_def split: if_splits option.splits)
  moreover from debit_spec[OF \<open>inv s1\<close> assms(2,6)]
  have "((b, k), led s2) = spec_debit (led s1) (a, c) n" by auto
  ultimately show ?thesis using assms(3,4) by (auto simp: spec_debit_def split: if_splits)
qed

text \<open>A repeat never re-seeds: the balance of a known caller is unchanged.\<close>

lemma provision_repeat:
  assumes "inv s" "ok_app a" "led s (a, c) \<noteq> None"
    and "op_provision ops s a c ip seed cap cd now = (r, s')"
  shows "bal (led s') k = bal (led s) k \<and>
    (\<forall>p. r = Inr p \<longrightarrow> pr_credits p = bal (led s) (a, c) \<and> \<not> pr_new p)"
  using provision_spec[OF assms(1,2,4)] assms(3)
  by (auto simp: spec_provision_def rec_agrees_def Let_def split: if_splits sum.splits)

end

section \<open>The contract of an ownership ledger\<close>

type_synonym owners = "string \<times> string \<times> string \<Rightarrow> string option"

definition spec_claim :: "owners \<Rightarrow> string \<times> string \<times> string \<Rightarrow> string \<Rightarrow> (store_err + unit) \<times> owners" where
  "spec_claim W k caller =
     (if snd (snd k) = [] \<or> caller = [] then (Inl ErrClaimArgs, W)
      else case W k of
             None \<Rightarrow> (Inr (), W(k \<mapsto> caller))
           | Some cur \<Rightarrow> (if cur = caller then Inr () else Inl ErrOwned, W))"

locale ownership_ledger =
  fixes ops :: "'s owner_ops"
    and inv :: "'s \<Rightarrow> bool"
    and own :: "'s \<Rightarrow> owners"
    and ok_app :: "string \<Rightarrow> bool"
    and ok_type :: "string \<Rightarrow> bool"
  assumes claim_spec: "inv s \<Longrightarrow> ok_app a \<Longrightarrow> ok_type t \<Longrightarrow> op_claim ops s a t i c now = (rc, s') \<Longrightarrow>
      inv s' \<and> (rc, own s') = spec_claim (own s) (a, t, i) c"
    and owner_of_spec: "inv s \<Longrightarrow> ok_app a \<Longrightarrow> ok_type t \<Longrightarrow> op_owner_of ops s a t i = Inr (own s (a, t, i))"
    and owned_set_spec: "inv s \<Longrightarrow> ok_app a \<Longrightarrow> ok_type t \<Longrightarrow>
      \<exists>xs. op_owned_set ops s a t c = Inr xs \<and> distinct xs \<and> set xs = {i. own s (a, t, i) = Some c}"
    and release_spec: "inv s \<Longrightarrow> ok_app a \<Longrightarrow> ok_type t \<Longrightarrow> op_release ops s a t i = (r, s') \<Longrightarrow>
      inv s' \<and> r = Inr () \<and> own s' = (own s)((a, t, i) := None)"
begin

text \<open>First writer wins: a claim never changes a recorded owner.\<close>

lemma claim_keeps_owner:
  assumes "inv s" "ok_app a" "ok_type t" "op_claim ops s a t i c now = (r, s')" "own s k = Some d"
  shows "own s' k = Some d"
  using claim_spec[OF assms(1-4)] assms(5) by (auto simp: spec_claim_def split: if_splits option.splits)

lemma claim_by_other_refused:
  assumes "inv s" "ok_app a" "ok_type t" "op_claim ops s a t i c now = (r, s')"
    and "own s (a, t, i) = Some d" "d \<noteq> c" "i \<noteq> []" "c \<noteq> []"
  shows "r = Inl ErrOwned" "own s' = own s"
  using claim_spec[OF assms(1-4)] assms(5-) by (auto simp: spec_claim_def split: if_splits)

lemma claim_then_owner:
  assumes "inv s" "ok_app a" "ok_type t" "op_claim ops s a t i c now = (Inr (), s')"
  shows "own s' (a, t, i) = Some c"
  using claim_spec[OF assms] by (auto simp: spec_claim_def split: if_splits option.splits)

end

end
