(* ===== verification/Mem_Store.thy ===== *)
theory Mem_Store
  imports Store_Iface
begin

text \<open>
  MemStore of internal/broker/store.go: the three maps behind one mutex. Every operation holds
  the lock from its first read to its last write, so it is one atomic step on the record.
  The composite keys are built by joining the fields with a bar; the contract holds for
  application ids and resource types without a bar, which is what makes the joining injective.
\<close>

section \<open>State and operations\<close>

record mem_store =
  ms_m :: "cell gmap"
  ms_prov :: "prov_record gmap"
  ms_owner :: "string gmap"

definition new_mem_store :: mem_store where
  "new_mem_store = \<lparr>ms_m = [], ms_prov = [], ms_owner = []\<rparr>"

definition own_key :: "string \<Rightarrow> string \<Rightarrow> string \<Rightarrow> string" where
  "own_key app rtype rid = app @ ''|'' @ rtype @ ''|'' @ rid"

definition store_key :: "string \<Rightarrow> string \<Rightarrow> string" where
  "store_key app caller = app @ ''|'' @ caller"

definition mem_claim ::
  "mem_store \<Rightarrow> string \<Rightarrow> string \<Rightarrow> string \<Rightarrow> string \<Rightarrow> gotime \<Rightarrow> (store_err + unit) \<times> mem_store" where
  "mem_claim s app rtype rid caller now =
     (if rid = [] \<or> caller = [] then (Inl ErrClaimArgs, s)
      else let k = own_key app rtype rid in
        case map_of (ms_owner s) k of
          Some cur \<Rightarrow> if cur = caller then (Inr (), s) else (Inl ErrOwned, s)
        | None \<Rightarrow> (Inr (), s\<lparr>ms_owner := AList.update k caller (ms_owner s)\<rparr>))"

definition mem_owner_of :: "mem_store \<Rightarrow> string \<Rightarrow> string \<Rightarrow> string \<Rightarrow> store_err + string option" where
  "mem_owner_of s app rtype rid = Inr (map_of (ms_owner s) (own_key app rtype rid))"

definition own_prefix :: "string \<Rightarrow> string \<Rightarrow> string" where
  "own_prefix app rtype = app @ ''|'' @ rtype @ ''|''"

definition mem_owned_set :: "mem_store \<Rightarrow> string \<Rightarrow> string \<Rightarrow> string \<Rightarrow> store_err + string list" where
  "mem_owned_set s app rtype caller =
     (let pre = own_prefix app rtype in
      Inr (remdups (map (\<lambda>(k, c). trim_prefix pre k)
             (filter (\<lambda>(k, c). c = caller \<and> has_prefix pre k) (ms_owner s)))))"

definition mem_release ::
  "mem_store \<Rightarrow> string \<Rightarrow> string \<Rightarrow> string \<Rightarrow> (store_err + unit) \<times> mem_store" where
  "mem_release s app rtype rid =
     (Inr (), s\<lparr>ms_owner := AList.delete (own_key app rtype rid) (ms_owner s)\<rparr>)"

definition mem_provision ::
  "mem_store \<Rightarrow> string \<Rightarrow> string \<Rightarrow> string \<Rightarrow> int \<Rightarrow> int \<Rightarrow> duration \<Rightarrow> gotime
    \<Rightarrow> (store_err + prov_record) \<times> mem_store" where
  "mem_provision s app caller ip seed maxPerIP cooldown now =
     (let k = store_key app caller in
      case map_of (ms_prov s) k of
        Some rec \<Rightarrow>
          if cooldown > 0 \<and> time_sub now (pr_last_mint rec) < cooldown then (Inl ErrCooldown, s)
          else let rec' = rec\<lparr>pr_last_mint := now\<rparr>
               in (Inr (rec'\<lparr>pr_new := False\<rparr>), s\<lparr>ms_prov := AList.update k rec' (ms_prov s)\<rparr>)
      | None \<Rightarrow>
          if maxPerIP > 0 \<and>
             int (count_if (\<lambda>(_, r). pr_app r = app \<and> pr_ip r = ip) (ms_prov s)) \<ge> maxPerIP
          then (Inl ErrIPCap, s)
          else let rec = \<lparr>pr_app = app, pr_caller = caller, pr_ip = ip, pr_first_seen = now,
                          pr_last_mint = now, pr_credits = seed, pr_rot = 0, pr_new = False\<rparr>
               in (Inr (rec\<lparr>pr_new := True\<rparr>), s\<lparr>ms_prov := AList.update k rec (ms_prov s)\<rparr>))"

definition mem_credit :: "mem_store \<Rightarrow> string \<Rightarrow> string \<Rightarrow> store_err + int" where
  "mem_credit s app caller =
     (case map_of (ms_prov s) (store_key app caller) of
        Some rec \<Rightarrow> Inr (pr_credits rec) | None \<Rightarrow> Inr 0)"

definition mem_set_credits :: "mem_store \<Rightarrow> string \<Rightarrow> prov_record \<Rightarrow> int \<Rightarrow> mem_store" where
  "mem_set_credits s k rec n = s\<lparr>ms_prov := AList.update k (rec\<lparr>pr_credits := n\<rparr>) (ms_prov s)\<rparr>"

definition mem_debit ::
  "mem_store \<Rightarrow> string \<Rightarrow> string \<Rightarrow> int \<Rightarrow> (store_err + bool \<times> int) \<times> mem_store" where
  "mem_debit s app caller n =
     (if n \<le> 0 then
        (case mem_credit s app caller of Inl e \<Rightarrow> (Inr (True, 0), s) | Inr c \<Rightarrow> (Inr (True, c), s))
      else let k = store_key app caller in
        case map_of (ms_prov s) k of
          None \<Rightarrow> (Inr (False, 0), s)
        | Some rec \<Rightarrow>
            if pr_credits rec < n then (Inr (False, pr_credits rec), s)
            else (Inr (True, pr_credits rec - n), mem_set_credits s k rec (pr_credits rec - n)))"

definition mem_refund :: "mem_store \<Rightarrow> string \<Rightarrow> string \<Rightarrow> int \<Rightarrow> mem_store" where
  "mem_refund s app caller n =
     (if n \<le> 0 then s
      else let k = store_key app caller in
        case map_of (ms_prov s) k of
          None \<Rightarrow> s
        | Some rec \<Rightarrow> mem_set_credits s k rec (pr_credits rec + n))"

definition mem_settle ::
  "mem_store \<Rightarrow> string \<Rightarrow> string \<Rightarrow> int \<Rightarrow> (store_err + int) \<times> mem_store" where
  "mem_settle s app caller n =
     (let k = store_key app caller in
      case map_of (ms_prov s) k of
        None \<Rightarrow> (Inr 0, s)
      | Some rec \<Rightarrow>
          if n > 0 then
            let m = (if n > pr_credits rec then pr_credits rec else n)
            in (Inr (pr_credits rec - m), mem_set_credits s k rec (pr_credits rec - m))
          else (Inr (pr_credits rec), s))"

definition mem_get :: "mem_store \<Rightarrow> string \<Rightarrow> string \<Rightarrow> store_err + prov_record option" where
  "mem_get s app caller = Inr (map_of (ms_prov s) (store_key app caller))"

definition mem_rotate ::
  "mem_store \<Rightarrow> string \<Rightarrow> string \<Rightarrow> (store_err + prov_record option) \<times> mem_store" where
  "mem_rotate s app caller =
     (let k = store_key app caller in
      case map_of (ms_prov s) k of
        None \<Rightarrow> (Inr None, s)
      | Some rec \<Rightarrow>
          let rec' = rec\<lparr>pr_rot := pr_rot rec + 1\<rparr>
          in (Inr (Some rec'), s\<lparr>ms_prov := AList.update k rec' (ms_prov s)\<rparr>))"

definition mem_admit :: "mem_store \<Rightarrow> string \<Rightarrow> string \<Rightarrow> int \<Rightarrow> (bool \<times> int) \<times> mem_store" where
  "mem_admit s app caller quota =
     (let k = store_key app caller;
          c = (case map_of (ms_m s) k of Some c \<Rightarrow> c | None \<Rightarrow> \<lparr>cl_calls = 0, cl_cents = 0\<rparr>);
          s1 = s\<lparr>ms_m := AList.update k c (ms_m s)\<rparr>
      in if quota > 0 \<and> cl_calls c \<ge> quota then ((False, cl_calls c), s1)
         else ((True, cl_calls c + 1),
               s\<lparr>ms_m := AList.update k (c\<lparr>cl_calls := cl_calls c + 1\<rparr>) (ms_m s)\<rparr>))"

definition mem_add_cost :: "mem_store \<Rightarrow> string \<Rightarrow> string \<Rightarrow> rat \<Rightarrow> mem_store" where
  "mem_add_cost s app caller cents =
     (let k = store_key app caller in
      case map_of (ms_m s) k of
        Some c \<Rightarrow> s\<lparr>ms_m := AList.update k (c\<lparr>cl_cents := cl_cents c + cents\<rparr>) (ms_m s)\<rparr>
      | None \<Rightarrow> s)"

definition mem_usage :: "mem_store \<Rightarrow> string \<Rightarrow> string \<Rightarrow> int \<times> rat" where
  "mem_usage s app caller =
     (case map_of (ms_m s) (store_key app caller) of
        Some c \<Rightarrow> (cl_calls c, cl_cents c) | None \<Rightarrow> (0, 0))"

definition mem_snapshot :: "mem_store \<Rightarrow> (int \<times> rat) gmap" where
  "mem_snapshot s = map (\<lambda>(k, c). (k, (cl_calls c, cl_cents c))) (ms_m s)"

section \<open>The interfaces it implements\<close>

definition mem_usage_ops :: "mem_store usage_ops" where
  "mem_usage_ops = \<lparr>op_admit = mem_admit, op_add_cost = mem_add_cost, op_usage = mem_usage\<rparr>"

definition mem_prov_ops :: "mem_store prov_ops" where
  "mem_prov_ops = \<lparr>op_provision = mem_provision, op_credit = mem_credit, op_debit = mem_debit,
     op_refund = mem_refund, op_settle = mem_settle, op_get = mem_get, op_rotate = mem_rotate\<rparr>"

definition mem_owner_ops :: "mem_store owner_ops" where
  "mem_owner_ops = \<lparr>op_claim = mem_claim, op_owner_of = mem_owner_of,
     op_owned_set = mem_owned_set, op_release = mem_release\<rparr>"

definition mem_ops :: "mem_store store_ops" where
  "mem_ops = \<lparr>so_usage = mem_usage_ops, so_prov = Some mem_prov_ops, so_owner = Some mem_owner_ops\<rparr>"

lemmas mem_ops_simps [simp] =
  mem_usage_ops_def mem_prov_ops_def mem_owner_ops_def mem_ops_def

lemmas mem_store_defs [store_simps] =
  mem_claim_def mem_owner_of_def mem_owned_set_def mem_release_def mem_provision_def mem_credit_def
  mem_debit_def mem_refund_def mem_settle_def mem_get_def mem_rotate_def mem_admit_def
  mem_add_cost_def mem_usage_def mem_set_credits_def

section \<open>Keys\<close>

definition no_bar :: "string \<Rightarrow> bool" where
  "no_bar s \<longleftrightarrow> \<not> contains_chr (CHR ''|'') s"

lemma store_key_inject: "no_bar a \<Longrightarrow> no_bar b \<Longrightarrow> store_key a c = store_key b d \<longleftrightarrow> a = b \<and> c = d"
  using sep_inject[of "CHR ''|''" a b c d] by (simp add: store_key_def no_bar_def contains_chr_def)

lemma own_key_inject:
  "no_bar a \<Longrightarrow> no_bar b \<Longrightarrow> no_bar t \<Longrightarrow> no_bar u \<Longrightarrow>
   own_key a t i = own_key b u j \<longleftrightarrow> a = b \<and> t = u \<and> i = j"
  using sep_inject[of "CHR ''|''" a b "t @ CHR ''|'' # i" "u @ CHR ''|'' # j"]
    sep_inject[of "CHR ''|''" t u i j]
  by (simp add: own_key_def no_bar_def contains_chr_def)

section \<open>Call counters\<close>

definition mem_calls :: "mem_store \<Rightarrow> counters" where
  "mem_calls s = (\<lambda>(a, c). if no_bar a then
     (case map_of (ms_m s) (store_key a c) of Some x \<Rightarrow> cl_calls x | None \<Rightarrow> 0) else 0)"

definition mem_calls_inv :: "mem_store \<Rightarrow> bool" where
  "mem_calls_inv s \<longleftrightarrow> (\<forall>(k, c) \<in> set (ms_m s). 0 \<le> cl_calls c)"

lemma mem_calls_inv_update:
  "mem_calls_inv s \<Longrightarrow> 0 \<le> cl_calls c \<Longrightarrow> mem_calls_inv (s\<lparr>ms_m := AList.update k c (ms_m s)\<rparr>)"
proof -
  assume I: "mem_calls_inv s" and c: "0 \<le> cl_calls c"
  have "set (AList.update k c m) \<subseteq> insert (k, c) (set m)" for m :: "cell gmap"
    by (induction m) auto
  then show ?thesis using I c by (fastforce simp: mem_calls_inv_def)
qed

lemma mem_calls_update:
  assumes "no_bar a"
  shows "mem_calls (s\<lparr>ms_m := AList.update (store_key a c) x (ms_m s)\<rparr>) = (mem_calls s)((a, c) := cl_calls x)"
  using assms by (auto simp: mem_calls_def store_key_inject fun_eq_iff)

lemma mem_calls_inv_lookup: "mem_calls_inv s \<Longrightarrow> map_of (ms_m s) k = Some c \<Longrightarrow> 0 \<le> cl_calls c"
  by (fastforce simp: mem_calls_inv_def dest: map_of_SomeD)

interpretation mem_meter: usage_meter mem_usage_ops mem_calls_inv mem_calls no_bar
proof (unfold_locales, goal_cases)
  case (1 s a c q r s')
  let ?c = "case map_of (ms_m s) (store_key a c) of Some x \<Rightarrow> x | None \<Rightarrow> \<lparr>cl_calls = 0, cl_cents = 0\<rparr>"
  have n: "0 \<le> cl_calls ?c" using 1(1) by (auto split: option.split dest: mem_calls_inv_lookup)
  have v: "mem_calls s (a, c) = cl_calls ?c"
    using 1(2) by (auto simp: mem_calls_def split: option.split)
  from 1(3) n v show ?case
    using 1(1,2) by (auto simp: mem_admit_def Let_def spec_admit_def mem_calls_update
        intro!: mem_calls_inv_update split: if_splits)
next
  case (2 s k)
  then show ?case
    by (cases k) (auto simp: mem_calls_def split: option.split dest: mem_calls_inv_lookup)
qed

section \<open>The credit ledger\<close>

definition acct_of :: "prov_record \<Rightarrow> acct" where
  "acct_of r = \<lparr>ac_ip = pr_ip r, ac_credits = pr_credits r, ac_rot = pr_rot r, ac_mint = pr_last_mint r\<rparr>"

definition mem_led :: "mem_store \<Rightarrow> ledger" where
  "mem_led s = (\<lambda>(a, c). if no_bar a then map_option acct_of (map_of (ms_prov s) (store_key a c)) else None)"

definition good_entry :: "string \<times> prov_record \<Rightarrow> bool" where
  "good_entry e \<longleftrightarrow> fst e = store_key (pr_app (snd e)) (pr_caller (snd e)) \<and> no_bar (pr_app (snd e))"

definition mem_inv :: "mem_store \<Rightarrow> bool" where
  "mem_inv s \<longleftrightarrow> wf_map (ms_prov s) \<and> (\<forall>e \<in> set (ms_prov s). good_entry e)"

lemma set_update_subset: "set (AList.update k v m) \<subseteq> insert (k, v) (set m)"
  by (induction m) auto

lemma mem_inv_update:
  assumes "mem_inv s" "good_entry (k, r)"
  shows "mem_inv (s\<lparr>ms_prov := AList.update k r (ms_prov s)\<rparr>)"
  using assms set_update_subset[of k r "ms_prov s"] by (auto simp: mem_inv_def)

lemma mem_inv_lookup: "mem_inv s \<Longrightarrow> map_of (ms_prov s) k = Some r \<Longrightarrow> good_entry (k, r)"
  by (auto simp: mem_inv_def dest: map_of_SomeD)

lemma good_entry_same:
  "good_entry (k, r) \<Longrightarrow> pr_app r' = pr_app r \<Longrightarrow> pr_caller r' = pr_caller r \<Longrightarrow> good_entry (k, r')"
  by (simp add: good_entry_def)

lemma mem_led_update:
  assumes "no_bar a"
  shows "mem_led (s\<lparr>ms_prov := AList.update (store_key a c) r (ms_prov s)\<rparr>) = (mem_led s)((a, c) \<mapsto> acct_of r)"
  using assms by (auto simp: mem_led_def store_key_inject fun_eq_iff)

lemma mem_led_lookup:
  "no_bar a \<Longrightarrow> mem_led s (a, c) = map_option acct_of (map_of (ms_prov s) (store_key a c))"
  by (simp add: mem_led_def)

lemma mem_inv_keep:
  assumes "mem_inv s" "map_of (ms_prov s) k = Some r" "pr_app r' = pr_app r" "pr_caller r' = pr_caller r"
  shows "mem_inv (s\<lparr>ms_prov := AList.update k r' (ms_prov s)\<rparr>)"
  using assms by (auto intro: mem_inv_update good_entry_same dest: mem_inv_lookup)

text \<open>The number of records the code counts for an address is the number of callers the
  abstract ledger holds for it.\<close>

lemma count_if_card: "distinct xs \<Longrightarrow> count_if P xs = card {x \<in> set xs. P x}"
  by (simp add: count_if_def distinct_length_filter Int_def conj_commute)

lemma mem_seats:
  assumes "mem_inv s" "no_bar a"
  shows "count_if (\<lambda>(_, r). pr_app r = a \<and> pr_ip r = ip) (ms_prov s) = seats (mem_led s) a ip"
proof -
  let ?E = "{e \<in> set (ms_prov s). pr_app (snd e) = a \<and> pr_ip (snd e) = ip}"
  let ?C = "{c. \<exists>x. mem_led s (a, c) = Some x \<and> ac_ip x = ip}"
  from assms(1) have wf: "wf_map (ms_prov s)" and good: "\<And>e. e \<in> set (ms_prov s) \<Longrightarrow> good_entry e"
    by (auto simp: mem_inv_def)
  have inj: "inj_on (\<lambda>e. pr_caller (snd e)) ?E"
  proof (rule inj_onI)
    fix e f assume e: "e \<in> ?E" and f: "f \<in> ?E" and eq: "pr_caller (snd e) = pr_caller (snd f)"
    have "fst e = fst f" using e f eq good[of e] good[of f] by (simp add: good_entry_def)
    then show "e = f" using e f wf by (auto simp: wf_map_lookup prod_eq_iff)
        (metis option.inject prod.collapse wf wf_map_lookup)
  qed
  have img: "(\<lambda>e. pr_caller (snd e)) ` ?E = ?C"
  proof (intro set_eqI iffI)
    fix c assume "c \<in> (\<lambda>e. pr_caller (snd e)) ` ?E"
    then obtain k r where e: "(k, r) \<in> set (ms_prov s)" "pr_app r = a" "pr_ip r = ip" "c = pr_caller r"
      by auto
    then have "k = store_key a c" using good[of "(k, r)"] by (simp add: good_entry_def)
    then show "c \<in> ?C" using e wf assms(2) by (auto simp: mem_led_lookup wf_map_lookup acct_of_def)
  next
    fix c assume "c \<in> ?C"
    then obtain r where r: "map_of (ms_prov s) (store_key a c) = Some r" "pr_ip r = ip"
      using assms(2) by (auto simp: mem_led_lookup acct_of_def)
    with good have "good_entry (store_key a c, r)" by (auto dest: map_of_SomeD)
    then have "pr_app r = a" "pr_caller r = c" using assms(2)
      by (auto simp: good_entry_def store_key_inject)
    then show "c \<in> (\<lambda>e. pr_caller (snd e)) ` ?E" using r by (force dest: map_of_SomeD)
  qed
  have "count_if (\<lambda>(_, r). pr_app r = a \<and> pr_ip r = ip) (ms_prov s) = card ?E"
    using wf by (subst count_if_card)
      (auto simp: wf_map_def distinct_map case_prod_beta intro: arg_cong[where f = card])
  also have "\<dots> = card ?C" using card_image[OF inj] img by simp
  finally show ?thesis by (simp add: seats_def)
qed

lemma mem_led_finite: "finite_ledger (mem_led s)"
proof -
  have "dom (mem_led s) \<subseteq> (\<lambda>(a, c). store_key a c) -` dom (map_of (ms_prov s)) \<inter> {(a, c). no_bar a}"
    by (auto simp: mem_led_def split: if_splits)
  moreover have "inj_on (\<lambda>(a, c). store_key a c) {(a, c). no_bar a}"
    by (auto simp: inj_on_def store_key_inject)
  then have "finite ((\<lambda>(a, c). store_key a c) -` dom (map_of (ms_prov s)) \<inter> {(a, c). no_bar a})"
    using finite_vimage_IntI finite_dom_map_of by blast
  ultimately show ?thesis unfolding finite_ledger_def by (rule finite_subset)
qed

lemma acct_of_credits [simp]: "acct_of (r\<lparr>pr_credits := n\<rparr>) = add_credits (n - pr_credits r) (acct_of r)"
  "ac_credits (acct_of r) = pr_credits r"
  by (simp_all add: acct_of_def add_credits_def)

lemma mem_bal: "no_bar a \<Longrightarrow>
  bal (mem_led s) (a, c) = (case map_of (ms_prov s) (store_key a c) of Some r \<Rightarrow> pr_credits r | None \<Rightarrow> 0)"
  by (auto simp: bal_def mem_led_lookup split: option.split)

lemma mem_provision_correct:
  assumes I: "mem_inv s" and a: "no_bar a"
    and P: "mem_provision s a c ip seed cap cd now = (rp, s')"
  shows "mem_inv s' \<and> (\<exists>r0. (r0, mem_led s') = spec_provision (\<lambda>t. t) (mem_led s) (a, c) ip seed cap cd now \<and>
    (case (rp, r0) of (Inl e, Inl e0) \<Rightarrow> e = e0 | (Inr p, Inr (x, new)) \<Rightarrow> rec_agrees p x new | _ \<Rightarrow> False))"
proof (cases "map_of (ms_prov s) (store_key a c)")
  case None
  have good: "mem_inv (s\<lparr>ms_prov := AList.update (store_key a c) r (ms_prov s)\<rparr>)"
    if "pr_app r = a" "pr_caller r = c" for r
    using I a that by (intro mem_inv_update) (auto simp: good_entry_def)
  from None I a P show ?thesis
    by (auto simp: mem_provision_def spec_provision_def mem_led_lookup Let_def mem_seats[OF I a]
        mem_led_update rec_agrees_def acct_of_def good split: if_splits)
next
  case (Some r)
  then show ?thesis using P I a mem_inv_keep[OF I Some, of "r\<lparr>pr_last_mint := now\<rparr>"]
    by (auto simp: mem_provision_def spec_provision_def mem_led_lookup Let_def time_sub_def
        mem_led_update rec_agrees_def acct_of_def split: if_splits)
qed

lemma mem_set_credits_correct:
  assumes "mem_inv s" "no_bar a" "map_of (ms_prov s) (store_key a c) = Some r"
  shows "mem_inv (mem_set_credits s (store_key a c) r n)"
    "mem_led (mem_set_credits s (store_key a c) r n) = (mem_led s)((a, c) \<mapsto> add_credits (n - pr_credits r) (acct_of r))"
  using assms mem_inv_keep[OF assms(1,3), of "r\<lparr>pr_credits := n\<rparr>"]
  by (simp_all add: mem_set_credits_def mem_led_update)

lemma mem_debit_correct:
  assumes I: "mem_inv s" and a: "no_bar a" and D: "mem_debit s a c n = (rd, s')"
  shows "mem_inv s' \<and> (\<exists>b m. rd = Inr (b, m) \<and> ((b, m), mem_led s') = spec_debit (mem_led s) (a, c) n)"
proof (cases "map_of (ms_prov s) (store_key a c)")
  case None
  then show ?thesis using I a D
    by (auto simp: mem_debit_def mem_credit_def spec_debit_def mem_led_lookup split: if_splits)
next
  case (Some r)
  have led: "mem_led s (a, c) = Some (acct_of r)" using Some a by (simp add: mem_led_lookup)
  show ?thesis
  proof (cases "n \<le> 0 \<or> pr_credits r < n")
    case True
    with Some I D led show ?thesis by (auto simp: mem_debit_def mem_credit_def spec_debit_def split: if_splits)
  next
    case False
    with Some D have "rd = Inr (True, pr_credits r - n)"
      "s' = mem_set_credits s (store_key a c) r (pr_credits r - n)" by (simp_all add: mem_debit_def)
    with False led mem_set_credits_correct[OF I a Some] show ?thesis by (auto simp: spec_debit_def)
  qed
qed

interpretation mem_credits: credit_ledger mem_prov_ops mem_inv mem_led no_bar "\<lambda>t. t"
proof (unfold_locales, goal_cases)
  case (1 s a c ip seed cap cd now rp s')
  then show ?case using mem_provision_correct[of s a c ip seed cap cd now rp s'] by simp
next
  case (2 s a c)
  then show ?case by (auto simp: mem_credit_def mem_bal split: option.split)
next
  case (3 s a c n rd s')
  then show ?case using mem_debit_correct[of s a c n rd s'] by simp
next
  case (4 s a c n)
  then show ?case
    by (auto simp: mem_refund_def spec_refund_def mem_led_lookup mem_set_credits_correct Let_def
        fun_upd_idem split: option.splits)
next
  case (5 s a c n rs s')
  then show ?case
    by (auto simp: mem_settle_def spec_settle_def mem_bal mem_led_lookup mem_set_credits_correct Let_def
        fun_upd_idem min_def split: option.splits if_splits)
next
  case (6 s a c)
  then show ?case
    by (auto simp: mem_get_def mem_led_lookup rec_agrees_def acct_of_def split: option.split)
next
  case (7 s a c rr s')
  show ?case
  proof (cases "map_of (ms_prov s) (store_key a c)")
    case None
    with 7 show ?thesis by (auto simp: mem_rotate_def spec_rotate_def mem_led_lookup fun_upd_idem)
  next
    case (Some r)
    with 7 mem_inv_keep[OF 7(1) Some, of "r\<lparr>pr_rot := pr_rot r + 1\<rparr>"] show ?thesis
      by (auto simp: mem_rotate_def spec_rotate_def mem_led_lookup mem_led_update acct_of_def Let_def)
  qed
next
  case (8 s)
  then show ?case by (simp add: mem_led_finite)
next
  case (9 t)
  then show ?case by simp
qed

section \<open>The ownership ledger\<close>

definition mem_own :: "mem_store \<Rightarrow> owners" where
  "mem_own s = (\<lambda>(a, t, i). if no_bar a \<and> no_bar t then map_of (ms_owner s) (own_key a t i) else None)"

definition mem_owner_inv :: "mem_store \<Rightarrow> bool" where
  "mem_owner_inv s \<longleftrightarrow> wf_map (ms_owner s)"

lemma mem_own_lookup:
  "no_bar a \<Longrightarrow> no_bar t \<Longrightarrow> mem_own s (a, t, i) = map_of (ms_owner s) (own_key a t i)"
  by (simp add: mem_own_def)

lemma mem_own_update:
  assumes "no_bar a" "no_bar t"
  shows "mem_own (s\<lparr>ms_owner := AList.update (own_key a t i) c (ms_owner s)\<rparr>) = (mem_own s)((a, t, i) \<mapsto> c)"
  using assms by (auto simp: mem_own_def own_key_inject fun_eq_iff)

lemma mem_owned_set_correct:
  assumes "mem_owner_inv s" "no_bar a" "no_bar t"
  shows "\<exists>xs. mem_owned_set s a t c = Inr xs \<and> distinct xs \<and> set xs = {i. mem_own s (a, t, i) = Some c}"
proof -
  have pre: "has_prefix (own_prefix a t) k \<longleftrightarrow> (\<exists>i. k = own_key a t i)" for k
    by (auto simp: has_prefix_iff own_key_def own_prefix_def)
  have trim: "trim_prefix (own_prefix a t) (own_key a t i) = i" for i
    using trim_prefix_append[of "own_prefix a t" i] by (simp add: own_key_def own_prefix_def)
  have "set (map (\<lambda>(k, c). trim_prefix (own_prefix a t) k)
      (filter (\<lambda>(k, d). d = c \<and> has_prefix (own_prefix a t) k) (ms_owner s)))
     = {i. (own_key a t i, c) \<in> set (ms_owner s)}"
    (is "?L = ?R")
  proof (intro set_eqI iffI)
    fix i assume "i \<in> ?L"
    then obtain k where "(k, c) \<in> set (ms_owner s)" "i = trim_prefix (own_prefix a t) k"
      "\<exists>j. k = own_key a t j" by (auto simp: pre)
    then show "i \<in> ?R" by (auto simp: trim)
  next
    fix i assume "i \<in> ?R"
    then have "(own_key a t i, c) \<in> set (filter (\<lambda>(k, d). d = c \<and> has_prefix (own_prefix a t) k) (ms_owner s))"
      by (auto simp: pre)
    then show "i \<in> ?L" by (force simp: trim simp del: set_filter)
  qed
  then show ?thesis using assms
    by (auto simp: mem_owned_set_def mem_own_def mem_owner_inv_def wf_map_lookup Let_def)
qed

interpretation mem_owners: ownership_ledger mem_owner_ops mem_owner_inv mem_own no_bar no_bar
proof (unfold_locales, goal_cases)
  case (1 s a t i c now rc s')
  then show ?case
    by (auto simp: mem_claim_def spec_claim_def mem_own_lookup mem_own_update Let_def mem_owner_inv_def
        split: if_splits option.splits)
next
  case (2 s a t i)
  then show ?case by (simp add: mem_owner_of_def mem_own_lookup)
next
  case (3 s a t c)
  then show ?case by (simp add: mem_owned_set_correct)
next
  case (4 s a t i r s')
  then show ?case
    by (auto simp: mem_release_def mem_own_def mem_owner_inv_def own_key_inject fun_eq_iff)
qed

end
