(* ===== verification/Sqlite_Store.thy ===== *)
theory Sqlite_Store
  imports Store_Iface
begin

text \<open>
  SQLiteStore of internal/broker/store_sqlite.go. A table with a PRIMARY KEY is an association
  list from the key columns to the other columns, with distinct keys; SELECT by the full key is
  \<open>map_of\<close>, COUNT(*) is \<open>count_if\<close>, UPDATE and INSERT are \<open>AList.update\<close>. The pool has one
  connection, so each transaction is one atomic step. \<open>sq_down\<close> says the database does not
  answer: the first statement of every operation then fails and the operation takes its error
  branch; a failure in the middle of a transaction rolls back to the same state.
  Times are stored in whole seconds.
\<close>

section \<open>State and operations\<close>

record prov_row =
  pw_ip :: string
  pw_first_seen :: int
  pw_last_mint :: int
  pw_credits :: int
  pw_rot :: int

record owner_row =
  ow_caller :: string
  ow_created :: int

record sqlite_store =
  sq_down :: bool
  sq_usage :: "((string \<times> string) \<times> cell) list"
  sq_prov :: "((string \<times> string) \<times> prov_row) list"
  sq_owner :: "((string \<times> string \<times> string) \<times> owner_row) list"

definition open_sqlite_store :: sqlite_store where
  "open_sqlite_store = \<lparr>sq_down = False, sq_usage = [], sq_prov = [], sq_owner = []\<rparr>"

definition sql_admit :: "sqlite_store \<Rightarrow> string \<Rightarrow> string \<Rightarrow> int \<Rightarrow> (bool \<times> int) \<times> sqlite_store" where
  "sql_admit s app caller quota =
     (if sq_down s then ((False, 0), s)
      else let k = (app, caller);
               t = (if map_of (sq_usage s) k = None
                    then AList.update k \<lparr>cl_calls = 0, cl_cents = 0\<rparr> (sq_usage s) else sq_usage s)
           in case map_of t k of
                None \<Rightarrow> ((False, 0), s)
              | Some c \<Rightarrow>
                  if quota > 0 \<and> cl_calls c \<ge> quota then ((False, cl_calls c), s)
                  else ((True, cl_calls c + 1),
                        s\<lparr>sq_usage := AList.update k (c\<lparr>cl_calls := cl_calls c + 1\<rparr>) t\<rparr>))"

definition sql_add_cost :: "sqlite_store \<Rightarrow> string \<Rightarrow> string \<Rightarrow> rat \<Rightarrow> sqlite_store" where
  "sql_add_cost s app caller cents =
     (if sq_down s then s
      else case map_of (sq_usage s) (app, caller) of
             None \<Rightarrow> s
           | Some c \<Rightarrow> s\<lparr>sq_usage := AList.update (app, caller) (c\<lparr>cl_cents := cl_cents c + cents\<rparr>) (sq_usage s)\<rparr>)"

definition sql_usage :: "sqlite_store \<Rightarrow> string \<Rightarrow> string \<Rightarrow> int \<times> rat" where
  "sql_usage s app caller =
     (if sq_down s then (0, 0)
      else case map_of (sq_usage s) (app, caller) of
             None \<Rightarrow> (0, 0) | Some c \<Rightarrow> (cl_calls c, cl_cents c))"

definition sql_set :: "sqlite_store \<Rightarrow> string \<times> string \<Rightarrow> prov_row \<Rightarrow> sqlite_store" where
  "sql_set s k w = s\<lparr>sq_prov := AList.update k w (sq_prov s)\<rparr>"

definition sql_provision ::
  "sqlite_store \<Rightarrow> string \<Rightarrow> string \<Rightarrow> string \<Rightarrow> int \<Rightarrow> int \<Rightarrow> duration \<Rightarrow> gotime
    \<Rightarrow> (store_err + prov_record) \<times> sqlite_store" where
  "sql_provision s app caller ip seed maxPerIP cooldown now =
     (if sq_down s then (Inl ErrDriver, s)
      else case map_of (sq_prov s) (app, caller) of
        Some w \<Rightarrow>
          if cooldown > 0 \<and> time_sub now (of_unix (pw_last_mint w)) < cooldown then (Inl ErrCooldown, s)
          else (Inr \<lparr>pr_app = app, pr_caller = caller, pr_ip = ip,
                     pr_first_seen = of_unix (pw_first_seen w), pr_last_mint = now,
                     pr_credits = pw_credits w, pr_rot = pw_rot w, pr_new = False\<rparr>,
                sql_set s (app, caller) (w\<lparr>pw_last_mint := unix_sec now\<rparr>))
      | None \<Rightarrow>
          if maxPerIP > 0 \<and>
             int (count_if (\<lambda>((a, _), w). a = app \<and> pw_ip w = ip) (sq_prov s)) \<ge> maxPerIP
          then (Inl ErrIPCap, s)
          else (Inr \<lparr>pr_app = app, pr_caller = caller, pr_ip = ip, pr_first_seen = now,
                     pr_last_mint = now, pr_credits = seed, pr_rot = 0, pr_new = True\<rparr>,
                sql_set s (app, caller) \<lparr>pw_ip = ip, pw_first_seen = unix_sec now,
                     pw_last_mint = unix_sec now, pw_credits = seed, pw_rot = 0\<rparr>))"

definition sql_credit :: "sqlite_store \<Rightarrow> string \<Rightarrow> string \<Rightarrow> store_err + int" where
  "sql_credit s app caller =
     (if sq_down s then Inl ErrDriver
      else case map_of (sq_prov s) (app, caller) of None \<Rightarrow> Inr 0 | Some w \<Rightarrow> Inr (pw_credits w))"

definition sql_debit ::
  "sqlite_store \<Rightarrow> string \<Rightarrow> string \<Rightarrow> int \<Rightarrow> (store_err + bool \<times> int) \<times> sqlite_store" where
  "sql_debit s app caller n =
     (if n \<le> 0 then (map_sum id (\<lambda>c. (True, c)) (sql_credit s app caller), s)
      else if sq_down s then (Inl ErrDriver, s)
      else case map_of (sq_prov s) (app, caller) of
             None \<Rightarrow> (Inr (False, 0), s)
           | Some w \<Rightarrow>
               if pw_credits w < n then (Inr (False, pw_credits w), s)
               else (Inr (True, pw_credits w - n),
                     sql_set s (app, caller) (w\<lparr>pw_credits := pw_credits w - n\<rparr>)))"

definition sql_refund :: "sqlite_store \<Rightarrow> string \<Rightarrow> string \<Rightarrow> int \<Rightarrow> sqlite_store" where
  "sql_refund s app caller n =
     (if n \<le> 0 then s
      else if sq_down s then s
      else case map_of (sq_prov s) (app, caller) of
             None \<Rightarrow> s
           | Some w \<Rightarrow> sql_set s (app, caller) (w\<lparr>pw_credits := pw_credits w + n\<rparr>))"

definition sql_settle ::
  "sqlite_store \<Rightarrow> string \<Rightarrow> string \<Rightarrow> int \<Rightarrow> (store_err + int) \<times> sqlite_store" where
  "sql_settle s app caller n =
     (if sq_down s then (Inl ErrDriver, s)
      else case map_of (sq_prov s) (app, caller) of
             None \<Rightarrow> (Inr 0, s)
           | Some w \<Rightarrow>
               let m = (if n > pw_credits w then pw_credits w else n);
                   s' = (if m > 0 then sql_set s (app, caller) (w\<lparr>pw_credits := pw_credits w - m\<rparr>) else s)
               in (Inr (pw_credits w - m), s'))"

definition sql_get :: "sqlite_store \<Rightarrow> string \<Rightarrow> string \<Rightarrow> store_err + prov_record option" where
  "sql_get s app caller =
     (if sq_down s then Inl ErrDriver
      else case map_of (sq_prov s) (app, caller) of
             None \<Rightarrow> Inr None
           | Some w \<Rightarrow> Inr (Some \<lparr>pr_app = app, pr_caller = caller, pr_ip = pw_ip w,
                pr_first_seen = of_unix (pw_first_seen w), pr_last_mint = of_unix (pw_last_mint w),
                pr_credits = pw_credits w, pr_rot = pw_rot w, pr_new = False\<rparr>))"

definition sql_rotate ::
  "sqlite_store \<Rightarrow> string \<Rightarrow> string \<Rightarrow> (store_err + prov_record option) \<times> sqlite_store" where
  "sql_rotate s app caller =
     (if sq_down s then (Inl ErrDriver, s)
      else case map_of (sq_prov s) (app, caller) of
             None \<Rightarrow> (Inr None, s)
           | Some w \<Rightarrow>
               (Inr (Some (zero_record\<lparr>pr_app := app, pr_caller := caller,
                      pr_credits := pw_credits w, pr_rot := pw_rot w + 1\<rparr>)),
                sql_set s (app, caller) (w\<lparr>pw_rot := pw_rot w + 1\<rparr>)))"

definition sql_snapshot :: "sqlite_store \<Rightarrow> (int \<times> rat) gmap" where
  "sql_snapshot s =
     (if sq_down s then []
      else fold (\<lambda>((a, c), x) m. AList.update (a @ ''|'' @ c) (cl_calls x, cl_cents x) m) (sq_usage s) [])"

definition sql_claim ::
  "sqlite_store \<Rightarrow> string \<Rightarrow> string \<Rightarrow> string \<Rightarrow> string \<Rightarrow> gotime \<Rightarrow> (store_err + unit) \<times> sqlite_store" where
  "sql_claim s app rtype rid caller now =
     (if rid = [] \<or> caller = [] then (Inl ErrClaimArgs, s)
      else if sq_down s then (Inl ErrDriver, s)
      else case map_of (sq_owner s) (app, rtype, rid) of
             None \<Rightarrow> (Inr (), s\<lparr>sq_owner := AList.update (app, rtype, rid)
                        \<lparr>ow_caller = caller, ow_created = unix_sec now\<rparr> (sq_owner s)\<rparr>)
           | Some w \<Rightarrow> (if ow_caller w = caller then (Inr (), s) else (Inl ErrOwned, s)))"

definition sql_owner_of :: "sqlite_store \<Rightarrow> string \<Rightarrow> string \<Rightarrow> string \<Rightarrow> store_err + string option" where
  "sql_owner_of s app rtype rid =
     (if sq_down s then Inl ErrDriver
      else Inr (map_option ow_caller (map_of (sq_owner s) (app, rtype, rid))))"

definition sql_owned_set :: "sqlite_store \<Rightarrow> string \<Rightarrow> string \<Rightarrow> string \<Rightarrow> store_err + string list" where
  "sql_owned_set s app rtype caller =
     (if sq_down s then Inl ErrDriver
      else Inr (remdups (map (\<lambda>((_, _, i), _). i)
             (filter (\<lambda>((a, t, _), w). a = app \<and> t = rtype \<and> ow_caller w = caller) (sq_owner s)))))"

definition sql_release ::
  "sqlite_store \<Rightarrow> string \<Rightarrow> string \<Rightarrow> string \<Rightarrow> (store_err + unit) \<times> sqlite_store" where
  "sql_release s app rtype rid =
     (if sq_down s then (Inl ErrDriver, s)
      else (Inr (), s\<lparr>sq_owner := AList.delete (app, rtype, rid) (sq_owner s)\<rparr>))"

section \<open>The interfaces it implements\<close>

definition sql_usage_ops :: "sqlite_store usage_ops" where
  "sql_usage_ops = \<lparr>op_admit = sql_admit, op_add_cost = sql_add_cost, op_usage = sql_usage\<rparr>"

definition sql_prov_ops :: "sqlite_store prov_ops" where
  "sql_prov_ops = \<lparr>op_provision = sql_provision, op_credit = sql_credit, op_debit = sql_debit,
     op_refund = sql_refund, op_settle = sql_settle, op_get = sql_get, op_rotate = sql_rotate\<rparr>"

definition sql_owner_ops :: "sqlite_store owner_ops" where
  "sql_owner_ops = \<lparr>op_claim = sql_claim, op_owner_of = sql_owner_of,
     op_owned_set = sql_owned_set, op_release = sql_release\<rparr>"

definition sql_ops :: "sqlite_store store_ops" where
  "sql_ops = \<lparr>so_usage = sql_usage_ops, so_prov = Some sql_prov_ops, so_owner = Some sql_owner_ops\<rparr>"

lemmas sql_ops_simps [simp] =
  sql_usage_ops_def sql_prov_ops_def sql_owner_ops_def sql_ops_def

section \<open>Call counters\<close>

definition sql_calls :: "sqlite_store \<Rightarrow> counters" where
  "sql_calls s k = (case map_of (sq_usage s) k of Some x \<Rightarrow> cl_calls x | None \<Rightarrow> 0)"

definition sql_calls_inv :: "sqlite_store \<Rightarrow> bool" where
  "sql_calls_inv s \<longleftrightarrow> \<not> sq_down s \<and> (\<forall>k c. map_of (sq_usage s) k = Some c \<longrightarrow> 0 \<le> cl_calls c)"

interpretation sql_meter: usage_meter sql_usage_ops sql_calls_inv sql_calls "\<lambda>_. True"
proof (unfold_locales, goal_cases)
  case (1 s a c q r s')
  then show ?case
    by (cases "map_of (sq_usage s) (a, c)")
      (auto simp: sql_admit_def Let_def spec_admit_def sql_calls_def sql_calls_inv_def fun_eq_iff
         split: if_splits)
next
  case (2 s k)
  then show ?case by (cases k) (auto simp: sql_calls_def sql_calls_inv_def split: option.split)
qed

section \<open>The credit ledger\<close>

definition row_acct :: "prov_row \<Rightarrow> acct" where
  "row_acct w = \<lparr>ac_ip = pw_ip w, ac_credits = pw_credits w, ac_rot = pw_rot w, ac_mint = of_unix (pw_last_mint w)\<rparr>"

definition sql_led :: "sqlite_store \<Rightarrow> ledger" where
  "sql_led s k = map_option row_acct (map_of (sq_prov s) k)"

definition sql_stamp :: "gotime \<Rightarrow> gotime" where
  "sql_stamp t = of_unix (unix_sec t)"

text \<open>The database answers and the primary key holds.\<close>

definition sql_inv :: "sqlite_store \<Rightarrow> bool" where
  "sql_inv s \<longleftrightarrow> \<not> sq_down s \<and> wf_map (sq_prov s)"

lemma sql_set_simps [simp]:
  "sql_led (sql_set s k w) = (sql_led s)(k \<mapsto> row_acct w)"
  "sql_inv s \<Longrightarrow> sql_inv (sql_set s k w)"
  by (auto simp: sql_set_def sql_led_def sql_inv_def fun_eq_iff)

lemma row_acct_simps [simp]:
  "row_acct (w\<lparr>pw_credits := n\<rparr>) = add_credits (n - pw_credits w) (row_acct w)"
  "ac_credits (row_acct w) = pw_credits w" "ac_rot (row_acct w) = pw_rot w"
  by (simp_all add: row_acct_def add_credits_def)

lemma sql_up: "sql_inv s \<Longrightarrow> \<not> sq_down s"
  by (simp add: sql_inv_def)

lemma sql_seats:
  assumes "sql_inv s"
  shows "count_if (\<lambda>((b, _), w). b = a \<and> pw_ip w = ip) (sq_prov s) = seats (sql_led s) a ip"
proof -
  let ?E = "{e \<in> set (sq_prov s). fst (fst e) = a \<and> pw_ip (snd e) = ip}"
  from assms have wf: "wf_map (sq_prov s)" by (simp add: sql_inv_def)
  have inj: "inj_on (\<lambda>e. snd (fst e)) ?E"
    using wf by (auto simp: inj_on_def wf_map_lookup)
  have img: "(\<lambda>e. snd (fst e)) ` ?E = {c. \<exists>x. sql_led s (a, c) = Some x \<and> ac_ip x = ip}"
    using wf by (force simp: sql_led_def wf_map_lookup row_acct_def image_iff)
  have "count_if (\<lambda>((b, _), w). b = a \<and> pw_ip w = ip) (sq_prov s) = card ?E"
    using wf by (subst count_if_def)
      (auto simp: wf_map_def distinct_map case_prod_beta distinct_length_filter
         intro: arg_cong[where f = card])
  also have "\<dots> = seats (sql_led s) a ip" using card_image[OF inj] img by (simp add: seats_def)
  finally show ?thesis .
qed

lemma sql_provision_correct:
  assumes I: "sql_inv s" and P: "sql_provision s a c ip seed cap cd now = (rp, s')"
  shows "sql_inv s' \<and> (\<exists>r0. (r0, sql_led s') = spec_provision sql_stamp (sql_led s) (a, c) ip seed cap cd now \<and>
    (case (rp, r0) of (Inl e, Inl e0) \<Rightarrow> e = e0 | (Inr p, Inr (x, new)) \<Rightarrow> rec_agrees p x new | _ \<Rightarrow> False))"
proof (cases "map_of (sq_prov s) (a, c)")
  case None
  then have led: "sql_led s (a, c) = None" by (simp add: sql_led_def)
  show ?thesis
  proof (cases "cap > 0 \<and> int (seats (sql_led s) a ip) \<ge> cap")
    case True
    then show ?thesis using P I None led sql_seats[OF I, of a ip]
      by (auto simp: sql_provision_def spec_provision_def sql_up[OF I])
  next
    case False
    then show ?thesis using P I None led sql_seats[OF I, of a ip]
      by (auto simp: sql_provision_def spec_provision_def sql_up[OF I] row_acct_def sql_stamp_def
          rec_agrees_def Let_def split: if_splits)
  qed
next
  case (Some w)
  then have led: "sql_led s (a, c) = Some (row_acct w)" by (simp add: sql_led_def)
  from P I Some led show ?thesis
    by (auto simp: sql_provision_def spec_provision_def sql_up[OF I] row_acct_def sql_stamp_def
        time_sub_def rec_agrees_def Let_def split: if_splits)
qed

lemma sql_led_lookup: "map_of (sq_prov s) k = w \<Longrightarrow> sql_led s k = map_option row_acct w"
  by (simp add: sql_led_def)

lemma sql_settle_correct:
  assumes I: "sql_inv s" and n: "0 < n" and nn: "0 \<le> bal (sql_led s) (a, c)"
    and S: "sql_settle s a c n = (rs, s')"
  shows "sql_inv s' \<and> (\<exists>m. rs = Inr m \<and> (m, sql_led s') = spec_settle (sql_led s) (a, c) n)"
proof (cases "map_of (sq_prov s) (a, c)")
  case None
  then have led: "sql_led s (a, c) = None" by (simp add: sql_led_def)
  with None show ?thesis using S I n
    by (auto simp: sql_settle_def spec_settle_def sql_up[OF I] fun_upd_idem)
next
  case (Some w)
  then have led: "sql_led s (a, c) = Some (row_acct w)" by (simp add: sql_led_def)
  show ?thesis
  proof (cases "pw_credits w = 0")
    case True
    with Some led S I n show ?thesis
      by (auto simp: sql_settle_def spec_settle_def sql_up[OF I] Let_def min_def fun_upd_idem)
  next
    case False
    then have "0 < pw_credits w" using nn led by simp
    with Some led S I n show ?thesis
      by (auto simp: sql_settle_def spec_settle_def sql_up[OF I] Let_def min_def split: if_splits)
  qed
qed

lemma sql_debit_correct:
  assumes I: "sql_inv s" and D: "sql_debit s a c n = (rd, s')"
  shows "sql_inv s' \<and> (\<exists>b m. rd = Inr (b, m) \<and> ((b, m), sql_led s') = spec_debit (sql_led s) (a, c) n)"
proof (cases "map_of (sq_prov s) (a, c)")
  case None
  then show ?thesis using I D
    by (auto simp: sql_debit_def sql_credit_def spec_debit_def sql_up[OF I] sql_led_lookup split: if_splits)
next
  case (Some w)
  then have led: "sql_led s (a, c) = Some (row_acct w)" by (simp add: sql_led_def)
  show ?thesis
  proof (cases "n \<le> 0 \<or> pw_credits w < n")
    case True
    with Some I D led show ?thesis
      by (auto simp: sql_debit_def sql_credit_def spec_debit_def sql_up[OF I] split: if_splits)
  next
    case False
    with Some D have "rd = Inr (True, pw_credits w - n)"
      "s' = sql_set s (a, c) (w\<lparr>pw_credits := pw_credits w - n\<rparr>)" by (simp_all add: sql_debit_def sql_up[OF I])
    with False led I show ?thesis by (auto simp: spec_debit_def)
  qed
qed

lemma sql_led_finite: "finite_ledger (sql_led s)"
proof -
  have "dom (sql_led s) = dom (map_of (sq_prov s))" by (auto simp: sql_led_def)
  then show ?thesis by (simp add: finite_ledger_def finite_dom_map_of)
qed

interpretation sql_credits: credit_ledger sql_prov_ops sql_inv sql_led "\<lambda>_. True" sql_stamp
proof (unfold_locales, goal_cases)
  case (1 s a c ip seed cap cd now rp s')
  then show ?case using sql_provision_correct[of s a c ip seed cap cd now rp s'] by simp
next
  case (2 s a c)
  then show ?case by (auto simp: sql_credit_def sql_up sql_led_def bal_def split: option.split)
next
  case (3 s a c n rd s')
  then show ?case using sql_debit_correct[where s=s and a=a and c=c and n=n] by simp
next
  case (4 s a c n)
  then have led: "sql_led s (a, c) = map_option row_acct (map_of (sq_prov s) (a, c))"
    by (simp add: sql_led_def)
  from 4 led show ?case
    by (cases "map_of (sq_prov s) (a, c)") (auto simp: sql_refund_def spec_refund_def sql_up fun_upd_idem)
next
  case 5
  then show ?case using sql_settle_correct[OF 5(1) 5(3) 5(4)] by simp
next
  case (6 s a c)
  then show ?case
    by (auto simp: sql_get_def sql_up sql_led_def rec_agrees_def split: option.split)
next
  case (7 s a c rr s')
  then have led: "sql_led s (a, c) = map_option row_acct (map_of (sq_prov s) (a, c))"
    by (simp add: sql_led_def)
  from 7 led show ?case
    by (cases "map_of (sq_prov s) (a, c)")
      (auto simp: sql_rotate_def spec_rotate_def sql_up fun_upd_idem row_acct_def)
next
  case (8 s)
  then show ?case by (simp add: sql_led_finite)
next
  case (9 t)
  then show ?case by (simp add: sql_stamp_def of_unix_le of_unix_gt)
qed

section \<open>The ownership ledger\<close>

definition sql_own :: "sqlite_store \<Rightarrow> owners" where
  "sql_own s k = map_option ow_caller (map_of (sq_owner s) k)"

definition sql_owner_inv :: "sqlite_store \<Rightarrow> bool" where
  "sql_owner_inv s \<longleftrightarrow> \<not> sq_down s \<and> wf_map (sq_owner s)"

interpretation sql_owners: ownership_ledger sql_owner_ops sql_owner_inv sql_own "\<lambda>_. True" "\<lambda>_. True"
proof (unfold_locales, goal_cases)
  case (1 s a t i c now rc s')
  then show ?case
    by (auto simp: sql_claim_def spec_claim_def sql_own_def sql_owner_inv_def fun_eq_iff
        split: if_splits option.splits)
next
  case (2 s a t i)
  then show ?case by (simp add: sql_owner_of_def sql_own_def sql_owner_inv_def)
next
  case (3 s a t c)
  then show ?case
    by (force simp: sql_owned_set_def sql_own_def sql_owner_inv_def wf_map_lookup)
next
  case (4 s a t i r s')
  then show ?case by (auto simp: sql_release_def sql_own_def sql_owner_inv_def fun_eq_iff)
qed

end
