(* ===== verification/App_Config.thy ===== *)
theory App_Config
  imports Prelude
begin

text \<open>
  The registry's data: internal/broker/registry.go (AppEntry, ProvisionSpec, CreditSpec), the
  declarative part of internal/broker/tenancy.go, and the auth strategies of inject.go.
  A Go pointer field that may be nil is an option; a Go map is an association list, whose order
  is the order in which one run of the program happens to range over it. The JSON fields of
  AppEntry form \<open>app_config\<close>; the fields the registry resolves at load extend it to \<open>app_entry\<close>.
\<close>

section \<open>Tenancy blocks\<close>

record create_route =
  cr_method :: string
  cr_path :: string
  cr_type :: string
  cr_id_field :: string

record owner_link =
  ol_field :: string
  ol_type :: string

record list_route =
  lr_method :: string
  lr_path :: string
  lr_array :: string
  lr_owner_by :: "owner_link list"
  lr_claim_as :: string
  lr_claim_id_field :: string
  lr_count_fields :: "string list"

record delete_route =
  dr_method :: string
  dr_path :: string
  dr_type :: string
  dr_param :: string

record object_route =
  or_method :: string
  or_path :: string
  or_owned_counts :: "string gmap"
  or_redact :: "string list"

text \<open>A compiled route: the upper-cased method, the split path, the route.\<close>

type_synonym 'r compiled = "string \<times> string list \<times> 'r"

record tenancy =
  tn_param_types :: "string gmap"
  tn_body_refs :: "string gmap"
  tn_create :: "create_route list"
  tn_list :: "list_route list"
  tn_delete :: "delete_route list"
  tn_object :: "object_route list"
  tn_create_idx :: "create_route compiled list"
  tn_list_idx :: "list_route compiled list"
  tn_delete_idx :: "delete_route compiled list"
  tn_object_idx :: "object_route compiled list"

section \<open>Provisioning and credit blocks\<close>

record provision_spec =
  pv_provider :: string
  pv_secret_env :: string
  pv_key_version :: int
  pv_seed_credits :: int
  pv_cost_credits :: "int gmap"
  pv_max_identities_per_ip :: int
  pv_mint_cooldown_ms :: int
  pv_provision_path :: string
  pv_balance_path :: string
  pv_key_path :: string
  pv_rotate_path :: string
  pv_push_path :: string
  pv_list_path :: string
  pv_artifact_max_bytes :: int
  pv_owner_env_key :: string
  pv_admin_key_env :: string
  pv_meter_interval_ms :: int
  pv_cpu_hour_micros :: int
  pv_mem_gb_hour_micros :: int
  pv_disk_gb_hour_micros :: int

record credit_spec =
  cs_seed_credits :: int
  cs_cost_credits :: "int gmap"
  cs_default_cost :: int
  cs_max_identities_per_ip :: int
  cs_mint_cooldown_ms :: int
  cs_cost_source :: string
  cs_cost_scale :: int
  cs_balance_path :: string

section \<open>Auth strategies\<close>

datatype injector =
    HeaderInjector (hi_name: string) (hi_scheme: string)
  | QueryInjector (qi_param: string)
  | BasicInjector (bi_user: string)

definition injector_for :: "string \<Rightarrow> string \<Rightarrow> string \<Rightarrow> string \<Rightarrow> string \<Rightarrow> injector" where
  "injector_for style header scheme param user =
     (if style = ''query'' then QueryInjector param
      else if style = ''basic'' then BasicInjector user
      else HeaderInjector header scheme)"

section \<open>Cloud providers\<close>

datatype cloud_provider =
    MasterKeyProvider (mk_upstream: string) (mk_master: string) (mk_owner_env_key: string)
      (mk_upload_path: string)
  | TokenMintProvider (tm_upstream: string) (tm_admin_key: string)

definition trim_right_slash :: "string \<Rightarrow> string" where
  "trim_right_slash s = rev (dropWhile (\<lambda>c. c = CHR ''/'') (rev s))"

definition new_master_key_provider :: "string \<Rightarrow> string \<Rightarrow> string \<Rightarrow> cloud_provider" where
  "new_master_key_provider upstream master ownerEnvKey =
     MasterKeyProvider (trim_right_slash upstream) master ownerEnvKey ''/v1/artifacts''"

definition new_token_mint_provider :: "string \<Rightarrow> string \<Rightarrow> cloud_provider" where
  "new_token_mint_provider upstream adminKey = TokenMintProvider (trim_right_slash upstream) adminKey"

section \<open>Registry entries\<close>

record app_config =
  ae_id :: string
  ae_upstream :: string
  ae_key_env :: string
  ae_auth_style :: string
  ae_auth_header :: string
  ae_auth_scheme :: string
  ae_auth_param :: string
  ae_auth_user :: string
  ae_allow :: "string list"
  ae_quota :: int
  ae_cost_field :: string
  ae_timeout_ms :: int
  ae_breaker_threshold :: int
  ae_breaker_cooldown_ms :: int
  ae_provision :: "provision_spec option"
  ae_credit :: "credit_spec option"
  ae_tenancy :: "tenancy option"
  ae_require_access_key :: bool
  ae_forward_content_types :: "string list"
  ae_max_body_bytes :: int

text \<open>\<open>costPattern\<close> and \<open>allowPattern\<close>: a method (empty for any), the segments, the cost.\<close>

record cost_pattern =
  cp_method :: string
  cp_segs :: "string list"
  cp_cost :: int

record allow_pattern =
  ap_method :: string
  ap_segs :: "string list"

record breaker_conf =
  bc_threshold :: int
  bc_cooldown :: duration

record app_entry = app_config +
  rt_master :: string
  rt_injector :: injector
  rt_allow_set :: "string list"
  rt_allow_patterns :: "allow_pattern list"
  rt_allow_segs :: "string list list"
  rt_fwd_ct :: "string list"
  rt_breaker :: breaker_conf
  rt_credit_seed :: int
  rt_credit_default :: int
  rt_credit_exact :: "int gmap"
  rt_credit_patterns :: "cost_pattern list"
  rt_credit_max_per_ip :: int
  rt_credit_mint_cooldown :: duration
  rt_credit_resp_cost :: bool
  rt_credit_cost_scale :: int
  rt_credit_balance_path :: string
  rt_derive_secret :: string
  rt_secrets_by_version :: "(nat \<times> string) list"
  rt_provider :: "cloud_provider option"

end
