(* ===== verification/Go_Std.thy ===== *)
theory Go_Std
  imports Prelude
begin

text \<open>
  The parts of Go's standard library whose exact behaviour the broker's checks rest on:
  \<open>mime.ParseMediaType\<close> (RFC 2231 continuations, parameters whose name has a star, are treated
  as ordinary parameters), \<open>url.ParseQuery\<close>, and the base64 alphabets of encoding/base64.
  The loops over the input carry the remaining length as fuel; each turn consumes at least one
  byte, so the length of the input is always enough.
\<close>

section \<open>mime.ParseMediaType\<close>

definition is_tspecial :: "char \<Rightarrow> bool" where
  "is_tspecial c \<longleftrightarrow> c \<in> set ''()<>@,;:/[]?='' \<or> c = CHR 0x22 \<or> c = CHR 0x5C"

definition is_token_char :: "char \<Rightarrow> bool" where
  "is_token_char c \<longleftrightarrow> 32 < byte c \<and> byte c < 127 \<and> \<not> is_tspecial c"

definition trim_left :: "string \<Rightarrow> string" where
  "trim_left = dropWhile is_space"

definition consume_token :: "string \<Rightarrow> string \<times> string" where
  "consume_token s = (takeWhile is_token_char s, dropWhile is_token_char s)"

text \<open>The body of a quoted string after the opening quote: the unescaped text and the rest.\<close>

fun consume_quoted :: "string \<Rightarrow> string \<Rightarrow> (string \<times> string) option" where
  "consume_quoted acc [] = None"
| "consume_quoted acc [c] =
     (if c = CHR 0x22 then Some (rev acc, []) else None)"
| "consume_quoted acc (c # d # s) =
     (if c = CHR 0x22 then Some (rev acc, d # s)
      else if c = CHR 0x5C \<and> is_tspecial d then consume_quoted (d # acc) s
      else if c = CHR 0x0D \<or> c = CHR 0x0A then None
      else consume_quoted (c # acc) (d # s))"

definition consume_value :: "string \<Rightarrow> string \<times> string" where
  "consume_value v =
     (case v of [] \<Rightarrow> ([], [])
      | c # s \<Rightarrow> if c \<noteq> CHR 0x22 then consume_token v
                else (case consume_quoted [] s of Some r \<Rightarrow> r | None \<Rightarrow> ([], v)))"

definition consume_media_param :: "string \<Rightarrow> (string \<times> string \<times> string) option" where
  "consume_media_param v =
     (case trim_left v of [] \<Rightarrow> None
      | c # s \<Rightarrow>
        if c \<noteq> CHR '';'' then None
        else let (param, r1) = consume_token (trim_left s) in
          if param = [] then None
          else (case trim_left r1 of [] \<Rightarrow> None
                | e # r2 \<Rightarrow>
                  if e \<noteq> CHR ''='' then None
                  else let r3 = trim_left r2; (val, r4) = consume_value r3 in
                    if val = [] \<and> r4 = r3 then None else Some (to_lower param, val, r4)))"

definition check_media_type :: "string \<Rightarrow> bool" where
  "check_media_type s =
     (let (typ, rest) = consume_token s in
      typ \<noteq> [] \<and>
      (case rest of [] \<Rightarrow> True
       | c # s' \<Rightarrow> c = CHR ''/'' \<and> (let (sub, rest') = consume_token s' in sub \<noteq> [] \<and> rest' = [])))"

fun media_params :: "nat \<Rightarrow> string gmap \<Rightarrow> string \<Rightarrow> string gmap option" where
  "media_params 0 ps v = (if v = [] then Some ps else None)"
| "media_params (Suc n) ps v0 =
     (let v = trim_left v0 in
      if v = [] then Some ps
      else (case consume_media_param v of
              None \<Rightarrow> if trim_space v = '';'' then Some ps else None
            | Some (key, val, rest) \<Rightarrow>
                (case map_of ps key of
                   Some old \<Rightarrow> if old \<noteq> val then None else media_params n ps rest
                 | None \<Rightarrow> media_params n (AList.update key val ps) rest)))"

definition parse_media_type :: "string \<Rightarrow> (string \<times> string gmap) option" where
  "parse_media_type v =
     (let base = takeWhile (\<lambda>c. c \<noteq> CHR '';'') v;
          mt = trim_space (to_lower base);
          rest = drop (length base) v
      in if \<not> check_media_type mt then None
         else map_option (\<lambda>ps. (mt, ps)) (media_params (length rest) [] rest))"

section \<open>url.ParseQuery\<close>

definition hex_val :: "char \<Rightarrow> nat option" where
  "hex_val c =
     (if is_digit c then Some (byte c - 48)
      else if 97 \<le> byte c \<and> byte c \<le> 102 then Some (byte c - 87)
      else if 65 \<le> byte c \<and> byte c \<le> 70 then Some (byte c - 55)
      else None)"

fun query_unescape :: "string \<Rightarrow> string option" where
  "query_unescape [] = Some []"
| "query_unescape (c # s) =
     (if c = CHR ''%'' then
        (case s of
           h # l # r \<Rightarrow>
             (case (hex_val h, hex_val l) of
                (Some a, Some b) \<Rightarrow> map_option ((#) (char_of (16 * a + b))) (query_unescape r)
              | _ \<Rightarrow> None)
         | _ \<Rightarrow> None)
      else if c = CHR ''+'' then map_option ((#) (CHR '' '')) (query_unescape s)
      else map_option ((#) c) (query_unescape s))"

definition query_pair :: "string \<Rightarrow> (string \<times> string) option" where
  "query_pair kv =
     (let (k, v) = (case cut_at (CHR ''='') kv of Some p \<Rightarrow> p | None \<Rightarrow> (kv, [])) in
      case (query_unescape k, query_unescape v) of
        (Some a, Some b) \<Rightarrow> Some (a, b) | _ \<Rightarrow> None)"

fun query_pairs :: "string list \<Rightarrow> (string \<times> string) list option" where
  "query_pairs [] = Some []"
| "query_pairs (kv # rest) =
     (if contains_chr (CHR '';'') kv then None
      else if kv = [] then query_pairs rest
      else (case query_pair kv of None \<Rightarrow> None
            | Some p \<Rightarrow> map_option ((#) p) (query_pairs rest)))"

text \<open>The parsed pairs in order; \<open>None\<close> when ParseQuery reports an error.\<close>

definition parse_query :: "string \<Rightarrow> (string \<times> string) list option" where
  "parse_query q = (if q = [] then Some [] else query_pairs (split_on (CHR ''&'') q))"

section \<open>Base64\<close>

text \<open>The two alphabets: standard (plus, slash) and URL-safe (minus, underscore).\<close>

definition b64_std :: string where
  "b64_std = ''ABCDEFGHIJKLMNOPQRSTUVWXYZabcdefghijklmnopqrstuvwxyz0123456789+/''"

definition b64_url :: string where
  "b64_url = ''ABCDEFGHIJKLMNOPQRSTUVWXYZabcdefghijklmnopqrstuvwxyz0123456789-_''"

fun b64_index :: "string \<Rightarrow> char \<Rightarrow> nat option" where
  "b64_index [] c = None"
| "b64_index (x # xs) c = (if x = c then Some 0 else map_option Suc (b64_index xs c))"

text \<open>Encoding without padding (RawStdEncoding, RawURLEncoding).\<close>

fun b64_raw_encode :: "string \<Rightarrow> string \<Rightarrow> string" where
  "b64_raw_encode al [] = []"
| "b64_raw_encode al [a] =
     [al ! (byte a div 4), al ! ((byte a mod 4) * 16)]"
| "b64_raw_encode al [a, b] =
     [al ! (byte a div 4), al ! ((byte a mod 4) * 16 + byte b div 16), al ! ((byte b mod 16) * 4)]"
| "b64_raw_encode al (a # b # c # s) =
     al ! (byte a div 4) # al ! ((byte a mod 4) * 16 + byte b div 16)
     # al ! ((byte b mod 16) * 4 + byte c div 64) # al ! (byte c mod 64) # b64_raw_encode al s"

text \<open>The bytes of a full group, and of a final group of three or of two sextets; the unused
  low bits of a final group are ignored, as the non-strict decoder does.\<close>

definition b64_bytes4 :: "nat \<Rightarrow> nat \<Rightarrow> nat \<Rightarrow> nat \<Rightarrow> string" where
  "b64_bytes4 p q r t = [char_of (p * 4 + q div 16), char_of ((q mod 16) * 16 + r div 4),
                         char_of ((r mod 4) * 64 + t)]"

fun b64_groups :: "nat list \<Rightarrow> string option" where
  "b64_groups [] = Some []"
| "b64_groups [p] = None"
| "b64_groups [p, q] = Some [char_of (p * 4 + q div 16)]"
| "b64_groups [p, q, r] = Some [char_of (p * 4 + q div 16), char_of ((q mod 16) * 16 + r div 4)]"
| "b64_groups (p # q # r # t # s) = map_option ((@) (b64_bytes4 p q r t)) (b64_groups s)"

fun b64_sextets :: "string \<Rightarrow> string \<Rightarrow> nat list option" where
  "b64_sextets al [] = Some []"
| "b64_sextets al (c # s) =
     (case b64_index al c of None \<Rightarrow> None | Some i \<Rightarrow> map_option ((#) i) (b64_sextets al s))"

text \<open>DecodeString drops carriage returns and newlines wherever they stand.\<close>

definition drop_newlines :: "string \<Rightarrow> string" where
  "drop_newlines = filter (\<lambda>c. c \<noteq> CHR 0x0D \<and> c \<noteq> CHR 0x0A)"

definition b64_raw_decode :: "string \<Rightarrow> string \<Rightarrow> string option" where
  "b64_raw_decode al s = Option.bind (b64_sextets al (drop_newlines s)) b64_groups"

text \<open>Encoding and decoding with padding (StdEncoding): groups of four, the last one completed
  with one or two equals signs.\<close>

definition b64_pad_encode :: "string \<Rightarrow> string \<Rightarrow> string" where
  "b64_pad_encode al s =
     b64_raw_encode al s @ (if length s mod 3 = 1 then ''=='' else if length s mod 3 = 2 then ''='' else [])"

definition b64_pad_decode :: "string \<Rightarrow> string \<Rightarrow> string option" where
  "b64_pad_decode al s0 =
     (let s = drop_newlines s0 in
      if length s mod 4 \<noteq> 0 then None
      else let n = length s;
               body = (if 2 \<le> n \<and> drop (n - 2) s = ''=='' then take (n - 2) s
                       else if 1 \<le> n \<and> drop (n - 1) s = ''='' then take (n - 1) s else s)
           in Option.bind (b64_sextets al body) b64_groups)"

text \<open>Decoding inverts encoding for any alphabet of 64 distinct characters without newlines.\<close>

definition good_alphabet :: "string \<Rightarrow> bool" where
  "good_alphabet al \<longleftrightarrow> length al = 64 \<and> distinct al \<and> CHR 0x0D \<notin> set al \<and> CHR 0x0A \<notin> set al"

lemma good_alphabets [simp]: "good_alphabet b64_std" "good_alphabet b64_url"
  by (simp_all add: good_alphabet_def b64_std_def b64_url_def)

lemma b64_index_nth: "distinct al \<Longrightarrow> i < length al \<Longrightarrow> b64_index al (al ! i) = Some i"
proof (induction al arbitrary: i)
  case (Cons x xs)
  then show ?case by (cases i) (auto simp: nth_eq_iff_index_eq)
qed simp

lemma byte_lt [simp]: "byte c < 256"
  by (simp add: byte_def)

lemma byte_char_of [simp]: "n < 256 \<Longrightarrow> byte (char_of n) = n" "char_of (byte c) = c"
  by (simp_all add: byte_def)

lemma sextets_nth:
  assumes "good_alphabet al" "i < 64"
  shows "b64_index al (al ! i) = Some i"
  using assms by (simp add: good_alphabet_def b64_index_nth)

lemma byte_split: "byte a div 4 * 4 + byte a mod 4 = byte a" "byte a div 16 * 16 + byte a mod 16 = byte a"
  "byte a div 64 * 64 + byte a mod 64 = byte a"
  by simp_all

lemma raw_encode_chars: "good_alphabet al \<Longrightarrow> set (b64_raw_encode al s) \<subseteq> set al"
proof (induction al s rule: b64_raw_encode.induct)
  case (4 al a b c s)
  have "byte b mod 16 * 4 + byte c div 64 < 64" "byte a mod 4 * 16 + byte b div 16 < 64"
    "byte a div 4 < 64" using byte_lt[of a] byte_lt[of b] byte_lt[of c] by linarith+
  with 4 show ?case by (simp add: good_alphabet_def)
next
  case (3 al a b)
  have "byte b mod 16 * 4 < 64" "byte a mod 4 * 16 + byte b div 16 < 64"
    "byte a div 4 < 64" using byte_lt[of a] byte_lt[of b] by linarith+
  with 3 show ?case by (simp add: good_alphabet_def)
next
  case (2 al a)
  have "byte a mod 4 * 16 < 64" "byte a div 4 < 64" using byte_lt[of a] by linarith+
  with 2 show ?case by (simp add: good_alphabet_def)
qed simp

lemma groups_encode:
  "good_alphabet al \<Longrightarrow> Option.bind (b64_sextets al (b64_raw_encode al s)) b64_groups = Some s"
proof (induction al s rule: b64_raw_encode.induct)
  case (1 al)
  then show ?case by simp
next
  case (2 al a)
  have "byte a mod 4 * 16 < 64" "byte a div 4 < 64" using byte_lt[of a] by linarith+
  with 2 show ?case by (simp add: sextets_nth)
next
  case (3 al a b)
  have "byte b mod 16 * 4 < 64" "byte a mod 4 * 16 + byte b div 16 < 64"
    "byte a div 4 < 64" "byte b div 16 < 16" using byte_lt[of a] byte_lt[of b] by linarith+
  with 3 show ?case by (simp add: sextets_nth)
next
  case (4 al a b c s)
  have lt: "byte b mod 16 * 4 + byte c div 64 < 64" "byte a mod 4 * 16 + byte b div 16 < 64"
    "byte a div 4 < 64" "byte b div 16 < 16" "byte c div 64 < 4"
    using byte_lt[of a] byte_lt[of b] byte_lt[of c] by linarith+
  from 4 obtain xs where "b64_sextets al (b64_raw_encode al s) = Some xs" "b64_groups xs = Some s"
    by (auto simp: bind_eq_Some_conv)
  with 4(2) lt show ?case by (simp add: sextets_nth b64_bytes4_def)
qed

lemma raw_decode_encode:
  assumes "good_alphabet al"
  shows "b64_raw_decode al (b64_raw_encode al s) = Some s"
proof -
  have "drop_newlines (b64_raw_encode al s) = b64_raw_encode al s"
    using raw_encode_chars[OF assms, of s] assms
    by (auto simp: drop_newlines_def good_alphabet_def intro!: filter_True)
  then show ?thesis using groups_encode[OF assms] by (simp add: b64_raw_decode_def)
qed

lemma raw_encode_inject:
  "good_alphabet al \<Longrightarrow> b64_raw_encode al s = b64_raw_encode al t \<longleftrightarrow> s = t"
  by (metis option.inject raw_decode_encode)

end
