(* ===== verification/Registry.thy ===== *)
theory Registry
  imports App_Config Go_Std
begin

text \<open>
  internal/broker/registry.go: route and cost matching, the allow-list, the content type sent
  upstream, and the load of a registry, with \<open>validateTenancy\<close> and \<open>compile\<close> of tenancy.go,
  which run at load. The environment is the function \<open>getenv\<close>; the decoding of the JSON text
  into entries is the argument \<open>unmarshal\<close> (an entry may be null).
\<close>

section \<open>Routes\<close>

definition path_segs :: "string \<Rightarrow> string list" where
  "path_segs = split_on (CHR ''/'')"

definition is_template_seg :: "string \<Rightarrow> bool" where
  "is_template_seg p \<longleftrightarrow> length p \<ge> 2 \<and> hd p = CHR ''{'' \<and> last p = CHR ''}''"

fun segments_match :: "string list \<Rightarrow> string list \<Rightarrow> bool" where
  "segments_match [] [] = True"
| "segments_match (p # ps) (s # ss) =
     (if is_template_seg p then s \<noteq> [] \<and> segments_match ps ss
      else p = s \<and> segments_match ps ss)"
| "segments_match _ _ = False"

definition cost_key :: "string \<Rightarrow> string \<Rightarrow> string" where
  "cost_key method path = method @ '' '' @ path"

definition parse_cost_key :: "string \<Rightarrow> string \<times> string" where
  "parse_cost_key k =
     (case cut_at (CHR '' '') k of
        Some (m, p) \<Rightarrow> if m \<noteq> [] \<and> hd k \<noteq> CHR ''/'' then (m, p) else ([], k)
      | None \<Rightarrow> ([], k))"

definition has_brace :: "string \<Rightarrow> bool" where
  "has_brace p \<longleftrightarrow> contains_chr (CHR ''{'') p"

lemma segments_match_length: "segments_match ps ss \<Longrightarrow> length ps = length ss"
  by (induction ps ss rule: segments_match.induct) (auto split: if_splits)

lemma segments_match_nth:
  "segments_match ps ss \<longleftrightarrow> length ps = length ss \<and>
     (\<forall>i < length ps. if is_template_seg (ps ! i) then ss ! i \<noteq> [] else ps ! i = ss ! i)"
  by (induction ps ss rule: segments_match.induct) (auto simp: nth_Cons split: nat.splits)

text \<open>A pattern without a template segment matches its own segments only.\<close>

lemma segments_match_literal:
  "(\<And>p. p \<in> set ps \<Longrightarrow> \<not> is_template_seg p) \<Longrightarrow> segments_match ps ss \<longleftrightarrow> ps = ss"
  by (induction ps ss rule: segments_match.induct) auto

section \<open>What a call costs\<close>

definition credit_enabled :: "app_entry \<Rightarrow> bool" where
  "credit_enabled a \<longleftrightarrow> ae_credit a \<noteq> None"

fun scan_costs :: "string \<Rightarrow> string list \<Rightarrow> int option \<Rightarrow> cost_pattern list \<Rightarrow> int option" where
  "scan_costs m segs any [] = any"
| "scan_costs m segs any (p # ps) =
     (if \<not> segments_match (cp_segs p) segs then scan_costs m segs any ps
      else if cp_method p = m then Some (cp_cost p)
      else if cp_method p = [] \<and> any = None then scan_costs m segs (Some (cp_cost p)) ps
      else scan_costs m segs any ps)"

definition cost_for_call :: "app_entry \<Rightarrow> string \<Rightarrow> string \<Rightarrow> int" where
  "cost_for_call a method path =
     (case map_of (rt_credit_exact a) (cost_key method path) of
        Some c \<Rightarrow> c
      | None \<Rightarrow>
        (case map_of (rt_credit_exact a) (cost_key [] path) of
           Some c \<Rightarrow> c
         | None \<Rightarrow>
           (case scan_costs method (path_segs path) None (rt_credit_patterns a) of
              Some c \<Rightarrow> c
            | None \<Rightarrow> rt_credit_default a)))"

section \<open>What may be called\<close>

definition allowed :: "app_entry \<Rightarrow> string \<Rightarrow> string \<Rightarrow> bool" where
  "allowed a method0 path =
     (if rt_allow_set a = [] \<and> rt_allow_patterns a = [] then False
      else let method = to_upper method0 in
        if cost_key method path \<in> set (rt_allow_set a) \<or> cost_key [] path \<in> set (rt_allow_set a) then True
        else let segs = path_segs path in
          \<exists>pat \<in> set (rt_allow_patterns a).
            (ap_method pat = [] \<or> ap_method pat = method) \<and> segments_match (ap_segs pat) segs)"

definition tenancy_patterns :: "app_entry \<Rightarrow> string \<Rightarrow> string \<Rightarrow> string list list" where
  "tenancy_patterns a method path =
     (if cost_key (to_upper method) path \<in> set (rt_allow_set a) \<or> cost_key [] path \<in> set (rt_allow_set a)
      then [] else rt_allow_segs a)"

section \<open>Content types\<close>

definition json_type :: string where "json_type = ''application/json''"
definition multipart_type :: string where "multipart_type = ''multipart/form-data''"

definition forward_content_type :: "app_entry \<Rightarrow> string \<Rightarrow> string" where
  "forward_content_type a incoming =
     (if incoming = [] \<or> rt_fwd_ct a = [] then json_type
      else case parse_media_type incoming of
             None \<Rightarrow> json_type
           | Some (mt, _) \<Rightarrow> if to_lower mt \<notin> set (rt_fwd_ct a) then json_type else incoming)"

definition forwards_multipart :: "app_entry \<Rightarrow> bool" where
  "forwards_multipart a \<longleftrightarrow> multipart_type \<in> set (rt_fwd_ct a)"

section \<open>Tenancy blocks at load\<close>

datatype reg_err =
    RegRead | RegParse | RegMissing | RegNoMaster string | RegNoAuthHeader string
  | RegMediaType string string | RegTenancyEmpty string | RegTenancyCreate string
  | RegTenancyDelete string | RegTenancyList string string | RegTenancyLink string string
  | RegTenancyLinkType string string string | RegTenancyMultipart string
  | RegTenancyUnowned string string | RegExclusive string | RegKeyVersion string
  | RegNoSecret string | RegNoAdmin string | RegProvider string | RegNilEntry

definition compile_tenancy :: "tenancy \<Rightarrow> tenancy" where
  "compile_tenancy t = t\<lparr>
     tn_create_idx := map (\<lambda>c. (to_upper (cr_method c), path_segs (cr_path c), c)) (tn_create t),
     tn_list_idx := map (\<lambda>l. (to_upper (lr_method l), path_segs (lr_path l), l)) (tn_list t),
     tn_delete_idx := map (\<lambda>d. (to_upper (dr_method d), path_segs (dr_path d), d)) (tn_delete t),
     tn_object_idx := map (\<lambda>obj. (to_upper (or_method obj), path_segs (or_path obj), obj)) (tn_object t)\<rparr>"

definition lazy_claimed :: "tenancy \<Rightarrow> string \<Rightarrow> bool" where
  "lazy_claimed t rtype \<longleftrightarrow> (\<exists>l \<in> set (tn_list t). lr_claim_as l = rtype)"

fun check_links :: "string \<Rightarrow> string list \<Rightarrow> string \<Rightarrow> owner_link list \<Rightarrow> reg_err option" where
  "check_links aid types path [] = None"
| "check_links aid types path (k # ks) =
     (if ol_field k = [] \<or> ol_type k = [] then Some (RegTenancyLink aid path)
      else if ol_type k \<notin> set types then Some (RegTenancyLinkType aid path (ol_type k))
      else check_links aid types path ks)"

fun check_lists :: "string \<Rightarrow> string list \<Rightarrow> list_route list \<Rightarrow> reg_err option" where
  "check_lists aid types [] = None"
| "check_lists aid types (l # ls) =
     (if lr_path l = [] \<or> lr_array l = [] \<or> lr_owner_by l = [] then Some (RegTenancyList aid (lr_path l))
      else case check_links aid types (lr_path l) (lr_owner_by l) of
             Some e \<Rightarrow> Some e
           | None \<Rightarrow> check_lists aid types ls)"

text \<open>\<open>None\<close> when the block is accepted. The last check ranges over a map; the entry reported
  depends on the order, whether there is one does not.\<close>

definition validate_tenancy :: "app_entry \<Rightarrow> tenancy \<Rightarrow> reg_err option" where
  "validate_tenancy a t =
     (let aid = ae_id a;
          types = map snd (tn_param_types t) @ map snd (tn_body_refs t) @ map cr_type (tn_create t)
      in if tn_param_types t = [] \<and> tn_body_refs t = [] then Some (RegTenancyEmpty aid)
         else if \<exists>c \<in> set (tn_create t). cr_type c = [] \<or> cr_path c = [] \<or> cr_method c = [] \<or> cr_id_field c = []
         then Some (RegTenancyCreate aid)
         else if \<exists>d \<in> set (tn_delete t). dr_type d = [] \<or> dr_path d = [] \<or> dr_method d = [] \<or> dr_param d = []
         then Some (RegTenancyDelete aid)
         else case check_lists aid types (tn_list t) of
           Some e \<Rightarrow> Some e
         | None \<Rightarrow>
             if tn_body_refs t = [] \<and> forwards_multipart a then Some (RegTenancyMultipart aid)
             else (case find (\<lambda>(_, ty). ty \<notin> set (map cr_type (tn_create t)) \<and> \<not> lazy_claimed t ty)
                          (tn_param_types t) of
                     Some (_, ty) \<Rightarrow> Some (RegTenancyUnowned aid ty)
                   | None \<Rightarrow> None))"

section \<open>Loading an entry\<close>

definition and_then :: "'e + 'a \<Rightarrow> ('a \<Rightarrow> 'e + 'b) \<Rightarrow> 'e + 'b" where
  "and_then r f = (case r of Inl e \<Rightarrow> Inl e | Inr a \<Rightarrow> f a)"

lemma and_thenE:
  assumes "and_then r f = Inr b"
  obtains a where "r = Inr a" "f a = Inr b"
  using assms by (cases r) (auto simp: and_then_def)

definition no_breaker :: breaker_conf where
  "no_breaker = \<lparr>bc_threshold = 0, bc_cooldown = 0\<rparr>"

definition new_entry :: "app_config \<Rightarrow> app_entry" where
  "new_entry c = app_config.extend c
     \<lparr>rt_master = [], rt_injector = HeaderInjector [] [], rt_allow_set = [], rt_allow_patterns = [],
      rt_allow_segs = [], rt_fwd_ct = [], rt_breaker = no_breaker, rt_credit_seed = 0,
      rt_credit_default = 0, rt_credit_exact = [], rt_credit_patterns = [], rt_credit_max_per_ip = 0,
      rt_credit_mint_cooldown = 0, rt_credit_resp_cost = False, rt_credit_cost_scale = 0,
      rt_credit_balance_path = [], rt_derive_secret = [], rt_secrets_by_version = [],
      rt_provider = None\<rparr>"

definition default_str :: "string \<Rightarrow> string \<Rightarrow> string" where
  "default_str d s = (if s = [] then d else s)"

definition fill_provision :: "provision_spec \<Rightarrow> provision_spec" where
  "fill_provision p = p\<lparr>
     pv_provision_path := default_str ''/_provision'' (pv_provision_path p),
     pv_key_path := default_str ''/_key'' (pv_key_path p),
     pv_rotate_path := default_str ''/_rotate'' (pv_rotate_path p),
     pv_balance_path := default_str ''/_balance'' (pv_balance_path p),
     pv_push_path := default_str ''/push'' (pv_push_path p),
     pv_list_path := default_str ''/list'' (pv_list_path p),
     pv_artifact_max_bytes := (if pv_artifact_max_bytes p \<le> 0 then 256 * 2 ^ 20 else pv_artifact_max_bytes p),
     pv_owner_env_key := default_str ''PILOT_OWNER'' (pv_owner_env_key p)\<rparr>"

definition resolve_provision :: "(string \<Rightarrow> string) \<Rightarrow> app_entry \<Rightarrow> provision_spec \<Rightarrow> reg_err + app_entry" where
  "resolve_provision getenv a p0 =
     (let p1 = (if pv_key_version p0 \<le> 0 then p0\<lparr>pv_key_version := 1\<rparr> else p0) in
      if pv_key_version p1 > 255 then Inl (RegKeyVersion (ae_id a))
      else let p = fill_provision p1; secret = getenv (pv_secret_env p) in
        if secret = [] then Inl (RegNoSecret (ae_id a))
        else let a1 = a\<lparr>ae_provision := Some p, rt_derive_secret := secret,
                        rt_secrets_by_version := [(nat (pv_key_version p), secret)]\<rparr> in
          if pv_provider p = [] \<or> pv_provider p = ''master'' then
            Inr (a1\<lparr>rt_provider := Some (new_master_key_provider (ae_upstream a) (rt_master a) (pv_owner_env_key p))\<rparr>)
          else if pv_provider p = ''tokenmint'' then
            (let admin = getenv (pv_admin_key_env p) in
             if admin = [] then Inl (RegNoAdmin (ae_id a))
             else Inr (a1\<lparr>rt_provider := Some (new_token_mint_provider (ae_upstream a) admin)\<rparr>))
          else Inl (RegProvider (ae_id a)))"

definition load_allow :: "app_entry \<Rightarrow> app_entry" where
  "load_allow a =
     (let parsed = map (\<lambda>e. let (m, p) = parse_cost_key e in (to_upper m, p)) (ae_allow a);
          templ = filter (\<lambda>(m, p). has_brace p) parsed;
          plain = filter (\<lambda>(m, p). \<not> has_brace p) parsed
      in a\<lparr>rt_allow_set := map (\<lambda>(m, p). cost_key m p) plain,
           rt_allow_patterns := map (\<lambda>(m, p). \<lparr>ap_method = m, ap_segs = path_segs p\<rparr>) templ,
           rt_allow_segs := map (\<lambda>(m, p). path_segs p) templ\<rparr>)"

fun load_content_types :: "string \<Rightarrow> string list \<Rightarrow> string list \<Rightarrow> reg_err + string list" where
  "load_content_types aid acc [] = Inr (rev acc)"
| "load_content_types aid acc (ct # cts) =
     (case parse_media_type (trim_space ct) of
        None \<Rightarrow> Inl (RegMediaType aid ct)
      | Some (mt, _) \<Rightarrow>
          if mt = json_type then load_content_types aid acc cts
          else load_content_types aid (to_lower mt # acc) cts)"

definition load_breaker :: "app_entry \<Rightarrow> app_entry" where
  "load_breaker a =
     (let cd = ae_breaker_cooldown_ms a * millisecond;
          cd' = (if ae_breaker_threshold a > 0 \<and> cd = 0 then 30 * second else cd)
      in a\<lparr>rt_breaker := \<lparr>bc_threshold = ae_breaker_threshold a, bc_cooldown = cd'\<rparr>\<rparr>)"

definition default_max_identities_per_ip :: int where
  "default_max_identities_per_ip = 3"

definition load_costs :: "int gmap \<Rightarrow> int gmap \<times> cost_pattern list" where
  "load_costs costs =
     (let parsed = map (\<lambda>(k, c). (parse_cost_key k, c)) costs;
          plain = filter (\<lambda>((m, p), c). \<not> has_brace p) parsed;
          templ = filter (\<lambda>((m, p), c). has_brace p) parsed
      in (fold (\<lambda>((m, p), c) mp. AList.update (cost_key m p) c mp) plain [],
          map (\<lambda>((m, p), c). \<lparr>cp_method = m, cp_segs = path_segs p, cp_cost = c\<rparr>) templ))"

definition load_credit :: "app_entry \<Rightarrow> credit_spec \<Rightarrow> app_entry" where
  "load_credit a cs =
     (let cap = cs_max_identities_per_ip cs;
          (exact, pats) = load_costs (cs_cost_credits cs)
      in a\<lparr>rt_credit_seed := cs_seed_credits cs,
           rt_credit_default := (if cs_default_cost cs < 0 then 0 else cs_default_cost cs),
           rt_credit_max_per_ip := (if cap = 0 then default_max_identities_per_ip else if cap < 0 then 0 else cap),
           rt_credit_mint_cooldown := cs_mint_cooldown_ms cs * millisecond,
           rt_credit_resp_cost := (cs_cost_source cs = ''response''),
           rt_credit_cost_scale := (if cs_cost_scale cs \<le> 0 then 1 else cs_cost_scale cs),
           rt_credit_balance_path := cs_balance_path cs,
           rt_credit_exact := exact,
           rt_credit_patterns := pats\<rparr>)"

definition load_tenancy :: "app_entry \<Rightarrow> reg_err + app_entry" where
  "load_tenancy a =
     (case ae_tenancy a of
        None \<Rightarrow> Inr a
      | Some t \<Rightarrow> (case validate_tenancy a t of
                   Some e \<Rightarrow> Inl e
                 | None \<Rightarrow> Inr (a\<lparr>ae_tenancy := Some (compile_tenancy t)\<rparr>)))"

definition start_entry :: "(string \<Rightarrow> string) \<Rightarrow> app_config \<Rightarrow> app_entry" where
  "start_entry getenv c = (new_entry c)\<lparr>rt_master := getenv (ae_key_env c),
      rt_injector := injector_for (ae_auth_style c) (ae_auth_header c) (ae_auth_scheme c)
                       (ae_auth_param c) (ae_auth_user c)\<rparr>"

definition load_entry :: "(string \<Rightarrow> string) \<Rightarrow> app_config \<Rightarrow> reg_err + app_entry" where
  "load_entry getenv c =
     (if ae_id c = [] \<or> ae_upstream c = [] then Inl RegMissing
      else if getenv (ae_key_env c) = [] then Inl (RegNoMaster (ae_id c))
      else if ae_provision c = None \<and> ae_allow c \<noteq> [] \<and>
         (ae_auth_style c = [] \<or> ae_auth_style c = ''header'') \<and> trim_space (ae_auth_header c) = []
      then Inl (RegNoAuthHeader (ae_id c))
      else and_then (load_content_types (ae_id c) [] (ae_forward_content_types c)) (\<lambda>cts.
        let a2 = load_breaker ((load_allow (start_entry getenv c))\<lparr>rt_fwd_ct := cts,
                    ae_cost_field := default_str ''cost_cents'' (ae_cost_field c)\<rparr>)
        in and_then (case ae_provision a2 of None \<Rightarrow> Inr a2 | Some p \<Rightarrow> resolve_provision getenv a2 p) (\<lambda>a3.
           and_then (load_tenancy a3) (\<lambda>a4.
           case ae_credit a4 of
             None \<Rightarrow> Inr a4
           | Some cs \<Rightarrow> if ae_provision a4 \<noteq> None then Inl (RegExclusive (ae_id a4))
                        else Inr (load_credit a4 cs)))))"

section \<open>The registry\<close>

type_synonym registry = "app_entry gmap"

definition registry_get :: "registry option \<Rightarrow> string \<Rightarrow> app_entry option" where
  "registry_get r aid = (case r of None \<Rightarrow> None | Some m \<Rightarrow> map_of m aid)"

fun load_entries :: "(string \<Rightarrow> string) \<Rightarrow> registry \<Rightarrow> app_config option list \<Rightarrow> reg_err + registry" where
  "load_entries getenv reg [] = Inr reg"
| "load_entries getenv reg (None # cs) = Inl RegNilEntry"
| "load_entries getenv reg (Some c # cs) =
     (case load_entry getenv c of
        Inl e \<Rightarrow> Inl e
      | Inr a \<Rightarrow> load_entries getenv (AList.update (ae_id a) a reg) cs)"

definition parse_registry ::
  "(string \<Rightarrow> app_config option list option) \<Rightarrow> (string \<Rightarrow> string) \<Rightarrow> string \<Rightarrow> reg_err + registry" where
  "parse_registry unmarshal getenv raw =
     (if trim_space raw = [] then Inr []
      else case unmarshal raw of
             None \<Rightarrow> Inl RegParse
           | Some cs \<Rightarrow> load_entries getenv [] cs)"

text \<open>The file read: absent (\<open>None\<close>), unreadable (\<open>Inl\<close>), or its text.\<close>

definition load_registry ::
  "(string \<Rightarrow> app_config option list option) \<Rightarrow> (string \<Rightarrow> string) \<Rightarrow> (unit + string) option \<Rightarrow> reg_err + registry" where
  "load_registry unmarshal getenv file =
     (case file of
        None \<Rightarrow> Inr []
      | Some (Inl _) \<Rightarrow> Inl RegRead
      | Some (Inr raw) \<Rightarrow> parse_registry unmarshal getenv raw)"

fun insert_str :: "string \<Rightarrow> string list \<Rightarrow> string list" where
  "insert_str x [] = [x]"
| "insert_str x (y # ys) = (if str_le x y then x # y # ys else y # insert_str x ys)"

definition apps_requiring_access_key :: "registry \<Rightarrow> string list" where
  "apps_requiring_access_key r =
     foldr insert_str (map fst (filter (\<lambda>(_, a). ae_require_access_key a) r)) []"

section \<open>The allow-list\<close>

lemma no_space_upper: "CHR '' '' \<notin> set m \<Longrightarrow> CHR '' '' \<notin> set (to_upper m)"
proof
  assume m: "CHR '' '' \<notin> set m" and "CHR '' '' \<in> set (to_upper m)"
  then obtain c where c: "c \<in> set m" "chr_upper c = CHR '' ''" by (auto simp: to_upper_def)
  show False
  proof (cases "is_lower_chr c")
    case False
    with c m show False by (auto simp: chr_upper_def)
  next
    case True
    then have "byte (chr_upper c) \<ge> 65" by (auto simp: chr_upper_def is_lower_chr_def)
    with c(2) show False by (simp add: byte_def)
  qed
qed

lemma parse_cost_key_method: "parse_cost_key k = (m, p) \<Longrightarrow> CHR '' '' \<notin> set m"
  by (auto simp: parse_cost_key_def split: option.splits if_splits dest: cut_at_SomeD)

lemma cost_key_inject:
  "CHR '' '' \<notin> set m \<Longrightarrow> CHR '' '' \<notin> set n \<Longrightarrow> cost_key m p = cost_key n q \<longleftrightarrow> m = n \<and> p = q"
  using sep_inject[of "CHR '' ''" m n p q] by (simp add: cost_key_def)

text \<open>What one allow entry permits, read off its text.\<close>

definition allow_entry_matches :: "string \<Rightarrow> string \<Rightarrow> string \<Rightarrow> bool" where
  "allow_entry_matches e method path =
     (let (m, p) = parse_cost_key e in
      (to_upper m = [] \<or> to_upper m = method) \<and>
      (if has_brace p then segments_match (path_segs p) (path_segs path) else p = path))"

lemma load_allow_allowed:
  assumes m: "CHR '' '' \<notin> set m"
  shows "allowed (load_allow a) m p \<longleftrightarrow> (\<exists>e \<in> set (ae_allow a). allow_entry_matches e (to_upper m) p)"
proof -
  let ?q = "\<lambda>e. (to_upper (fst (parse_cost_key e)), snd (parse_cost_key e))"
  have sp: "CHR '' '' \<notin> set (fst (?q e))" for e
    using parse_cost_key_method[of e] no_space_upper by (cases "parse_cost_key e") auto
  have key: "cost_key (to_upper m) p = cost_key (fst (?q e)) (snd (?q e)) \<longleftrightarrow> ?q e = (to_upper m, p)" for e
    using cost_key_inject[OF no_space_upper[OF m] sp[of e]] by (auto simp: prod_eq_iff)
  have key0: "cost_key [] p = cost_key (fst (?q e)) (snd (?q e)) \<longleftrightarrow> ?q e = ([], p)" for e
    using cost_key_inject[OF _ sp[of e], of "[]"] by (auto simp: prod_eq_iff eq_commute[of "[]" "to_upper _"])
  have set1: "k \<in> set (rt_allow_set (load_allow a)) \<longleftrightarrow>
      (\<exists>e \<in> set (ae_allow a). \<not> has_brace (snd (?q e)) \<and> k = cost_key (fst (?q e)) (snd (?q e)))" for k
    by (auto simp: load_allow_def Let_def case_prod_beta image_iff)
  have set2: "(\<exists>pat \<in> set (rt_allow_patterns (load_allow a)). Q pat) \<longleftrightarrow>
      (\<exists>e \<in> set (ae_allow a). has_brace (snd (?q e)) \<and>
        Q \<lparr>ap_method = fst (?q e), ap_segs = path_segs (snd (?q e))\<rparr>)" for Q
    by (auto simp: load_allow_def Let_def case_prod_beta)
  have e0: "ae_allow a = [] \<Longrightarrow> rt_allow_set (load_allow a) = [] \<and> rt_allow_patterns (load_allow a) = []"
    by (simp add: load_allow_def)
  have "allowed (load_allow a) m p \<longleftrightarrow>
     (cost_key (to_upper m) p \<in> set (rt_allow_set (load_allow a)) \<or>
      cost_key [] p \<in> set (rt_allow_set (load_allow a)) \<or>
      (\<exists>pat \<in> set (rt_allow_patterns (load_allow a)).
        (ap_method pat = [] \<or> ap_method pat = to_upper m) \<and> segments_match (ap_segs pat) (path_segs p)))"
    by (auto simp: allowed_def Let_def)
  also have "\<dots> \<longleftrightarrow> (\<exists>e \<in> set (ae_allow a). allow_entry_matches e (to_upper m) p)"
    unfolding set1 set2 key key0 allow_entry_matches_def Let_def case_prod_beta
    by (simp only: prod_eq_iff fst_conv snd_conv allow_pattern.simps) (auto simp only: if_True if_False split: if_split)
  finally show ?thesis .
qed

text \<open>Each load step keeps the fields the earlier steps resolved.\<close>

definition route_view :: "app_entry \<Rightarrow> (string \<times> string \<times> string) \<times> (string list \<times> string list \<times> allow_pattern list \<times> string list list) \<times> string list" where
  "route_view a = ((ae_id a, ae_upstream a, rt_master a),
     (ae_allow a, rt_allow_set a, rt_allow_patterns a, rt_allow_segs a), rt_fwd_ct a)"

lemma load_breaker_view [simp]:
  "route_view (load_breaker a) = route_view a" "ae_provision (load_breaker a) = ae_provision a"
  "ae_tenancy (load_breaker a) = ae_tenancy a" "ae_credit (load_breaker a) = ae_credit a"
  by (simp_all add: route_view_def load_breaker_def Let_def)

lemma load_credit_view [simp]:
  "route_view (load_credit a cs) = route_view a" "ae_provision (load_credit a cs) = ae_provision a"
  "ae_tenancy (load_credit a cs) = ae_tenancy a" "ae_credit (load_credit a cs) = ae_credit a"
  by (simp_all add: route_view_def load_credit_def Let_def case_prod_beta)

lemma load_tenancy_view:
  assumes "load_tenancy a = Inr b"
  shows "route_view b = route_view a \<and> ae_provision b = ae_provision a \<and> ae_credit b = ae_credit a"
proof (cases "ae_tenancy a")
  case None
  with assms show ?thesis by (simp add: load_tenancy_def)
next
  case (Some t)
  with assms have "b = a\<lparr>ae_tenancy := Some (compile_tenancy t)\<rparr>"
    by (auto simp: load_tenancy_def split: option.splits)
  then show ?thesis by (simp add: route_view_def)
qed

lemma resolve_provision_view:
  assumes "resolve_provision getenv a p = Inr b"
  shows "route_view b = route_view a \<and> ae_tenancy b = ae_tenancy a \<and> ae_credit b = ae_credit a"
  using assms by (auto simp: resolve_provision_def Let_def route_view_def split: if_splits)

definition routed_entry :: "(string \<Rightarrow> string) \<Rightarrow> app_config \<Rightarrow> string list \<Rightarrow> app_entry" where
  "routed_entry getenv c cts = load_breaker ((load_allow (start_entry getenv c))\<lparr>rt_fwd_ct := cts,
      ae_cost_field := default_str ''cost_cents'' (ae_cost_field c)\<rparr>)"

lemma load_entry_stages:
  assumes "load_entry getenv c = Inr a"
  obtains cts a3 a4 where
    "ae_id c \<noteq> []" "ae_upstream c \<noteq> []" "getenv (ae_key_env c) \<noteq> []"
    "load_content_types (ae_id c) [] (ae_forward_content_types c) = Inr cts"
    "(case ae_provision (routed_entry getenv c cts) of None \<Rightarrow> Inr (routed_entry getenv c cts)
      | Some p \<Rightarrow> resolve_provision getenv (routed_entry getenv c cts) p) = Inr a3"
    "load_tenancy a3 = Inr a4"
    "(ae_credit a4 = None \<and> a = a4) \<or> (\<exists>cs. ae_credit a4 = Some cs \<and> ae_provision a4 = None \<and> a = load_credit a4 cs)"
proof -
  from assms have g: "ae_id c \<noteq> []" "ae_upstream c \<noteq> []" "getenv (ae_key_env c) \<noteq> []"
    by (auto simp: load_entry_def split: if_splits)
  from assms have "and_then (load_content_types (ae_id c) [] (ae_forward_content_types c)) (\<lambda>cts.
      and_then (case ae_provision (routed_entry getenv c cts) of None \<Rightarrow> Inr (routed_entry getenv c cts)
        | Some p \<Rightarrow> resolve_provision getenv (routed_entry getenv c cts) p) (\<lambda>a3.
      and_then (load_tenancy a3) (\<lambda>a4. case ae_credit a4 of None \<Rightarrow> Inr a4
        | Some cs \<Rightarrow> if ae_provision a4 \<noteq> None then Inl (RegExclusive (ae_id a4)) else Inr (load_credit a4 cs)))) = Inr a"
    unfolding load_entry_def Let_def routed_entry_def by (simp only: sum.distinct simp_thms split: if_splits)
  then obtain cts a3 a4 where st:
    "load_content_types (ae_id c) [] (ae_forward_content_types c) = Inr cts"
    "(case ae_provision (routed_entry getenv c cts) of None \<Rightarrow> Inr (routed_entry getenv c cts)
      | Some p \<Rightarrow> resolve_provision getenv (routed_entry getenv c cts) p) = Inr a3"
    "load_tenancy a3 = Inr a4"
    and cr: "(case ae_credit a4 of None \<Rightarrow> Inr a4
        | Some cs \<Rightarrow> if ae_provision a4 \<noteq> None then Inl (RegExclusive (ae_id a4)) else Inr (load_credit a4 cs)) = Inr a"
    by (elim and_thenE) blast
  from cr have "(ae_credit a4 = None \<and> a = a4) \<or> (\<exists>cs. ae_credit a4 = Some cs \<and> ae_provision a4 = None \<and> a = load_credit a4 cs)"
    by (auto split: option.splits if_splits)
  with g st show ?thesis by (intro that)
qed

lemma new_entry_fields [simp]:
  "ae_id (new_entry c) = ae_id c" "ae_upstream (new_entry c) = ae_upstream c"
  "ae_allow (new_entry c) = ae_allow c" "ae_provision (new_entry c) = ae_provision c"
  "ae_tenancy (new_entry c) = ae_tenancy c" "ae_credit (new_entry c) = ae_credit c"
  by (simp_all add: new_entry_def app_config.defs)

lemma start_entry_fields [simp]:
  "ae_id (start_entry g c) = ae_id c" "ae_upstream (start_entry g c) = ae_upstream c"
  "ae_allow (start_entry g c) = ae_allow c" "ae_provision (start_entry g c) = ae_provision c"
  "ae_tenancy (start_entry g c) = ae_tenancy c" "ae_credit (start_entry g c) = ae_credit c"
  "rt_master (start_entry g c) = g (ae_key_env c)"
  by (simp_all add: start_entry_def)

lemma load_allow_fields [simp]:
  "ae_id (load_allow a) = ae_id a" "ae_upstream (load_allow a) = ae_upstream a"
  "ae_allow (load_allow a) = ae_allow a" "ae_provision (load_allow a) = ae_provision a"
  "ae_tenancy (load_allow a) = ae_tenancy a" "ae_credit (load_allow a) = ae_credit a"
  "rt_master (load_allow a) = rt_master a"
  by (simp_all add: load_allow_def Let_def)

lemma routed_entry_fields [simp]:
  "ae_provision (routed_entry g c cts) = ae_provision c" "ae_tenancy (routed_entry g c cts) = ae_tenancy c"
  "ae_credit (routed_entry g c cts) = ae_credit c"
  "route_view (routed_entry g c cts) = ((ae_id c, ae_upstream c, g (ae_key_env c)),
     (ae_allow c, rt_allow_set (load_allow (start_entry g c)), rt_allow_patterns (load_allow (start_entry g c)),
      rt_allow_segs (load_allow (start_entry g c))), cts)"
  by (simp_all add: routed_entry_def) (simp add: route_view_def)

lemma load_entry_view:
  assumes "load_entry getenv c = Inr a"
  obtains cts where "load_content_types (ae_id c) [] (ae_forward_content_types c) = Inr cts"
    "route_view a = route_view (routed_entry getenv c cts)"
proof -
  from assms obtain cts a3 a4 where
    cts: "load_content_types (ae_id c) [] (ae_forward_content_types c) = Inr cts"
    and a3: "(case ae_provision (routed_entry getenv c cts) of None \<Rightarrow> Inr (routed_entry getenv c cts)
      | Some p \<Rightarrow> resolve_provision getenv (routed_entry getenv c cts) p) = Inr a3"
    and a4: "load_tenancy a3 = Inr a4"
    and a: "(ae_credit a4 = None \<and> a = a4) \<or> (\<exists>cs. ae_credit a4 = Some cs \<and> ae_provision a4 = None \<and> a = load_credit a4 cs)"
    by (rule load_entry_stages)
  have "route_view a = route_view a4" using a by auto
  also have "\<dots> = route_view a3" using load_tenancy_view[OF a4] by simp
  also have "\<dots> = route_view (routed_entry getenv c cts)"
    using a3 by (auto simp del: routed_entry_fields split: option.splits dest: resolve_provision_view)
  finally show ?thesis using cts that by blast
qed

text \<open>Observation: A loaded app may be called with a method and a path exactly when some entry of its
  allow list permits them: the entry's method is absent or equal up to letter case, and its path
  is the path itself or a template it fits.\<close>

theorem allowed_iff_listed:
  assumes "load_entry getenv c = Inr a" "CHR '' '' \<notin> set m"
  shows "allowed a m p \<longleftrightarrow> (\<exists>e \<in> set (ae_allow c). allow_entry_matches e (to_upper m) p)"
proof -
  from load_entry_view[OF assms(1)] obtain cts where "route_view a = route_view (routed_entry getenv c cts)" .
  then have "rt_allow_set a = rt_allow_set (load_allow (start_entry getenv c))"
    "rt_allow_patterns a = rt_allow_patterns (load_allow (start_entry getenv c))"
    unfolding routed_entry_fields by (simp_all add: route_view_def)
  then have "allowed a m p = allowed (load_allow (start_entry getenv c)) m p" by (simp add: allowed_def)
  with load_allow_allowed[OF assms(2)] show ?thesis by simp
qed

section \<open>What a loaded registry guarantees\<close>

lemma resolve_provision_ok:
  assumes "resolve_provision getenv a p = Inr b"
  shows "\<exists>q. ae_provision b = Some q \<and> 1 \<le> pv_key_version q \<and> pv_key_version q \<le> 255 \<and>
     rt_derive_secret b \<noteq> [] \<and> rt_secrets_by_version b = [(nat (pv_key_version q), rt_derive_secret b)] \<and>
     rt_provider b \<noteq> None"
  using assms by (auto simp: resolve_provision_def fill_provision_def Let_def split: if_splits)

text \<open>The part of an entry that the credit step leaves alone and the provision step fills.\<close>

definition provision_ready :: "app_entry \<Rightarrow> bool" where
  "provision_ready a \<longleftrightarrow> (\<forall>q. ae_provision a = Some q \<longrightarrow>
     1 \<le> pv_key_version q \<and> pv_key_version q \<le> 255 \<and> rt_derive_secret a \<noteq> [] \<and>
     rt_secrets_by_version a = [(nat (pv_key_version q), rt_derive_secret a)] \<and> rt_provider a \<noteq> None)"

definition credit_ready :: "app_entry \<Rightarrow> bool" where
  "credit_ready a \<longleftrightarrow> (ae_credit a \<noteq> None \<longrightarrow>
     ae_provision a = None \<and> 0 \<le> rt_credit_default a \<and> 0 \<le> rt_credit_max_per_ip a \<and> 1 \<le> rt_credit_cost_scale a)"

definition tenancy_ready :: "app_entry \<Rightarrow> bool" where
  "tenancy_ready a \<longleftrightarrow> (\<forall>t. ae_tenancy a = Some t \<longrightarrow>
     (tn_param_types t \<noteq> [] \<or> tn_body_refs t \<noteq> []) \<and>
     (forwards_multipart a \<longrightarrow> tn_body_refs t \<noteq> []) \<and>
     (\<forall>(n, ty) \<in> set (tn_param_types t). ty \<in> set (map cr_type (tn_create t)) \<or> lazy_claimed t ty))"

lemma load_tenancy_ready:
  assumes "load_tenancy a = Inr b"
  shows "tenancy_ready b"
proof (cases "ae_tenancy a")
  case None
  with assms show ?thesis by (simp add: load_tenancy_def tenancy_ready_def)
next
  case (Some t)
  with assms have v: "validate_tenancy a t = None" and b: "b = a\<lparr>ae_tenancy := Some (compile_tenancy t)\<rparr>"
    by (auto simp: load_tenancy_def split: option.splits)
  from v have "tn_param_types t \<noteq> [] \<or> tn_body_refs t \<noteq> []" "tn_body_refs t \<noteq> [] \<or> \<not> forwards_multipart a"
    "\<forall>(n, ty) \<in> set (tn_param_types t). ty \<in> set (map cr_type (tn_create t)) \<or> lazy_claimed t ty"
    by (auto simp: validate_tenancy_def Let_def find_None_iff split: if_splits option.splits)
  with b show ?thesis
    by (auto simp: tenancy_ready_def compile_tenancy_def forwards_multipart_def lazy_claimed_def)
qed

lemma load_tenancy_keeps:
  assumes "load_tenancy a = Inr b"
  shows "rt_derive_secret b = rt_derive_secret a \<and> rt_secrets_by_version b = rt_secrets_by_version a \<and>
    rt_provider b = rt_provider a"
  using assms by (auto simp: load_tenancy_def split: option.splits)

lemma load_credit_keeps:
  "rt_derive_secret (load_credit a cs) = rt_derive_secret a"
  "rt_secrets_by_version (load_credit a cs) = rt_secrets_by_version a"
  "rt_provider (load_credit a cs) = rt_provider a"
  "forwards_multipart (load_credit a cs) = forwards_multipart a"
  "0 \<le> rt_credit_default (load_credit a cs)" "0 \<le> rt_credit_max_per_ip (load_credit a cs)"
  "1 \<le> rt_credit_cost_scale (load_credit a cs)"
  by (simp_all add: load_credit_def Let_def case_prod_beta forwards_multipart_def
      default_max_identities_per_ip_def)

definition entry_safe :: "app_entry \<Rightarrow> bool" where
  "entry_safe a \<longleftrightarrow> ae_id a \<noteq> [] \<and> ae_upstream a \<noteq> [] \<and> rt_master a \<noteq> [] \<and>
     provision_ready a \<and> credit_ready a \<and> tenancy_ready a"

lemma load_entry_safe:
  assumes "load_entry getenv c = Inr a"
  shows "entry_safe a"
proof -
  from assms obtain cts a3 a4 where
    g: "ae_id c \<noteq> []" "ae_upstream c \<noteq> []" "getenv (ae_key_env c) \<noteq> []"
    and a3: "(case ae_provision (routed_entry getenv c cts) of None \<Rightarrow> Inr (routed_entry getenv c cts)
      | Some p \<Rightarrow> resolve_provision getenv (routed_entry getenv c cts) p) = Inr a3"
    and a4: "load_tenancy a3 = Inr a4"
    and a: "(ae_credit a4 = None \<and> a = a4) \<or> (\<exists>cs. ae_credit a4 = Some cs \<and> ae_provision a4 = None \<and> a = load_credit a4 cs)"
    by (rule load_entry_stages)
  have "provision_ready a3"
    using a3 by (auto simp: provision_ready_def split: option.splits dest!: resolve_provision_ok)
  then have p4: "provision_ready a4"
    using load_tenancy_keeps[OF a4] load_tenancy_view[OF a4] by (simp add: provision_ready_def)
  note t4 = load_tenancy_ready[OF a4]
  from load_entry_view[OF assms] obtain cts' where "route_view a = route_view (routed_entry getenv c cts')" .
  then have "ae_id a \<noteq> [] \<and> ae_upstream a \<noteq> [] \<and> rt_master a \<noteq> []"
    using g unfolding routed_entry_fields by (simp add: route_view_def)
  with a p4 t4 show ?thesis
    by (auto simp: entry_safe_def provision_ready_def credit_ready_def tenancy_ready_def load_credit_keeps)
qed

lemma load_entry_id: "load_entry getenv c = Inr a \<Longrightarrow> ae_id a = ae_id c"
proof -
  assume "load_entry getenv c = Inr a"
  then obtain cts where "route_view a = route_view (routed_entry getenv c cts)" by (rule load_entry_view)
  then show ?thesis unfolding routed_entry_fields by (simp add: route_view_def)
qed

definition filed :: "registry \<Rightarrow> bool" where
  "filed reg \<longleftrightarrow> (\<forall>i a. map_of reg i = Some a \<longrightarrow> i = ae_id a \<and> entry_safe a)"

lemma filed_update: "filed reg \<Longrightarrow> entry_safe a \<Longrightarrow> filed (AList.update (ae_id a) a reg)"
  by (simp add: filed_def update_conv')

lemma load_entries_filed:
  "load_entries getenv reg cs = Inr reg' \<Longrightarrow> filed reg \<Longrightarrow> filed reg'"
proof (induction getenv reg cs rule: load_entries.induct)
  case (3 getenv reg c cs)
  then obtain b where b: "load_entry getenv c = Inr b" by (auto split: sum.splits)
  then show ?case using 3(1)[OF b] 3(2,3) filed_update[OF 3(3) load_entry_safe[OF b]] by simp
qed simp_all


section \<open>Prices and content types of a loaded app\<close>

lemma listed_key:
  assumes "parse_cost_key k = (m, p)" "parse_cost_key k' = (m', p')" "cost_key m p = cost_key m' p'"
  shows "k = k'"
proof -
  have key: "if fst (parse_cost_key x) = [] then parse_cost_key x = ([], x) else
      x = cost_key (fst (parse_cost_key x)) (snd (parse_cost_key x)) \<and> CHR '' '' \<notin> set (fst (parse_cost_key x))" for x
    by (auto simp: parse_cost_key_def cost_key_def split: option.splits dest!: cut_at_SomeD)
  have "CHR '' '' \<notin> set m" "CHR '' '' \<notin> set m'" using assms parse_cost_key_method by blast+
  with assms(3) have "m = m'" "p = p'" by (simp_all add: cost_key_inject)
  with key[of k] key[of k'] assms(1,2) show ?thesis by (auto split: if_splits)
qed

lemma fold_update_distinct:
  assumes "x \<in> set xs" "\<And>y. y \<in> set xs \<Longrightarrow> f y = f x \<Longrightarrow> g y = g x"
  shows "map_of (fold (\<lambda>y. AList.update (f y) (g y)) xs m) (f x) = Some (g x)"
proof -
  have "map_of (fold (\<lambda>y. AList.update (f y) (g y)) xs m) (f x) = Some (g x)"
    if "\<forall>y \<in> set xs. f y = f x \<longrightarrow> g y = g x" "x \<in> set xs \<or> map_of m (f x) = Some (g x)" for xs m
    using that by (induction xs arbitrary: m) (auto simp: update_conv')
  then show ?thesis using assms by blast
qed

lemma load_credit_exact:
  assumes "wf_map (cs_cost_credits cs)" "map_of (cs_cost_credits cs) k = Some n"
    and "parse_cost_key k = (m, p)" "\<not> has_brace p"
  shows "map_of (rt_credit_exact (load_credit a cs)) (cost_key m p) = Some n"
proof -
  let ?f = "\<lambda>((m, p), c :: int). cost_key m p" and ?g = "\<lambda>((m :: string, p :: string), c :: int). c"
  let ?P = "map (\<lambda>(k, c). (parse_cost_key k, c)) (cs_cost_credits cs)"
  let ?xs = "filter (\<lambda>((m, p), c). \<not> has_brace p) ?P"
  have mem: "((m, p), n) \<in> set ?xs"
    using map_of_SomeD[OF assms(2)] assms(3,4) by force
  have same: "y = ((m, p), n)" if "y \<in> set ?xs" "?f y = ?f ((m, p), n)" for y
  proof -
    obtain m' p' c' where y: "y = ((m', p'), c')" by (metis prod.exhaust)
    with that(1) obtain k' where k': "(k', c') \<in> set (cs_cost_credits cs)" "parse_cost_key k' = (m', p')" by auto
    have "k' = k" using listed_key[OF k'(2) assms(3)] that(2) y by simp
    with k' assms have "map_of (cs_cost_credits cs) k = Some c'" by (simp add: wf_map_def)
    with assms(2,3) k' y \<open>k' = k\<close> show ?thesis by simp
  qed
  have "map_of (fold (\<lambda>y. AList.update (?f y) (?g y)) ?xs []) (?f ((m, p), n)) = Some (?g ((m, p), n))"
    by (rule fold_update_distinct) (use mem same in blast)+
  then show ?thesis
    by (simp add: load_credit_def load_costs_def Let_def case_prod_beta')
qed

text \<open>A loaded credit app carries the prices of its own configuration.\<close>

lemma loaded_credit:
  assumes "load_entry getenv c = Inr a" "ae_credit c = Some cs"
  obtains b where "a = load_credit b cs"
proof -
  from assms(1) obtain cts a3 a4 where
    a3: "(case ae_provision (routed_entry getenv c cts) of None \<Rightarrow> Inr (routed_entry getenv c cts)
      | Some p \<Rightarrow> resolve_provision getenv (routed_entry getenv c cts) p) = Inr a3"
    and a4: "load_tenancy a3 = Inr a4"
    and a: "(ae_credit a4 = None \<and> a = a4) \<or> (\<exists>cs. ae_credit a4 = Some cs \<and> ae_provision a4 = None \<and> a = load_credit a4 cs)"
    by (rule load_entry_stages)
  have "ae_credit a3 = Some cs"
    using a3 assms(2) by (auto split: option.splits dest: resolve_provision_view)
  then have "ae_credit a4 = Some cs" using load_tenancy_view[OF a4] by simp
  with a have "a = load_credit a4 cs" by auto
  then show ?thesis by (rule that)
qed

text \<open>Observation: In a loaded credit app a call whose method and path are listed without a template
  costs exactly the listed price, and a call that matches no entry costs the default.\<close>

theorem listed_price:
  assumes "load_entry getenv c = Inr a" "ae_credit c = Some cs" "wf_map (cs_cost_credits cs)"
  shows "(\<forall>k n m p. map_of (cs_cost_credits cs) k = Some n \<and> parse_cost_key k = (m, p) \<and> m \<noteq> [] \<and>
            \<not> has_brace p \<longrightarrow> cost_for_call a m p = n) \<and>
         (cs_cost_credits cs = [] \<longrightarrow> (\<forall>m p. cost_for_call a m p = max 0 (cs_default_cost cs)))"
proof -
  from loaded_credit[OF assms(1,2)] obtain b where a: "a = load_credit b cs" .
  have "cost_for_call a m p = n"
    if "map_of (cs_cost_credits cs) k = Some n" "parse_cost_key k = (m, p)" "\<not> has_brace p" for k n m p
    using load_credit_exact[OF assms(3) that(1,2,3), of b] by (simp add: a cost_for_call_def)
  moreover have "cost_for_call a m p = max 0 (cs_default_cost cs)" if "cs_cost_credits cs = []" for m p
    using that by (simp add: a cost_for_call_def load_credit_def load_costs_def Let_def max_def)
  ultimately show ?thesis by blast
qed

lemma load_content_types_sound:
  "load_content_types aid acc cts = Inr out \<Longrightarrow> x \<in> set out \<Longrightarrow>
   x \<in> set acc \<or> (\<exists>ct \<in> set cts. \<exists>mt ps. parse_media_type (trim_space ct) = Some (mt, ps) \<and> x = to_lower mt)"
proof (induction aid acc cts rule: load_content_types.induct)
  case (2 aid acc ct cts)
  then obtain mt ps where m: "parse_media_type (trim_space ct) = Some (mt, ps)" by (auto split: option.splits)
  with 2 show ?case by (cases "mt = json_type") auto
qed auto

text \<open>Observation: The content type a loaded app sends upstream is JSON, or the caller's own header, whose
  media type the app has opted in to.\<close>

theorem content_type_opted_in:
  assumes "load_entry getenv c = Inr a"
  shows "forward_content_type a incoming = json_type \<or>
    forward_content_type a incoming = incoming \<and>
    (\<exists>ct mt mt' ps ps'. ct \<in> set (ae_forward_content_types c) \<and> parse_media_type (trim_space ct) = Some (mt, ps) \<and>
       parse_media_type incoming = Some (mt', ps') \<and> to_lower mt' = to_lower mt)"
proof (cases "forward_content_type a incoming = json_type")
  case False
  then obtain mt' ps' where m: "parse_media_type incoming = Some (mt', ps')" "to_lower mt' \<in> set (rt_fwd_ct a)"
    and f: "forward_content_type a incoming = incoming"
    by (auto simp: forward_content_type_def split: if_splits option.splits)
  from load_entry_view[OF assms] obtain cts where
    c: "load_content_types (ae_id c) [] (ae_forward_content_types c) = Inr cts"
    and "route_view a = route_view (routed_entry getenv c cts)" .
  then have "rt_fwd_ct a = cts" unfolding routed_entry_fields by (simp add: route_view_def)
  with load_content_types_sound[OF c] m f show ?thesis by fastforce
qed simp

section \<open>A concrete registry\<close>

definition plain_config :: "string \<Rightarrow> app_config" where
  "plain_config i = \<lparr>ae_id = i, ae_upstream = ''https://up'', ae_key_env = ''KEY'', ae_auth_style = ''header'',
     ae_auth_header = ''X-Key'', ae_auth_scheme = [], ae_auth_param = [], ae_auth_user = [],
     ae_allow = [''POST /v1/x'', ''/v1/x/{id}''], ae_quota = 5, ae_cost_field = [], ae_timeout_ms = 0,
     ae_breaker_threshold = 2, ae_breaker_cooldown_ms = 0, ae_provision = None, ae_credit = None,
     ae_tenancy = None, ae_require_access_key = False,
     ae_forward_content_types = [''text/plain''], ae_max_body_bytes = 0\<rparr>"

definition sample_credit :: credit_spec where
  "sample_credit = \<lparr>cs_seed_credits = 100, cs_cost_credits = [(''POST /v1/x'', 3)],
     cs_default_cost = 0, cs_max_identities_per_ip = 0, cs_mint_cooldown_ms = 0, cs_cost_source = [],
     cs_cost_scale = 0, cs_balance_path = ''/_bal''\<rparr>"

definition credit_config :: app_config where
  "credit_config = (plain_config ''a'')\<lparr>ae_credit := Some sample_credit\<rparr>"

definition sample_env :: "string \<Rightarrow> string" where
  "sample_env k = (if k = ''KEY'' then ''master'' else [])"

definition credit_entry :: app_entry where
  "credit_entry = (case load_entry sample_env credit_config of Inr a \<Rightarrow> a | Inl _ \<Rightarrow> new_entry credit_config)"

lemma credit_entry_loads: "load_entry sample_env credit_config = Inr credit_entry"
  by code_simp

theorem allowed_iff_listed_witness:
  "allowed credit_entry ''post'' ''/v1/x'' \<and>
   (allowed credit_entry ''post'' ''/v1/x'' \<longleftrightarrow>
      (\<exists>e \<in> set (ae_allow credit_config). allow_entry_matches e (to_upper ''post'') ''/v1/x''))"
proof
  show "allowed credit_entry ''post'' ''/v1/x''" by code_simp
  show "allowed credit_entry ''post'' ''/v1/x'' \<longleftrightarrow>
      (\<exists>e \<in> set (ae_allow credit_config). allow_entry_matches e (to_upper ''post'') ''/v1/x'')"
    by (rule allowed_iff_listed[OF credit_entry_loads]) simp
qed


theorem listed_price_witness: "cost_for_call credit_entry ''POST'' ''/v1/x'' = 3"
proof -
  have c: "ae_credit credit_config = Some sample_credit" by (simp add: credit_config_def)
  have "wf_map (cs_cost_credits sample_credit)" by (simp add: sample_credit_def wf_map_def)
  from listed_price[OF credit_entry_loads c this] show ?thesis
    by (rule conjE) (erule allE[of _ "''POST /v1/x''"], simp add: sample_credit_def parse_cost_key_def has_brace_def contains_chr_def)
qed

theorem content_type_opted_in_witness:
  "forward_content_type credit_entry ''Text/Plain; a=b'' = ''Text/Plain; a=b''"
proof -
  have "forward_content_type credit_entry ''Text/Plain; a=b'' \<noteq> json_type" by code_simp
  then show ?thesis using content_type_opted_in[OF credit_entry_loads, of "''Text/Plain; a=b''"] by blast
qed

text \<open>Observation: The allow-list ignores the letter case of the method and the price list does not: a
  loaded app admits "post" where it lists a price for "POST", and charges it the default.\<close>

theorem lower_case_method_unpriced:
  "load_entry sample_env credit_config = Inr credit_entry \<and>
   allowed credit_entry ''POST'' ''/v1/x'' \<and> cost_for_call credit_entry ''POST'' ''/v1/x'' = 3 \<and>
   allowed credit_entry ''post'' ''/v1/x'' \<and> cost_for_call credit_entry ''post'' ''/v1/x'' = 0"
  using credit_entry_loads by (intro conjI; (assumption | code_simp))

end
