(* ===== verification/Breaker.thy ===== *)
theory Breaker
  imports Registry
begin

text \<open>
  internal/broker/breaker.go: the per-application circuit breaker. Its configuration (threshold,
  cooldown) is part of the registry entry; its mutable fields are the record below. \<open>Allow\<close> and
  \<open>Record\<close> each hold the mutex throughout, so each is one step.
\<close>

section \<open>State and operations\<close>

record breaker =
  bk_failures :: int
  bk_opened_at :: gotime
  bk_open :: bool
  bk_probing :: bool

definition new_breaker :: breaker where
  "new_breaker = \<lparr>bk_failures = 0, bk_opened_at = 0, bk_open = False, bk_probing = False\<rparr>"

definition breaker_allow :: "breaker_conf \<Rightarrow> gotime \<Rightarrow> breaker \<Rightarrow> bool \<times> breaker" where
  "breaker_allow c now b =
     (if bc_threshold c \<le> 0 then (True, b)
      else if \<not> bk_open b then (True, b)
      else if time_sub now (bk_opened_at b) \<ge> bc_cooldown c \<and> \<not> bk_probing b
      then (True, b\<lparr>bk_probing := True\<rparr>)
      else (False, b))"

definition breaker_record :: "breaker_conf \<Rightarrow> gotime \<Rightarrow> bool \<Rightarrow> breaker \<Rightarrow> breaker" where
  "breaker_record c now success b =
     (if bc_threshold c \<le> 0 then b
      else if success then b\<lparr>bk_failures := 0, bk_open := False, bk_probing := False\<rparr>
      else let b1 = b\<lparr>bk_failures := bk_failures b + 1\<rparr> in
        if bk_open b1 then b1\<lparr>bk_probing := False, bk_opened_at := now\<rparr>
        else if bk_failures b1 \<ge> bc_threshold c then b1\<lparr>bk_open := True, bk_opened_at := now\<rparr>
        else b1)"

section \<open>Runs\<close>

text \<open>What callers do to a breaker, in the order the mutex grants it: ask, or report an outcome.\<close>

datatype breaker_event = Ask gotime | Report gotime bool

fun event_time :: "breaker_event \<Rightarrow> gotime" where
  "event_time (Ask t) = t"
| "event_time (Report t s) = t"

fun breaker_step :: "breaker_conf \<Rightarrow> breaker_event \<Rightarrow> breaker \<Rightarrow> breaker" where
  "breaker_step c (Ask t) b = snd (breaker_allow c t b)"
| "breaker_step c (Report t s) b = breaker_record c t s b"

definition breaker_run :: "breaker_conf \<Rightarrow> breaker_event list \<Rightarrow> breaker \<Rightarrow> breaker" where
  "breaker_run c es b = fold (breaker_step c) es b"

text \<open>The reachable states: closed with fewer failures than the threshold and no probe, or open.\<close>

definition breaker_inv :: "breaker_conf \<Rightarrow> breaker \<Rightarrow> bool" where
  "breaker_inv c b \<longleftrightarrow> 0 \<le> bk_failures b \<and>
     (\<not> bk_open b \<longrightarrow> \<not> bk_probing b \<and> bk_failures b < bc_threshold c) \<and>
     (bk_open b \<longrightarrow> bc_threshold c \<le> bk_failures b)"

lemma breaker_run_simps [simp]:
  "breaker_run c [] b = b"
  "breaker_run c (e # es) b = breaker_run c es (breaker_step c e b)"
  "breaker_run c (es @ fs) b = breaker_run c fs (breaker_run c es b)"
  by (simp_all add: breaker_run_def)

lemma new_breaker_inv: "0 < bc_threshold c \<Longrightarrow> breaker_inv c new_breaker"
  by (simp add: breaker_inv_def new_breaker_def)

lemma breaker_allow_inv: "breaker_inv c b \<Longrightarrow> breaker_inv c (snd (breaker_allow c t b))"
  by (auto simp: breaker_inv_def breaker_allow_def)

lemma breaker_record_inv: "breaker_inv c b \<Longrightarrow> 0 < bc_threshold c \<Longrightarrow> breaker_inv c (breaker_record c t s b)"
  by (auto simp: breaker_inv_def breaker_record_def Let_def)

lemma breaker_step_inv: "0 < bc_threshold c \<Longrightarrow> breaker_inv c b \<Longrightarrow> breaker_inv c (breaker_step c e b)"
  by (cases e) (simp_all add: breaker_allow_inv breaker_record_inv)

lemma breaker_run_inv: "0 < bc_threshold c \<Longrightarrow> breaker_inv c b \<Longrightarrow> breaker_inv c (breaker_run c es b)"
  by (induction es arbitrary: b) (simp_all add: breaker_step_inv)

section \<open>Properties\<close>

text \<open>Consecutive failures accumulate while the breaker is closed.\<close>

lemma failures_accumulate:
  assumes "breaker_inv c b" "\<not> bk_open b" "bk_failures b + int (length ts) < bc_threshold c"
  shows "bk_failures (breaker_run c (map (\<lambda>t. Report t False) ts) b) = bk_failures b + int (length ts) \<and>
    \<not> bk_open (breaker_run c (map (\<lambda>t. Report t False) ts) b) \<and>
    breaker_inv c (breaker_run c (map (\<lambda>t. Report t False) ts) b)"
  using assms
proof (induction ts arbitrary: b)
  case Nil
  then show ?case by simp
next
  case (Cons t ts)
  let ?b = "breaker_record c t False b"
  have thr: "0 < bc_threshold c" using Cons.prems(1,3) by (simp add: breaker_inv_def)
  have "bk_failures ?b = bk_failures b + 1" "\<not> bk_open ?b"
    using Cons.prems thr by (auto simp: breaker_record_def Let_def)
  with Cons.IH[of ?b] breaker_record_inv[OF Cons.prems(1) thr] Cons.prems(3) show ?case by simp
qed

text \<open>Observation: From a fresh breaker with threshold n, the breaker lets every call through while
  fewer than n consecutive failures are reported, and after n of them it is open and refuses
  every call made before the cooldown has passed since the last failure.\<close>

theorem breaker_opens_at_threshold:
  assumes "bc_threshold c = int n" "0 < n" "length ts = n" "k < n"
    and "0 \<le> t - last ts" "t - last ts < bc_cooldown c"
  shows "fst (breaker_allow c t (breaker_run c (map (\<lambda>u. Report u False) (take k ts)) new_breaker)) \<and>
    \<not> fst (breaker_allow c t (breaker_run c (map (\<lambda>u. Report u False) ts) new_breaker))"
proof -
  have thr: "0 < bc_threshold c" using assms(1,2) by simp
  note acc = failures_accumulate[OF new_breaker_inv[OF thr]]
  have len: "length (take k ts) = k" using assms(3,4) by simp
  have "\<not> bk_open (breaker_run c (map (\<lambda>u. Report u False) (take k ts)) new_breaker)"
    using acc[of "take k ts"] assms(1,4) len by (simp add: new_breaker_def)
  then have low: "fst (breaker_allow c t (breaker_run c (map (\<lambda>u. Report u False) (take k ts)) new_breaker))"
    by (simp add: breaker_allow_def)
  have ts: "ts = butlast ts @ [last ts]" using assms(2,3) by (metis append_butlast_last_id length_greater_0_conv)
  let ?b = "breaker_run c (map (\<lambda>u. Report u False) (butlast ts)) new_breaker"
  have b: "bk_failures ?b = int n - 1" "\<not> bk_open ?b"
    using acc[of "butlast ts"] assms(1-3) by (auto simp: new_breaker_def)
  have "breaker_run c (map (\<lambda>u. Report u False) ts) new_breaker = breaker_record c (last ts) False ?b"
    by (subst ts) simp
  then have "\<not> fst (breaker_allow c t (breaker_run c (map (\<lambda>u. Report u False) ts) new_breaker))"
    using b assms thr by (simp add: breaker_record_def breaker_allow_def Let_def time_sub_def)
  with low show ?thesis by blast
qed

theorem breaker_opens_at_threshold_witness:
  "fst (breaker_allow \<lparr>bc_threshold = 2, bc_cooldown = 10\<rparr> 7
     (breaker_run \<lparr>bc_threshold = 2, bc_cooldown = 10\<rparr> (map (\<lambda>u. Report u False) (take 1 [3, 5])) new_breaker)) \<and>
   \<not> fst (breaker_allow \<lparr>bc_threshold = 2, bc_cooldown = 10\<rparr> 7
     (breaker_run \<lparr>bc_threshold = 2, bc_cooldown = 10\<rparr> (map (\<lambda>u. Report u False) [3, 5]) new_breaker))"
  by (rule breaker_opens_at_threshold[where n = 2]) simp_all

text \<open>While a probe is in flight nothing else passes; asking does not change that.\<close>

lemma probing_refuses:
  assumes "0 < bc_threshold c" "bk_open b" "bk_probing b"
  shows "breaker_allow c t b = (False, b)"
  using assms by (simp add: breaker_allow_def)

lemma asks_while_probing:
  "0 < bc_threshold c \<Longrightarrow> bk_open b \<Longrightarrow> bk_probing b \<Longrightarrow> breaker_run c (map Ask ts) b = b"
  by (induction ts) (simp_all add: probing_refuses)

text \<open>C27: When the cooldown of an open breaker has passed, exactly one of any number of
  callers is let through, whatever their times, until an outcome is reported.\<close>

theorem breaker_single_probe:
  assumes "0 < bc_threshold c" "bk_open b" "\<not> bk_probing b"
    and "bc_cooldown c \<le> t - bk_opened_at b"
  shows "fst (breaker_allow c t b) \<and>
    \<not> fst (breaker_allow c u (breaker_run c (map Ask ts) (breaker_step c (Ask t) b)))"
  using assms asks_while_probing[of c "b\<lparr>bk_probing := True\<rparr>" ts]
  by (simp add: breaker_allow_def time_sub_def)

theorem breaker_single_probe_witness:
  "fst (breaker_allow \<lparr>bc_threshold = 2, bc_cooldown = 10\<rparr> 15 \<lparr>bk_failures = 2, bk_opened_at = 5, bk_open = True, bk_probing = False\<rparr>) \<and>
   \<not> fst (breaker_allow \<lparr>bc_threshold = 2, bc_cooldown = 10\<rparr> 40
     (breaker_run \<lparr>bc_threshold = 2, bc_cooldown = 10\<rparr> (map Ask [16, 20])
       (breaker_step \<lparr>bc_threshold = 2, bc_cooldown = 10\<rparr> (Ask 15)
          \<lparr>bk_failures = 2, bk_opened_at = 5, bk_open = True, bk_probing = False\<rparr>)))"
  by (rule breaker_single_probe) simp_all



text \<open>Observation: A reported success closes the breaker in any state, and a reported failure of a
  probe keeps it open with a full cooldown ahead and a new probe possible after it.\<close>

theorem breaker_recovers:
  assumes "0 < bc_threshold c"
  shows "fst (breaker_allow c t (breaker_record c u True b)) \<and>
    (bk_open b \<longrightarrow> (fst (breaker_allow c t (breaker_record c u False b)) \<longleftrightarrow> bc_cooldown c \<le> t - u))"
  using assms by (auto simp: breaker_record_def breaker_allow_def Let_def time_sub_def)

theorem breaker_recovers_witness:
  "fst (breaker_allow \<lparr>bc_threshold = 2, bc_cooldown = 10\<rparr> 9 (breaker_record \<lparr>bc_threshold = 2, bc_cooldown = 10\<rparr> 8 True
     \<lparr>bk_failures = 2, bk_opened_at = 5, bk_open = True, bk_probing = True\<rparr>)) \<and>
   \<not> fst (breaker_allow \<lparr>bc_threshold = 2, bc_cooldown = 10\<rparr> 9 (breaker_record \<lparr>bc_threshold = 2, bc_cooldown = 10\<rparr> 8 False
     \<lparr>bk_failures = 2, bk_opened_at = 5, bk_open = True, bk_probing = True\<rparr>))"
  using breaker_recovers[of "\<lparr>bc_threshold = 2, bc_cooldown = 10\<rparr>" 9 8
      "\<lparr>bk_failures = 2, bk_opened_at = 5, bk_open = True, bk_probing = True\<rparr>"] by simp

end
