(* ===== verification/Json.thy ===== *)
theory Json
  imports Prelude Go_Std Complex_Main
begin

text \<open>
  JSON as the broker uses it (package encoding/json): the decoder over a body (values with
  numbers kept as text, as after UseNumber), the token stream of Decoder.Token, and Marshal
  (keys sorted, HTML characters escaped). On top of it the walks of internal/broker/tenancy.go
  and cost.go: \<open>dig\<close>, \<open>setDug\<close>, \<open>delDug\<close>, \<open>asID\<close>, \<open>hasDuplicateKeys\<close>, \<open>extractCost\<close>.
  Bytes outside ASCII pass through unchanged (bodies are taken to be valid UTF-8), the decoder's
  nesting limit of 10000 is not modelled, and a float64 is the exact rational its text denotes.
\<close>

section \<open>Values\<close>

datatype json =
    JNull
  | JBool bool
  | JNum string
  | JStr string
  | JArr "json list"
  | JObj "(string \<times> json) list"

section \<open>Reading\<close>

definition json_ws :: "char \<Rightarrow> bool" where
  "json_ws c \<longleftrightarrow> c = CHR '' '' \<or> c = CHR 0x09 \<or> c = CHR 0x0A \<or> c = CHR 0x0D"

definition skip_ws :: "string \<Rightarrow> string" where
  "skip_ws = dropWhile json_ws"

definition lex_frac :: "string \<Rightarrow> (string \<times> string) option" where
  "lex_frac s =
     (case s of c # r \<Rightarrow>
        if c = CHR ''.'' then
          (let d = takeWhile is_digit r in if d = [] then None else Some (c # d, dropWhile is_digit r))
        else Some ([], s)
      | [] \<Rightarrow> Some ([], []))"

definition lex_exp :: "string \<Rightarrow> (string \<times> string) option" where
  "lex_exp s =
     (case s of c # r \<Rightarrow>
        if c = CHR ''e'' \<or> c = CHR ''E'' then
          (let (sg, r1) = (case r of x # r' \<Rightarrow> if x = CHR ''+'' \<or> x = CHR ''-'' then ([x], r') else ([], r)
                           | [] \<Rightarrow> ([], []));
               d = takeWhile is_digit r1
           in if d = [] then None else Some (c # sg @ d, dropWhile is_digit r1))
        else Some ([], s)
      | [] \<Rightarrow> Some ([], []))"

definition lex_int :: "string \<Rightarrow> (string \<times> string) option" where
  "lex_int s =
     (case s of c # r \<Rightarrow>
        if c = CHR ''0'' then Some ([c], r)
        else if is_digit c then Some (takeWhile is_digit s, dropWhile is_digit s) else None
      | [] \<Rightarrow> None)"

definition lex_number :: "string \<Rightarrow> (string \<times> string) option" where
  "lex_number s =
     (let (sg, r) = (case s of c # r \<Rightarrow> if c = CHR ''-'' then ([c], r) else ([], s) | [] \<Rightarrow> ([], []))
      in case lex_int r of None \<Rightarrow> None
         | Some (i, r1) \<Rightarrow> (case lex_frac r1 of None \<Rightarrow> None
            | Some (f, r2) \<Rightarrow> (case lex_exp r2 of None \<Rightarrow> None
               | Some (e, r3) \<Rightarrow> Some (sg @ i @ f @ e, r3))))"

definition utf8_encode :: "nat \<Rightarrow> string" where
  "utf8_encode u =
     (if u < 128 then [char_of u]
      else if u < 2048 then [char_of (192 + u div 64), char_of (128 + u mod 64)]
      else if u < 65536 then [char_of (224 + u div 4096), char_of (128 + u div 64 mod 64), char_of (128 + u mod 64)]
      else [char_of (240 + u div 262144), char_of (128 + u div 4096 mod 64),
            char_of (128 + u div 64 mod 64), char_of (128 + u mod 64)])"

definition hex4 :: "char \<Rightarrow> char \<Rightarrow> char \<Rightarrow> char \<Rightarrow> nat option" where
  "hex4 a b c d =
     (case (hex_val a, hex_val b, hex_val c, hex_val d) of
        (Some w, Some x, Some y, Some z) \<Rightarrow> Some (w * 4096 + x * 256 + y * 16 + z) | _ \<Rightarrow> None)"

definition simple_escape :: "char \<Rightarrow> char option" where
  "simple_escape e =
     (if e = CHR 0x22 \<or> e = CHR 0x5C \<or> e = CHR ''/'' then Some e
      else if e = CHR ''b'' then Some (CHR 0x08)
      else if e = CHR ''f'' then Some (CHR 0x0C)
      else if e = CHR ''n'' then Some (CHR 0x0A)
      else if e = CHR ''r'' then Some (CHR 0x0D)
      else if e = CHR ''t'' then Some (CHR 0x09)
      else None)"

text \<open>A lone surrogate decodes to U+FFFD.\<close>

definition is_surrogate :: "nat \<Rightarrow> bool" where "is_surrogate u \<longleftrightarrow> 55296 \<le> u \<and> u < 57344"

definition prepend :: "string \<Rightarrow> (string \<times> string) option \<Rightarrow> (string \<times> string) option" where
  "prepend p r = map_option (\<lambda>(a, b). (p @ a, b)) r"

text \<open>What follows a backslash: the bytes it stands for and how many input bytes it takes.\<close>

definition lex_unicode :: "string \<Rightarrow> (string \<times> nat) option" where
  "lex_unicode r =
     (case r of
        h1 # h2 # h3 # h4 # r1 \<Rightarrow>
          (case hex4 h1 h2 h3 h4 of None \<Rightarrow> None
           | Some u \<Rightarrow>
             if \<not> is_surrogate u then Some (utf8_encode u, 5)
             else if u < 56320 then
               (case r1 of
                  b # v # l1 # l2 # l3 # l4 # r2 \<Rightarrow>
                    (case hex4 l1 l2 l3 l4 of
                       Some w \<Rightarrow>
                         if b = CHR 0x5C \<and> v = CHR ''u'' \<and> 56320 \<le> w \<and> w < 57344
                         then Some (utf8_encode (65536 + (u - 55296) * 1024 + (w - 56320)), 11)
                         else Some (utf8_encode 65533, 5)
                     | None \<Rightarrow> Some (utf8_encode 65533, 5))
                | _ \<Rightarrow> Some (utf8_encode 65533, 5))
             else Some (utf8_encode 65533, 5))
      | _ \<Rightarrow> None)"

definition lex_escape :: "string \<Rightarrow> (string \<times> nat) option" where
  "lex_escape s =
     (case s of [] \<Rightarrow> None
      | e # r \<Rightarrow> if e = CHR ''u'' then lex_unicode r
                 else map_option (\<lambda>d. ([d], 1)) (simple_escape e))"

text \<open>The body of a string after its opening quote: the text and the rest of the input.\<close>

fun lex_string :: "string \<Rightarrow> (string \<times> string) option" where
  "lex_string [] = None"
| "lex_string (c # s) =
     (if c = CHR 0x22 then Some ([], s)
      else if c = CHR 0x5C then
        (case lex_escape s of None \<Rightarrow> None | Some (d, k) \<Rightarrow> prepend d (lex_string (drop k s)))
      else if byte c < 32 then None
      else prepend [c] (lex_string s))"

text \<open>Values, the elements of an array after its first bracket, the members of an object.
  Each call that recurses has consumed a byte, so the length of the input is enough fuel.\<close>

fun parse_value :: "nat \<Rightarrow> string \<Rightarrow> (json \<times> string) option"
  and parse_elems :: "nat \<Rightarrow> string \<Rightarrow> (json list \<times> string) option"
  and parse_members :: "nat \<Rightarrow> string \<Rightarrow> ((string \<times> json) list \<times> string) option" where
  "parse_value 0 s0 = None"
| "parse_value (Suc n) s0 =
     (case skip_ws s0 of [] \<Rightarrow> None
      | c # s \<Rightarrow>
        if c = CHR ''{'' then
          (case skip_ws s of
             [] \<Rightarrow> None
           | d # r \<Rightarrow> if d = CHR ''}'' then Some (JObj [], r)
                      else map_option (\<lambda>(ms, r). (JObj ms, r)) (parse_members n s))
        else if c = CHR ''['' then
          (case skip_ws s of
             [] \<Rightarrow> None
           | d # r \<Rightarrow> if d = CHR '']'' then Some (JArr [], r)
                      else map_option (\<lambda>(vs, r). (JArr vs, r)) (parse_elems n s))
        else if c = CHR 0x22 then map_option (\<lambda>(t, r). (JStr t, r)) (lex_string s)
        else if has_prefix ''true'' (c # s) then Some (JBool True, drop 3 s)
        else if has_prefix ''false'' (c # s) then Some (JBool False, drop 4 s)
        else if has_prefix ''null'' (c # s) then Some (JNull, drop 3 s)
        else map_option (\<lambda>(t, r). (JNum t, r)) (lex_number (c # s)))"
| "parse_elems 0 s = None"
| "parse_elems (Suc n) s =
     (case parse_value n s of None \<Rightarrow> None
      | Some (v, r) \<Rightarrow>
        (case skip_ws r of [] \<Rightarrow> None
         | c # r' \<Rightarrow> if c = CHR '','' then map_option (\<lambda>(vs, q). (v # vs, q)) (parse_elems n r')
                     else if c = CHR '']'' then Some ([v], r') else None))"
| "parse_members 0 s = None"
| "parse_members (Suc n) s =
     (case skip_ws s of [] \<Rightarrow> None
      | c # s' \<Rightarrow>
        if c \<noteq> CHR 0x22 then None
        else (case lex_string s' of None \<Rightarrow> None
          | Some (k, r) \<Rightarrow>
            (case skip_ws r of [] \<Rightarrow> None
             | d # r1 \<Rightarrow>
               if d \<noteq> CHR '':'' then None
               else (case parse_value n r1 of None \<Rightarrow> None
                 | Some (v, r2) \<Rightarrow>
                   (case skip_ws r2 of [] \<Rightarrow> None
                    | e # r3 \<Rightarrow>
                      if e = CHR '','' then map_option (\<lambda>(ms, q). ((k, v) # ms, q)) (parse_members n r3)
                      else if e = CHR ''}'' then Some ([(k, v)], r3) else None)))))"

text \<open>The first value of a body and what follows it, as the text has it (repeated keys kept).\<close>

definition raw_decode :: "string \<Rightarrow> (json \<times> string) option" where
  "raw_decode s = parse_value (Suc (2 * length s)) s"

text \<open>What Decode stores: a repeated key keeps its last value.\<close>

definition last_wins :: "(string \<times> 'v) list \<Rightarrow> (string \<times> 'v) list" where
  "last_wins kvs = fold (\<lambda>(k, v) m. AList.update k v m) kvs []"

fun json_norm :: "json \<Rightarrow> json" where
  "json_norm (JArr xs) = JArr (map json_norm xs)"
| "json_norm (JObj kvs) = JObj (last_wins (map (\<lambda>(k, v). (k, json_norm v)) kvs))"
| "json_norm v = v"

definition decode_json :: "string \<Rightarrow> json option" where
  "decode_json s = map_option (\<lambda>(v, _). json_norm v) (raw_decode s)"

text \<open>\<open>json.Unmarshal\<close> refuses anything after the value; \<open>Decoder.More\<close> reports it unless it
  starts with a closing bracket or brace.\<close>

definition unmarshal_json :: "string \<Rightarrow> json option" where
  "unmarshal_json s =
     (case raw_decode s of Some (v, r) \<Rightarrow> if skip_ws r = [] then Some (json_norm v) else None | None \<Rightarrow> None)"

definition decoder_more :: "string \<Rightarrow> bool" where
  "decoder_more s =
     (case raw_decode s of
        Some (_, r) \<Rightarrow> (case skip_ws r of [] \<Rightarrow> False | c # _ \<Rightarrow> c \<noteq> CHR '']'' \<and> c \<noteq> CHR ''}'')
      | None \<Rightarrow> False)"

section \<open>Tokens\<close>

datatype jtoken = TObjOpen | TObjClose | TArrOpen | TArrClose | TString string | TScalar

fun json_tokens :: "json \<Rightarrow> jtoken list" where
  "json_tokens (JArr xs) = TArrOpen # concat (map json_tokens xs) @ [TArrClose]"
| "json_tokens (JObj kvs) = TObjOpen # concat (map (\<lambda>(k, v). TString k # json_tokens v) kvs) @ [TObjClose]"
| "json_tokens (JStr s) = [TString s]"
| "json_tokens v = [TScalar]"

text \<open>The token stream of a whole body: the tokens of its values one after the other, or \<open>None\<close>
  when the stream ends in an error (or inside a container).\<close>

fun parse_stream :: "nat \<Rightarrow> string \<Rightarrow> json list option" where
  "parse_stream 0 s = None"
| "parse_stream (Suc n) s =
     (if skip_ws s = [] then Some []
      else case raw_decode s of None \<Rightarrow> None
           | Some (v, r) \<Rightarrow> map_option ((#) v) (parse_stream n r))"

definition token_stream :: "string \<Rightarrow> jtoken list option" where
  "token_stream s = map_option (\<lambda>vs. concat (map json_tokens vs)) (parse_stream (Suc (length s)) s)"

section \<open>Writing\<close>

definition hex_digit :: "nat \<Rightarrow> char" where
  "hex_digit n = (if n < 10 then char_of (48 + n) else char_of (87 + n))"

definition json_escape :: "char \<Rightarrow> string" where
  "json_escape c =
     (if c = CHR 0x22 \<or> c = CHR 0x5C then [CHR 0x5C, c]
      else if c = CHR 0x08 then [CHR 0x5C, CHR ''b'']
      else if c = CHR 0x0C then [CHR 0x5C, CHR ''f'']
      else if c = CHR 0x0A then [CHR 0x5C, CHR ''n'']
      else if c = CHR 0x0D then [CHR 0x5C, CHR ''r'']
      else if c = CHR 0x09 then [CHR 0x5C, CHR ''t'']
      else if byte c < 32 \<or> c = CHR ''<'' \<or> c = CHR ''>'' \<or> c = CHR ''&''
      then [CHR 0x5C, CHR ''u'', CHR ''0'', CHR ''0'', hex_digit (byte c div 16), hex_digit (byte c mod 16)]
      else [c])"

definition json_quote :: "string \<Rightarrow> string" where
  "json_quote s = CHR 0x22 # concat (map json_escape s) @ [CHR 0x22]"

fun insert_member :: "string \<times> 'a \<Rightarrow> (string \<times> 'a) list \<Rightarrow> (string \<times> 'a) list" where
  "insert_member x [] = [x]"
| "insert_member x (y # ys) = (if str_le (fst x) (fst y) then x # y # ys else y # insert_member x ys)"

definition sort_members :: "(string \<times> 'a) list \<Rightarrow> (string \<times> 'a) list" where
  "sort_members xs = foldr insert_member xs []"

fun json_text :: "json \<Rightarrow> string" where
  "json_text JNull = ''null''"
| "json_text (JBool b) = (if b then ''true'' else ''false'')"
| "json_text (JNum t) = t"
| "json_text (JStr s) = json_quote s"
| "json_text (JArr xs) = ''['' @ join_on (CHR '','') (map json_text xs) @ '']''"
| "json_text (JObj kvs) =
     ''{'' @ join_on (CHR '','') (map snd (sort_members (map (\<lambda>(k, v). (k, json_quote k @ CHR '':'' # json_text v)) kvs))) @ ''}''"

section \<open>Paths into values\<close>

definition dotted :: "string \<Rightarrow> string list" where
  "dotted = split_on (CHR ''.'')"

fun dig_path :: "json \<Rightarrow> string list \<Rightarrow> json option" where
  "dig_path v [] = Some v"
| "dig_path (JObj kvs) (p # ps) = (case map_of kvs p of None \<Rightarrow> None | Some w \<Rightarrow> dig_path w ps)"
| "dig_path _ (p # ps) = None"

definition dig :: "json \<Rightarrow> string \<Rightarrow> json option" where
  "dig v path = dig_path v (dotted path)"

text \<open>\<open>setDug\<close>: \<open>None\<close> when it returns false; the decoded tree has no sharing, so the update in
  place is a rebuilt tree.\<close>

fun set_path :: "json \<Rightarrow> string list \<Rightarrow> json \<Rightarrow> json option" where
  "set_path (JObj kvs) [p] x = Some (JObj (AList.update p x kvs))"
| "set_path (JObj kvs) (p # ps) x =
     (case map_of kvs p of None \<Rightarrow> None
      | Some w \<Rightarrow> map_option (\<lambda>w'. JObj (AList.update p w' kvs)) (set_path w ps x))"
| "set_path _ _ _ = None"

definition set_dug :: "json \<Rightarrow> string \<Rightarrow> json \<Rightarrow> json option" where
  "set_dug v path x = set_path v (dotted path) x"

fun del_path :: "json \<Rightarrow> string list \<Rightarrow> json" where
  "del_path (JObj kvs) [p] = JObj (AList.delete p kvs)"
| "del_path (JObj kvs) (p # ps) =
     (case map_of kvs p of None \<Rightarrow> JObj kvs
      | Some w \<Rightarrow> JObj (AList.update p (del_path w ps) kvs))"
| "del_path v _ = v"

definition del_dug :: "json \<Rightarrow> string \<Rightarrow> json" where
  "del_dug v path = del_path v (dotted path)"

text \<open>\<open>asID\<close>. Every caller decodes with UseNumber, so its float64 branch is never taken.\<close>

definition as_id :: "json \<Rightarrow> string option" where
  "as_id v = (case v of JStr s \<Rightarrow> if s = [] then None else Some s | JNum t \<Rightarrow> Some t | _ \<Rightarrow> None)"

section \<open>Numbers\<close>

definition frac_value :: "string \<Rightarrow> rat" where
  "frac_value ds = (case dec_value 0 ds of Some n \<Rightarrow> of_nat n / 10 ^ length ds | None \<Rightarrow> 0)"

text \<open>The rational a number literal denotes.\<close>

definition num_value :: "string \<Rightarrow> rat" where
  "num_value t0 =
     (let (neg, t) = (case t0 of c # r \<Rightarrow> if c = CHR ''-'' then (True, r) else (False, t0) | [] \<Rightarrow> (False, []));
          i = takeWhile is_digit t; r1 = dropWhile is_digit t;
          (f, r2) = (case r1 of c # r \<Rightarrow> if c = CHR ''.'' then (takeWhile is_digit r, dropWhile is_digit r) else ([], r1)
                     | [] \<Rightarrow> ([], []));
          e = (case r2 of [] \<Rightarrow> 0 | _ # r \<Rightarrow> (case parse_int64 r of Some k \<Rightarrow> k | None \<Rightarrow> 0));
          m = (case dec_value 0 i of Some n \<Rightarrow> of_nat n | None \<Rightarrow> 0) + frac_value f;
          v = (if e < 0 then m / 10 ^ nat (- e) else m * 10 ^ nat e)
      in if neg then - v else v)"

definition extract_cost :: "string \<Rightarrow> string \<Rightarrow> rat" where
  "extract_cost body field =
     (if field = [] then 0
      else case unmarshal_json body of
             None \<Rightarrow> 0
           | Some doc \<Rightarrow> (case dig doc field of Some (JNum t) \<Rightarrow> num_value t | _ \<Rightarrow> 0))"

section \<open>Duplicate keys\<close>

text \<open>A frame: the keys seen (\<open>None\<close> for an array) and whether a key awaits its value.\<close>

type_synonym dup_frame = "string list option \<times> bool"

fun value_consumed :: "dup_frame list \<Rightarrow> dup_frame list" where
  "value_consumed ((Some ks, _) # st) = (Some ks, False) # st"
| "value_consumed st = st"

fun dup_scan :: "dup_frame list \<Rightarrow> jtoken list \<Rightarrow> bool" where
  "dup_scan st [] = (st \<noteq> [])"
| "dup_scan st (TObjOpen # ts) = dup_scan ((Some [], False) # value_consumed st) ts"
| "dup_scan st (TArrOpen # ts) = dup_scan ((None, False) # value_consumed st) ts"
| "dup_scan [] (TObjClose # ts) = True"
| "dup_scan [] (TArrClose # ts) = True"
| "dup_scan (f # st) (TObjClose # ts) = dup_scan st ts"
| "dup_scan (f # st) (TArrClose # ts) = dup_scan st ts"
| "dup_scan [] (TString v # ts) = dup_scan [] ts"
| "dup_scan ((Some ks, False) # st) (TString v # ts) =
     (if v \<in> set ks then True else dup_scan ((Some (v # ks), True) # st) ts)"
| "dup_scan st (TString v # ts) = dup_scan (value_consumed st) ts"
| "dup_scan st (TScalar # ts) = dup_scan (value_consumed st) ts"

definition has_duplicate_keys :: "string \<Rightarrow> bool" where
  "has_duplicate_keys body = (case token_stream body of None \<Rightarrow> True | Some ts \<Rightarrow> dup_scan [] ts)"

text \<open>The property the scan decides: some object of the value repeats a key.\<close>

fun repeats_key :: "json \<Rightarrow> bool" where
  "repeats_key (JArr xs) = (\<exists>x \<in> set xs. repeats_key x)"
| "repeats_key (JObj kvs) = (\<not> distinct (map fst kvs) \<or> (\<exists>(k, v) \<in> set kvs. repeats_key v))"
| "repeats_key _ = False"

text \<open>A state of the scan in which the next value of the document may stand.\<close>

fun awaits_value :: "dup_frame list \<Rightarrow> bool" where
  "awaits_value [] = True"
| "awaits_value ((None, _) # st) = True"
| "awaits_value ((Some ks, e) # st) = e"

lemma value_consumed_idem [simp]: "value_consumed (value_consumed st) = value_consumed st"
  by (induction st rule: value_consumed.induct) auto

lemma scan_value:
  "awaits_value st \<Longrightarrow> dup_scan st (json_tokens v @ ts) = (repeats_key v \<or> dup_scan (value_consumed st) ts)"
proof (induction v arbitrary: st ts)
  case JNull
  then show ?case by (cases st rule: awaits_value.cases) auto
next
  case (JBool b)
  then show ?case by (cases st rule: awaits_value.cases) auto
next
  case (JNum t)
  then show ?case by (cases st rule: awaits_value.cases) auto
next
  case (JStr s)
  then show ?case by (cases st rule: awaits_value.cases) auto
next
  case (JArr xs)
  have "dup_scan ((None, False) # st') (concat (map json_tokens ys) @ TArrClose # ts) =
      ((\<exists>x \<in> set ys. repeats_key x) \<or> dup_scan st' ts)" if "set ys \<subseteq> set xs" for ys st'
    using that
  proof (induction ys)
    case (Cons y ys)
    then show ?case using JArr.IH[of y "(None, False) # st'"] by auto
  qed simp
  from this[OF order.refl] show ?case by simp
next
  case (JObj kvs)
  have "dup_scan ((Some ks, False) # st') (concat (map (\<lambda>(k, v). TString k # json_tokens v) ms) @ TObjClose # ts) =
      (\<not> distinct (map fst ms) \<or> (\<exists>m \<in> set ms. fst m \<in> set ks) \<or> (\<exists>(k, v) \<in> set ms. repeats_key v) \<or> dup_scan st' ts)"
    if "set ms \<subseteq> set kvs" for ms st' ks
    using that
  proof (induction ms arbitrary: ks)
    case (Cons m ms)
    obtain k v where m: "m = (k, v)" by (cases m)
    have IH: "dup_scan ((Some (k # ks), True) # st') (json_tokens v @ us) =
        (repeats_key v \<or> dup_scan ((Some (k # ks), False) # st') us)" for us
      using JObj.IH[of m v "(Some (k # ks), True) # st'" us] Cons.prems m by simp
    show ?case using Cons.IH[of "k # ks"] Cons.prems IH by (auto simp: m)
  qed simp
  from this[OF order.refl, of "[]"] show ?case by auto
qed

lemma scan_stream: "dup_scan [] (concat (map json_tokens vs)) = (\<exists>v \<in> set vs. repeats_key v)"
  by (induction vs) (simp_all add: scan_value)

lemma no_duplicate_iff:
  "\<not> has_duplicate_keys body \<longleftrightarrow>
     (\<exists>vs. parse_stream (Suc (length body)) body = Some vs \<and> (\<forall>v \<in> set vs. \<not> repeats_key v))"
  by (auto simp: has_duplicate_keys_def token_stream_def scan_stream split: option.splits)

section \<open>The fuel of the parser\<close>

lemma length_skip_ws: "length (skip_ws s) \<le> length s"
  by (simp add: skip_ws_def length_dropWhile_le)

lemma skip_ws_Cons: "skip_ws s = c # r \<Longrightarrow> length r < length s"
  using length_skip_ws[of s] by simp

lemma prepend_Some: "prepend p r = Some (t, q) \<Longrightarrow> \<exists>u. r = Some (u, q)"
  by (auto simp: prepend_def)

lemma lex_string_length: "lex_string s = Some (t, r) \<Longrightarrow> length r < length s"
proof (induction s arbitrary: t rule: lex_string.induct)
  case (2 c s)
  then show ?case
    by (fastforce split: if_splits option.splits dest!: prepend_Some)
qed simp

lemma lex_int_length: "lex_int s = Some (t, r) \<Longrightarrow> length r < length s"
proof -
  have d: "is_digit c \<Longrightarrow> length (dropWhile is_digit (c # q)) < length (c # q)" for c q
    using length_dropWhile_le[of is_digit q] by simp
  assume "lex_int s = Some (t, r)"
  then show ?thesis using d by (auto simp: lex_int_def split: list.splits if_splits)
qed

lemma lex_frac_length: "lex_frac s = Some (t, r) \<Longrightarrow> length r \<le> length s"
  using length_dropWhile_le[of is_digit "tl s"]
  by (auto simp: lex_frac_def Let_def split: list.splits if_splits)

lemma lex_exp_length: "lex_exp s = Some (t, r) \<Longrightarrow> length r \<le> length s"
  using length_dropWhile_le[of is_digit "tl s"] length_dropWhile_le[of is_digit "tl (tl s)"]
  by (auto simp: lex_exp_def Let_def split: list.splits if_splits)

lemma lex_number_length: "lex_number s = Some (t, r) \<Longrightarrow> length r < length s"
  by (fastforce simp: lex_number_def Let_def split: list.splits if_splits option.splits
      dest!: lex_int_length lex_frac_length lex_exp_length)

lemma parse_lengths:
  "parse_value n s = Some (v, r) \<Longrightarrow> length r < length s"
  "parse_elems n s = Some (vs, r) \<Longrightarrow> length r < length s"
  "parse_members n s = Some (ms, r) \<Longrightarrow> length r < length s"
proof (induction n arbitrary: s v vs ms r)
  case 0
  {
    case 1
    then show ?case by simp
  next
    case 2
    then show ?case by simp
  next
    case 3
    then show ?case by simp
  }
next
  case (Suc n)
  {
    case 1
    obtain c q where c: "skip_ws s = c # q" using 1 by (auto split: list.splits)
    have l: "length q < length s" using skip_ws_Cons[OF c] .
    show ?case using 1 c l length_skip_ws[of q]
      by (auto split: list.splits if_splits dest!: Suc.IH lex_string_length lex_number_length
          dest: skip_ws_Cons)
  next
    case 2
    then show ?case
      by (fastforce split: list.splits if_splits option.splits dest!: Suc.IH skip_ws_Cons)
  next
    case 3
    then show ?case
      by (fastforce split: list.splits if_splits option.splits dest!: Suc.IH lex_string_length skip_ws_Cons)
  }
qed

lemma parse_fuel_step:
  "2 * length s < n \<Longrightarrow> parse_value (Suc n) s = parse_value n s"
  "2 * length s + 1 < n \<Longrightarrow> parse_elems (Suc n) s = parse_elems n s"
  "2 * length s + 1 < n \<Longrightarrow> parse_members (Suc n) s = parse_members n s"
proof (induction n arbitrary: s)
  case 0
  {
    case 1
    then show ?case by simp
  next
    case 2
    then show ?case by simp
  next
    case 3
    then show ?case by simp
  }
next
  case (Suc n)
  {
    case 1
    show ?case
    proof (cases "skip_ws s")
      case (Cons c q)
      have l: "length q < length s" using skip_ws_Cons[OF Cons] .
      have q: "2 * length q + 1 < n" using 1 l by simp
      have "parse_elems (Suc n) q = parse_elems n q" "parse_members (Suc n) q = parse_members n q"
        using Suc.IH(2,3)[OF q] .
      then show ?thesis
        unfolding parse_value.simps(2)[of "Suc n"] parse_value.simps(2)[of n] Cons list.case
        by (simp only:)
    qed simp
  next
    case 2
    have v: "parse_value (Suc n) s = parse_value n s" using 2 by (intro Suc.IH) simp
    have e: "parse_elems (Suc n) r' = parse_elems n r'"
      if "parse_value n s = Some (w, r)" "skip_ws r = c # r'" for w r c r'
      using 2 parse_lengths(1)[OF that(1)] skip_ws_Cons[OF that(2)] by (intro Suc.IH) simp
    show ?case
      unfolding parse_elems.simps(2)[of "Suc n"] parse_elems.simps(2)[of n] v
      using e by (auto split: option.split list.split)
  next
    case 3
    have v: "parse_value (Suc n) r1 = parse_value n r1"
      if "skip_ws s = c # s'" "lex_string s' = Some (k, r)" "skip_ws r = d # r1" for c s' k r d r1
      using 3 lex_string_length[OF that(2)] skip_ws_Cons[OF that(1)] skip_ws_Cons[OF that(3)]
      by (intro Suc.IH) simp
    have e: "parse_members (Suc n) r3 = parse_members n r3"
      if "skip_ws s = c # s'" "lex_string s' = Some (k, r)" "skip_ws r = d # r1"
        "parse_value n r1 = Some (w, r2)" "skip_ws r2 = f # r3" for c s' k r d r1 w r2 f r3
      using 3 lex_string_length[OF that(2)] skip_ws_Cons[OF that(1)] skip_ws_Cons[OF that(3)]
        parse_lengths(1)[OF that(4)] skip_ws_Cons[OF that(5)]
      by (intro Suc.IH) simp
    show ?case
      unfolding parse_members.simps(2)[of "Suc n"] parse_members.simps(2)[of n]
      using v e by (auto split: option.split list.split)
  }
qed

lemma parse_fuel_mono: "2 * length s < n \<Longrightarrow> n \<le> m \<Longrightarrow> parse_value m s = parse_value n s"
  by (induction m) (auto simp: le_Suc_eq parse_fuel_step(1) simp del: parse_value.simps)

text \<open>Observation: The decoder's fuel is enough: with any larger amount it reads the same value from
  any body, and a value it reads always leaves strictly less input.\<close>

theorem decoder_fuel_enough:
  "parse_value (Suc (2 * length s) + k) s = raw_decode s \<and>
   (\<forall>v r. raw_decode s = Some (v, r) \<longrightarrow> length r < length s)"
proof -
  have "parse_value (Suc (2 * length s) + k) s = raw_decode s"
    unfolding raw_decode_def by (rule parse_fuel_mono) simp_all
  moreover have "length r < length s" if "raw_decode s = Some (v, r)" for v r
    using that unfolding raw_decode_def by (rule parse_lengths(1))
  ultimately show ?thesis by blast
qed

theorem decoder_fuel_enough_witness:
  "raw_decode ''[1] x'' = Some (JArr [JNum ''1''], '' x'') \<and> length '' x'' < length ''[1] x''"
proof -
  have d: "raw_decode ''[1] x'' = Some (JArr [JNum ''1''], '' x'')" by code_simp
  with decoder_fuel_enough[of "''[1] x''" 0] show ?thesis by blast
qed

lemma raw_decode_length: "raw_decode s = Some (v, r) \<Longrightarrow> length r < length s"
  unfolding raw_decode_def by (rule parse_lengths(1))

lemma parse_stream_fuel: "length s < n \<Longrightarrow> parse_stream (Suc n) s = parse_stream n s"
proof (induction n arbitrary: s)
  case (Suc n)
  have "parse_stream (Suc n) r = parse_stream n r" if "raw_decode s = Some (v, r)" for v r
    using Suc.prems raw_decode_length[OF that] by (intro Suc.IH) simp
  then have step: "(case raw_decode s of None \<Rightarrow> None | Some (v, r) \<Rightarrow> map_option ((#) v) (parse_stream (Suc n) r)) =
      (case raw_decode s of None \<Rightarrow> None | Some (v, r) \<Rightarrow> map_option ((#) v) (parse_stream n r))"
    by (cases "raw_decode s") (auto simp del: parse_stream.simps)
  show ?case
    unfolding parse_stream.simps(2)[of "Suc n" s] parse_stream.simps(2)[of n s] step ..
qed simp

section \<open>Repeated keys and decoders\<close>

text \<open>Decoders that keep the first of two equal keys.\<close>

fun first_wins :: "(string \<times> 'v) list \<Rightarrow> (string \<times> 'v) list" where
  "first_wins [] = []"
| "first_wins ((k, v) # m) = (k, v) # filter (\<lambda>(k', _). k' \<noteq> k) (first_wins m)"

lemma last_wins_distinct: "distinct (map fst kvs) \<Longrightarrow> last_wins kvs = kvs"
proof (induction kvs rule: rev_induct)
  case (snoc kv kvs)
  obtain k v where kv: "kv = (k, v)" by (cases kv)
  from snoc have "last_wins kvs = kvs" "map_of kvs k = None"
    by (auto simp: kv map_of_eq_None_iff)
  then show ?case by (simp add: last_wins_def kv update_fresh)
qed (simp add: last_wins_def)

lemma first_wins_distinct: "distinct (map fst kvs) \<Longrightarrow> first_wins kvs = kvs"
  by (induction kvs rule: first_wins.induct) (force intro!: filter_True)+

fun json_norm_first :: "json \<Rightarrow> json" where
  "json_norm_first (JArr xs) = JArr (map json_norm_first xs)"
| "json_norm_first (JObj kvs) = JObj (first_wins (map (\<lambda>(k, v). (k, json_norm_first v)) kvs))"
| "json_norm_first v = v"

lemma map_keys_fst: "map fst (map (\<lambda>(k, v). (k, f v)) kvs) = map fst kvs"
  by (induction kvs) auto

lemma norm_no_repeats: "\<not> repeats_key v \<Longrightarrow> json_norm v = v \<and> json_norm_first v = v"
proof (induction v)
  case (JArr xs)
  then show ?case by (auto intro!: map_idI)
next
  case (JObj kvs)
  have a: "map (\<lambda>(k, v). (k, json_norm v)) kvs = kvs" "map (\<lambda>(k, v). (k, json_norm_first v)) kvs = kvs"
    using JObj by (force intro!: map_idI)+
  show ?case using JObj.prems
    by (simp only: json_norm.simps json_norm_first.simps a repeats_key.simps)
      (simp add: last_wins_distinct first_wins_distinct)
qed auto

section \<open>The duplicate scan as a property of the body\<close>

text \<open>C6: The duplicate-key scan accepts a body exactly when the whole body is a sequence of
  well-formed JSON values and no object in it, at any depth, repeats a key; each such value is
  then read the same by a decoder that keeps the first of equal keys and by one that keeps the last.\<close>

theorem duplicate_scan_correct:
  "(\<not> has_duplicate_keys body \<longleftrightarrow>
     (\<exists>vs. parse_stream (Suc (length body)) body = Some vs \<and> (\<forall>v \<in> set vs. \<not> repeats_key v))) \<and>
   (\<forall>v r. \<not> has_duplicate_keys body \<and> raw_decode body = Some (v, r) \<longrightarrow>
      json_norm v = v \<and> json_norm_first v = v)"
proof (intro conjI allI impI)
  show "\<not> has_duplicate_keys body \<longleftrightarrow>
     (\<exists>vs. parse_stream (Suc (length body)) body = Some vs \<and> (\<forall>v \<in> set vs. \<not> repeats_key v))"
    by (rule no_duplicate_iff)
  fix v r assume a: "\<not> has_duplicate_keys body \<and> raw_decode body = Some (v, r)"
  then obtain vs where vs: "parse_stream (Suc (length body)) body = Some vs" "\<forall>v \<in> set vs. \<not> repeats_key v"
    using no_duplicate_iff by blast
  have "skip_ws body \<noteq> []" using a by (auto simp: raw_decode_def)
  with vs a have "v \<in> set vs" by (auto split: if_splits option.splits)
  with vs(2) have "json_norm v = v \<and> json_norm_first v = v" using norm_no_repeats by blast
  then show "json_norm v = v" "json_norm_first v = v" by blast+
qed

theorem duplicate_scan_correct_witness:
  "has_duplicate_keys ''{\"a\":{\"b\":1,\"b\":2}}'' \<and>
   json_norm (JObj [(''a'', JNum ''1'')]) = JObj [(''a'', JNum ''1'')]"
proof
  show "has_duplicate_keys ''{\"a\":{\"b\":1,\"b\":2}}''" by code_simp
  have "\<not> has_duplicate_keys ''{\"a\":1}'' \<and> raw_decode ''{\"a\":1}'' = Some (JObj [(''a'', JNum ''1'')], [])"
    by code_simp
  with duplicate_scan_correct[of "''{\"a\":1}''"] show
    "json_norm (JObj [(''a'', JNum ''1'')]) = JObj [(''a'', JNum ''1'')]" by blast
qed

end
