(* ===== verification/Tenancy.thy ===== *)
theory Tenancy
  imports Registry Mem_Store Sqlite_Store Json
begin

text \<open>
  internal/broker/tenancy.go and the authorization predicate of owner.go: the checks that run
  before a request is forwarded, and what runs on the response. The ledger is an optional
  \<open>owner_ops\<close> (a store that cannot record ownership gives \<open>None\<close>). A verdict is \<open>None\<close> when the
  request passes and \<open>Some\<close> refusal when it does not. A loop over a Go map is a loop over the
  association list. The stream of parts that mime/multipart yields for a body and a boundary is
  the argument \<open>multipart\<close>: the parts, and whether the stream ended cleanly.
\<close>

section \<open>Ownership\<close>

definition owns :: "'s owner_ops option \<Rightarrow> 's \<Rightarrow> string \<Rightarrow> string \<Rightarrow> string \<Rightarrow> string \<Rightarrow> bool" where
  "owns os s app rtype rid caller =
     (case os of
        None \<Rightarrow> False
      | Some ow \<Rightarrow>
          if rid = [] \<or> caller = [] then False
          else (case op_owner_of ow s app rtype rid of
                  Inr (Some owner) \<Rightarrow> owner = caller
                | _ \<Rightarrow> False))"

section \<open>References in a request\<close>

record refusal =
  rf_type :: string
  rf_id :: string

definition opaque_refusal :: refusal where
  "opaque_refusal = \<lparr>rf_type = [], rf_id = []\<rparr>"

definition is_param_seg :: "string \<Rightarrow> bool" where
  "is_param_seg p \<longleftrightarrow> length p > 2 \<and> hd p = CHR ''{'' \<and> last p = CHR ''}''"

definition pattern_binds :: "string list \<Rightarrow> string list \<Rightarrow> (string \<times> string) list" where
  "pattern_binds pat segs =
     map (\<lambda>(p, v). (butlast (tl p), v)) (filter (\<lambda>(p, v). is_param_seg p) (zip pat segs))"

definition path_params :: "string list list \<Rightarrow> string \<Rightarrow> string gmap" where
  "path_params patterns path =
     (let segs = path_segs path in
      fold (\<lambda>pat out. if segments_match pat segs
              then fold (\<lambda>(n, v) m. AList.update n v m) (pattern_binds pat segs) out else out)
        patterns [])"

fun first_some :: "'a option list \<Rightarrow> 'a option" where
  "first_some [] = None"
| "first_some (Some x # xs) = Some x"
| "first_some (None # xs) = first_some xs"

text \<open>\<open>own ty i\<close> stands for the call \<open>Owns(s, app, ty, i, caller)\<close>.\<close>

definition max_ref_depth :: nat where "max_ref_depth = 24"

definition check_member :: "(string \<Rightarrow> string \<Rightarrow> bool) \<Rightarrow> string gmap \<Rightarrow> string \<Rightarrow> json \<Rightarrow> refusal option" where
  "check_member own refs k v =
     (case map_of refs k of
        None \<Rightarrow> None
      | Some rtype \<Rightarrow>
          (case as_id v of
             Some i \<Rightarrow> if own rtype i then None else Some \<lparr>rf_type = rtype, rf_id = i\<rparr>
           | None \<Rightarrow> if v \<noteq> JNull then Some \<lparr>rf_type = rtype, rf_id = []\<rparr> else None))"

fun check_refs :: "(string \<Rightarrow> string \<Rightarrow> bool) \<Rightarrow> string gmap \<Rightarrow> nat \<Rightarrow> json \<Rightarrow> refusal option" where
  "check_refs own refs depth (JObj kvs) =
     (if depth > max_ref_depth then Some opaque_refusal
      else first_some (map (\<lambda>(k, v). case check_member own refs k v of
                                        Some r \<Rightarrow> Some r
                                      | None \<Rightarrow> check_refs own refs (Suc depth) v) kvs))"
| "check_refs own refs depth (JArr vs) =
     (if depth > max_ref_depth then Some opaque_refusal
      else first_some (map (check_refs own refs (Suc depth)) vs))"
| "check_refs own refs depth v = (if depth > max_ref_depth then Some opaque_refusal else None)"

section \<open>Multipart bodies\<close>

record part =
  pt_name :: string
  pt_file :: string
  pt_content :: string
  pt_readable :: bool

type_synonym multipart_reader = "string \<Rightarrow> string \<Rightarrow> part list \<times> bool"

definition max_multipart_parts :: nat where "max_multipart_parts = 64"
definition max_ref_field_bytes :: nat where "max_ref_field_bytes = 4096"

text \<open>The loop over the parts: \<open>None\<close> when it denies, else the fields found with their types.\<close>

fun scan_parts :: "string gmap \<Rightarrow> nat \<Rightarrow> (string \<times> string) gmap \<Rightarrow> part list \<Rightarrow> bool \<Rightarrow> (string \<times> string) gmap option" where
  "scan_parts refs n found [] clean = (if clean then Some found else None)"
| "scan_parts refs n found (p # ps) clean =
     (if Suc n > max_multipart_parts then None
      else case map_of refs (pt_name p) of
        None \<Rightarrow> scan_parts refs (Suc n) found ps clean
      | Some rtype \<Rightarrow>
          if pt_file p \<noteq> [] then None
          else if map_of found (pt_name p) \<noteq> None then None
          else if \<not> pt_readable p \<or> length (pt_content p) > max_ref_field_bytes then None
          else scan_parts refs (Suc n)
                 (AList.update (pt_name p) (rtype, trim_space (pt_content p)) found) ps clean)"

definition check_multipart_refs ::
  "(string \<Rightarrow> string \<Rightarrow> bool) \<Rightarrow> string gmap \<Rightarrow> multipart_reader \<Rightarrow> string \<Rightarrow> string \<Rightarrow> refusal option" where
  "check_multipart_refs own refs multipart body boundary =
     (if boundary = [] then Some opaque_refusal
      else let (parts, clean) = multipart body boundary in
        case scan_parts refs 0 [] parts clean of
          None \<Rightarrow> Some opaque_refusal
        | Some found \<Rightarrow>
            first_some (map (\<lambda>(_, (rtype, v)). if v = [] then None
                              else if own rtype v then None
                              else Some \<lparr>rf_type = rtype, rf_id = v\<rparr>) found))"

section \<open>The gate before forwarding\<close>

definition check_path :: "(string \<Rightarrow> string \<Rightarrow> bool) \<Rightarrow> string gmap \<Rightarrow> string list list \<Rightarrow> string \<Rightarrow> refusal option" where
  "check_path own types patterns path =
     first_some (map (\<lambda>(n, v). case map_of types n of
                        None \<Rightarrow> None
                      | Some rtype \<Rightarrow> if own rtype v then None else Some \<lparr>rf_type = rtype, rf_id = v\<rparr>)
                 (path_params patterns path))"

definition check_query :: "(string \<Rightarrow> string \<Rightarrow> bool) \<Rightarrow> string gmap \<Rightarrow> string \<Rightarrow> refusal option" where
  "check_query own refs rawQuery =
     (if rawQuery = [] then None
      else case parse_query rawQuery of
             None \<Rightarrow> Some opaque_refusal
           | Some q \<Rightarrow>
               first_some (map (\<lambda>(f, v). case map_of refs f of
                                  None \<Rightarrow> None
                                | Some rtype \<Rightarrow> if v = [] then None
                                    else if own rtype v then None
                                    else Some \<lparr>rf_type = rtype, rf_id = v\<rparr>) q))"

definition check_body ::
  "(string \<Rightarrow> string \<Rightarrow> bool) \<Rightarrow> string gmap \<Rightarrow> multipart_reader \<Rightarrow> string \<Rightarrow> string \<Rightarrow> refusal option" where
  "check_body own refs multipart contentType body =
     (if body = [] \<or> refs = [] then None
      else let as_json =
        (if has_duplicate_keys body then Some opaque_refusal
         else case decode_json body of
                None \<Rightarrow> Some opaque_refusal
              | Some v \<Rightarrow> if decoder_more body then Some opaque_refusal
                          else check_refs own refs 0 v)
      in case parse_media_type contentType of
           Some (mt, ps) \<Rightarrow>
             if mt = multipart_type
             then check_multipart_refs own refs multipart body
                    (case map_of ps ''boundary'' of Some b \<Rightarrow> b | None \<Rightarrow> [])
             else as_json
         | None \<Rightarrow> as_json)"

definition enforce_request ::
  "tenancy option \<Rightarrow> 's owner_ops option \<Rightarrow> 's \<Rightarrow> string \<Rightarrow> string list list \<Rightarrow> string \<Rightarrow> string \<Rightarrow> string
     \<Rightarrow> string \<Rightarrow> string \<Rightarrow> multipart_reader \<Rightarrow> refusal option" where
  "enforce_request tn os s app patterns path rawQuery contentType body caller multipart =
     (case tn of
        None \<Rightarrow> None
      | Some t \<Rightarrow>
          if os = None \<or> caller = [] then Some opaque_refusal
          else let own = (\<lambda>ty i. owns os s app ty i caller) in
            case check_path own (tn_param_types t) patterns path of
              Some r \<Rightarrow> Some r
            | None \<Rightarrow> (case check_query own (tn_body_refs t) rawQuery of
                Some r \<Rightarrow> Some r
              | None \<Rightarrow> check_body own (tn_body_refs t) multipart contentType body))"

section \<open>After a successful response\<close>

definition claim :: "'s owner_ops \<Rightarrow> string \<Rightarrow> string \<Rightarrow> string \<Rightarrow> string \<Rightarrow> gotime \<Rightarrow> 's \<Rightarrow> 's" where
  "claim ow app rtype rid caller now s = snd (op_claim ow s app rtype rid caller now)"

definition route_hits :: "string \<times> string list \<times> 'r \<Rightarrow> string \<Rightarrow> string list \<Rightarrow> bool" where
  "route_hits r method segs \<longleftrightarrow> fst r = to_upper method \<and> segments_match (fst (snd r)) segs"

definition claim_route :: "'s owner_ops \<Rightarrow> string \<Rightarrow> string \<Rightarrow> string \<Rightarrow> gotime \<Rightarrow> create_route \<Rightarrow> 's \<Rightarrow> 's" where
  "claim_route ow app respBody caller now c s =
     (case decode_json respBody of
        None \<Rightarrow> s
      | Some v \<Rightarrow> (case dig v (cr_id_field c) of
          None \<Rightarrow> s
        | Some raw \<Rightarrow> (case as_id raw of
            None \<Rightarrow> s
          | Some i \<Rightarrow> claim ow app (cr_type c) i caller now s)))"

definition claim_from ::
  "tenancy \<Rightarrow> 's owner_ops option \<Rightarrow> string \<Rightarrow> string \<Rightarrow> string \<Rightarrow> string \<Rightarrow> string \<Rightarrow> gotime \<Rightarrow> 's \<Rightarrow> 's" where
  "claim_from t os app method path respBody caller now s =
     (case os of
        None \<Rightarrow> s
      | Some ow \<Rightarrow>
          fold (\<lambda>r s. if route_hits r method (path_segs path)
                       then claim_route ow app respBody caller now (snd (snd r)) s else s)
            (tn_create_idx t) s)"

definition release_from ::
  "tenancy \<Rightarrow> 's owner_ops option \<Rightarrow> string \<Rightarrow> string list list \<Rightarrow> string \<Rightarrow> string \<Rightarrow> 's \<Rightarrow> 's" where
  "release_from t os app patterns method path s =
     (case os of
        None \<Rightarrow> s
      | Some ow \<Rightarrow>
          fold (\<lambda>r s. if route_hits r method (path_segs path)
                       then (case map_of (path_params patterns path) (dr_param (snd (snd r))) of
                               Some i \<Rightarrow> if i \<noteq> [] then snd (op_release ow s app (dr_type (snd (snd r))) i) else s
                             | None \<Rightarrow> s)
                       else s)
            (tn_delete_idx t) s)"

definition unfilterable :: string where
  "unfilterable = json_text (JObj [(''error'', JStr ''tenancy: unfilterable upstream response'')])"

text \<open>The links are tried in order; the first one that resolves to an owned resource keeps the
  element and claims the element's own id.\<close>

fun keep_links ::
  "'s owner_ops \<Rightarrow> string \<Rightarrow> (string \<times> json) list \<Rightarrow> string \<Rightarrow> owner_link list \<Rightarrow> string \<Rightarrow> string \<Rightarrow> gotime \<Rightarrow> 's \<Rightarrow> bool \<times> 's" where
  "keep_links ow app m caller [] claimAs claimIDField now s = (False, s)"
| "keep_links ow app m caller (k # ks) claimAs claimIDField now s =
     (case Option.bind (map_of m (ol_field k)) as_id of
        None \<Rightarrow> keep_links ow app m caller ks claimAs claimIDField now s
      | Some i \<Rightarrow>
          if owns (Some ow) s app (ol_type k) i caller then
            (True,
             if claimAs = [] then s
             else let field = (if claimIDField = [] then ''id'' else claimIDField) in
               (case Option.bind (map_of m field) as_id of
                  Some self \<Rightarrow> if self \<noteq> [] then claim ow app claimAs self caller now s else s
                | None \<Rightarrow> s))
          else keep_links ow app m caller ks claimAs claimIDField now s)"

definition keep_element ::
  "'s owner_ops \<Rightarrow> string \<Rightarrow> json \<Rightarrow> string \<Rightarrow> list_route \<Rightarrow> gotime \<Rightarrow> 's \<Rightarrow> bool \<times> 's" where
  "keep_element ow app el caller l now s =
     (case el of
        JObj m \<Rightarrow> keep_links ow app m caller (lr_owner_by l) (lr_claim_as l) (lr_claim_id_field l) now s
      | _ \<Rightarrow> (False, s))"

fun keep_all ::
  "'s owner_ops \<Rightarrow> string \<Rightarrow> string \<Rightarrow> list_route \<Rightarrow> gotime \<Rightarrow> json list \<Rightarrow> 's \<Rightarrow> json list \<times> 's" where
  "keep_all ow app caller l now [] s = ([], s)"
| "keep_all ow app caller l now (el # els) s =
     (let (k, s1) = keep_element ow app el caller l now s;
          (rest, s2) = keep_all ow app caller l now els s1
      in (if k then el # rest else rest, s2))"

definition recount :: "nat \<Rightarrow> string list \<Rightarrow> json \<Rightarrow> json" where
  "recount n cfs v =
     fold (\<lambda>cf w. if dig w cf \<noteq> None
                   then (case set_dug w cf (JNum (itoa (int n))) of Some w' \<Rightarrow> w' | None \<Rightarrow> w) else w)
       cfs v"

text \<open>The decoded response with the array filtered: \<open>None\<close> when there is no array to filter,
  \<open>Some None\<close> when the response cannot be filtered.\<close>

definition filter_list ::
  "'s owner_ops \<Rightarrow> string \<Rightarrow> string \<Rightarrow> list_route \<Rightarrow> gotime \<Rightarrow> json \<Rightarrow> 's \<Rightarrow> json option option \<times> 's" where
  "filter_list ow app caller l now v s =
     (case dig v (lr_array l) of
        None \<Rightarrow> (None, s)
      | Some (JArr arr) \<Rightarrow>
          (let (kept, s') = keep_all ow app caller l now arr s in
           case set_dug v (lr_array l) (JArr kept) of
             None \<Rightarrow> (Some None, s')
           | Some w \<Rightarrow> (Some (Some (recount (length kept) (lr_count_fields l) w)), s'))
      | Some _ \<Rightarrow> (Some None, s))"

definition filter_response ::
  "tenancy \<Rightarrow> 's owner_ops option \<Rightarrow> string \<Rightarrow> string \<Rightarrow> string \<Rightarrow> string \<Rightarrow> string \<Rightarrow> gotime \<Rightarrow> 's
    \<Rightarrow> (string \<times> bool) \<times> 's" where
  "filter_response t os app method path respBody caller now s =
     (case os of
        None \<Rightarrow> ((respBody, False), s)
      | Some ow \<Rightarrow>
          (case find (\<lambda>r. route_hits r method (path_segs path)) (tn_list_idx t) of
             None \<Rightarrow> ((respBody, False), s)
           | Some (_, _, l) \<Rightarrow>
               (case decode_json respBody of
                  None \<Rightarrow> ((unfilterable, True), s)
                | Some v \<Rightarrow>
                    (case filter_list ow app caller l now v s of
                       (None, s') \<Rightarrow> ((respBody, False), s')
                     | (Some None, s') \<Rightarrow> ((unfilterable, True), s')
                     | (Some (Some w), s') \<Rightarrow> ((json_text w, True), s')))))"

text \<open>\<open>FilterObject\<close>: the counts are replaced by the caller's own, then fields are dropped.\<close>

fun own_counts :: "'s owner_ops \<Rightarrow> 's \<Rightarrow> string \<Rightarrow> string \<Rightarrow> string gmap \<Rightarrow> json \<Rightarrow> json option" where
  "own_counts ow s app caller [] v = Some v"
| "own_counts ow s app caller ((field, rtype) # fs) v =
     (if dig v field = None then own_counts ow s app caller fs v
      else case op_owned_set ow s app rtype caller of
             Inl _ \<Rightarrow> None
           | Inr owned \<Rightarrow> (case set_dug v field (JNum (itoa (int (length owned)))) of
               None \<Rightarrow> None
             | Some w \<Rightarrow> own_counts ow s app caller fs w))"

definition filter_object ::
  "tenancy \<Rightarrow> 's owner_ops option \<Rightarrow> string \<Rightarrow> string \<Rightarrow> string \<Rightarrow> string \<Rightarrow> string \<Rightarrow> 's \<Rightarrow> string \<times> bool" where
  "filter_object t os app method path respBody caller s =
     (case os of
        None \<Rightarrow> (respBody, False)
      | Some ow \<Rightarrow>
          (case find (\<lambda>r. route_hits r method (path_segs path)) (tn_object_idx t) of
             None \<Rightarrow> (respBody, False)
           | Some (_, _, obj) \<Rightarrow>
               (case decode_json respBody of
                  None \<Rightarrow> (unfilterable, True)
                | Some v \<Rightarrow>
                    (case own_counts ow s app caller (or_owned_counts obj) v of
                       None \<Rightarrow> (unfilterable, True)
                     | Some w \<Rightarrow> (json_text (fold (\<lambda>f x. del_dug x f) (or_redact obj) w), True)))))"

section \<open>Soundness of the gate\<close>

lemma first_some_None: "first_some xs = None \<longleftrightarrow> (\<forall>x \<in> set xs. x = None)"
  by (induction xs rule: first_some.induct) auto

text \<open>The members of a value at any depth, and what it means that a member is harmless.\<close>

fun json_members :: "json \<Rightarrow> (string \<times> json) list" where
  "json_members (JObj kvs) = concat (map (\<lambda>(k, v). (k, v) # json_members v) kvs)"
| "json_members (JArr vs) = concat (map json_members vs)"
| "json_members _ = []"

definition member_ok :: "(string \<Rightarrow> string \<Rightarrow> bool) \<Rightarrow> string gmap \<Rightarrow> string \<times> json \<Rightarrow> bool" where
  "member_ok own refs kv =
     (case map_of refs (fst kv) of
        None \<Rightarrow> True
      | Some rtype \<Rightarrow> snd kv = JNull \<or> (\<exists>i. as_id (snd kv) = Some i \<and> own rtype i))"

lemma check_member_None: "check_member own refs k v = None \<longleftrightarrow> member_ok own refs (k, v)"
  by (auto simp: check_member_def member_ok_def as_id_def split: option.splits json.splits)

lemma check_refs_sound:
  "check_refs own refs d v = None \<Longrightarrow> kv \<in> set (json_members v) \<Longrightarrow> member_ok own refs kv"
proof (induction own refs d v rule: check_refs.induct)
  case (1 own refs depth kvs)
  from 1(3) obtain k v where kv: "(k, v) \<in> set kvs" "kv = (k, v) \<or> kv \<in> set (json_members v)" by auto
  from 1(2) have dep: "\<not> depth > max_ref_depth" by (auto split: if_splits)
  with 1(2) kv(1) have m: "check_member own refs k v = None" "check_refs own refs (Suc depth) v = None"
    by (fastforce simp: first_some_None split: option.splits)+
  then have "member_ok own refs (k, v)" by (simp add: check_member_None)
  moreover have "kv \<in> set (json_members v) \<Longrightarrow> member_ok own refs kv"
    using 1(1)[OF dep kv(1) refl m(1) m(2)] .
  ultimately show ?case using kv(2) by auto
next
  case (2 own refs depth vs)
  then show ?case by (fastforce simp: first_some_None split: if_splits)
qed auto

text \<open>Nothing but white space follows a body that passes.\<close>

lemma stream_after_value:
  assumes "parse_stream (Suc (length s)) s = Some vs" "raw_decode s = Some (v, r)"
    and "\<not> decoder_more s" "skip_ws s \<noteq> []"
  shows "skip_ws r = []"
proof (cases "skip_ws r")
  case (Cons c q)
  with assms(2,3) have c: "c = CHR '']'' \<or> c = CHR ''}''" by (auto simp: decoder_more_def)
  from assms(1,2,4) obtain ws where w: "parse_stream (length s) r = Some ws" by auto
  have n: "lex_number (c # q) = None" using c by (auto simp: lex_number_def lex_int_def is_digit_def)
  have "parse_value (Suc k) r = None" for k
    using c by (auto simp: Cons has_prefix_def n)
  then have d: "raw_decode r = None" by (simp only: raw_decode_def)
  show ?thesis
  proof (cases "length s")
    case 0
    with w show ?thesis by simp
  next
    case (Suc k)
    with w Cons d show ?thesis by (simp only: parse_stream.simps) simp
  qed
qed simp

lemma raw_decode_nonblank: "raw_decode s = Some (v, r) \<Longrightarrow> skip_ws s \<noteq> []"
  by (auto simp: raw_decode_def)

lemma check_json_body:
  assumes "check_body own refs mp ct body = None" "body \<noteq> []" "refs \<noteq> []"
    and "\<forall>ps. parse_media_type ct \<noteq> Some (multipart_type, ps)"
  obtains v r where "raw_decode body = Some (v, r)" "skip_ws r = []"
    "json_norm v = v" "json_norm_first v = v" "\<forall>kv \<in> set (json_members v). member_ok own refs kv"
proof -
  from assms have c: "\<not> has_duplicate_keys body" "\<not> decoder_more body"
    and "\<exists>w. decode_json body = Some w \<and> check_refs own refs 0 w = None"
    by (auto simp: check_body_def Let_def split: option.splits if_splits)
  then obtain v r where d: "raw_decode body = Some (v, r)" and w: "check_refs own refs 0 (json_norm v) = None"
    by (auto simp: decode_json_def)
  from c(1) obtain vs where vs: "parse_stream (Suc (length body)) body = Some vs" "\<forall>v \<in> set vs. \<not> repeats_key v"
    using no_duplicate_iff by blast
  have nb: "skip_ws body \<noteq> []" using raw_decode_nonblank[OF d] .
  from vs d nb have "v \<in> set vs" by (auto split: if_splits option.splits)
  with vs(2) have n: "json_norm v = v" "json_norm_first v = v" using norm_no_repeats by blast+
  moreover have "skip_ws r = []" using stream_after_value[OF vs(1) d c(2) nb] .
  moreover have "\<forall>kv \<in> set (json_members v). member_ok own refs kv"
    using check_refs_sound[OF w] n(1) by auto
  ultimately show ?thesis using d that by blast
qed

lemma scan_parts_found:
  "scan_parts refs n found ps clean = Some out \<Longrightarrow>
   (\<forall>k x. map_of found k = Some x \<longrightarrow> map_of out k = Some x) \<and>
   (\<forall>p \<in> set ps. \<forall>ty. map_of refs (pt_name p) = Some ty \<longrightarrow>
      pt_file p = [] \<and> map_of out (pt_name p) = Some (ty, trim_space (pt_content p)))"
proof (induction ps arbitrary: n found)
  case (Cons p ps)
  show ?case
  proof (cases "map_of refs (pt_name p)")
    case None
    with Cons show ?thesis by (auto split: if_splits)
  next
    case (Some ty)
    let ?f = "AList.update (pt_name p) (ty, trim_space (pt_content p)) found"
    have a2: "map_of found (pt_name p) = None"
    proof (rule ccontr)
      assume "map_of found (pt_name p) \<noteq> None"
      with Cons.prems Some show False by (auto split: if_splits)
    qed
    with Cons.prems Some have a: "pt_file p = []" "map_of found (pt_name p) = None"
      and s: "scan_parts refs (Suc n) ?f ps clean = Some out"
      by (auto split: if_splits)
    note IH = Cons.IH[OF s]
    have "map_of out (pt_name p) = Some (ty, trim_space (pt_content p))" using IH by simp
    moreover have "map_of out k = Some x" if "map_of found k = Some x" for k x
    proof -
      have "k \<noteq> pt_name p" using a(2) that by auto
      then have "map_of ?f k = Some x" using that by simp
      with IH show ?thesis by blast
    qed
    ultimately show ?thesis using IH a Some by auto
  qed
qed (auto split: if_splits)

lemma scan_parts_clean: "scan_parts refs n found ps clean = Some out \<Longrightarrow> clean \<and> length ps + n \<le> max_multipart_parts \<or> ps = [] \<and> clean"
  by (induction ps arbitrary: n found) (force split: if_splits option.splits)+

lemma map_of_member: "map_of m k = Some x \<Longrightarrow> (k, x) \<in> set m"
  by (rule map_of_SomeD)

text \<open>Observation: When a multipart body passes, every part whose field names a resource is a plain
  field and names a resource the caller owns, or is blank.\<close>

theorem multipart_refs_owned:
  assumes "check_multipart_refs own refs mp body boundary = None"
    and "mp body boundary = (parts, clean)" "p \<in> set parts" "map_of refs (pt_name p) = Some ty"
  shows "pt_file p = [] \<and> (trim_space (pt_content p) = [] \<or> own ty (trim_space (pt_content p))) \<and> clean"
proof -
  from assms(1,2) obtain found where f: "scan_parts refs 0 [] parts clean = Some found"
    and o: "\<forall>(k, ty, v) \<in> set found. v = [] \<or> own ty v"
    by (force simp: check_multipart_refs_def first_some_None split: if_splits option.splits)
  from scan_parts_found[OF f] assms(3,4) have
    "pt_file p = []" "map_of found (pt_name p) = Some (ty, trim_space (pt_content p))" by auto
  then show ?thesis using o scan_parts_clean[OF f] by (auto dest!: map_of_member)
qed

section \<open>What the gate guarantees\<close>

lemma path_refs_owned:
  assumes "enforce_request (Some t) os s app patterns path rawQuery ct body caller mp = None"
    and "(n, v) \<in> set (path_params patterns path)" "map_of (tn_param_types t) n = Some ty"
  shows "owns os s app ty v caller"
proof -
  from assms(1) have "check_path (\<lambda>ty i. owns os s app ty i caller) (tn_param_types t) patterns path = None"
    by (auto simp: enforce_request_def Let_def split: if_splits option.splits)
  with assms(2,3) show ?thesis by (fastforce simp: check_path_def first_some_None split: if_splits)
qed


lemma fold_frame:
  assumes "\<And>r s. I s \<Longrightarrow> r \<in> set rs \<Longrightarrow> I (f r s) \<and> (\<forall>k. g (f r s) k = g s k \<or> g (f r s) k = z \<and> P r k)"
    and "I s"
  shows "I (fold f rs s) \<and> (\<forall>k. g (fold f rs s) k = g s k \<or> g (fold f rs s) k = z \<and> (\<exists>r \<in> set rs. P r k))"
  using assms
proof (induction rs arbitrary: s)
  case (Cons r rs)
  have one: "I (f r s)" "\<And>k. g (f r s) k = g s k \<or> g (f r s) k = z \<and> P r k"
    using Cons.prems by auto
  have "I (fold f rs (f r s)) \<and> (\<forall>k. g (fold f rs (f r s)) k = g (f r s) k \<or>
      g (fold f rs (f r s)) k = z \<and> (\<exists>r \<in> set rs. P r k))"
    by (rule Cons.IH) (use Cons.prems one in auto)
  with one show ?case by (simp; metis)
qed simp

section \<open>Claims and filtering over an ownership ledger\<close>

text \<open>An element of a list whose declared link names a resource the caller owns.\<close>

definition elem_mine :: "owners \<Rightarrow> string \<Rightarrow> string \<Rightarrow> owner_link list \<Rightarrow> json \<Rightarrow> bool" where
  "elem_mine W a c links el \<longleftrightarrow> (\<exists>m k raw i. el = JObj m \<and> k \<in> set links \<and> map_of m (ol_field k) = Some raw \<and>
     as_id raw = Some i \<and> i \<noteq> [] \<and> W (a, ol_type k, i) = Some c)"

context ownership_ledger
begin

lemma owns_iff: "inv s \<Longrightarrow> ok_app a \<Longrightarrow> ok_type t \<Longrightarrow>
  owns (Some ops) s a t i c \<longleftrightarrow> i \<noteq> [] \<and> c \<noteq> [] \<and> own s (a, t, i) = Some c"
  by (auto simp: owns_def owner_of_spec split: option.splits)

text \<open>A step that keeps every recorded owner and gives new rows to one caller only.\<close>

definition grows :: "string \<Rightarrow> 's \<Rightarrow> 's \<Rightarrow> bool" where
  "grows c s s' \<longleftrightarrow> inv s' \<and>
     (\<forall>k. own s' k = own s k \<or> own s k = None \<and> own s' k = Some c)"

lemma grows_refl: "inv s \<Longrightarrow> grows c s s"
  by (simp add: grows_def)

lemma grows_trans: "grows c s s' \<Longrightarrow> grows c s' s'' \<Longrightarrow> grows c s s''"
  unfolding grows_def by metis

lemma grows_keeps: "grows c s s' \<Longrightarrow> own s k = Some d \<Longrightarrow> own s' k = Some d"
  unfolding grows_def by (metis option.distinct(1))

lemma claim_grows:
  assumes "inv s" "ok_app a" "ok_type t"
  shows "grows c s (claim ops a t i c now s)"
proof -
  obtain r s' where r: "op_claim ops s a t i c now = (r, s')" by fastforce
  show ?thesis using claim_spec[OF assms r] r
    by (auto simp: grows_def claim_def spec_claim_def split: if_splits option.splits)
qed

lemma claim_route_grows:
  assumes "inv s" "ok_app a" "ok_type (cr_type cr)"
  shows "grows c s (claim_route ops a body c now cr s)"
  using assms by (auto simp: claim_route_def intro: grows_refl claim_grows split: option.split)

lemma claim_from_grows:
  assumes "inv s" "ok_app a" "\<forall>r \<in> set (tn_create_idx t). ok_type (cr_type (snd (snd r)))"
  shows "grows c s (claim_from t (Some ops) a m path body c now s)"
proof -
  have "grows c s (fold (\<lambda>r s. if route_hits r m (path_segs path)
                       then claim_route ops a body c now (snd (snd r)) s else s) rs s)"
    if "\<forall>r \<in> set rs. ok_type (cr_type (snd (snd r)))" "inv s" for rs s
    using that
  proof (induction rs arbitrary: s)
    case (Cons r rs)
    let ?s = "if route_hits r m (path_segs path) then claim_route ops a body c now (snd (snd r)) s else s"
    have g: "grows c s ?s" using Cons.prems assms(2) by (auto intro: grows_refl claim_route_grows)
    then have "grows c ?s (fold (\<lambda>r s. if route_hits r m (path_segs path)
                       then claim_route ops a body c now (snd (snd r)) s else s) rs ?s)"
      using Cons by (intro Cons.IH) (auto simp: grows_def)
    with g show ?case by (auto intro: grows_trans)
  qed (simp add: grows_refl)
  with assms show ?thesis by (simp add: claim_from_def)
qed

text \<open>The first link that resolves decides; the element's own id is claimed at most.\<close>

lemma keep_links_spec:
  assumes "inv s" "ok_app a" "\<forall>k \<in> set links. ok_type (ol_type k)" "ok_type ca"
  shows "(fst (keep_links ops a m c links ca cf now s) \<longleftrightarrow>
      (\<exists>k \<in> set links. \<exists>raw i. map_of m (ol_field k) = Some raw \<and> as_id raw = Some i \<and> owns (Some ops) s a (ol_type k) i c))
    \<and> grows c s (snd (keep_links ops a m c links ca cf now s))"
  using assms(3)
proof (induction links)
  case Nil
  then show ?case using assms(1) by (simp add: grows_refl)
next
  case (Cons k ks)
  have g: "grows c s (claim ops a ca i c now s)" for i
    using assms by (intro claim_grows) auto
  let ?hit = "\<lambda>k. \<exists>raw i. map_of m (ol_field k) = Some raw \<and> as_id raw = Some i \<and> owns (Some ops) s a (ol_type k) i c"
  from Cons have ih: "(fst (keep_links ops a m c ks ca cf now s) \<longleftrightarrow> (\<exists>k \<in> set ks. ?hit k))
    \<and> grows c s (snd (keep_links ops a m c ks ca cf now s))" by simp
  show ?case
  proof (cases "?hit k")
    case True
    then obtain raw i where r: "map_of m (ol_field k) = Some raw" "as_id raw = Some i" "owns (Some ops) s a (ol_type k) i c"
      by blast
    then have "fst (keep_links ops a m c (k # ks) ca cf now s)" by simp
    moreover have "grows c s (snd (keep_links ops a m c (k # ks) ca cf now s))"
      using r g assms(1) by (simp add: grows_refl Let_def split: option.split)
    ultimately show ?thesis using True unfolding list.set by blast
  next
    case False
    then have "\<not> owns (Some ops) s a (ol_type k) i c" if "Option.bind (map_of m (ol_field k)) as_id = Some i" for i
      using that by (auto simp: bind_eq_Some_conv)
    then have "keep_links ops a m c (k # ks) ca cf now s = keep_links ops a m c ks ca cf now s"
      by (cases "Option.bind (map_of m (ol_field k)) as_id") simp_all
    with ih False show ?thesis unfolding list.set by auto
  qed
qed

lemma mine_grows: "grows d s s' \<Longrightarrow> elem_mine (own s) a c links el \<Longrightarrow> elem_mine (own s') a c links el"
  unfolding elem_mine_def by (metis grows_keeps)

lemma keep_element_spec:
  assumes "inv s" "ok_app a" "c \<noteq> []" "\<forall>k \<in> set (lr_owner_by l). ok_type (ol_type k)" "ok_type (lr_claim_as l)"
  shows "(fst (keep_element ops a el c l now s) \<longleftrightarrow> elem_mine (own s) a c (lr_owner_by l) el)
    \<and> grows c s (snd (keep_element ops a el c l now s))"
proof (cases el)
  case (JObj m)
  have "owns (Some ops) s a (ol_type k) i c \<longleftrightarrow> i \<noteq> [] \<and> own s (a, ol_type k, i) = Some c"
    if "k \<in> set (lr_owner_by l)" for k i
    using assms that by (simp add: owns_iff)
  with JObj keep_links_spec[OF assms(1,2,4,5), of m c "lr_claim_id_field l" now] show ?thesis
    unfolding keep_element_def elem_mine_def by auto
qed (use assms(1) in \<open>auto simp: keep_element_def elem_mine_def grows_refl\<close>)

lemma keep_all_spec:
  assumes "inv s" "ok_app a" "c \<noteq> []" "\<forall>k \<in> set (lr_owner_by l). ok_type (ol_type k)" "ok_type (lr_claim_as l)"
    and "keep_all ops a c l now els s = (kept, s')"
  shows "grows c s s' \<and> subseq kept els \<and> (\<forall>el \<in> set kept. elem_mine (own s') a c (lr_owner_by l) el) \<and>
    (\<forall>el \<in> set els. elem_mine (own s) a c (lr_owner_by l) el \<longrightarrow> el \<in> set kept)"
  using assms(1,6)
proof (induction els arbitrary: s kept)
  case Nil
  then show ?case by (simp add: grows_refl)
next
  case (Cons el els)
  obtain k s1 where k: "keep_element ops a el c l now s = (k, s1)" by fastforce
  obtain rest s2 where r: "keep_all ops a c l now els s1 = (rest, s2)" by fastforce
  from Cons.prems k r have res: "kept = (if k then el # rest else rest)" "s' = s2" by auto
  from keep_element_spec[OF Cons.prems(1) assms(2-5), of el now] k
  have e: "k \<longleftrightarrow> elem_mine (own s) a c (lr_owner_by l) el" "grows c s s1" by auto
  then have "inv s1" by (simp add: grows_def)
  from Cons.IH[OF this] r res have ih: "grows c s1 s'" "subseq rest els"
    "\<forall>x \<in> set rest. elem_mine (own s') a c (lr_owner_by l) x"
    "\<forall>x \<in> set els. elem_mine (own s1) a c (lr_owner_by l) x \<longrightarrow> x \<in> set rest" by auto
  have "elem_mine (own s') a c (lr_owner_by l) el" if k
    using e ih(1) that by (metis mine_grows)
  moreover have "\<forall>x \<in> set els. elem_mine (own s) a c (lr_owner_by l) x \<longrightarrow> x \<in> set rest"
    using ih(4) mine_grows[OF e(2)] by blast
  ultimately show ?case using e ih res by (auto intro: grows_trans)
qed

lemma release_from_frame:
  assumes "inv s" "ok_app a" "\<forall>r \<in> set (tn_delete_idx t). ok_type (dr_type (snd (snd r)))"
  shows "inv (release_from t (Some ops) a pats m path s) \<and>
    (\<forall>k. own (release_from t (Some ops) a pats m path s) k = own s k \<or>
       own (release_from t (Some ops) a pats m path s) k = None \<and>
       (\<exists>r \<in> set (tn_delete_idx t). route_hits r m (path_segs path) \<and>
          fst k = a \<and> fst (snd k) = dr_type (snd (snd r)) \<and>
          map_of (path_params pats path) (dr_param (snd (snd r))) = Some (snd (snd k))))"
    (is "?P (release_from t (Some ops) a pats m path s)")
proof -
  let ?step = "\<lambda>r s. if route_hits r m (path_segs path)
       then (case map_of (path_params pats path) (dr_param (snd (snd r))) of
               Some i \<Rightarrow> if i \<noteq> [] then snd (op_release ops s a (dr_type (snd (snd r))) i) else s
             | None \<Rightarrow> s) else s"
  have step: "inv (?step r s) \<and> (\<forall>k. own (?step r s) k = own s k \<or> own (?step r s) k = None \<and>
      route_hits r m (path_segs path) \<and> fst k = a \<and> fst (snd k) = dr_type (snd (snd r)) \<and>
      map_of (path_params pats path) (dr_param (snd (snd r))) = Some (snd (snd k)))"
    if "inv s" "ok_type (dr_type (snd (snd r)))" for r s
  proof (cases "map_of (path_params pats path) (dr_param (snd (snd r)))")
    case (Some i)
    obtain x s1 where x: "op_release ops s a (dr_type (snd (snd r))) i = (x, s1)" by fastforce
    from release_spec[OF that(1) assms(2) that(2) x] Some x that show ?thesis by auto
  qed (use that in auto)
  have "inv (fold ?step (tn_delete_idx t) s) \<and> (\<forall>k. own (fold ?step (tn_delete_idx t) s) k = own s k \<or>
      own (fold ?step (tn_delete_idx t) s) k = None \<and> (\<exists>r \<in> set (tn_delete_idx t).
        route_hits r m (path_segs path) \<and> fst k = a \<and> fst (snd k) = dr_type (snd (snd r)) \<and>
        map_of (path_params pats path) (dr_param (snd (snd r))) = Some (snd (snd k))))"
    by (rule fold_frame) (use assms step in blast)+
  then show ?thesis unfolding release_from_def option.case by assumption
qed

end

section \<open>Isolation after the response\<close>

text \<open>C20: Filtering a list response against the SQLite ledger keeps, in order, elements that
  link to a resource of the caller and every element that did so before; the array is replaced
  by them and the count fields are recomputed; no recorded owner changes, and new rows belong
  to the caller.\<close>

theorem filter_list_isolates:
  assumes "filter_list sql_owner_ops a c l now v s = (Some (Some w), s')"
    and "sql_owner_inv s" "c \<noteq> []"
  shows "\<exists>arr kept w0. dig v (lr_array l) = Some (JArr arr) \<and> subseq kept arr \<and>
     (\<forall>el \<in> set kept. elem_mine (sql_own s') a c (lr_owner_by l) el) \<and>
     (\<forall>el \<in> set arr. elem_mine (sql_own s) a c (lr_owner_by l) el \<longrightarrow> el \<in> set kept) \<and>
     set_dug v (lr_array l) (JArr kept) = Some w0 \<and> w = recount (length kept) (lr_count_fields l) w0 \<and>
     (\<forall>k. sql_own s' k = sql_own s k \<or> sql_own s k = None \<and> sql_own s' k = Some c)"
proof -
  from assms(1) obtain arr kept w0 where f: "dig v (lr_array l) = Some (JArr arr)"
    "keep_all sql_owner_ops a c l now arr s = (kept, s')"
    "set_dug v (lr_array l) (JArr kept) = Some w0" "w = recount (length kept) (lr_count_fields l) w0"
    by (auto simp: filter_list_def split: option.splits json.splits prod.splits)
  from sql_owners.keep_all_spec[OF assms(2) _ assms(3) _ _ f(2)]
  show ?thesis using f(1,3,4) unfolding sql_owners.grows_def by blast
qed

text \<open>Observation: Recording what a successful response created never changes a recorded owner: over the
  in-memory ledger every row is as before, or is new and belongs to the caller.\<close>

theorem claim_from_first_writer:
  assumes "mem_owner_inv s" "no_bar a" "\<forall>r \<in> set (tn_create_idx t). no_bar (cr_type (snd (snd r)))"
    and "s' = claim_from t (Some mem_owner_ops) a m path body c now s"
  shows "mem_owner_inv s' \<and> (\<forall>k. mem_own s' k = mem_own s k \<or> mem_own s k = None \<and> mem_own s' k = Some c)"
  using mem_owners.claim_from_grows[OF assms(1-3), of c m path body now] assms(4)
  by (simp add: mem_owners.grows_def del: mem_ops_simps)

text \<open>Observation: When the gate has let a delete through and each delete route names a parameter typed
  as the route says, the release that follows drops rows of the caller only.\<close>

theorem release_after_gate:
  assumes "enforce_request (Some t) (Some sql_owner_ops) s a pats path q ct body c mp = None"
    and "sql_owner_inv s"
    and "\<forall>r \<in> set (tn_delete_idx t). map_of (tn_param_types t) (dr_param (snd (snd r))) = Some (dr_type (snd (snd r)))"
    and "s' = release_from t (Some sql_owner_ops) a pats m path s"
  shows "\<forall>k. sql_own s' k = sql_own s k \<or> sql_own s' k = None \<and> sql_own s k = Some c"
proof
  fix k :: "string \<times> string \<times> string"
  obtain b ty i where k: "k = (b, ty, i)" by (metis prod.exhaust)
  have "\<forall>r \<in> set (tn_delete_idx t). True" by simp
  note frame = conjunct2[OF sql_owners.release_from_frame[OF assms(2) _ this, where a = a and pats = pats and m = m and path = path]]
  have "sql_own s' k = sql_own s k \<or> sql_own s' k = None \<and> (\<exists>r \<in> set (tn_delete_idx t).
      b = a \<and> ty = dr_type (snd (snd r)) \<and> map_of (path_params pats path) (dr_param (snd (snd r))) = Some i)"
    using spec[OF frame[OF TrueI], of k] unfolding k fst_conv snd_conv assms(4) by blast
  moreover have "sql_own s k = Some c"
    if "r \<in> set (tn_delete_idx t)" "b = a" "ty = dr_type (snd (snd r))"
      "map_of (path_params pats path) (dr_param (snd (snd r))) = Some i" for r
  proof -
    have "owns (Some sql_owner_ops) s a ty i c"
      using path_refs_owned[OF assms(1) map_of_SomeD[OF that(4)]] assms(3) that by auto
    then show ?thesis using that k assms(2) by (simp add: sql_owners.owns_iff del: sql_ops_simps)
  qed
  ultimately show "sql_own s' k = sql_own s k \<or> sql_own s' k = None \<and> sql_own s k = Some c" by blast
qed

section \<open>A concrete policy\<close>

definition sample_tenancy :: tenancy where
  "sample_tenancy = compile_tenancy
     \<lparr>tn_param_types = [(''id'', ''doc'')], tn_body_refs = [(''doc_id'', ''doc'')],
      tn_create = [\<lparr>cr_method = ''POST'', cr_path = ''/docs'', cr_type = ''doc'', cr_id_field = ''id''\<rparr>],
      tn_list = [\<lparr>lr_method = ''GET'', lr_path = ''/docs'', lr_array = ''items'',
         lr_owner_by = [\<lparr>ol_field = ''id'', ol_type = ''doc''\<rparr>], lr_claim_as = [], lr_claim_id_field = [],
         lr_count_fields = [''n'']\<rparr>],
      tn_delete = [\<lparr>dr_method = ''DELETE'', dr_path = ''/docs/{id}'', dr_type = ''doc'', dr_param = ''id''\<rparr>],
      tn_object = [], tn_create_idx = [], tn_list_idx = [], tn_delete_idx = [], tn_object_idx = []\<rparr>"

definition sample_owners :: sqlite_store where
  "sample_owners = open_sqlite_store\<lparr>sq_owner := [((''a'', ''doc'', ''d1''), \<lparr>ow_caller = ''alice'', ow_created = 0\<rparr>),
     ((''a'', ''doc'', ''d2''), \<lparr>ow_caller = ''bob'', ow_created = 0\<rparr>)]\<rparr>"

definition sample_parts :: multipart_reader where
  "sample_parts = (\<lambda>body b. ([\<lparr>pt_name = ''doc_id'', pt_file = [], pt_content = '' d1 '', pt_readable = True\<rparr>], True))"

definition sample_gate :: "string \<Rightarrow> string \<Rightarrow> refusal option" where
  "sample_gate path body = enforce_request (Some sample_tenancy) (Some sql_owner_ops) sample_owners ''a''
     [path_segs ''/docs/{id}''] path [] ''application/json'' body ''alice'' sample_parts"

lemma sample_owner_inv: "sql_owner_inv sample_owners"
  by (simp add: sample_owners_def sql_owner_inv_def open_sqlite_store_def wf_map_def)

lemma sample_passes: "sample_gate ''/docs/d1'' ''{\"doc_id\":\"d1\"}'' = None"
  by code_simp

theorem multipart_refs_owned_witness:
  "check_multipart_refs (\<lambda>ty i. i = ''d1'') [(''doc_id'', ''doc'')] sample_parts [] ''b'' = None \<and>
   trim_space '' d1 '' = ''d1''"
proof -
  have g: "check_multipart_refs (\<lambda>ty i. i = ''d1'') [(''doc_id'', ''doc'')] sample_parts [] ''b'' = None"
    by code_simp
  have "\<lparr>pt_name = ''doc_id'', pt_file = [], pt_content = '' d1 '', pt_readable = True\<rparr> \<in>
     set [\<lparr>pt_name = ''doc_id'', pt_file = [], pt_content = '' d1 '', pt_readable = True\<rparr>]" by simp
  from multipart_refs_owned[OF g _ this, of True "''doc''"] have
    "trim_space '' d1 '' = [] \<or> trim_space '' d1 '' = ''d1''" by (simp add: sample_parts_def)
  moreover have "trim_space '' d1 '' \<noteq> []" by code_simp
  ultimately show ?thesis using g by blast
qed


theorem filter_list_isolates_witness:
  "filter_list sql_owner_ops ''a'' ''alice'' (hd (tn_list sample_tenancy)) 0
     (JObj [(''items'', JArr [JObj [(''id'', JStr ''d1'')], JObj [(''id'', JStr ''d2'')]]), (''n'', JNum ''2'')]) sample_owners
     = (Some (Some (JObj [(''items'', JArr [JObj [(''id'', JStr ''d1'')]]), (''n'', JNum ''1'')])), sample_owners) \<and>
   elem_mine (sql_own sample_owners) ''a'' ''alice'' (lr_owner_by (hd (tn_list sample_tenancy))) (JObj [(''id'', JStr ''d1'')])"
proof
  show f: "filter_list sql_owner_ops ''a'' ''alice'' (hd (tn_list sample_tenancy)) 0
     (JObj [(''items'', JArr [JObj [(''id'', JStr ''d1'')], JObj [(''id'', JStr ''d2'')]]), (''n'', JNum ''2'')]) sample_owners
     = (Some (Some (JObj [(''items'', JArr [JObj [(''id'', JStr ''d1'')]]), (''n'', JNum ''1'')])), sample_owners)"
    by code_simp
  have a: "lr_array (hd (tn_list sample_tenancy)) = ''items''" "lr_count_fields (hd (tn_list sample_tenancy)) = [''n'']"
    by code_simp+
  from filter_list_isolates[OF f sample_owner_inv] obtain kept w0 where
    k: "\<forall>el \<in> set kept. elem_mine (sql_own sample_owners) ''a'' ''alice'' (lr_owner_by (hd (tn_list sample_tenancy))) el"
    and w: "set_dug (JObj [(''items'', JArr [JObj [(''id'', JStr ''d1'')], JObj [(''id'', JStr ''d2'')]]), (''n'', JNum ''2'')])
       ''items'' (JArr kept) = Some w0"
      "JObj [(''items'', JArr [JObj [(''id'', JStr ''d1'')]]), (''n'', JNum ''1'')] = recount (length kept) [''n''] w0"
    unfolding a by auto
  have d: "dotted ''items'' = [''items'']" "dotted ''n'' = [''n'']" by code_simp+
  have "kept = [JObj [(''id'', JStr ''d1'')]]"
    using w by (auto simp: set_dug_def recount_def dig_def d split: option.splits)
  with k show "elem_mine (sql_own sample_owners) ''a'' ''alice'' (lr_owner_by (hd (tn_list sample_tenancy))) (JObj [(''id'', JStr ''d1'')])"
    by simp
qed

theorem claim_from_first_writer_witness:
  "mem_own (claim_from sample_tenancy (Some mem_owner_ops) ''a'' ''post'' ''/docs'' ''{\"id\":\"d9\"}'' ''alice'' 0 new_mem_store)
     (''a'', ''doc'', ''d9'') = Some ''alice''"
proof -
  let ?s = "claim_from sample_tenancy (Some mem_owner_ops) ''a'' ''post'' ''/docs'' ''{\"id\":\"d9\"}'' ''alice'' 0 new_mem_store"
  have i: "mem_owner_inv new_mem_store" by (simp add: mem_owner_inv_def new_mem_store_def)
  have n: "no_bar ''a''" "\<forall>r \<in> set (tn_create_idx sample_tenancy). no_bar (cr_type (snd (snd r)))" by code_simp+
  have "mem_own ?s (''a'', ''doc'', ''d9'') \<noteq> mem_own new_mem_store (''a'', ''doc'', ''d9'')" by code_simp
  then show ?thesis using claim_from_first_writer[OF i n refl, of "''post''" "''/docs''" "''{\"id\":\"d9\"}''" "''alice''" 0] by blast
qed

theorem release_after_gate_witness:
  "sql_own (release_from sample_tenancy (Some sql_owner_ops) ''a'' [path_segs ''/docs/{id}''] ''DELETE'' ''/docs/d1'' sample_owners)
     (''a'', ''doc'', ''d1'') = None \<and>
   sql_own (release_from sample_tenancy (Some sql_owner_ops) ''a'' [path_segs ''/docs/{id}''] ''DELETE'' ''/docs/d1'' sample_owners)
     (''a'', ''doc'', ''d2'') = Some ''bob''"
proof
  let ?s = "release_from sample_tenancy (Some sql_owner_ops) ''a'' [path_segs ''/docs/{id}''] ''DELETE'' ''/docs/d1'' sample_owners"
  show "sql_own ?s (''a'', ''doc'', ''d1'') = None" by code_simp
  have t: "\<forall>r \<in> set (tn_delete_idx sample_tenancy).
      map_of (tn_param_types sample_tenancy) (dr_param (snd (snd r))) = Some (dr_type (snd (snd r)))" by code_simp
  have "sql_own sample_owners (''a'', ''doc'', ''d2'') = Some ''bob''" by code_simp
  then show "sql_own ?s (''a'', ''doc'', ''d2'') = Some ''bob''"
    using release_after_gate[OF sample_passes[unfolded sample_gate_def] sample_owner_inv t refl, of "''DELETE''"]
    by (elim allE[of _ "(''a'', ''doc'', ''d2'')"]) auto
qed

text \<open>Observation: Two templates that bind the same name at different places leave one binding, so a
  request whose first identifier belongs to somebody else passes the gate.\<close>

theorem same_name_binding_lost:
  "enforce_request (Some sample_tenancy) (Some sql_owner_ops) sample_owners ''a''
     [path_segs ''/docs/{id}/{x}'', path_segs ''/docs/{x}/{id}''] ''/docs/d2/d1'' [] ''application/json'' [] ''alice'' sample_parts
     = None \<and>
   sql_own sample_owners (''a'', ''doc'', ''d2'') = Some ''bob''"
  by (intro conjI; code_simp)

end
