(* ===== verification/Http.thy ===== *)
theory Http
  imports Registry Json
begin

text \<open>
  The HTTP layer the broker's handlers share: requests, responses (\<open>writeJSON\<close>, \<open>relayCloud\<close>),
  the request sent to a partner, the auth injectors of internal/broker/inject.go and \<open>clientIP\<close> of
  provision.go. A header map is the function Header.Get. A URL is kept as the text that was built:
  what stands before the question mark, and the query; the fragment is not sent.
\<close>

section \<open>Requests and responses\<close>

record request =
  rq_method :: string
  rq_path :: string
  rq_raw_query :: string
  rq_header :: "string \<Rightarrow> string"
  rq_remote :: string
  rq_content_length :: int
  rq_body :: "unit + string"

record response =
  rs_status :: int
  rs_headers :: "string gmap"
  rs_body :: string

definition set_hdr :: "string \<Rightarrow> string \<Rightarrow> response \<Rightarrow> response" where
  "set_hdr k v r = r\<lparr>rs_headers := AList.update k v (rs_headers r)\<rparr>"

definition write_json :: "int \<Rightarrow> json \<Rightarrow> response" where
  "write_json code v = \<lparr>rs_status = code, rs_headers = [(''Content-Type'', json_type)],
     rs_body = json_text v @ [CHR 0x0A]\<rparr>"

definition json_error :: "int \<Rightarrow> string \<Rightarrow> response" where
  "json_error code msg = write_json code (JObj [(''error'', JStr msg)])"

text \<open>The UTF-8 bytes of the dash in the broker's messages.\<close>

definition em_dash :: string where
  "em_dash = [CHR 0xE2, CHR 0x80, CHR 0x94]"

definition jint :: "int \<Rightarrow> json" where
  "jint n = JNum (itoa n)"

definition is_2xx :: "int \<Rightarrow> bool" where
  "is_2xx n \<longleftrightarrow> n div 100 = 2"

section \<open>Requests to a partner\<close>

record out_request =
  ou_method :: string
  ou_url :: string
  ou_query :: string
  ou_headers :: "string gmap"
  ou_body :: string

definition new_out_request :: "string \<Rightarrow> string \<Rightarrow> string \<Rightarrow> out_request" where
  "new_out_request method target body =
     (let t = takeWhile (\<lambda>c. c \<noteq> CHR ''#'') target;
          (u, q) = (case cut_at (CHR ''?'') t of Some p \<Rightarrow> p | None \<Rightarrow> (t, []))
      in \<lparr>ou_method = method, ou_url = u, ou_query = q, ou_headers = [], ou_body = body\<rparr>)"

text \<open>Header.Set: the canonical form capitalises the first letter and each letter after a hyphen;
  a name that is not a token is left as it is.\<close>

fun canon_chars :: "bool \<Rightarrow> string \<Rightarrow> string" where
  "canon_chars up [] = []"
| "canon_chars up (c # s) = (if up then chr_upper c else chr_lower c) # canon_chars (c = CHR ''-'') s"

definition canon_header :: "string \<Rightarrow> string" where
  "canon_header k = (if k \<noteq> [] \<and> list_all is_token_char k then canon_chars True k else k)"

definition set_out_header :: "string \<Rightarrow> string \<Rightarrow> out_request \<Rightarrow> out_request" where
  "set_out_header k v r = r\<lparr>ou_headers := AList.update (canon_header k) v (ou_headers r)\<rparr>"

text \<open>URL.Query drops the pairs that do not parse; Values.Encode sorts by key.\<close>

definition query_values :: "string \<Rightarrow> (string \<times> string) list" where
  "query_values q =
     List.map_filter query_pair
       (filter (\<lambda>kv. kv \<noteq> [] \<and> \<not> contains_chr (CHR '';'') kv) (split_on (CHR ''&'') q))"

definition hex_upper :: "nat \<Rightarrow> char" where
  "hex_upper n = (if n < 10 then char_of (48 + n) else char_of (55 + n))"

definition query_safe :: "char \<Rightarrow> bool" where
  "query_safe c \<longleftrightarrow> is_lower_chr c \<or> is_upper_chr c \<or> is_digit c \<or> c \<in> set ''-_.~''"

definition escape_chr :: "char \<Rightarrow> string" where
  "escape_chr c =
     (if query_safe c then [c] else if c = CHR '' '' then ''+''
      else [CHR ''%'', hex_upper (byte c div 16), hex_upper (byte c mod 16)])"

definition query_escape :: "string \<Rightarrow> string" where
  "query_escape s = concat (map escape_chr s)"

definition query_encode :: "(string \<times> string) list \<Rightarrow> string" where
  "query_encode vals =
     join_on (CHR ''&'') (map (\<lambda>(k, v). query_escape k @ CHR ''='' # query_escape v) (sort_members vals))"

section \<open>Auth injectors\<close>

definition inject :: "injector \<Rightarrow> string \<Rightarrow> out_request \<Rightarrow> out_request" where
  "inject i master r =
     (case i of
        HeaderInjector name scheme \<Rightarrow>
          set_out_header name (if scheme \<noteq> [] then scheme @ '' '' @ master else master) r
      | QueryInjector param \<Rightarrow>
          r\<lparr>ou_query := query_encode (filter (\<lambda>(k, v). k \<noteq> param) (query_values (ou_query r)) @ [(param, master)])\<rparr>
      | BasicInjector user \<Rightarrow>
          (let (u, p) = (if user = [] then (master, []) else (user, master))
           in set_out_header ''Authorization'' (''Basic '' @ b64_pad_encode b64_std (u @ '':'' @ p)) r))"

section \<open>The source address\<close>

definition index_of :: "char \<Rightarrow> string \<Rightarrow> nat option" where
  "index_of c s = (if contains_chr c s then Some (length (takeWhile (\<lambda>x. x \<noteq> c) s)) else None)"

definition last_index_of :: "char \<Rightarrow> string \<Rightarrow> nat option" where
  "last_index_of c s = map_option (\<lambda>i. length s - 1 - i) (index_of c (rev s))"

text \<open>The host of net.SplitHostPort, \<open>None\<close> where it reports an error.\<close>

definition split_host :: "string \<Rightarrow> string option" where
  "split_host s =
     (case last_index_of (CHR '':'') s of
        None \<Rightarrow> None
      | Some i \<Rightarrow>
          if hd s = CHR ''['' then
            (case index_of (CHR '']'') s of
               None \<Rightarrow> None
             | Some e \<Rightarrow>
                 if Suc e = i \<and> \<not> contains_chr (CHR ''['') (tl s) \<and> \<not> contains_chr (CHR '']'') (drop (Suc e) s)
                 then Some (take (e - 1) (tl s)) else None)
          else if contains_chr (CHR '':'') (take i s) \<or> contains_chr (CHR ''['') s \<or> contains_chr (CHR '']'') s
          then None else Some (take i s))"

definition client_ip :: "(string \<Rightarrow> string) \<Rightarrow> string \<Rightarrow> string \<Rightarrow> string" where
  "client_ip h remoteAddr trustHeader =
     (let v = (if trustHeader \<noteq> [] then trim_space (h trustHeader) else []) in
      if v \<noteq> [] then (case cut_at (CHR '','') v of Some (a, _) \<Rightarrow> trim_space a | None \<Rightarrow> v)
      else case split_host remoteAddr of Some host \<Rightarrow> host | None \<Rightarrow> remoteAddr)"

section \<open>Escaping is undone by unescaping\<close>

lemma hex_val_upper: "n < 16 \<Longrightarrow> hex_val (hex_upper n) = Some n"
  by (auto simp: hex_val_def hex_upper_def is_digit_def)

lemma unescape_chr: "query_unescape (escape_chr c @ s) = map_option ((#) c) (query_unescape s)"
proof (cases "query_safe c")
  case True
  then have "c \<noteq> CHR ''%''" "c \<noteq> CHR ''+''"
    by (auto simp: query_safe_def is_lower_chr_def is_upper_chr_def is_digit_def byte_def)
  with True show ?thesis by (simp add: escape_chr_def)
next
  case False
  have "char_of (16 * (byte c div 16) + byte c mod 16) = c" by simp
  moreover have "byte c div 16 < 16" "byte c mod 16 < 16" using byte_lt[of c] by (simp_all add: div_less_iff_less_mult)
  ultimately show ?thesis using False by (auto simp: escape_chr_def hex_val_upper)
qed

lemma unescape_escape: "query_unescape (query_escape s) = Some s"
  by (induction s) (simp_all add: query_escape_def unescape_chr)

lemma hex_upper_safe: "n < 16 \<Longrightarrow> query_safe (hex_upper n)"
  by (auto simp: hex_upper_def query_safe_def is_digit_def is_upper_chr_def)

lemma escape_chars:
  assumes "x \<in> set (query_escape s)"
  shows "query_safe x \<or> x = CHR ''%'' \<or> x = CHR ''+''"
proof -
  from assms obtain c where "x \<in> set (escape_chr c)" by (auto simp: query_escape_def)
  moreover have "byte c div 16 < 16" "byte c mod 16 < 16" using byte_lt[of c] by (simp_all add: div_less_iff_less_mult)
  ultimately show ?thesis by (auto simp: escape_chr_def hex_upper_safe split: if_splits)
qed

lemma escape_no_sep:
  "CHR ''&'' \<notin> set (query_escape s)" "CHR ''='' \<notin> set (query_escape s)" "CHR '';'' \<notin> set (query_escape s)"
  using escape_chars by (force simp: query_safe_def is_lower_chr_def is_upper_chr_def is_digit_def byte_def)+

lemma query_pair_encode: "query_pair (query_escape k @ CHR ''='' # query_escape v) = Some (k, v)"
  by (simp add: query_pair_def cut_at_append escape_no_sep unescape_escape)

lemma query_values_encode:
  "query_values (query_encode vals) = sort_members vals"
proof (cases "sort_members vals = []")
  case True
  then show ?thesis by (simp add: query_values_def query_encode_def map_filter_simps)
next
  case False
  let ?f = "\<lambda>(k, v). query_escape k @ CHR ''='' # query_escape v"
  have sp: "split_on (CHR ''&'') (join_on (CHR ''&'') (map ?f (sort_members vals))) = map ?f (sort_members vals)"
    using False by (intro split_on_join_on) (auto simp: escape_no_sep)
  have "filter (\<lambda>kv. kv \<noteq> [] \<and> \<not> contains_chr (CHR '';'') kv) (map ?f xs) = map ?f xs" for xs
    by (induction xs) (auto simp: contains_chr_def escape_no_sep)
  moreover have "List.map_filter query_pair (map ?f xs) = xs" for xs
    by (induction xs) (auto simp: map_filter_simps query_pair_encode)
  ultimately show ?thesis by (simp add: query_values_def query_encode_def sp)
qed

lemma insert_member_set [simp]: "set (insert_member x xs) = insert x (set xs)"
  by (induction xs) auto

lemma sort_members_set [simp]: "set (sort_members xs) = set xs"
  by (induction xs) (simp_all add: sort_members_def)

lemma sort_members_filter_length:
  "length (filter P (sort_members xs)) = length (filter P xs)"
proof (induction xs)
  case (Cons x xs)
  have "length (filter P (insert_member x ys)) = length (filter P (x # ys))" for ys
    by (induction ys) auto
  with Cons show ?case by (simp add: sort_members_def)
qed (simp add: sort_members_def)

text \<open>Observation: With query authentication the request that leaves carries the master key as the only
  value of its parameter, whatever the caller put in the query, and keeps the other pairs.\<close>

theorem query_injector_sole_key:
  "filter (\<lambda>(k, v). k = p) (query_values (ou_query (inject (QueryInjector p) master r))) = [(p, master)] \<and>
   {(k, v) \<in> set (query_values (ou_query (inject (QueryInjector p) master r))). k \<noteq> p} =
   {(k, v) \<in> set (query_values (ou_query r)). k \<noteq> p}"
proof -
  let ?vals = "filter (\<lambda>(k, v). k \<noteq> p) (query_values (ou_query r)) @ [(p, master)]"
  have q: "query_values (ou_query (inject (QueryInjector p) master r)) = sort_members ?vals"
    by (simp add: inject_def query_values_encode)
  let ?F = "filter (\<lambda>(k, v). k = p) (sort_members ?vals)"
  have "length ?F = 1" by (simp add: sort_members_filter_length case_prod_beta' filter_empty_conv)
  moreover have "set ?F \<subseteq> {(p, master)}" by auto
  ultimately have "?F = [(p, master)]" by (cases ?F) auto
  moreover have "{(k, v) \<in> set (sort_members ?vals). k \<noteq> p} = {(k, v) \<in> set (query_values (ou_query r)). k \<noteq> p}"
    by auto
  ultimately show ?thesis by (simp only: q)
qed

text \<open>Observation: When the front proxy sets the trusted header to one address, that address is the source,
  whatever other headers the caller sends and wherever the connection comes from.\<close>

theorem client_ip_trusted:
  assumes "t \<noteq> []" "trim_space (h t) = v" "v \<noteq> []" "CHR '','' \<notin> set v"
  shows "client_ip h remote t = v \<and> (\<forall>h' r'. h' t = h t \<longrightarrow> client_ip h' r' t = client_ip h remote t)"
  using assms by (auto simp: client_ip_def Let_def cut_at_None_iff[THEN iffD2])

theorem client_ip_trusted_witness:
  "client_ip (\<lambda>k. if k = ''X-Real-IP'' then '' 10.0.0.7 '' else ''1.2.3.4'') ''9.9.9.9:80'' ''X-Real-IP'' = ''10.0.0.7''"
proof -
  have "trim_space '' 10.0.0.7 '' = ''10.0.0.7''" by code_simp
  then show ?thesis
    using client_ip_trusted[of "''X-Real-IP''" "\<lambda>k. if k = ''X-Real-IP'' then '' 10.0.0.7 '' else ''1.2.3.4''" "''10.0.0.7''" "''9.9.9.9:80''"]
    by simp
qed

end
