(* ===== verification/Credit.thy ===== *)
theory Credit
  imports Http Mem_Store Sqlite_Store
begin

text \<open>
  The credit budget of internal/broker/broker.go over a provisioning store: \<open>seedCaller\<close>, the
  sequences of ledger operations that concurrent requests produce (each operation is atomic in the
  store, so an interleaving of requests is a sequence of operations), the token bucket of
  \<open>allowBalanceRead\<close>, and \<open>microUSD\<close>. The bucket's float64 is an exact rational.
\<close>

section \<open>Seeding a caller\<close>

text \<open>\<open>t\<close> and \<open>u\<close> are the two readings of the clock.\<close>

definition seed_caller ::
  "'s prov_ops \<Rightarrow> string \<Rightarrow> string \<Rightarrow> string \<Rightarrow> app_entry \<Rightarrow> gotime \<Rightarrow> gotime \<Rightarrow> 's
    \<Rightarrow> (store_err + prov_record) \<times> 's" where
  "seed_caller ps app caller ip a t u s =
     (let (r, s1) = op_provision ps s app caller ip (rt_credit_seed a) (rt_credit_max_per_ip a)
                      (rt_credit_mint_cooldown a) t
      in if r = Inl ErrIPCap then op_provision ps s1 app caller ip 0 0 0 u else (r, s1))"

section \<open>Runs of ledger operations\<close>

datatype ledger_event =
    Touch (le_caller: string) string gotime gotime
  | Take (le_caller: string) int
  | Give_back (le_caller: string) int
  | Charge (le_caller: string) int

text \<open>A step also says whether it granted the app's seed budget: a new record that carries it.\<close>

definition is_grant :: "app_entry \<Rightarrow> store_err + prov_record \<Rightarrow> bool" where
  "is_grant a r = (case r of Inl _ \<Rightarrow> False
     | Inr rec \<Rightarrow> pr_new rec \<and> pr_credits rec = rt_credit_seed a \<and> 0 < rt_credit_seed a)"

fun ledger_step :: "'s prov_ops \<Rightarrow> string \<Rightarrow> app_entry \<Rightarrow> ledger_event \<Rightarrow> 's \<Rightarrow> (string \<times> string) list \<times> 's" where
  "ledger_step ps app a (Touch c ip t u) s =
     (let (r, s') = seed_caller ps app c ip a t u s in (if is_grant a r then [(c, ip)] else [], s'))"
| "ledger_step ps app a (Take c n) s = ([], snd (op_debit ps s app c n))"
| "ledger_step ps app a (Give_back c n) s = ([], op_refund ps s app c n)"
| "ledger_step ps app a (Charge c n) s = ([], if n > 0 then snd (op_settle ps s app c n) else s)"

fun ledger_run :: "'s prov_ops \<Rightarrow> string \<Rightarrow> app_entry \<Rightarrow> ledger_event list \<Rightarrow> 's \<Rightarrow> (string \<times> string) list \<times> 's" where
  "ledger_run ps app a [] s = ([], s)"
| "ledger_run ps app a (e # es) s =
     (let (g, s1) = ledger_step ps app a e s; (gs, s2) = ledger_run ps app a es s1 in (g @ gs, s2))"

text \<open>What a step may do to the ledger: rows stay, seats only grow, a balance stays non-negative,
  and a grant goes to a caller without a row while the address has a free seat.\<close>

definition step_ok :: "string \<Rightarrow> int \<Rightarrow> ledger \<Rightarrow> (string \<times> string) list \<Rightarrow> ledger \<Rightarrow> bool" where
  "step_ok a cap L g L' \<longleftrightarrow>
     dom L \<subseteq> dom L' \<and> (\<forall>b ip. seats L b ip \<le> seats L' b ip) \<and> (nonneg_ledger L \<longrightarrow> nonneg_ledger L') \<and>
     (g = [] \<or> (\<exists>c ip. g = [(c, ip)] \<and> L (a, c) = None \<and> L' (a, c) \<noteq> None \<and>
        seats L' a ip = Suc (seats L a ip) \<and> (0 < cap \<longrightarrow> int (seats L a ip) < cap)))"

lemma step_okI_same:
  assumes "dom L' = dom L" "\<And>b ip. seats L' b ip = seats L b ip" "nonneg_ledger L \<Longrightarrow> nonneg_ledger L'"
  shows "step_ok a cap L [] L'"
  using assms by (simp add: step_ok_def)

lemma dom_map_option_upd [simp]: "dom (L(k := map_option f (L k))) = dom L"
  by (auto split: if_splits)

lemma spec_debit_dom: "(r, L') = spec_debit L k n \<Longrightarrow> dom L' = dom L"
  by (auto simp: spec_debit_def simp del: dom_fun_upd split: if_splits)

lemma spec_refund_dom: "dom (spec_refund L k n) = dom L"
  by (simp add: spec_refund_def del: dom_fun_upd)

lemma spec_settle_dom: "(r, L') = spec_settle L k n \<Longrightarrow> dom L' = dom L"
  by (simp add: spec_settle_def Let_def del: dom_fun_upd)

text \<open>A provisioning step on the abstract ledger.\<close>

lemma spec_provision_step:
  assumes "finite_ledger L" "(r, L') = spec_provision stamp L (a, c) ip seed cap cd now" "0 \<le> seed"
  shows "dom L \<subseteq> dom L' \<and> (\<forall>b jp. seats L b jp \<le> seats L' b jp) \<and> (nonneg_ledger L \<longrightarrow> nonneg_ledger L') \<and>
     (\<forall>x. r = Inr (x, True) \<longrightarrow> L (a, c) = None \<and> L' (a, c) \<noteq> None \<and> ac_credits x = seed \<and>
        seats L' a ip = Suc (seats L a ip) \<and> (0 < cap \<longrightarrow> int (seats L a ip) < cap))"
proof -
  have "\<forall>b jp. seats L b jp \<le> seats L' b jp"
    using spec_provision_seats[OF assms(1,2)] by (auto split: sum.splits prod.splits bool.splits)
  moreover have "seats L' a ip = Suc (seats L a ip)" if "r = Inr (x, True)" for x
    using spec_provision_seats[OF assms(1,2), of a ip] that by simp
  moreover have "nonneg_ledger L \<longrightarrow> nonneg_ledger L'"
    using spec_provision_nonneg[OF _ assms(3,2)] by blast
  moreover have "dom L \<subseteq> dom L'"
    using assms(2) by (auto simp: spec_provision_def Let_def split: option.splits if_splits)
  moreover have "L (a, c) = None \<and> L' (a, c) \<noteq> None \<and> ac_credits x = seed \<and> (0 < cap \<longrightarrow> int (seats L a ip) < cap)"
    if "r = Inr (x, True)" for x
    using assms(2) that by (auto simp: spec_provision_def Let_def split: option.splits if_splits)
  ultimately show ?thesis by blast
qed

context credit_ledger
begin

lemma touch_ok:
  assumes "inv s" "ok_app app" "0 \<le> rt_credit_seed a" "seed_caller ops app c ip a t u s = (r, s')"
  shows "inv s' \<and> step_ok app (rt_credit_max_per_ip a) (led s) (if is_grant a r then [(c, ip)] else []) (led s')"
proof -
  obtain r1 s1 where p: "op_provision ops s app c ip (rt_credit_seed a) (rt_credit_max_per_ip a)
      (rt_credit_mint_cooldown a) t = (r1, s1)" by fastforce
  from provision_spec[OF assms(1,2) p] obtain r0 where i1: "inv s1"
    and sp: "(r0, led s1) = spec_provision stamp (led s) (app, c) ip (rt_credit_seed a) (rt_credit_max_per_ip a)
      (rt_credit_mint_cooldown a) t"
    and ag: "case (r1, r0) of (Inl e, Inl e0) \<Rightarrow> e = e0 | (Inr p, Inr (x, new)) \<Rightarrow> rec_agrees p x new | _ \<Rightarrow> False"
    by blast
  note st = spec_provision_step[OF led_finite[OF assms(1)] sp assms(3)]
  show ?thesis
  proof (cases "r1 = Inl ErrIPCap")
    case False
    then have [simp]: "r = r1" "s' = s1" using assms(4) p by (simp_all add: seed_caller_def)
    show ?thesis
    proof (cases "is_grant a r1")
      case True
      then obtain q where q: "r1 = Inr q" "pr_new q" by (auto simp: is_grant_def split: sum.splits)
      with ag obtain x where "r0 = Inr (x, True)" by (auto simp: rec_agrees_def split: sum.splits)
      with st i1 True show ?thesis by (simp add: step_ok_def)
    next
      case False
      with st i1 show ?thesis by (simp add: step_ok_def)
    qed
  next
    case True
    then have "r0 = Inl ErrIPCap" using ag by (auto split: sum.splits)
    with sp have same: "led s1 = led s"
      by (auto simp: spec_provision_def Let_def split: option.splits if_splits)
    from True assms(4) p have p2: "op_provision ops s1 app c ip 0 0 0 u = (r, s')" by (simp add: seed_caller_def)
    from provision_spec[OF i1 assms(2) p2] obtain r2 where i2: "inv s'"
      and sp2: "(r2, led s') = spec_provision stamp (led s1) (app, c) ip 0 0 0 u"
      and ag2: "case (r, r2) of (Inl e, Inl e0) \<Rightarrow> e = e0 | (Inr p, Inr (x, new)) \<Rightarrow> rec_agrees p x new | _ \<Rightarrow> False"
      by blast
    note st2 = spec_provision_step[OF led_finite[OF i1] sp2]
    have "\<not> is_grant a r"
    proof
      assume g: "is_grant a r"
      then obtain q where q: "r = Inr q" "pr_new q" "pr_credits q = rt_credit_seed a" "0 < rt_credit_seed a"
        by (auto simp: is_grant_def split: sum.splits)
      with ag2 obtain x where "r2 = Inr (x, True)" "ac_credits x = rt_credit_seed a"
        by (auto simp: rec_agrees_def split: sum.splits)
      with st2 q(4) show False by simp
    qed
    with st2 i2 same show ?thesis by (simp add: step_ok_def)
  qed
qed

lemma ledger_step_ok:
  assumes "inv s" "ok_app app" "0 \<le> rt_credit_seed a" "nonneg_ledger (led s)" "ledger_step ops app a e s = (g, s')"
  shows "inv s' \<and> step_ok app (rt_credit_max_per_ip a) (led s) g (led s')"
proof (cases e)
  case (Touch c ip t u)
  obtain r s1 where "seed_caller ops app c ip a t u s = (r, s1)" by fastforce
  with touch_ok[OF assms(1-3) this] assms(5) Touch show ?thesis by auto
next
  case (Take c n)
  obtain r s1 where d: "op_debit ops s app c n = (r, s1)" by fastforce
  from debit_spec[OF assms(1,2) d] obtain b m where i: "inv s1"
    and sp: "((b, m), led s1) = spec_debit (led s) (app, c) n" by auto
  have "step_ok app (rt_credit_max_per_ip a) (led s) [] (led s1)"
    by (rule step_okI_same[OF spec_debit_dom[OF sp] spec_debit_seats[OF sp] spec_debit_nonneg[OF _ sp]])
  with Take d i assms(5) show ?thesis by auto
next
  case (Give_back c n)
  have "step_ok app (rt_credit_max_per_ip a) (led s) [] (spec_refund (led s) (app, c) n)"
    by (rule step_okI_same[OF spec_refund_dom spec_refund_seats spec_refund_nonneg])
  with Give_back refund_spec[OF assms(1,2), of c n] assms(5) show ?thesis by auto
next
  case (Charge c n)
  show ?thesis
  proof (cases "0 < n")
    case True
    obtain r s1 where d: "op_settle ops s app c n = (r, s1)" by fastforce
    from settle_spec[OF assms(1,2) True nonneg_bal[OF assms(4)] d] obtain m
      where i: "inv s1" and sp: "(m, led s1) = spec_settle (led s) (app, c) n" by auto
    have "step_ok app (rt_credit_max_per_ip a) (led s) [] (led s1)"
      by (rule step_okI_same[OF spec_settle_dom[OF sp] spec_settle_seats[OF sp] spec_settle_nonneg[OF _ sp]])
    with Charge d True i assms(5) show ?thesis by auto
  qed (use Charge assms in \<open>auto simp: step_ok_def\<close>)
qed

lemma ledger_run_ok:
  assumes "inv s" "ok_app app" "0 \<le> rt_credit_seed a" "nonneg_ledger (led s)" "ledger_run ops app a es s = (gs, s')"
  shows "inv s' \<and> nonneg_ledger (led s') \<and> distinct (map fst gs) \<and> (\<forall>c \<in> fst ` set gs. led s (app, c) = None) \<and>
    (0 < rt_credit_max_per_ip a \<longrightarrow>
       int (count_if (\<lambda>g. snd g = ip) gs) \<le> max 0 (rt_credit_max_per_ip a - int (seats (led s) app ip)))"
  using assms(1,4,5)
proof (induction es arbitrary: s gs)
  case Nil
  then show ?case by simp
next
  case (Cons e es)
  obtain g s1 where g: "ledger_step ops app a e s = (g, s1)" by fastforce
  from g Cons.prems(3) obtain hs where h: "ledger_run ops app a es s1 = (hs, s')" and eq: "gs = g @ hs"
    by (auto split: prod.splits)
  from ledger_step_ok[OF Cons.prems(1) assms(2,3) Cons.prems(2) g]
  have i: "inv s1" and st: "step_ok app (rt_credit_max_per_ip a) (led s) g (led s1)" by auto
  then have nn: "nonneg_ledger (led s1)" using Cons.prems(2) by (simp add: step_ok_def)
  note ih = Cons.IH[OF i nn h]
  have old: "led s1 (app, c) = None \<Longrightarrow> led s (app, c) = None" for c
    using st by (auto simp: step_ok_def dom_def)
  have mono: "seats (led s) app ip \<le> seats (led s1) app ip" using st by (simp add: step_ok_def)
  show ?case
  proof (cases g)
    case Nil
    with ih eq old mono show ?thesis by (auto simp: max_def split: if_splits)
  next
    case (Cons q qs)
    with st obtain c jp where g1: "g = [(c, jp)]" "led s (app, c) = None" "led s1 (app, c) \<noteq> None"
      "seats (led s1) app jp = Suc (seats (led s) app jp)"
      "0 < rt_credit_max_per_ip a \<longrightarrow> int (seats (led s) app jp) < rt_credit_max_per_ip a"
      by (auto simp: step_ok_def)
    have "\<forall>d \<in> fst ` set hs. led s1 (app, d) = None" using ih by simp
    with g1(3) have "c \<notin> fst ` set hs" by metis
    then have d: "distinct (map fst gs)" using ih eq g1(1) by auto
    have n: "\<forall>c \<in> fst ` set gs. led s (app, c) = None" using ih eq g1(1,2) old by auto
    have "int (count_if (\<lambda>g. snd g = ip) gs) \<le> max 0 (rt_credit_max_per_ip a - int (seats (led s) app ip))"
      if "0 < rt_credit_max_per_ip a"
      using ih that g1 mono eq by (cases "jp = ip") (auto simp: max_def split: if_splits)
    with d n ih eq show ?thesis by blast
  qed
qed

end

section \<open>Rate limit of the balance routes\<close>

record bucket =
  bb_tokens :: rat
  bb_last :: gotime

definition balance_burst :: rat where "balance_burst = 20"
definition balance_refill_per_sec :: rat where "balance_refill_per_sec = 5"

definition bucket_key :: "string \<Rightarrow> string \<Rightarrow> string" where
  "bucket_key app caller = app @ CHR 0x00 # caller"

definition refill :: "gotime \<Rightarrow> bucket \<Rightarrow> bucket" where
  "refill now b =
     (let elapsed = of_int (time_sub now (bb_last b)) / of_int second in
      if elapsed > 0
      then b\<lparr>bb_tokens := min balance_burst (bb_tokens b + elapsed * balance_refill_per_sec), bb_last := now\<rparr>
      else b)"

definition allow_balance_read :: "string \<Rightarrow> string \<Rightarrow> gotime \<Rightarrow> bucket gmap \<Rightarrow> bool \<times> bucket gmap" where
  "allow_balance_read app caller now m =
     (let k = bucket_key app caller;
          bk = (case map_of m k of None \<Rightarrow> \<lparr>bb_tokens = balance_burst, bb_last = now\<rparr> | Some b \<Rightarrow> refill now b)
      in if bb_tokens bk < 1 then (False, AList.update k bk m)
         else (True, AList.update k (bk\<lparr>bb_tokens := bb_tokens bk - 1\<rparr>) m))"

text \<open>The reads that pass, of a sequence of reads by anyone, for one application and caller.\<close>

fun reads_passed :: "string \<Rightarrow> string \<Rightarrow> (string \<times> string \<times> gotime) list \<Rightarrow> bucket gmap \<Rightarrow> nat" where
  "reads_passed app caller [] m = 0"
| "reads_passed app caller ((a, c, t) # rs) m =
     (let (okay, m') = allow_balance_read a c t m
      in (if okay \<and> bucket_key a c = bucket_key app caller then 1 else 0) + reads_passed app caller rs m')"

lemma refill_tokens:
  assumes "bb_tokens b \<le> balance_burst" "bb_last b \<le> now"
  shows "bb_tokens (refill now b) \<le> balance_burst \<and> bb_last (refill now b) = now \<and>
    bb_tokens (refill now b) \<le> bb_tokens b + 5 * of_int (now - bb_last b) / of_int second"
proof (cases "bb_last b = now")
  case True
  with assms show ?thesis by (simp add: refill_def Let_def time_sub_def)
next
  case False
  with assms(2) have "(0 :: rat) < of_int (now - bb_last b)" by simp
  with assms show ?thesis
    by (auto simp: refill_def Let_def time_sub_def balance_refill_per_sec_def intro!: min.coboundedI2)
qed

text \<open>The tokens of a key that has none yet count as a full bucket.\<close>

definition tokens_at :: "bucket gmap \<Rightarrow> string \<Rightarrow> gotime \<Rightarrow> rat" where
  "tokens_at m k t = (case map_of m k of None \<Rightarrow> balance_burst
     | Some b \<Rightarrow> bb_tokens b + 5 * of_int (t - bb_last b) / of_int second)"

definition buckets_ok :: "bucket gmap \<Rightarrow> gotime \<Rightarrow> bool" where
  "buckets_ok m t \<longleftrightarrow> (\<forall>k b. map_of m k = Some b \<longrightarrow> 0 \<le> bb_tokens b \<and> bb_tokens b \<le> balance_burst \<and> bb_last b \<le> t)"

lemma allow_balance_read_step:
  assumes "buckets_ok m t" "allow_balance_read a c t m = (okay, m')"
  shows "buckets_ok m' t \<and> tokens_at m' k t \<le> tokens_at m k t - (if okay \<and> k = bucket_key a c then 1 else 0)"
proof -
  let ?bk = "case map_of m (bucket_key a c) of None \<Rightarrow> \<lparr>bb_tokens = balance_burst, bb_last = t\<rparr> | Some b \<Rightarrow> refill t b"
  have bk: "0 \<le> bb_tokens ?bk \<and> bb_tokens ?bk \<le> balance_burst \<and> bb_last ?bk = t \<and> bb_tokens ?bk \<le> tokens_at m (bucket_key a c) t"
  proof (cases "map_of m (bucket_key a c)")
    case None
    then show ?thesis by (simp add: tokens_at_def balance_burst_def)
  next
    case (Some b)
    with assms(1) have b: "0 \<le> bb_tokens b" "bb_tokens b \<le> balance_burst" "bb_last b \<le> t" by (auto simp: buckets_ok_def)
    have "0 \<le> bb_tokens (refill t b)"
      using b by (auto simp: refill_def Let_def time_sub_def balance_burst_def balance_refill_per_sec_def)
    with refill_tokens[OF b(2,3)] Some show ?thesis by (simp add: tokens_at_def)
  qed
  from assms(2) have m': "m' = AList.update (bucket_key a c) (if okay then ?bk\<lparr>bb_tokens := bb_tokens ?bk - 1\<rparr> else ?bk) m"
    and ok: "okay \<longleftrightarrow> 1 \<le> bb_tokens ?bk"
    by (auto simp: allow_balance_read_def Let_def not_less split: if_splits)
  have "buckets_ok m' t"
    using assms(1) bk ok unfolding buckets_ok_def m' by (auto simp: update_conv')
  moreover have "tokens_at m' k t \<le> tokens_at m k t - (if okay \<and> k = bucket_key a c then 1 else 0)"
    using bk unfolding m' by (cases "k = bucket_key a c") (auto simp: tokens_at_def update_conv')
  ultimately show ?thesis by blast
qed

lemma tokens_at_later: "t \<le> u \<Longrightarrow> tokens_at m k u \<le> tokens_at m k t + 5 * of_int (u - t) / of_int second"
  by (auto simp: tokens_at_def field_simps split: option.split)

lemma buckets_ok_later: "buckets_ok m t \<Longrightarrow> t \<le> u \<Longrightarrow> buckets_ok m u"
  by (fastforce simp: buckets_ok_def)

lemma tokens_at_nonneg: "buckets_ok m t \<Longrightarrow> 0 \<le> tokens_at m k t"
  by (auto simp: tokens_at_def buckets_ok_def balance_burst_def split: option.split)

lemma reads_passed_bound:
  assumes "buckets_ok m t" "sorted (t # map (snd \<circ> snd) rs)" "\<forall>r \<in> set rs. snd (snd r) \<le> u" "t \<le> u"
  shows "of_nat (reads_passed app caller rs m) \<le> tokens_at m (bucket_key app caller) t + 5 * of_int (u - t) / of_int second"
  using assms
proof (induction rs arbitrary: m t)
  case Nil
  then show ?case using tokens_at_nonneg[of m t "bucket_key app caller"] by simp
next
  case (Cons r rs)
  obtain a c v where r: "r = (a, c, v)" by (metis prod.exhaust)
  obtain okay m' where al: "allow_balance_read a c v m = (okay, m')" by fastforce
  have tv: "t \<le> v" "v \<le> u" using Cons.prems r by auto
  have okm: "buckets_ok m v" using buckets_ok_later[OF Cons.prems(1) tv(1)] .
  from allow_balance_read_step[OF okm al, of "bucket_key app caller"]
  have st: "buckets_ok m' v" "tokens_at m' (bucket_key app caller) v \<le> tokens_at m (bucket_key app caller) v -
      (if okay \<and> bucket_key app caller = bucket_key a c then 1 else 0)" by auto
  have "of_nat (reads_passed app caller rs m') \<le> tokens_at m' (bucket_key app caller) v + 5 * of_int (u - v) / of_int second"
    by (rule Cons.IH[OF st(1)]) (use Cons.prems r tv in auto)
  moreover have "tokens_at m (bucket_key app caller) v \<le> tokens_at m (bucket_key app caller) t + 5 * of_int (v - t) / of_int second"
    by (rule tokens_at_later[OF tv(1)])
  moreover have "of_int (v - t) + of_int (u - v) = (of_int (u - t) :: rat)" by simp
  ultimately show ?case using st(2) r al by (auto simp: eq_commute[of "bucket_key a c"] field_simps split: if_splits)
qed

section \<open>Amounts as text\<close>

definition two_digits :: "int \<Rightarrow> string" where
  "two_digits n = (if n < 10 then CHR ''0'' # itoa n else itoa n)"

definition micro_usd :: "int \<Rightarrow> string" where
  "micro_usd micros0 =
     (let micros = max 0 micros0
      in CHR ''$'' # itoa (micros div 1000000) @ CHR ''.'' # two_digits (micros mod 1000000 div 10000))"

section \<open>Properties of the two stores\<close>

lemma sql_empty: "sql_inv open_sqlite_store" "sql_led open_sqlite_store k = None" "nonneg_ledger (sql_led open_sqlite_store)"
  "seats (sql_led open_sqlite_store) a ip = 0"
  by (auto simp: sql_inv_def open_sqlite_store_def sql_led_def nonneg_ledger_def bal_def seats_def)

lemma mem_empty: "mem_inv new_mem_store" "mem_led new_mem_store k = None" "nonneg_ledger (mem_led new_mem_store)"
  "seats (mem_led new_mem_store) a ip = 0"
  by (cases k; auto simp: mem_inv_def new_mem_store_def mem_led_def nonneg_ledger_def bal_def seats_def)+

text \<open>C3: However the ledger operations of concurrent requests interleave on a new SQLite
  ledger, no balance is ever negative, no caller is granted the seed budget twice, and when the
  app caps grants per address no address ever receives more grants than the cap.\<close>

theorem credit_run_sqlite:
  assumes "0 \<le> rt_credit_seed a" "ledger_run sql_prov_ops app a es open_sqlite_store = (gs, s')"
  shows "(\<forall>k. 0 \<le> bal (sql_led s') k) \<and> distinct (map fst gs) \<and>
    (0 < rt_credit_max_per_ip a \<longrightarrow> (\<forall>ip. int (count_if (\<lambda>g. snd g = ip) gs) \<le> rt_credit_max_per_ip a))"
proof -
  have "nonneg_ledger (sql_led s') \<and> distinct (map fst gs) \<and> (0 < rt_credit_max_per_ip a \<longrightarrow>
      int (count_if (\<lambda>g. snd g = ip) gs) \<le> max 0 (rt_credit_max_per_ip a - int (seats (sql_led open_sqlite_store) app ip)))" for ip
    using sql_credits.ledger_run_ok[OF sql_empty(1) TrueI assms(1) sql_empty(3) assms(2), of ip] by blast
  then show ?thesis by (auto simp: sql_empty nonneg_ledger_def)
qed

definition sample_events :: "ledger_event list" where
  "sample_events = [Touch ''alice'' ''ip'' 0 0, Take ''alice'' 70, Touch ''bob'' ''ip'' 1 1, Touch ''carol'' ''ip'' 2 2,
     Touch ''dave'' ''ip'' 3 3, Take ''alice'' 70, Give_back ''alice'' 70, Charge ''bob'' 500, Touch ''dave'' ''ip'' 4 4]"

theorem credit_run_sqlite_witness:
  "fst (ledger_run sql_prov_ops ''a'' credit_entry sample_events open_sqlite_store)
     = [(''alice'', ''ip''), (''bob'', ''ip''), (''carol'', ''ip'')] \<and>
   0 \<le> bal (sql_led (snd (ledger_run sql_prov_ops ''a'' credit_entry sample_events open_sqlite_store))) (''a'', ''bob'')"
proof
  show "fst (ledger_run sql_prov_ops ''a'' credit_entry sample_events open_sqlite_store)
     = [(''alice'', ''ip''), (''bob'', ''ip''), (''carol'', ''ip'')]" by code_simp
  have "0 \<le> rt_credit_seed credit_entry" by code_simp
  from credit_run_sqlite[OF this prod.collapse[symmetric], of "''a''" sample_events]
  show "0 \<le> bal (sql_led (snd (ledger_run sql_prov_ops ''a'' credit_entry sample_events open_sqlite_store))) (''a'', ''bob'')"
    by blast
qed

text \<open>Observation: The same holds on a new in-memory ledger, for an application id without a bar.\<close>

theorem credit_run_mem:
  assumes "0 \<le> rt_credit_seed a" "no_bar app" "ledger_run mem_prov_ops app a es new_mem_store = (gs, s')"
  shows "(\<forall>k. 0 \<le> bal (mem_led s') k) \<and> distinct (map fst gs) \<and>
    (0 < rt_credit_max_per_ip a \<longrightarrow> (\<forall>ip. int (count_if (\<lambda>g. snd g = ip) gs) \<le> rt_credit_max_per_ip a))"
proof -
  have "nonneg_ledger (mem_led s') \<and> distinct (map fst gs) \<and> (0 < rt_credit_max_per_ip a \<longrightarrow>
      int (count_if (\<lambda>g. snd g = ip) gs) \<le> max 0 (rt_credit_max_per_ip a - int (seats (mem_led new_mem_store) app ip)))" for ip
    using mem_credits.ledger_run_ok[OF mem_empty(1) assms(2,1) mem_empty(3) assms(3), of ip] by blast
  then show ?thesis by (auto simp: mem_empty nonneg_ledger_def)
qed

theorem credit_run_mem_witness:
  "fst (ledger_run mem_prov_ops ''a'' credit_entry sample_events new_mem_store)
     = [(''alice'', ''ip''), (''bob'', ''ip''), (''carol'', ''ip'')] \<and>
   0 \<le> bal (mem_led (snd (ledger_run mem_prov_ops ''a'' credit_entry sample_events new_mem_store))) (''a'', ''bob'')"
proof
  show "fst (ledger_run mem_prov_ops ''a'' credit_entry sample_events new_mem_store)
     = [(''alice'', ''ip''), (''bob'', ''ip''), (''carol'', ''ip'')]" by code_simp
  have "0 \<le> rt_credit_seed credit_entry" "no_bar ''a''" by code_simp+
  from credit_run_mem[OF this prod.collapse[symmetric], of sample_events]
  show "0 \<le> bal (mem_led (snd (ledger_run mem_prov_ops ''a'' credit_entry sample_events new_mem_store))) (''a'', ''bob'')"
    by blast
qed

text \<open>Observation: Two reservations against a SQLite balance that covers only one of them cannot both
  succeed, and a reservation that is given back leaves the whole ledger as it was.\<close>

theorem reserve_once:
  assumes "sql_inv s" "0 < n" "sql_debit s app c n = (Inr (True, m), s1)"
  shows "sql_led (sql_refund s1 app c n) = sql_led s \<and>
    (bal (sql_led s) (app, c) < 2 * n \<longrightarrow> (\<forall>k s2. sql_debit s1 app c n \<noteq> (Inr (True, k), s2)))"
  using sql_credits.debit_then_refund[of s app c n m s1] sql_credits.no_double_spend[of s n app c m s1 True] assms
  by auto

theorem reserve_once_witness:
  "fst (sql_debit (snd (sql_debit (snd (sql_provision open_sqlite_store ''a'' ''c'' ''ip'' 100 0 0 0)) ''a'' ''c'' 60)) ''a'' ''c'' 60)
     = Inr (False, 40) \<and>
   sql_led (sql_refund (snd (sql_debit (snd (sql_provision open_sqlite_store ''a'' ''c'' ''ip'' 100 0 0 0)) ''a'' ''c'' 60)) ''a'' ''c'' 60)
     = sql_led (snd (sql_provision open_sqlite_store ''a'' ''c'' ''ip'' 100 0 0 0))"
proof
  let ?s = "snd (sql_provision open_sqlite_store ''a'' ''c'' ''ip'' 100 0 0 0)"
  show "fst (sql_debit (snd (sql_debit ?s ''a'' ''c'' 60)) ''a'' ''c'' 60) = Inr (False, 40)" by code_simp
  have i: "sql_inv ?s" by (simp add: sql_inv_def sql_provision_def open_sqlite_store_def sql_set_def wf_map_def)
  have "fst (sql_debit ?s ''a'' ''c'' 60) = Inr (True, 40)" by code_simp
  then have d: "sql_debit ?s ''a'' ''c'' 60 = (Inr (True, 40), snd (sql_debit ?s ''a'' ''c'' 60))" by (metis prod.collapse)
  show "sql_led (sql_refund (snd (sql_debit ?s ''a'' ''c'' 60)) ''a'' ''c'' 60) = sql_led ?s"
    using reserve_once[OF i _ d] by simp
qed

text \<open>Observation: Of any number of calls by one caller exactly the quota is admitted, on both stores.\<close>

theorem quota_bound:
  assumes "0 < q" "no_bar app"
  shows "int (fst (admit_run mem_usage_ops new_mem_store app c q n)) = min (int n) q \<and>
    int (fst (admit_run sql_usage_ops open_sqlite_store app c q n)) = min (int n) q"
proof -
  have "mem_calls_inv new_mem_store" "mem_calls new_mem_store (app, c) = 0"
    by (simp_all add: mem_calls_inv_def mem_calls_def new_mem_store_def)
  with mem_meter.admit_run_count[of new_mem_store, where a = app and q = q and c = c and n = n] assms
  have "int (fst (admit_run mem_usage_ops new_mem_store app c q n)) = min (int n) q" by (auto split: prod.splits)
  moreover have "sql_calls_inv open_sqlite_store" "sql_calls open_sqlite_store (app, c) = 0"
    by (simp_all add: sql_calls_inv_def sql_calls_def open_sqlite_store_def)
  with sql_meter.admit_run_count[of open_sqlite_store, where a = app and q = q and c = c and n = n] assms
  have "int (fst (admit_run sql_usage_ops open_sqlite_store app c q n)) = min (int n) q" by (auto split: prod.splits)
  ultimately show ?thesis by blast
qed

theorem quota_bound_witness:
  "fst (admit_run mem_usage_ops new_mem_store ''a'' ''c'' 2 5) = 2 \<and>
   fst (admit_run sql_usage_ops open_sqlite_store ''a'' ''c'' 2 5) = 2"
  using quota_bound[of 2 "''a''" "''c''" 5] by (simp add: no_bar_def contains_chr_def del: mem_ops_simps sql_ops_simps)

text \<open>Observation: The two stores disagree on a settlement of a negative amount: the in-memory one
  answers the balance and the SQLite one answers a larger balance than it keeps.\<close>

theorem settle_negative_differs:
  "fst (mem_settle (snd (mem_provision new_mem_store ''a'' ''c'' ''ip'' 100 0 0 0)) ''a'' ''c'' (-5)) = Inr 100 \<and>
   fst (sql_settle (snd (sql_provision open_sqlite_store ''a'' ''c'' ''ip'' 100 0 0 0)) ''a'' ''c'' (-5)) = Inr 105 \<and>
   sql_credit (snd (sql_settle (snd (sql_provision open_sqlite_store ''a'' ''c'' ''ip'' 100 0 0 0)) ''a'' ''c'' (-5))) ''a'' ''c'' = Inr 100"
  by (intro conjI; code_simp)

text \<open>Observation: From a fresh broker, whatever everyone reads in the order of the clock, the balance reads
  of one caller that pass in a period are at most the burst plus the refill of the period.\<close>

theorem balance_reads_limited:
  assumes "sorted (t # map (snd \<circ> snd) rs)" "\<forall>r \<in> set rs. snd (snd r) \<le> u" "t \<le> u"
  shows "of_nat (reads_passed app caller rs []) \<le> balance_burst + balance_refill_per_sec * of_int (u - t) / of_int second"
  using reads_passed_bound[of "[]" t rs u app caller] assms
  by (simp add: buckets_ok_def tokens_at_def balance_refill_per_sec_def)

theorem balance_reads_limited_witness:
  "of_nat (reads_passed ''a'' ''c'' (replicate 30 (''a'', ''c'', 5)) []) \<le> (20 :: rat)"
  using balance_reads_limited[of 5 "replicate 30 (''a'', ''c'', 5)" 5 "''a''" "''c''"]
  by (simp add: balance_burst_def sorted_replicate del: replicate.simps)

end
