(* ===== verification/Identity.thy ===== *)
theory Identity
  imports Http "HOL-Library.Word"
begin

text \<open>
  internal/broker/identity.go (the signed caller identity) and accesskey.go (the front-door keys).
  SHA-256 and ed25519 are functions of the record \<open>crypto\<close>; what is assumed of them is a premise of
  the lemma that needs it. The age check is on 64-bit integers that wrap, as in the code.
\<close>

section \<open>Parameters\<close>

record crypto =
  cy_sha256 :: "string \<Rightarrow> string"
  cy_hmac :: "string \<Rightarrow> string \<Rightarrow> string"
  cy_ed_verify :: "string \<Rightarrow> string \<Rightarrow> string \<Rightarrow> bool"
  cy_ed_sign :: "string \<Rightarrow> string \<Rightarrow> string"
  cy_ed_public :: "string \<Rightarrow> string"

definition sha256_size :: nat where "sha256_size = 32"
definition ed_public_size :: nat where "ed_public_size = 32"
definition ed_signature_size :: nat where "ed_signature_size = 64"

section \<open>Caller identity\<close>

definition hdr_caller :: string where "hdr_caller = ''X-Pilot-Caller''"
definition hdr_timestamp :: string where "hdr_timestamp = ''X-Pilot-Timestamp''"
definition hdr_signature :: string where "hdr_signature = ''X-Pilot-Signature''"

datatype id_err = ErrMissingIdentity | ErrBadPubkey | ErrStale | ErrBadSignature

definition nl :: char where "nl = CHR 0x0A"

definition canonical :: "crypto \<Rightarrow> string \<Rightarrow> string \<Rightarrow> string \<Rightarrow> string \<Rightarrow> string" where
  "canonical cy method path ts body =
     method @ nl # path @ nl # ts @ nl # b64_raw_encode b64_std (cy_sha256 cy body)"

definition decode_b64 :: "string \<Rightarrow> string option" where
  "decode_b64 s =
     (case b64_raw_decode b64_std s of Some b \<Rightarrow> Some b | None \<Rightarrow> b64_pad_decode b64_std s)"

definition encode_key :: "string \<Rightarrow> string" where
  "encode_key = b64_raw_encode b64_std"

definition encode_sig :: "string \<Rightarrow> string" where
  "encode_sig = b64_raw_encode b64_std"

definition wrap64 :: "int \<Rightarrow> int" where
  "wrap64 n = sint (word_of_int n :: 64 word)"

definition default_window :: duration where "default_window = 300 * second"

text \<open>The age of a timestamp: the difference, its absolute value and the product, each wrapping.\<close>

definition stale :: "duration \<Rightarrow> int \<Rightarrow> int \<Rightarrow> bool" where
  "stale win nowUnix ts =
     (let d = wrap64 (nowUnix - ts);
          skew = (if d < 0 then wrap64 (- d) else d)
      in wrap64 (skew * second) > win)"

definition verify :: "crypto \<Rightarrow> duration \<Rightarrow> gotime \<Rightarrow> (string \<Rightarrow> string) \<Rightarrow> string \<Rightarrow> string \<Rightarrow> string \<Rightarrow> id_err + string" where
  "verify cy window now h method path body =
     (let win = (if window \<le> 0 then default_window else window);
          pkB64 = h hdr_caller; ts = h hdr_timestamp; sigB64 = h hdr_signature
      in if pkB64 = [] \<or> ts = [] \<or> sigB64 = [] then Inl ErrMissingIdentity
         else case decode_b64 pkB64 of
           None \<Rightarrow> Inl ErrBadPubkey
         | Some pk \<Rightarrow>
             if length pk \<noteq> ed_public_size then Inl ErrBadPubkey
             else case parse_int64 ts of
               None \<Rightarrow> Inl ErrStale
             | Some tsi \<Rightarrow>
                 if stale win (unix_sec now) tsi then Inl ErrStale
                 else case decode_b64 sigB64 of
                   None \<Rightarrow> Inl ErrBadSignature
                 | Some sg \<Rightarrow>
                     if length sg \<noteq> ed_signature_size then Inl ErrBadSignature
                     else if \<not> cy_ed_verify cy pk (canonical cy method path ts body) sg then Inl ErrBadSignature
                     else if pkB64 \<noteq> encode_key pk then Inr (encode_key pk)
                     else Inr pkB64)"

definition sign :: "crypto \<Rightarrow> string \<Rightarrow> string \<Rightarrow> string \<Rightarrow> string \<Rightarrow> gotime \<Rightarrow> string gmap" where
  "sign cy priv method path body now =
     (let ts = itoa (unix_sec now); sg = cy_ed_sign cy priv (canonical cy method path ts body)
      in [(hdr_caller, encode_key (cy_ed_public cy priv)), (hdr_timestamp, ts), (hdr_signature, encode_sig sg)])"

section \<open>Access keys\<close>

definition hex_lower :: "nat \<Rightarrow> char" where
  "hex_lower n = (if n < 10 then char_of (48 + n) else char_of (87 + n))"

definition hex_encode :: "string \<Rightarrow> string" where
  "hex_encode s = concat (map (\<lambda>c. [hex_lower (byte c div 16), hex_lower (byte c mod 16)]) s)"

text \<open>Code equations: a byte prints as the digits of its two halves, read off its bits; the 64-bit
  wrap is a remainder.\<close>

definition nibble_chr :: "bool \<Rightarrow> bool \<Rightarrow> bool \<Rightarrow> bool \<Rightarrow> char" where
  "nibble_chr b0 b1 b2 b3 =
     (if b3 \<and> (b2 \<or> b1) then
        (if b2 then (if b1 then (if b0 then CHR ''f'' else CHR ''e'') else (if b0 then CHR ''d'' else CHR ''c''))
         else (if b0 then CHR ''b'' else CHR ''a''))
      else Char b0 b1 b2 b3 True True False False)"

lemma nibble_chr: "nibble_chr b0 b1 b2 b3 =
  hex_lower ((if b0 then 1 else 0) + (if b1 then 2 else 0) + (if b2 then 4 else 0) + (if b3 then 8 else 0))"
  by (cases b0; cases b1; cases b2; cases b3) (simp_all add: nibble_chr_def hex_lower_def char_of_nat_chr nat_chr_def)

lemma byte_nibbles:
  "byte (Char b0 b1 b2 b3 b4 b5 b6 b7) div 16 =
     (if b4 then 1 else 0) + (if b5 then 2 else 0) + (if b6 then 4 else 0) + (if b7 then 8 else 0)" (is "_ = ?hi")
  "byte (Char b0 b1 b2 b3 b4 b5 b6 b7) mod 16 =
     (if b0 then 1 else 0) + (if b1 then 2 else 0) + (if b2 then 4 else 0) + (if b3 then 8 else 0)" (is "_ = ?lo")
proof -
  have "byte (Char b0 b1 b2 b3 b4 b5 b6 b7) = ?hi * 16 + ?lo" by (simp add: byte_code)
  moreover have "?lo < 16" by simp
  ultimately show "byte (Char b0 b1 b2 b3 b4 b5 b6 b7) div 16 = ?hi" "byte (Char b0 b1 b2 b3 b4 b5 b6 b7) mod 16 = ?lo"
    by simp_all
qed

lemma hex_encode_code [code]:
  "hex_encode [] = []"
  "hex_encode (Char b0 b1 b2 b3 b4 b5 b6 b7 # s) = nibble_chr b4 b5 b6 b7 # nibble_chr b0 b1 b2 b3 # hex_encode s"
  unfolding hex_encode_def nibble_chr byte_nibbles list.map concat.simps append.simps by (rule refl)+

lemma wrap64_code [code]: "wrap64 n = (n + 9223372036854775808) mod 18446744073709551616 - 9223372036854775808"
  by (simp add: wrap64_def sint_sbintrunc' signed_take_bit_eq_take_bit_shift take_bit_eq_mod)

definition access_key_header :: string where "access_key_header = ''X-Pilot-Access-Key''"

text \<open>The label and the key of one configured entry; the key is empty for an entry that is skipped.\<close>

definition split_entry :: "string \<Rightarrow> string \<times> string" where
  "split_entry e0 =
     (let e = trim_space e0;
          (label, key) = (case cut_at (CHR '':'') e of
             Some (a, b) \<Rightarrow> if a \<noteq> [] then (a, b) else ([], e) | None \<Rightarrow> ([], e))
      in (label, trim_space key))"

definition new_access_keys :: "crypto \<Rightarrow> string list \<Rightarrow> string gmap" where
  "new_access_keys cy entries =
     fold (\<lambda>e m. let (label, key) = split_entry e in
             if key = [] then m else AList.update (hex_encode (cy_sha256 cy key)) label m) entries []"

definition access_keys_len :: "string gmap option \<Rightarrow> nat" where
  "access_keys_len ak = (case ak of None \<Rightarrow> 0 | Some m \<Rightarrow> length m)"

definition presented :: "(string \<Rightarrow> string) \<Rightarrow> string" where
  "presented h =
     (let v = trim_space (h access_key_header) in
      if v \<noteq> [] then v
      else let w = trim_space (h ''Authorization'') in
        if length w > 7 \<and> to_lower (take 7 w) = ''bearer '' then trim_space (drop 7 w) else [])"

definition check_access_key :: "crypto \<Rightarrow> string gmap option \<Rightarrow> (string \<Rightarrow> string) \<Rightarrow> string option" where
  "check_access_key cy ak h =
     (case ak of
        None \<Rightarrow> None
      | Some m \<Rightarrow>
          if m = [] then None
          else let key = presented h in
            if key = [] then None else map_of m (hex_encode (cy_sha256 cy key)))"

text \<open>\<open>None\<close> when the request may go on.\<close>

definition require_access_key :: "crypto \<Rightarrow> string gmap option \<Rightarrow> (string \<Rightarrow> string) \<Rightarrow> app_entry \<Rightarrow> response option" where
  "require_access_key cy ak h a =
     (if \<not> ae_require_access_key a then None
      else if check_access_key cy ak h \<noteq> None then None
      else Some (set_hdr ''WWW-Authenticate'' ''Bearer realm=\"pilot-broker\"''
        (json_error 401 (''this app requires a pilot access key '' @ em_dash @
           '' upgrade your pilot client (`pilotctl appstore upgrade`) or see https://pilotprotocol.network/docs/access-keys''))))"

section \<open>The age check\<close>

lemma wrap64_signed: "wrap64 n = signed_take_bit 63 n"
  by (simp add: wrap64_def sint_sbintrunc')

lemma wrap64_id: "- (2 ^ 63) \<le> n \<Longrightarrow> n < 2 ^ 63 \<Longrightarrow> wrap64 n = n"
  by (simp add: wrap64_signed signed_take_bit_int_eq_self)

lemma wrap64_high: "2 ^ 63 \<le> n \<Longrightarrow> n < 2 ^ 64 \<Longrightarrow> wrap64 n = n - 2 ^ 64"
proof -
  assume n: "2 ^ 63 \<le> n" "n < 2 ^ 64"
  have "(word_of_int n :: 64 word) = word_of_int (n - 2 ^ 64)"
    by (simp add: word_of_int_eq_iff take_bit_eq_mod mod_diff_eq[symmetric])
  then have "wrap64 n = wrap64 (n - 2 ^ 64)" by (simp only: wrap64_def)
  also have "\<dots> = n - 2 ^ 64" using n by (intro wrap64_id) auto
  finally show ?thesis .
qed

lemma stale_abs:
  assumes "\<bar>n - ts\<bar> < 2 ^ 63"
  shows "stale win n ts \<longleftrightarrow> wrap64 (\<bar>n - ts\<bar> * second) > win"
proof -
  have d: "wrap64 (n - ts) = n - ts" using assms by (intro wrap64_id) linarith+
  have a: "(if n - ts < 0 then wrap64 (- (n - ts)) else n - ts) = \<bar>n - ts\<bar>"
    using assms wrap64_id[of "- (n - ts)"] by (auto simp: abs_if split: if_splits)
  show ?thesis unfolding stale_def Let_def d a ..
qed

lemma stale_near:
  assumes "\<bar>n - ts\<bar> \<le> 9223372036"
  shows "stale win n ts \<longleftrightarrow> \<bar>n - ts\<bar> * second > win"
proof -
  obtain k where k: "\<bar>n - ts\<bar> = k" "0 \<le> k" by auto
  have "wrap64 (k * second) = k * second" using assms k by (intro wrap64_id) simp_all
  with k assms stale_abs[of n ts win] show ?thesis by simp
qed

lemma stale_far:
  assumes "9223372036 < \<bar>n - ts\<bar>" "\<bar>n - ts\<bar> \<le> 18446744073" "0 \<le> win"
  shows "\<not> stale win n ts"
proof -
  obtain k where k: "\<bar>n - ts\<bar> = k" "0 \<le> k" by auto
  have "wrap64 (k * second) = k * second - 2 ^ 64"
    using assms k by (intro wrap64_high) simp_all
  moreover have "k * second - 2 ^ 64 < 0" using assms(2) k by simp
  ultimately have "wrap64 (k * second) \<le> win" using assms(3) by linarith
  with k assms(2) stale_abs[of n ts win] show ?thesis by simp
qed

section \<open>Verified callers\<close>


lemma decode_encoded: "decode_b64 (b64_raw_encode b64_std x) = Some x"
  by (simp add: decode_b64_def raw_decode_encode)

lemma encoded_ne: "x \<noteq> [] \<Longrightarrow> b64_raw_encode b64_std x \<noteq> []"
  by (metis b64_raw_encode.simps(1) good_alphabets(1) raw_encode_inject)

text \<open>What a caller has to present; every clause is checked by the code.\<close>

lemma verify_accepts:
  assumes "h hdr_caller = encode_key pk" "length pk = ed_public_size" "parse_int64 (h hdr_timestamp) = Some ts"
    and "h hdr_signature = encode_sig sg" "length sg = ed_signature_size"
    and "cy_ed_verify cy pk (canonical cy method path (h hdr_timestamp) body) sg"
    and "\<not> stale (if window \<le> 0 then default_window else window) (unix_sec now) ts"
  shows "verify cy window now h method path body = Inr (encode_key pk)"
proof -
  have "pk \<noteq> []" "sg \<noteq> []" using assms(2,5) by (auto simp: ed_public_size_def ed_signature_size_def)
  then have ne: "encode_key pk \<noteq> []" "encode_sig sg \<noteq> []" by (simp_all add: encode_key_def encode_sig_def encoded_ne)
  have d: "decode_b64 (encode_key pk) = Some pk" "decode_b64 (encode_sig sg) = Some sg"
    by (simp_all add: encode_key_def encode_sig_def decode_encoded)
  have "h hdr_timestamp \<noteq> []" using assms(3) by (auto simp: parse_int64_def dec_nat_def)
  with ne d assms show ?thesis by (simp add: verify_def Let_def)
qed

text \<open>Observation: A timestamp between about 292 and 584 years away, in the past or the future, passes the
  age check of every window: the product that converts seconds to nanoseconds wraps.\<close>

theorem far_timestamp_passes:
  assumes "9223372036 < \<bar>unix_sec now - ts\<bar>" "\<bar>unix_sec now - ts\<bar> \<le> 18446744073"
    and "h hdr_caller = encode_key pk" "length pk = ed_public_size" "parse_int64 (h hdr_timestamp) = Some ts"
    and "h hdr_signature = encode_sig sg" "length sg = ed_signature_size"
    and "cy_ed_verify cy pk (canonical cy method path (h hdr_timestamp) body) sg"
  shows "verify cy window now h method path body = Inr (encode_key pk)"
  by (rule verify_accepts[OF assms(3-8)]) (use stale_far[OF assms(1,2)] in \<open>simp add: default_window_def\<close>)

text \<open>A signature scheme on lists: the signature of a message is its first bytes, padded, next to the key.\<close>

definition toy_crypto :: crypto where
  "toy_crypto = \<lparr>cy_sha256 = (\<lambda>m. take 32 (m @ replicate 32 (CHR ''.''))),
     cy_hmac = (\<lambda>k m. take 32 (k @ m @ replicate 32 (CHR ''.''))),
     cy_ed_verify = (\<lambda>pk m sg. sg = pk @ take 32 (m @ replicate 32 (CHR ''.''))),
     cy_ed_sign = (\<lambda>k m. take 32 (k @ replicate 32 (CHR ''k'')) @ take 32 (m @ replicate 32 (CHR ''.''))),
     cy_ed_public = (\<lambda>k. take 32 (k @ replicate 32 (CHR ''k'')))\<rparr>"

definition lookup_header :: "string gmap \<Rightarrow> string \<Rightarrow> string" where
  "lookup_header hs k = (case map_of hs k of Some v \<Rightarrow> v | None \<Rightarrow> [])"

text \<open>Observation: A request whose headers Sign built verifies, at any time within the window, as the caller
  whose key signed it.\<close>

theorem sign_then_verify:
  assumes "length (cy_ed_public cy priv) = ed_public_size"
    and "\<And>m. length (cy_ed_sign cy priv m) = ed_signature_size"
    and "\<And>m. cy_ed_verify cy (cy_ed_public cy priv) m (cy_ed_sign cy priv m)"
    and "0 < window" "\<bar>unix_sec now - unix_sec t\<bar> * second \<le> window" "\<bar>unix_sec now - unix_sec t\<bar> \<le> 9223372036"
    and "int64_min \<le> unix_sec t" "unix_sec t \<le> int64_max"
  shows "verify cy window now (lookup_header (sign cy priv method path body t)) method path body
    = Inr (encode_key (cy_ed_public cy priv))"
proof (rule verify_accepts)
  let ?h = "lookup_header (sign cy priv method path body t)"
  have h: "?h hdr_caller = encode_key (cy_ed_public cy priv)" "?h hdr_timestamp = itoa (unix_sec t)"
    "?h hdr_signature = encode_sig (cy_ed_sign cy priv (canonical cy method path (itoa (unix_sec t)) body))"
    by (simp_all add: lookup_header_def sign_def Let_def hdr_caller_def hdr_timestamp_def hdr_signature_def)
  show "?h hdr_caller = encode_key (cy_ed_public cy priv)" by (rule h(1))
  show "length (cy_ed_public cy priv) = ed_public_size" by (rule assms(1))
  show "parse_int64 (?h hdr_timestamp) = Some (unix_sec t)" using assms(7,8) by (simp add: h parse_itoa)
  show "?h hdr_signature = encode_sig (cy_ed_sign cy priv (canonical cy method path (itoa (unix_sec t)) body))" by (rule h(3))
  show "length (cy_ed_sign cy priv (canonical cy method path (itoa (unix_sec t)) body)) = ed_signature_size" by (rule assms(2))
  show "cy_ed_verify cy (cy_ed_public cy priv) (canonical cy method path (?h hdr_timestamp) body)
      (cy_ed_sign cy priv (canonical cy method path (itoa (unix_sec t)) body))" unfolding h by (rule assms(3))
  show "\<not> stale (if window \<le> 0 then default_window else window) (unix_sec now) (unix_sec t)"
    using stale_near[OF assms(6)] assms(4,5) by simp
qed

lemma toy_lengths: "length (cy_ed_public toy_crypto k) = ed_public_size"
  "length (cy_ed_sign toy_crypto k m) = ed_signature_size"
  "cy_ed_verify toy_crypto (cy_ed_public toy_crypto k) m (cy_ed_sign toy_crypto k m)"
  by (simp_all add: toy_crypto_def ed_public_size_def ed_signature_size_def)

theorem sign_then_verify_witness:
  "verify toy_crypto 0 (of_unix 120) (lookup_header (sign toy_crypto ''k1'' ''GET'' ''/a/b'' ''{}'' (of_unix 100))) ''GET'' ''/a/b'' ''{}''
     = verify toy_crypto (20 * second) (of_unix 120) (lookup_header (sign toy_crypto ''k1'' ''GET'' ''/a/b'' ''{}'' (of_unix 100))) ''GET'' ''/a/b'' ''{}'' \<and>
   verify toy_crypto (20 * second) (of_unix 120) (lookup_header (sign toy_crypto ''k1'' ''GET'' ''/a/b'' ''{}'' (of_unix 100))) ''GET'' ''/a/b'' ''{}''
     = Inr (encode_key (cy_ed_public toy_crypto ''k1''))"
proof -
  have r: "verify toy_crypto w (of_unix 120) (lookup_header (sign toy_crypto ''k1'' ''GET'' ''/a/b'' ''{}'' (of_unix 100))) ''GET'' ''/a/b'' ''{}''
     = Inr (encode_key (cy_ed_public toy_crypto ''k1''))" if "20 * second \<le> w" for w
    by (rule sign_then_verify[OF toy_lengths]) (use that in \<open>simp_all add: of_unix_def unix_sec_def int64_min_def int64_max_def\<close>)
  have "verify toy_crypto 0 = verify toy_crypto default_window"
    by (simp add: fun_eq_iff verify_def default_window_def)
  with r[of default_window] r[of "20 * second"] show ?thesis by (simp add: default_window_def)
qed

theorem far_timestamp_passes_witness:
  "verify toy_crypto (300 * second) (of_unix 1800000000)
     (lookup_header (sign toy_crypto ''k1'' ''GET'' ''/a/b'' ''{}'' (of_unix 11800000000))) ''GET'' ''/a/b'' ''{}''
     = Inr (encode_key (cy_ed_public toy_crypto ''k1''))"
proof -
  let ?h = "lookup_header (sign toy_crypto ''k1'' ''GET'' ''/a/b'' ''{}'' (of_unix 11800000000))"
  have h: "?h hdr_caller = encode_key (cy_ed_public toy_crypto ''k1'')" "?h hdr_timestamp = itoa 11800000000"
    "?h hdr_signature = encode_sig (cy_ed_sign toy_crypto ''k1'' (canonical toy_crypto ''GET'' ''/a/b'' (itoa 11800000000) ''{}''))"
    by (simp_all add: lookup_header_def sign_def Let_def hdr_caller_def hdr_timestamp_def hdr_signature_def
        of_unix_def unix_sec_def)
  show ?thesis
  proof (rule far_timestamp_passes[OF _ _ h(1) toy_lengths(1) _ h(3) toy_lengths(2)])
    show "parse_int64 (?h hdr_timestamp) = Some 11800000000"
      by (simp add: h parse_itoa int64_min_def int64_max_def)
    show "cy_ed_verify toy_crypto (cy_ed_public toy_crypto ''k1'') (canonical toy_crypto ''GET'' ''/a/b'' (?h hdr_timestamp) ''{}'')
       (cy_ed_sign toy_crypto ''k1'' (canonical toy_crypto ''GET'' ''/a/b'' (itoa 11800000000) ''{}''))"
      unfolding h by (rule toy_lengths)
  qed (simp_all add: of_unix_def unix_sec_def)
qed


section \<open>What a signature covers\<close>

lemma dec_value_digit_chars: "dec_value acc s = Some n \<Longrightarrow> c \<in> set s \<Longrightarrow> is_digit c"
  by (induction s arbitrary: acc) (auto split: if_splits)

lemma parsed_no_nl: "parse_int64 ts = Some n \<Longrightarrow> nl \<notin> set ts"
proof -
  assume p: "parse_int64 ts = Some n"
  have d: "\<not> is_digit nl" by (simp add: is_digit_def nl_def)
  obtain b m where "ts = b \<or> (\<exists>c. ts = c # b \<and> c \<noteq> nl)" "dec_nat b = Some m"
    using p by (auto simp: parse_int64_def nl_def split: list.splits option.splits if_splits)
  with d dec_value_digit_chars[of 0 b m nl] show ?thesis by (auto simp: dec_nat_def split: if_splits)
qed

lemma sep_inject_back:
  fixes c :: char
  assumes "c \<notin> set b" "c \<notin> set b'"
  shows "a @ c # b = a' @ c # b' \<longleftrightarrow> a = a' \<and> b = b'"
proof
  assume "a @ c # b = a' @ c # b'"
  then have "rev (a @ c # b) = rev (a' @ c # b')" by simp
  then show "a = a' \<and> b = b'"
    using sep_inject[of c "rev b" "rev b'" "rev a" "rev a'"] assms by simp
qed simp

text \<open>Observation: Two requests with the same signed text have the same method, path, timestamp and body
  digest, whatever bytes the path holds, when the methods have no line break and the timestamps
  are numbers.\<close>

theorem canonical_binds:
  assumes "canonical cy m p ts b = canonical cy m' p' ts' b'"
    and "nl \<notin> set m" "nl \<notin> set m'" "parse_int64 ts = Some n" "parse_int64 ts' = Some n'"
  shows "m = m' \<and> p = p' \<and> ts = ts' \<and> cy_sha256 cy b = cy_sha256 cy b'"
proof -
  have b64: "nl \<notin> set (b64_raw_encode b64_std x)" for x
    using raw_encode_chars[of b64_std x] good_alphabets(1) by (auto simp: good_alphabet_def nl_def)
  from assms(1) have "m @ nl # (p @ nl # ts @ nl # b64_raw_encode b64_std (cy_sha256 cy b)) =
      m' @ nl # (p' @ nl # ts' @ nl # b64_raw_encode b64_std (cy_sha256 cy b'))"
    by (simp add: canonical_def)
  with assms(2,3) have m: "m = m'" and
    r: "p @ nl # ts @ nl # b64_raw_encode b64_std (cy_sha256 cy b) = p' @ nl # ts' @ nl # b64_raw_encode b64_std (cy_sha256 cy b')"
    by (simp_all add: sep_inject)
  from r have "(p @ nl # ts) @ nl # b64_raw_encode b64_std (cy_sha256 cy b) =
      (p' @ nl # ts') @ nl # b64_raw_encode b64_std (cy_sha256 cy b')" by simp
  then have r2: "p @ nl # ts = p' @ nl # ts'"
    and d: "b64_raw_encode b64_std (cy_sha256 cy b) = b64_raw_encode b64_std (cy_sha256 cy b')"
    using sep_inject_back[OF b64 b64] by blast+
  from r2 have "p = p'" "ts = ts'"
    using sep_inject_back[OF parsed_no_nl[OF assms(4)] parsed_no_nl[OF assms(5)]] by blast+
  with m d show ?thesis by (simp add: raw_encode_inject)
qed

theorem canonical_binds_witness:
  "canonical toy_crypto ''GET'' ''/a'' ''12'' ''x'' \<noteq> canonical toy_crypto ''GET'' (''/a'' @ nl # ''1'') ''12'' ''x''"
proof
  assume c: "canonical toy_crypto ''GET'' ''/a'' ''12'' ''x'' = canonical toy_crypto ''GET'' (''/a'' @ nl # ''1'') ''12'' ''x''"
  have "parse_int64 ''12'' = Some 12" by code_simp
  from canonical_binds[OF c _ _ this this] show False by (simp add: nl_def)
qed

section \<open>The front door\<close>

lemma hex_lower_inject: "m < 16 \<Longrightarrow> n < 16 \<Longrightarrow> hex_lower m = hex_lower n \<longleftrightarrow> m = n"
proof -
  assume lt: "m < 16" "n < 16"
  have b: "byte (hex_lower k) = (if k < 10 then 48 + k else 87 + k)" if "k < 16" for k
    using that by (simp add: hex_lower_def)
  show ?thesis
  proof
    assume "hex_lower m = hex_lower n"
    then have "byte (hex_lower m) = byte (hex_lower n)" by simp
    with lt show "m = n" by (simp add: b split: if_splits)
  qed simp
qed

lemma hex_encode_inject: "hex_encode s = hex_encode t \<longleftrightarrow> s = t"
proof
  have lt: "byte c div 16 < 16" "byte c mod 16 < 16" for c using byte_lt[of c] by (simp_all add: div_less_iff_less_mult)
  assume "hex_encode s = hex_encode t"
  then show "s = t"
  proof (induction s arbitrary: t)
    case Nil
    then show ?case by (cases t) (auto simp: hex_encode_def)
  next
    case (Cons c s)
    then obtain d u where t: "t = d # u" by (cases t) (auto simp: hex_encode_def)
    with Cons.prems have "byte c div 16 = byte d div 16" "byte c mod 16 = byte d mod 16" "hex_encode s = hex_encode u"
      using lt by (auto simp: hex_encode_def hex_lower_inject)
    moreover from this(1,2) have "byte c = byte d" by (metis div_mult_mod_eq)
    then have "c = d" by (metis byte_char_of(2))
    ultimately show ?case using Cons.IH t by simp
  qed
qed simp

lemma new_access_keys_dom:
  "map_of (new_access_keys cy es) k \<noteq> None \<longleftrightarrow>
     (\<exists>e \<in> set es. snd (split_entry e) \<noteq> [] \<and> k = hex_encode (cy_sha256 cy (snd (split_entry e))))"
proof -
  have "map_of (fold (\<lambda>e m. let (label, key) = split_entry e in
             if key = [] then m else AList.update (hex_encode (cy_sha256 cy key)) label m) es m) k \<noteq> None \<longleftrightarrow>
      map_of m k \<noteq> None \<or> (\<exists>e \<in> set es. snd (split_entry e) \<noteq> [] \<and> k = hex_encode (cy_sha256 cy (snd (split_entry e))))" for m
  proof (induction es arbitrary: m)
    case (Cons e es)
    obtain l y where e: "split_entry e = (l, y)" by fastforce
    show ?case
    proof (cases "y = []")
      case True
      then show ?thesis using Cons[of m] by (simp add: e)
    next
      case False
      then show ?thesis using Cons[of "AList.update (hex_encode (cy_sha256 cy y)) l m"] by (simp add: e update_conv')
    qed
  qed simp
  then show ?thesis by (simp add: new_access_keys_def)
qed

text \<open>Observation: An app that requires an access key is open exactly to requests that present a key whose
  digest is that of a configured key, in the dedicated header or as a bearer token; with no key
  configured it is open to nobody.\<close>

theorem access_key_gate:
  assumes "ae_require_access_key a"
  shows "(require_access_key cy (Some (new_access_keys cy es)) h a = None \<longleftrightarrow>
      presented h \<noteq> [] \<and> (\<exists>e \<in> set es. snd (split_entry e) \<noteq> [] \<and>
        cy_sha256 cy (snd (split_entry e)) = cy_sha256 cy (presented h))) \<and>
    require_access_key cy None h a \<noteq> None \<and> require_access_key cy (Some (new_access_keys cy [])) h a \<noteq> None"
proof -
  have "check_access_key cy (Some (new_access_keys cy es)) h \<noteq> None \<longleftrightarrow>
      presented h \<noteq> [] \<and> map_of (new_access_keys cy es) (hex_encode (cy_sha256 cy (presented h))) \<noteq> None"
    by (auto simp: check_access_key_def Let_def)
  then have "check_access_key cy (Some (new_access_keys cy es)) h \<noteq> None \<longleftrightarrow>
      presented h \<noteq> [] \<and> (\<exists>e \<in> set es. snd (split_entry e) \<noteq> [] \<and>
        cy_sha256 cy (snd (split_entry e)) = cy_sha256 cy (presented h))"
    unfolding new_access_keys_dom hex_encode_inject by metis
  moreover have "new_access_keys cy [] = []" by (simp add: new_access_keys_def)
  ultimately show ?thesis using assms by (auto simp: require_access_key_def check_access_key_def split: if_splits)
qed

theorem access_key_gate_witness:
  "require_access_key toy_crypto (Some (new_access_keys toy_crypto ['' ops: s3cret '', []])) (\<lambda>k. if k = ''Authorization'' then ''bearer s3cret'' else [])
     (new_entry (plain_config ''a'')\<lparr>ae_require_access_key := True\<rparr>) = None"
proof -
  let ?a = "new_entry (plain_config ''a'')\<lparr>ae_require_access_key := True\<rparr>"
  have "ae_require_access_key ?a" by simp
  moreover have "presented (\<lambda>k. if k = ''Authorization'' then ''bearer s3cret'' else []) = ''s3cret''"
    "snd (split_entry '' ops: s3cret '') = ''s3cret''" by code_simp+
  ultimately show ?thesis
    using access_key_gate[of ?a toy_crypto "['' ops: s3cret '', []]"] by simp
qed

end
