(* ===== verification/Derive.thy ===== *)
theory Derive
  imports Identity
begin

text \<open>
  internal/broker/derive.go: the per-user key that seals a caller id under the broker's secret, a
  key version and the caller's rotation counter. HMAC-SHA256 is \<open>cy_hmac\<close>. A key version is a byte.
\<close>

section \<open>Operations\<close>

definition derived_prefix :: string where "derived_prefix = ''sk-smol-''"

definition mac_message :: "nat \<Rightarrow> int \<Rightarrow> string \<Rightarrow> string" where
  "mac_message version rot caller = char_of version # itoa rot @ nl # caller"

definition compute_mac :: "crypto \<Rightarrow> string \<Rightarrow> nat \<Rightarrow> int \<Rightarrow> string \<Rightarrow> string" where
  "compute_mac cy secret version rot caller = cy_hmac cy secret (mac_message version rot caller)"

definition derive_key :: "crypto \<Rightarrow> string \<Rightarrow> nat \<Rightarrow> int \<Rightarrow> string \<Rightarrow> string" where
  "derive_key cy secret version rot caller =
     derived_prefix @ itoa (int version) @ CHR ''.'' # b64_raw_encode b64_url caller
       @ CHR ''.'' # b64_raw_encode b64_url (compute_mac cy secret version rot caller)"

definition parse_derived :: "string \<Rightarrow> (nat \<times> string \<times> string) option" where
  "parse_derived token =
     (case cut_prefix derived_prefix token of
        None \<Rightarrow> None
      | Some rest \<Rightarrow> (case cut_at (CHR ''.'') rest of
          None \<Rightarrow> None
        | Some (vStr, tail) \<Rightarrow> (case cut_at (CHR ''.'') tail of
            None \<Rightarrow> None
          | Some (callerB64, macB64) \<Rightarrow> (case parse_int64 vStr of
              None \<Rightarrow> None
            | Some v \<Rightarrow>
                if v < 0 \<or> v > 255 then None
                else (case b64_raw_decode b64_url callerB64 of
                  None \<Rightarrow> None
                | Some callerBytes \<Rightarrow> (case b64_raw_decode b64_url macB64 of
                    None \<Rightarrow> None
                  | Some macBytes \<Rightarrow>
                      if length macBytes \<noteq> sha256_size then None
                      else Some (nat v, callerBytes, macBytes)))))))"

definition validate_derived :: "crypto \<Rightarrow> (nat \<times> string) list \<Rightarrow> string \<Rightarrow> int \<Rightarrow> string option" where
  "validate_derived cy secrets token rot =
     (case parse_derived token of
        None \<Rightarrow> None
      | Some (version, caller, mac) \<Rightarrow>
          (case map_of secrets version of
             None \<Rightarrow> None
           | Some secret \<Rightarrow>
               if secret = [] then None
               else if mac \<noteq> compute_mac cy secret version rot caller then None
               else Some caller))"

section \<open>Parsing what was minted\<close>

lemma b64_url_no_dot: "CHR ''.'' \<notin> set (b64_raw_encode b64_url s)"
proof -
  have "CHR ''.'' \<notin> set b64_url" by (simp add: b64_url_def)
  then show ?thesis using raw_encode_chars[OF good_alphabets(2), of s] by blast
qed

lemma itoa_no_dot: "CHR ''.'' \<notin> set (itoa n)"
  using itoa_chars[of "CHR ''.''" n] by (auto simp: is_digit_def)

lemma itoa_no_nl: "nl \<notin> set (itoa n)"
  using itoa_chars[of nl n] by (auto simp: is_digit_def nl_def)

lemma parse_derive:
  assumes "v \<le> 255" "length (compute_mac cy secret v rot c) = sha256_size"
  shows "parse_derived (derive_key cy secret v rot c) = Some (v, c, compute_mac cy secret v rot c)"
proof -
  have "parse_int64 (itoa (int v)) = Some (int v)"
    using assms(1) by (intro parse_itoa) (simp_all add: int64_min_def int64_max_def)
  with assms show ?thesis
    by (simp add: parse_derived_def derive_key_def cut_at_append itoa_no_dot b64_url_no_dot raw_decode_encode)
qed

lemma mac_message_inject:
  assumes "v \<le> 255" "w \<le> 255"
  shows "mac_message v rot c = mac_message w rot' d \<longleftrightarrow> v = w \<and> rot = rot' \<and> c = d"
proof
  assume e: "mac_message v rot c = mac_message w rot' d"
  then have "v mod 256 = w mod 256" "itoa rot @ nl # c = itoa rot' @ nl # d"
    by (simp_all add: mac_message_def)
  with assms show "v = w \<and> rot = rot' \<and> c = d"
    using sep_inject[OF itoa_no_nl itoa_no_nl, of rot c rot' d] by (simp add: itoa_inject)
qed simp

section \<open>Properties\<close>

text \<open>Observation: A minted key parses back to its version, caller and MAC, and validates to that caller
  under the same secret and rotation.\<close>

theorem derived_key_validates:
  assumes "v \<le> 255" "length (compute_mac cy secret v rot c) = sha256_size" "map_of secrets v = Some secret" "secret \<noteq> []"
  shows "parse_derived (derive_key cy secret v rot c) = Some (v, c, compute_mac cy secret v rot c) \<and>
    validate_derived cy secrets (derive_key cy secret v rot c) rot = Some c"
  using parse_derive[OF assms(1,2)] assms(3,4) by (simp add: validate_derived_def)

lemma toy_mac_length: "length (compute_mac toy_crypto secret v rot c) = sha256_size"
  by (simp add: compute_mac_def toy_crypto_def sha256_size_def)

theorem derived_key_validates_witness:
  "validate_derived toy_crypto [(1, ''s'')] (derive_key toy_crypto ''s'' 1 0 ''alice'') 0 = Some ''alice''"
  using derived_key_validates[OF _ toy_mac_length, of 1 "[(1, ''s'')]" "''s''" 0 "''alice''"] by simp

text \<open>Observation: A token that validates carries the MAC of its own caller id and version under a configured
  non-empty secret and the given rotation: a different caller, version or rotation needs a MAC of a
  different message.\<close>

theorem validated_key_sealed:
  assumes "validate_derived cy secrets token rot = Some c"
  shows "\<exists>v secret mac. parse_derived token = Some (v, c, mac) \<and> map_of secrets v = Some secret \<and> secret \<noteq> [] \<and>
    mac = cy_hmac cy secret (mac_message v rot c) \<and>
    (\<forall>w rot' d. v \<le> 255 \<and> w \<le> 255 \<and> mac_message w rot' d = mac_message v rot c \<longrightarrow> w = v \<and> rot' = rot \<and> d = c)"
  using assms by (auto simp: validate_derived_def compute_mac_def mac_message_inject split: option.splits if_splits)

theorem validated_key_sealed_witness:
  "\<exists>mac. parse_derived (derive_key toy_crypto ''s'' 1 0 ''al'') = Some (1, ''al'', mac)"
proof -
  have "validate_derived toy_crypto [(1, ''s'')] (derive_key toy_crypto ''s'' 1 0 ''al'') 0 = Some ''al''" by code_simp
  from validated_key_sealed[OF this] obtain v secret mac where
    "parse_derived (derive_key toy_crypto ''s'' 1 0 ''al'') = Some (v, ''al'', mac)" "map_of [(1 :: nat, ''s'')] v = Some secret"
    by blast
  then show ?thesis by (cases "v = 1") auto
qed



end
