(* ===== verification/Broker_Env.thy ===== *)
theory Broker_Env
  imports Credit Derive Breaker Tenancy
begin

text \<open>
  What a request handler of internal/broker runs in: the fields of \<open>Broker\<close> that do not change
  (\<open>broker_env\<close>) and the state it shares with the other requests (\<open>broker_state\<close>). The store is a
  record of operations over its own state \<open>'s\<close>. Outside the program: the clock (one reading per
  site of a handler), the random error reference, what the partner answers to a request (\<open>None\<close> when
  the transport fails), whether a method and a URL make a request, the parts of a multipart body.
  A handler gives its response, the requests it sent, in order, and the new state.
\<close>

section \<open>Environment and state\<close>

datatype clock_site = AtVerify | AtBucket | AtSeed | AtReseed | AtAllow | AtRecord | AtClaim | AtFilter | AtProvision

record 's broker_env =
  en_store :: "'s store_ops"
  en_crypto :: crypto
  en_window :: duration
  en_max_body :: int
  en_ip_header :: string
  en_access_keys :: "string gmap option"
  en_clock :: "clock_site \<Rightarrow> gotime"
  en_ref :: string
  en_err_text :: "store_err \<Rightarrow> string"
  en_partner :: "out_request \<Rightarrow> (int \<times> string) option"
  en_url_ok :: "string \<Rightarrow> string \<Rightarrow> bool"
  en_multipart :: multipart_reader

record 's broker_state =
  bs_store :: 's
  bs_breakers :: "breaker gmap"
  bs_buckets :: "bucket gmap"

type_synonym 's outcome = "response \<times> out_request list \<times> 's broker_state"

definition answer :: "response \<Rightarrow> 's broker_state \<Rightarrow> 's outcome" where
  "answer r st = (r, [], st)"

definition app_breaker :: "app_entry \<Rightarrow> 's broker_state \<Rightarrow> breaker" where
  "app_breaker app st = (case map_of (bs_breakers st) (ae_id app) of Some b \<Rightarrow> b | None \<Rightarrow> new_breaker)"

definition set_breaker :: "app_entry \<Rightarrow> breaker \<Rightarrow> 's broker_state \<Rightarrow> 's broker_state" where
  "set_breaker app b st = st\<lparr>bs_breakers := AList.update (ae_id app) b (bs_breakers st)\<rparr>"

definition ask_breaker :: "'s broker_env \<Rightarrow> app_entry \<Rightarrow> 's broker_state \<Rightarrow> bool \<times> 's broker_state" where
  "ask_breaker env app st =
     (let (okay, b) = breaker_allow (rt_breaker app) (en_clock env AtAllow) (app_breaker app st)
      in (okay, set_breaker app b st))"

definition report_breaker :: "'s broker_env \<Rightarrow> app_entry \<Rightarrow> bool \<Rightarrow> 's broker_state \<Rightarrow> 's broker_state" where
  "report_breaker env app success st =
     set_breaker app (breaker_record (rt_breaker app) (en_clock env AtRecord) success (app_breaker app st)) st"

definition request_ip :: "'s broker_env \<Rightarrow> request \<Rightarrow> string" where
  "request_ip env req = client_ip (rq_header req) (rq_remote req) (en_ip_header env)"

definition internal_error :: "'s broker_env \<Rightarrow> int \<Rightarrow> response" where
  "internal_error env code = write_json code
     (JObj [(''error'', JStr ''the broker could not complete this call''), (''ref'', JStr (en_ref env))])"

definition id_err_text :: "id_err \<Rightarrow> string" where
  "id_err_text e = (case e of
      ErrMissingIdentity \<Rightarrow> ''broker: missing caller identity headers''
    | ErrBadPubkey \<Rightarrow> ''broker: invalid caller public key''
    | ErrStale \<Rightarrow> ''broker: request timestamp outside the allowed window''
    | ErrBadSignature \<Rightarrow> ''broker: caller signature does not verify'')"

definition credits_header :: string where "credits_header = ''X-Pilot-Credits-Remaining''"
definition unrouted_header :: string where "unrouted_header = ''X-Pilot-Unrouted''"

section \<open>The balance of a credit app\<close>

definition credit_answer :: "app_entry \<Rightarrow> prov_record \<Rightarrow> response" where
  "credit_answer app rec =
     set_hdr credits_header (itoa (pr_credits rec)) (write_json 200 (JObj
       [(''balance'', JStr (micro_usd (pr_credits rec))),
        (''credits_remaining'', jint (pr_credits rec)),
        (''credits_seed'', jint (rt_credit_seed app)),
        (''unit'', JStr ''micro_usd''),
        (''scope'', JStr ''per-pilot-user''),
        (''note'', JStr ''Your personal budget on this app. The shared provider account balance is not exposed.'')]))"

definition rate_limited :: response where
  "rate_limited = json_error 429 (''balance: rate limited '' @ em_dash @ '' retry shortly'')"

definition cooldown_response :: response where
  "cooldown_response = json_error 429 (''re-provision cooldown '' @ em_dash @ '' retry shortly'')"

definition serve_credit_balance ::
  "'s broker_env \<Rightarrow> request \<Rightarrow> app_entry \<Rightarrow> string \<Rightarrow> 's broker_state \<Rightarrow> 's outcome" where
  "serve_credit_balance env req app caller st =
     (case so_prov (en_store env) of
        None \<Rightarrow> answer (json_error 500 ''store does not support credit metering'') st
      | Some ps \<Rightarrow>
          let (okay, bks) = allow_balance_read (ae_id app) caller (en_clock env AtBucket) (bs_buckets st);
              st1 = st\<lparr>bs_buckets := bks\<rparr>
          in if \<not> okay then answer rate_limited st1
             else case op_get ps (bs_store st1) (ae_id app) caller of
               Inl e \<Rightarrow> answer (internal_error env 500) st1
             | Inr (Some rec) \<Rightarrow> answer (credit_answer app rec) st1
             | Inr None \<Rightarrow>
                 (let (r, s') = seed_caller ps (ae_id app) caller (request_ip env req) app
                                  (en_clock env AtSeed) (en_clock env AtReseed) (bs_store st1);
                      st2 = st1\<lparr>bs_store := s'\<rparr>
                  in case r of
                       Inl e \<Rightarrow> answer (if e = ErrCooldown then cooldown_response else internal_error env 500) st2
                     | Inr rec \<Rightarrow> answer (credit_answer app rec) st2))"

lemma set_breaker_store [simp]: "bs_store (set_breaker app b st) = bs_store st"
  "bs_buckets (set_breaker app b st) = bs_buckets st"
  by (simp_all add: set_breaker_def)

lemma report_breaker_store [simp]: "bs_store (report_breaker env app k st) = bs_store st"
  by (simp add: report_breaker_def)

lemma ask_breaker_store: "ask_breaker env app st = (okay, st') \<Longrightarrow> bs_store st' = bs_store st"
  by (auto simp: ask_breaker_def split: prod.splits)

section \<open>A concrete broker\<close>

definition demo_env :: "sqlite_store broker_env" where
  "demo_env = \<lparr>en_store = sql_ops, en_crypto = toy_crypto, en_window = 300 * second, en_max_body = 100,
     en_ip_header = ''X-Real-IP'', en_access_keys = None, en_clock = (\<lambda>_. of_unix 100), en_ref = ''r'',
     en_err_text = (\<lambda>_. ''e''), en_partner = (\<lambda>_. Some (200, ''{\"cost_cents\":1}'')),
     en_url_ok = (\<lambda>_ _. True), en_multipart = sample_parts\<rparr>"

definition demo_caller :: string where
  "demo_caller = encode_key (cy_ed_public toy_crypto ''k1'')"

definition demo_request :: "string \<Rightarrow> string \<Rightarrow> string \<Rightarrow> request" where
  "demo_request method path query =
     \<lparr>rq_method = method, rq_path = path, rq_raw_query = query,
      rq_header = lookup_header (sign toy_crypto ''k1'' method path [] (of_unix 100)),
      rq_remote = ''10.0.0.1:99'', rq_content_length = 0, rq_body = Inr []\<rparr>"

definition demo_state :: "sqlite_store broker_state" where
  "demo_state = \<lparr>bs_store = open_sqlite_store, bs_breakers = [], bs_buckets = []\<rparr>"

end
