(* ===== verification/Json_Struct.thy ===== *)
theory Json_Struct
  imports Json
begin

text \<open>
  How encoding/json fills a struct: the raw members are read in order; a member whose name equals a
  field's up to letter case sets the field, null leaves it, another type leaves it and is an error
  at the end. Every reader gives the value and whether there was no error.
\<close>

section \<open>Reading JSON into a struct\<close>

definition raw_doc :: "string \<Rightarrow> json option" where
  "raw_doc s = (case raw_decode s of Some (v, r) \<Rightarrow> if skip_ws r = [] then Some v else None | None \<Rightarrow> None)"

definition same_field :: "string \<Rightarrow> string \<Rightarrow> bool" where
  "same_field k name \<longleftrightarrow> to_lower k = to_lower name"

definition get_str :: "string \<Rightarrow> (string \<times> json) list \<Rightarrow> string \<times> bool" where
  "get_str name kvs =
     fold (\<lambda>(k, v) (x, okay). if same_field k name
             then (case v of JStr s \<Rightarrow> (s, okay) | JNull \<Rightarrow> (x, okay) | _ \<Rightarrow> (x, False)) else (x, okay))
       kvs ([], True)"

definition get_bool :: "string \<Rightarrow> (string \<times> json) list \<Rightarrow> bool \<times> bool" where
  "get_bool name kvs =
     fold (\<lambda>(k, v) (x, okay). if same_field k name
             then (case v of JBool b \<Rightarrow> (b, okay) | JNull \<Rightarrow> (x, okay) | _ \<Rightarrow> (x, False)) else (x, okay))
       kvs (False, True)"

definition get_rat :: "string \<Rightarrow> (string \<times> json) list \<Rightarrow> rat \<times> bool" where
  "get_rat name kvs =
     fold (\<lambda>(k, v) (x, okay). if same_field k name
             then (case v of JNum t \<Rightarrow> (num_value t, okay) | JNull \<Rightarrow> (x, okay) | _ \<Rightarrow> (x, False)) else (x, okay))
       kvs (0, True)"

text \<open>One string field of a document: its value, and whether Unmarshal reports no error.\<close>

definition doc_str :: "string \<Rightarrow> string \<Rightarrow> string \<times> bool" where
  "doc_str name body =
     (case raw_doc body of
        Some (JObj kvs) \<Rightarrow> get_str name kvs
      | Some JNull \<Rightarrow> ([], True)
      | _ \<Rightarrow> ([], False))"

text \<open>An integer field takes a number literal that is an integer of 64 bits; a slice field is
  emptied by null and otherwise decoded element by element.\<close>

definition get_int :: "string \<Rightarrow> (string \<times> json) list \<Rightarrow> int \<times> bool" where
  "get_int name kvs =
     fold (\<lambda>(k, v) (x, okay). if same_field k name
             then (case v of JNum t \<Rightarrow> (case parse_int64 t of Some n \<Rightarrow> (n, okay) | None \<Rightarrow> (x, False))
                   | JNull \<Rightarrow> (x, okay) | _ \<Rightarrow> (x, False)) else (x, okay))
       kvs (0, True)"

definition get_list :: "string \<Rightarrow> (json \<Rightarrow> 'a \<times> bool) \<Rightarrow> (string \<times> json) list \<Rightarrow> 'a list \<times> bool" where
  "get_list name elem kvs =
     fold (\<lambda>(k, v) (x, okay). if same_field k name
             then (case v of JArr js \<Rightarrow> (map (fst \<circ> elem) js, okay \<and> list_all (snd \<circ> elem) js)
                   | JNull \<Rightarrow> ([], okay) | _ \<Rightarrow> (x, False)) else (x, okay))
       kvs ([], True)"

text \<open>A struct: an object's members, nothing for null.\<close>

definition struct_members :: "json \<Rightarrow> (string \<times> json) list option" where
  "struct_members v = (case v of JObj kvs \<Rightarrow> Some kvs | JNull \<Rightarrow> Some [] | _ \<Rightarrow> None)"

text \<open>A struct in a field: each occurrence of the field is read into the same struct.\<close>

definition get_struct :: "string \<Rightarrow> (string \<times> json) list \<Rightarrow> (string \<times> json) list \<times> bool" where
  "get_struct k kvs =
     fold (\<lambda>(n, v) (x, okay). if same_field n k
             then (case v of JObj m \<Rightarrow> (x @ m, okay) | JNull \<Rightarrow> (x, okay) | _ \<Rightarrow> (x, False)) else (x, okay))
       kvs ([], True)"

text \<open>A map of structs in a field: every element starts empty, a later one of the same key replaces it.\<close>

definition get_map :: "string \<Rightarrow> (json \<Rightarrow> 'a \<times> bool) \<Rightarrow> (string \<times> json) list \<Rightarrow> 'a gmap \<times> bool" where
  "get_map name elem kvs =
     fold (\<lambda>(k, v) (x, okay). if same_field k name
             then (case v of
                     JObj ms \<Rightarrow> (fold (\<lambda>(i, e). AList.update i (fst (elem e))) ms x, okay \<and> list_all (\<lambda>(i, e). snd (elem e)) ms)
                   | JNull \<Rightarrow> ([], okay) | _ \<Rightarrow> (x, False)) else (x, okay))
       kvs ([], True)"

end
