(* ===== verification/Provision.thy ===== *)
theory Provision
  imports Broker_Env Json_Struct
begin

text \<open>
  internal/broker/provision.go: the cloud providers and the handlers of a provisioned application.
\<close>

section \<open>The master-key provider\<close>

record push_spec =
  ps_name :: string
  ps_image :: string
  ps_arch :: string
  ps_net :: bool

record cloud_resp =
  cl_status :: int
  cl_body :: string

record machine_info =
  mi_id :: string
  mi_owner :: string
  mi_state :: string
  mi_cpus :: rat
  mi_memory_mb :: rat
  mi_disk_gb :: rat

definition machine_running :: "machine_info \<Rightarrow> bool" where
  "machine_running m \<longleftrightarrow> mi_state m = ''started'' \<or> mi_state m = ''running''"

datatype cloud_err = ErrBuild | ErrTransport | ErrDormant | ErrNoReference | ErrNoSource | ErrListStatus int
  | ErrStopStatus string int | ErrBadJson | ErrMintStatus int string | ErrNoToken

type_synonym 'a cloud_result = "(cloud_err + 'a) \<times> out_request list"

definition send :: "'s broker_env \<Rightarrow> out_request \<Rightarrow> string \<Rightarrow> cloud_resp cloud_result" where
  "send env r target =
     (if \<not> en_url_ok env (ou_method r) target then (Inl ErrBuild, [])
      else case en_partner env r of
             None \<Rightarrow> (Inl ErrTransport, [r])
           | Some (status, body) \<Rightarrow> (Inr \<lparr>cl_status = status, cl_body = body\<rparr>, [r]))"

definition cloud_do :: "'s broker_env \<Rightarrow> string \<Rightarrow> string \<Rightarrow> string \<Rightarrow> string \<Rightarrow> string \<Rightarrow> cloud_resp cloud_result" where
  "cloud_do env upstream bearer method path body =
     (let target = upstream @ path
      in send env (set_out_header ''Content-Type'' json_type
           (set_out_header ''Authorization'' (''Bearer '' @ bearer) (new_out_request method target body))) target)"

text \<open>A loop over runes: ASCII bytes one by one; a byte of a longer rune is kept with the others of
  its rune as one hyphen, so continuation bytes add nothing.\<close>

definition machine_char :: "char \<Rightarrow> bool" where
  "machine_char c \<longleftrightarrow> is_lower_chr c \<or> is_upper_chr c \<or> is_digit c \<or> c = CHR ''-'' \<or> c = CHR ''_''"

definition sanitize_machine_name :: "string \<Rightarrow> string" where
  "sanitize_machine_name s =
     map (\<lambda>c. if machine_char c then c else CHR ''-'') (filter (\<lambda>c. byte c < 128 \<or> 192 \<le> byte c) s)"

definition owner_name :: "string \<Rightarrow> string \<Rightarrow> string" where
  "owner_name owner name0 =
     (let short = take 8 (sanitize_machine_name owner);
          name = sanitize_machine_name name0
      in ''smol-'' @ short @ ''-'' @ (if name = [] then ''vm'' else name))"

definition upload_artifact ::
  "'s broker_env \<Rightarrow> string \<Rightarrow> string \<Rightarrow> string \<Rightarrow> string \<Rightarrow> string \<Rightarrow> string \<Rightarrow> cloud_resp cloud_result" where
  "upload_artifact env upstream master uploadPath owner name artifact =
     (let target = upstream @ uploadPath
      in send env
           (set_out_header ''X-Smol-Name'' (owner_name owner name)
             (set_out_header ''X-Smol-Owner'' owner
               (set_out_header ''Content-Type'' ''application/octet-stream''
                 (set_out_header ''Authorization'' (''Bearer '' @ master)
                   (new_out_request ''POST'' target artifact))))) target)"

definition create_body :: "string \<Rightarrow> string \<Rightarrow> push_spec \<Rightarrow> string \<Rightarrow> string \<Rightarrow> string" where
  "create_body ownerEnvKey owner spec sourceType reference =
     json_text (JObj
       ([(''source'', JObj ([(''type'', JStr sourceType), (''reference'', JStr reference)]
            @ (if ps_arch spec \<noteq> [] then [(''arch'', JStr (ps_arch spec))] else []))),
         (''name'', JStr (owner_name owner (ps_name spec))),
         (''env'', JObj [(ownerEnvKey, JStr owner)])]
        @ (if ps_net spec then [(''network'', JObj [(''mode'', JStr ''open'')])] else [])))"

text \<open>Creating the machine and starting it; a start that fails leaves the created machine as the answer.\<close>

definition create_and_start ::
  "'s broker_env \<Rightarrow> string \<Rightarrow> string \<Rightarrow> string \<Rightarrow> cloud_resp cloud_result" where
  "create_and_start env upstream master body =
     (case cloud_do env upstream master ''POST'' ''/v1/machines'' body of
        (Inl e, log1) \<Rightarrow> (Inl e, log1)
      | (Inr created, log1) \<Rightarrow>
          if \<not> is_2xx (cl_status created) then (Inr created, log1)
          else let (mid, okay) = doc_str ''id'' (cl_body created) in
            if okay \<and> mid \<noteq> [] then
              (case cloud_do env upstream master ''POST'' (''/v1/machines/'' @ mid @ ''/start'') [] of
                 (Inr started, log2) \<Rightarrow> (Inr (if is_2xx (cl_status started) then started else created), log1 @ log2)
               | (Inl _, log2) \<Rightarrow> (Inr created, log1 @ log2))
            else (Inr created, log1))"

definition master_push ::
  "'s broker_env \<Rightarrow> string \<Rightarrow> string \<Rightarrow> string \<Rightarrow> string \<Rightarrow> string \<Rightarrow> push_spec \<Rightarrow> string \<Rightarrow> cloud_resp cloud_result" where
  "master_push env upstream master ownerEnvKey uploadPath owner spec artifact =
     (let create = (\<lambda>sourceType reference. create_and_start env upstream master
                      (create_body ownerEnvKey owner spec sourceType reference))
      in if artifact \<noteq> [] then
           (case upload_artifact env upstream master uploadPath owner (ps_name spec) artifact of
              (Inl e, log0) \<Rightarrow> (Inl e, log0)
            | (Inr up, log0) \<Rightarrow>
                if \<not> is_2xx (cl_status up) then (Inr up, log0)
                else let (reference, _) = doc_str ''reference'' (cl_body up) in
                  if reference = [] then (Inl ErrNoReference, log0)
                  else let (r, log1) = create ''smolmachine'' reference in (r, log0 @ log1))
         else if ps_image spec = [] then (Inl ErrNoSource, [])
         else create ''image'' (ps_image spec))"

definition as_object :: "json \<Rightarrow> (string \<times> json) list option" where
  "as_object v = (case v of JObj kvs \<Rightarrow> Some kvs | JNull \<Rightarrow> Some [] | _ \<Rightarrow> None)"

definition owned_by :: "string \<Rightarrow> string \<Rightarrow> (string \<times> json) list \<Rightarrow> bool" where
  "owned_by ownerEnvKey owner m =
     (case map_of m ''env'' of
        Some (JObj env) \<Rightarrow> map_of env ownerEnvKey = Some (JStr owner)
      | _ \<Rightarrow> False)"

text \<open>The decoded list of maps, \<open>None\<close> when Unmarshal fails.\<close>

definition machine_maps :: "string \<Rightarrow> (string \<times> json) list list option" where
  "machine_maps body =
     (case unmarshal_json body of
        Some (JArr vs) \<Rightarrow>
          (if \<forall>v \<in> set vs. as_object v \<noteq> None then Some (map (\<lambda>v. the (as_object v)) vs) else None)
      | Some JNull \<Rightarrow> Some []
      | _ \<Rightarrow> None)"

definition master_list ::
  "'s broker_env \<Rightarrow> string \<Rightarrow> string \<Rightarrow> string \<Rightarrow> string \<Rightarrow> cloud_resp cloud_result" where
  "master_list env upstream master ownerEnvKey owner =
     (case cloud_do env upstream master ''GET'' ''/v1/machines'' [] of
        (Inl e, log0) \<Rightarrow> (Inl e, log0)
      | (Inr resp, log0) \<Rightarrow>
          if \<not> is_2xx (cl_status resp) then (Inr resp, log0)
          else case machine_maps (cl_body resp) of
                 None \<Rightarrow> (Inr resp, log0)
               | Some all \<Rightarrow>
                   (Inr \<lparr>cl_status = 200,
                         cl_body = json_text (JArr (map JObj (filter (owned_by ownerEnvKey owner) all)))\<rparr>, log0))"

text \<open>The metering view of one element: an error when a member has the wrong type.\<close>

definition env_value :: "string \<Rightarrow> (string \<times> json) list \<Rightarrow> string \<times> bool" where
  "env_value ownerEnvKey kvs =
     fold (\<lambda>(k, v) (x, okay). if same_field k ''Env''
             then (case v of
                     JObj m \<Rightarrow>
                       (case map_of (last_wins m) ownerEnvKey of Some (JStr s) \<Rightarrow> s | Some JNull \<Rightarrow> [] | _ \<Rightarrow> x,
                        okay \<and> (\<forall>(_, w) \<in> set m. case w of JStr _ \<Rightarrow> True | JNull \<Rightarrow> True | _ \<Rightarrow> False))
                   | JNull \<Rightarrow> ([], okay)
                   | _ \<Rightarrow> (x, False))
             else (x, okay)) kvs ([], True)"

definition resources :: "(string \<times> json) list \<Rightarrow> (string \<times> json) list option" where
  "resources kvs =
     fold (\<lambda>(k, v) acc. if same_field k ''resources''
             then (case (acc, as_object v) of (Some xs, Some m) \<Rightarrow> Some (xs @ m) | _ \<Rightarrow> None) else acc)
       kvs (Some [])"

definition decode_machine :: "string \<Rightarrow> json \<Rightarrow> machine_info option" where
  "decode_machine ownerEnvKey v =
     (case as_object v of
        None \<Rightarrow> None
      | Some kvs \<Rightarrow>
          (case resources kvs of
             None \<Rightarrow> None
           | Some res \<Rightarrow>
               let (mid, k1) = get_str ''id'' kvs; (state, k2) = get_str ''state'' kvs;
                   (owner, k3) = env_value ownerEnvKey kvs;
                   (cpus, k4) = get_rat ''cpus'' res; (mem, k5) = get_rat ''memoryMb'' res;
                   (disk, k6) = get_rat ''diskGb'' res
               in if k1 \<and> k2 \<and> k3 \<and> k4 \<and> k5 \<and> k6
                  then Some \<lparr>mi_id = mid, mi_owner = owner, mi_state = state, mi_cpus = cpus,
                             mi_memory_mb = mem, mi_disk_gb = disk\<rparr>
                  else None))"

definition decode_machines :: "string \<Rightarrow> string \<Rightarrow> machine_info list option" where
  "decode_machines ownerEnvKey body =
     (case raw_doc body of
        Some (JArr vs) \<Rightarrow> those (map (decode_machine ownerEnvKey) vs)
      | Some JNull \<Rightarrow> Some []
      | _ \<Rightarrow> None)"

definition master_all_owned ::
  "'s broker_env \<Rightarrow> string \<Rightarrow> string \<Rightarrow> string \<Rightarrow> machine_info list cloud_result" where
  "master_all_owned env upstream master ownerEnvKey =
     (case cloud_do env upstream master ''GET'' ''/v1/machines'' [] of
        (Inl e, log0) \<Rightarrow> (Inl e, log0)
      | (Inr resp, log0) \<Rightarrow>
          if \<not> is_2xx (cl_status resp) then (Inl (ErrListStatus (cl_status resp)), log0)
          else case decode_machines ownerEnvKey (cl_body resp) of
                 None \<Rightarrow> (Inl ErrBadJson, log0)
               | Some ms \<Rightarrow> (Inr ms, log0))"

definition master_stop :: "'s broker_env \<Rightarrow> string \<Rightarrow> string \<Rightarrow> string \<Rightarrow> unit cloud_result" where
  "master_stop env upstream master mid =
     (case cloud_do env upstream master ''POST'' (''/v1/machines/'' @ mid @ ''/stop'') [] of
        (Inl e, log0) \<Rightarrow> (Inl e, log0)
      | (Inr resp, log0) \<Rightarrow>
          (if is_2xx (cl_status resp) then Inr () else Inl (ErrStopStatus mid (cl_status resp)), log0))"

section \<open>The token-minting provider\<close>

definition mint_user_token :: "'s broker_env \<Rightarrow> string \<Rightarrow> string \<Rightarrow> string \<Rightarrow> string cloud_result" where
  "mint_user_token env upstream adminKey owner =
     (case cloud_do env upstream adminKey ''POST'' ''/v1/tokens''
             (json_text (JObj [(''subject'', JStr owner),
                (''scopes'', JArr (map JStr [''machine:create'', ''machine:read'', ''machine:exec'',
                                             ''machine:delete'', ''machine:files'']))])) of
        (Inl e, log0) \<Rightarrow> (Inl e, log0)
      | (Inr resp, log0) \<Rightarrow>
          if \<not> is_2xx (cl_status resp)
          then (Inl (ErrMintStatus (cl_status resp) (trim_space (cl_body resp))), log0)
          else let (token, _) = doc_str ''token'' (cl_body resp); (key, _) = doc_str ''key'' (cl_body resp)
               in (if token \<noteq> [] then Inr token else if key \<noteq> [] then Inr key else Inl ErrNoToken, log0))"

section \<open>The provider interface\<close>

definition provider_push ::
  "'s broker_env \<Rightarrow> cloud_provider \<Rightarrow> string \<Rightarrow> push_spec \<Rightarrow> string \<Rightarrow> cloud_resp cloud_result" where
  "provider_push env p owner spec artifact =
     (case p of
        MasterKeyProvider up master key path \<Rightarrow> master_push env up master key path owner spec artifact
      | TokenMintProvider up admin \<Rightarrow> (Inl ErrDormant, []))"

definition provider_list :: "'s broker_env \<Rightarrow> cloud_provider \<Rightarrow> string \<Rightarrow> cloud_resp cloud_result" where
  "provider_list env p owner =
     (case p of
        MasterKeyProvider up master key path \<Rightarrow> master_list env up master key owner
      | TokenMintProvider up admin \<Rightarrow> (Inl ErrDormant, []))"

definition provider_all_owned :: "'s broker_env \<Rightarrow> cloud_provider \<Rightarrow> machine_info list cloud_result" where
  "provider_all_owned env p =
     (case p of
        MasterKeyProvider up master key path \<Rightarrow> master_all_owned env up master key
      | TokenMintProvider up admin \<Rightarrow> (Inl ErrDormant, []))"

definition provider_stop :: "'s broker_env \<Rightarrow> cloud_provider \<Rightarrow> string \<Rightarrow> unit cloud_result" where
  "provider_stop env p mid =
     (case p of
        MasterKeyProvider up master key path \<Rightarrow> master_stop env up master mid
      | TokenMintProvider up admin \<Rightarrow> (Inl ErrDormant, []))"

definition provider_name :: "cloud_provider \<Rightarrow> string" where
  "provider_name p = (case p of MasterKeyProvider _ _ _ _ \<Rightarrow> ''master'' | TokenMintProvider _ _ \<Rightarrow> ''tokenmint'')"

end
