(* ===== verification/Provisioned.thy ===== *)
theory Provisioned
  imports Provision
begin

text \<open>
  The reserved routes of a provisioned application (internal/broker/provision.go) and the usage
  meter (internal/broker/meter.go).
\<close>

section \<open>Keys and balances\<close>

definition no_provisioning :: response where
  "no_provisioning = json_error 500 ''store does not support provisioning''"

definition app_key :: "'s broker_env \<Rightarrow> app_entry \<Rightarrow> provision_spec \<Rightarrow> int \<Rightarrow> string \<Rightarrow> string" where
  "app_key env app p rot caller =
     derive_key (en_crypto env) (rt_derive_secret app) (nat (pv_key_version p mod 256)) rot caller"

definition serve_provision ::
  "'s broker_env \<Rightarrow> app_entry \<Rightarrow> provision_spec \<Rightarrow> string \<Rightarrow> string \<Rightarrow> 's broker_state \<Rightarrow> 's outcome" where
  "serve_provision env app p caller ip st =
     (case so_prov (en_store env) of
        None \<Rightarrow> answer no_provisioning st
      | Some ps \<Rightarrow>
          let (r, s') = op_provision ps (bs_store st) (ae_id app) caller ip (pv_seed_credits p)
                          (pv_max_identities_per_ip p) (pv_mint_cooldown_ms p * millisecond) (en_clock env AtProvision);
              st' = st\<lparr>bs_store := s'\<rparr>
          in case r of
               Inl e \<Rightarrow> answer
                 (if e = ErrIPCap then json_error 429 ''too many identities from this network; try later''
                  else if e = ErrCooldown then json_error 429 ''provisioning cooldown; retry shortly''
                  else json_error 500 (''provision: '' @ en_err_text env e)) st'
             | Inr rec \<Rightarrow> answer (write_json 200 (JObj
                 [(''key'', JStr (app_key env app p (pr_rot rec) caller)),
                  (''credits'', jint (pr_credits rec)), (''caller'', JStr caller), (''new'', JBool (pr_new rec))])) st')"

definition key_answer :: "'s broker_env \<Rightarrow> app_entry \<Rightarrow> provision_spec \<Rightarrow> string \<Rightarrow> prov_record \<Rightarrow> (string \<times> json) list \<Rightarrow> response" where
  "key_answer env app p caller rec extra = write_json 200 (JObj
     ([(''key'', JStr (app_key env app p (pr_rot rec) caller)),
       (''credits'', jint (pr_credits rec)), (''caller'', JStr caller)] @ extra))"

definition serve_key ::
  "'s broker_env \<Rightarrow> app_entry \<Rightarrow> provision_spec \<Rightarrow> string \<Rightarrow> 's broker_state \<Rightarrow> 's outcome" where
  "serve_key env app p caller st =
     (case so_prov (en_store env) of
        None \<Rightarrow> answer no_provisioning st
      | Some ps \<Rightarrow> (case op_get ps (bs_store st) (ae_id app) caller of
            Inl e \<Rightarrow> answer (json_error 500 (''key: '' @ en_err_text env e)) st
          | Inr None \<Rightarrow> answer (json_error 404 ''not provisioned; call provision first'') st
          | Inr (Some rec) \<Rightarrow> answer (key_answer env app p caller rec []) st))"

definition serve_rotate ::
  "'s broker_env \<Rightarrow> app_entry \<Rightarrow> provision_spec \<Rightarrow> string \<Rightarrow> 's broker_state \<Rightarrow> 's outcome" where
  "serve_rotate env app p caller st =
     (case so_prov (en_store env) of
        None \<Rightarrow> answer no_provisioning st
      | Some ps \<Rightarrow>
          let (r, s') = op_rotate ps (bs_store st) (ae_id app) caller; st' = st\<lparr>bs_store := s'\<rparr>
          in case r of
               Inl e \<Rightarrow> answer (json_error 500 (''rotate: '' @ en_err_text env e)) st'
             | Inr None \<Rightarrow> answer (json_error 404 ''not provisioned; call provision first'') st'
             | Inr (Some rec) \<Rightarrow> answer (key_answer env app p caller rec [(''rotated'', JBool True)]) st')"

definition caller_from_key :: "'s broker_env \<Rightarrow> app_entry \<Rightarrow> string \<Rightarrow> 's \<Rightarrow> string option" where
  "caller_from_key env app token s =
     (case parse_derived token of
        None \<Rightarrow> None
      | Some (_, callerStr, _) \<Rightarrow>
          (case so_prov (en_store env) of
             None \<Rightarrow> None
           | Some ps \<Rightarrow> (case op_get ps s (ae_id app) callerStr of
               Inr (Some rec) \<Rightarrow>
                 (case validate_derived (en_crypto env) (rt_secrets_by_version app) token (pr_rot rec) of
                    None \<Rightarrow> None
                  | Some got \<Rightarrow> if got \<noteq> callerStr then None else Some callerStr)
             | _ \<Rightarrow> None)))"

definition serve_balance :: "'s broker_env \<Rightarrow> app_entry \<Rightarrow> string \<Rightarrow> 's broker_state \<Rightarrow> 's outcome" where
  "serve_balance env app caller st =
     (case so_prov (en_store env) of
        None \<Rightarrow> answer no_provisioning st
      | Some ps \<Rightarrow>
          let (okay, bks) = allow_balance_read (ae_id app) caller (en_clock env AtBucket) (bs_buckets st);
              st1 = st\<lparr>bs_buckets := bks\<rparr>
          in if \<not> okay then answer rate_limited st1
             else case op_credit ps (bs_store st1) (ae_id app) caller of
               Inl e \<Rightarrow> answer (json_error 500 (''balance: '' @ en_err_text env e)) st1
             | Inr c \<Rightarrow> answer (write_json 200 (JObj [(''credits'', jint c), (''caller'', JStr caller)])) st1)"

section \<open>Cloud methods\<close>

definition default_cost_credits :: int where "default_cost_credits = 1"

definition credit_cost :: "app_entry \<Rightarrow> string \<Rightarrow> int" where
  "credit_cost app mpath =
     (case ae_provision app of
        None \<Rightarrow> default_cost_credits
      | Some p \<Rightarrow> (case map_of (pv_cost_credits p) mpath of Some n \<Rightarrow> n | None \<Rightarrow> default_cost_credits))"

definition relay_cloud :: "cloud_resp \<Rightarrow> response" where
  "relay_cloud r = \<lparr>rs_status = (if cl_status r = 0 then 502 else cl_status r),
     rs_headers = [(''Content-Type'', json_type)], rs_body = cl_body r\<rparr>"

definition cloud_err_text :: "'s broker_env \<Rightarrow> cloud_err \<Rightarrow> string" where
  "cloud_err_text env e = (case e of
      ErrDormant \<Rightarrow> ''broker: tokenmint provider is dormant (no admin key wired)''
    | ErrNoReference \<Rightarrow> ''artifact upload returned no reference''
    | ErrNoSource \<Rightarrow> ''push needs either an artifact or an image ref''
    | ErrListStatus n \<Rightarrow> ''list machines: '' @ itoa n
    | ErrStopStatus i n \<Rightarrow> ''stop '' @ i @ '': '' @ itoa n
    | ErrNoToken \<Rightarrow> ''mint token: no token in response''
    | _ \<Rightarrow> en_err_text env ErrDriver)"

text \<open>The envelope of a push: \<open>None\<close> when Unmarshal reports an error.\<close>

definition push_envelope :: "string \<Rightarrow> (push_spec \<times> string) option" where
  "push_envelope body =
     (case Option.bind (raw_doc body) as_object of
        None \<Rightarrow> None
      | Some kvs \<Rightarrow>
          let (name, k1) = get_str ''name'' kvs; (image, k2) = get_str ''image'' kvs;
              (arch, k3) = get_str ''arch'' kvs; (net, k4) = get_bool ''net'' kvs;
              (artifact, k5) = get_str ''artifact'' kvs
          in if k1 \<and> k2 \<and> k3 \<and> k4 \<and> k5
             then Some (\<lparr>ps_name = name, ps_image = image, ps_arch = arch, ps_net = net\<rparr>, artifact) else None)"

text \<open>The call to the cloud once the cost is reserved.\<close>

definition push_reserved ::
  "'s broker_env \<Rightarrow> 's prov_ops \<Rightarrow> app_entry \<Rightarrow> cloud_provider \<Rightarrow> string \<Rightarrow> int \<Rightarrow> push_spec \<Rightarrow> string
    \<Rightarrow> 's broker_state \<Rightarrow> 's outcome" where
  "push_reserved env ps app provider caller cost spec artifact st =
     (let refund = (\<lambda>st. st\<lparr>bs_store := op_refund ps (bs_store st) (ae_id app) caller cost\<rparr>)
      in case provider_push env provider caller spec artifact of
           (Inl e, log0) \<Rightarrow>
             (json_error 502 (''cloud push: '' @ cloud_err_text env e), log0, refund (report_breaker env app False st))
         | (Inr resp, log0) \<Rightarrow>
             let st1 = report_breaker env app (cl_status resp < 500) st
             in (relay_cloud resp, log0, if \<not> is_2xx (cl_status resp) then refund st1 else st1))"

definition push_charged ::
  "'s broker_env \<Rightarrow> 's prov_ops \<Rightarrow> app_entry \<Rightarrow> provision_spec \<Rightarrow> cloud_provider \<Rightarrow> string \<Rightarrow> push_spec \<Rightarrow> string
    \<Rightarrow> 's broker_state \<Rightarrow> 's outcome" where
  "push_charged env ps app p provider caller spec artifact st =
     (if (case op_get ps (bs_store st) (ae_id app) caller of
            Inl _ \<Rightarrow> False
          | Inr None \<Rightarrow> True
          | Inr (Some rec) \<Rightarrow> pr_credits rec \<le> 0)
      then answer (json_error 402 (''out of credit '' @ em_dash @ '' top up to push'')) st
      else let cost = credit_cost app (pv_push_path p);
               (d, s1) = op_debit ps (bs_store st) (ae_id app) caller cost;
               st1 = st\<lparr>bs_store := s1\<rparr>
           in case d of
                Inl e \<Rightarrow> answer (json_error 500 (''debit: '' @ en_err_text env e)) st1
              | Inr (False, _) \<Rightarrow> answer (json_error 402 ''insufficient credit for push'') st1
              | Inr (True, _) \<Rightarrow> push_reserved env ps app provider caller cost spec artifact st1)"

definition serve_push ::
  "'s broker_env \<Rightarrow> app_entry \<Rightarrow> provision_spec \<Rightarrow> cloud_provider \<Rightarrow> string \<Rightarrow> string \<Rightarrow> 's broker_state \<Rightarrow> 's outcome" where
  "serve_push env app p provider caller body st =
     (case so_prov (en_store env) of
        None \<Rightarrow> answer no_provisioning st
      | Some ps \<Rightarrow>
          let (okay, st1) = ask_breaker env app st
          in if \<not> okay then answer (json_error 503 ''upstream circuit open'') st1
             else case push_envelope body of
               None \<Rightarrow> answer (json_error 400 ''push body must be JSON {name,image,arch,artifact}'') st1
             | Some (spec, art64) \<Rightarrow>
                 (case (if art64 = [] then Some [] else b64_pad_decode b64_std art64) of
                    None \<Rightarrow> answer (json_error 400 ''artifact must be base64'') st1
                  | Some artifact \<Rightarrow>
                      if artifact = [] \<and> ps_image spec = []
                      then answer (json_error 400 ''push needs an artifact or an image ref'') st1
                      else push_charged env ps app p provider caller spec artifact st1))"

definition serve_cloud_list ::
  "'s broker_env \<Rightarrow> cloud_provider \<Rightarrow> string \<Rightarrow> 's broker_state \<Rightarrow> 's outcome" where
  "serve_cloud_list env provider caller st =
     (case provider_list env provider caller of
        (Inl e, log0) \<Rightarrow> (json_error 502 (''cloud list: '' @ cloud_err_text env e), log0, st)
      | (Inr resp, log0) \<Rightarrow> (relay_cloud resp, log0, st))"

section \<open>Routing\<close>

definition auth_cloud_caller ::
  "'s broker_env \<Rightarrow> app_entry \<Rightarrow> string option \<Rightarrow> (string \<Rightarrow> string) \<Rightarrow> 's \<Rightarrow> string option" where
  "auth_cloud_caller env app sgn_caller h s =
     (case sgn_caller of
        Some c \<Rightarrow> Some c
      | None \<Rightarrow> (case cut_prefix ''Bearer '' (h ''Authorization'') of
            Some tok \<Rightarrow> caller_from_key env app (trim_space tok) s
          | None \<Rightarrow> None))"

text \<open>\<open>sgn_caller\<close> is the caller whose signature verified, if it did. The provider is resolved when the
  registry loads.\<close>

definition serve_provisioned ::
  "'s broker_env \<Rightarrow> request \<Rightarrow> app_entry \<Rightarrow> provision_spec \<Rightarrow> cloud_provider \<Rightarrow> string \<Rightarrow> string option \<Rightarrow> string
    \<Rightarrow> 's broker_state \<Rightarrow> 's outcome" where
  "serve_provisioned env req app p provider mpath sgn_caller body st =
     (if mpath \<in> {pv_provision_path p, pv_balance_path p, pv_key_path p, pv_rotate_path p} then
        (case sgn_caller of
           None \<Rightarrow> answer (json_error 401 ''this route requires a signed Pilot request'') st
         | Some caller \<Rightarrow>
             if mpath = pv_provision_path p then serve_provision env app p caller (request_ip env req) st
             else if mpath = pv_balance_path p then serve_balance env app caller st
             else if mpath = pv_key_path p then serve_key env app p caller st
             else serve_rotate env app p caller st)
      else if mpath \<in> {pv_push_path p, pv_list_path p} then
        (case auth_cloud_caller env app sgn_caller (rq_header req) (bs_store st) of
           None \<Rightarrow> answer (json_error 401 ''cloud methods need a signed request or a valid key'') st
         | Some caller \<Rightarrow>
             if mpath = pv_push_path p then serve_push env app p provider caller body st
             else serve_cloud_list env provider caller st)
      else answer (json_error 403 (''method not allowed for this app: '' @ mpath)) st)"

section \<open>What a request of a provisioned application does to the ledger\<close>

text \<open>The rotation counters stay and no balance grows.\<close>

definition only_spent :: "ledger \<Rightarrow> ledger \<Rightarrow> bool" where
  "only_spent L L' \<longleftrightarrow> (\<forall>k. map_option ac_rot (L' k) = map_option ac_rot (L k) \<and> bal L' k \<le> bal L k)"

lemma only_spent_refl [simp]: "only_spent L L"
  by (simp add: only_spent_def)

lemma only_spent_trans: "only_spent L1 L2 \<Longrightarrow> only_spent L2 L3 \<Longrightarrow> only_spent L1 L3"
  unfolding only_spent_def by (metis order_trans)

lemma spec_debit_only_spent: "(r, L') = spec_debit L k n \<Longrightarrow> only_spent L L'"
  by (auto simp: only_spent_def spec_debit_def split: if_splits option.splits)

context credit_ledger
begin

lemma caller_from_key_known:
  assumes "so_prov (en_store env) = Some ops" "caller_from_key env app token s = Some c"
  shows "\<exists>rec v mac. op_get ops s (ae_id app) c = Inr (Some rec) \<and> parse_derived token = Some (v, c, mac) \<and>
     validate_derived (en_crypto env) (rt_secrets_by_version app) token (pr_rot rec) = Some c"
  using assms by (auto simp: caller_from_key_def split: option.splits sum.splits if_splits)

lemma push_reserved_ledger:
  assumes "inv (bs_store st)" "ok_app (ae_id app)"
    and "push_reserved env ops app pr c cost spec art st = (resp, log0, st')"
    and "((True, m), led (bs_store st)) = spec_debit L (ae_id app, c) cost"
  shows "inv (bs_store st') \<and> (led (bs_store st') = L \<or>
    is_2xx (rs_status resp) \<and> led (bs_store st') = led (bs_store st))"
proof -
  obtain r log1 where p: "provider_push env pr c spec art = (r, log1)" by fastforce
  note rf = refund_spec[OF assms(1,2), of c cost]
  have restored: "led (op_refund ops (bs_store st) (ae_id app) c cost) = L"
    using rf spec_debit_refund[OF assms(4)] by simp
  show ?thesis
  proof (cases r)
    case (Inl e)
    with assms(3) p rf restored show ?thesis by (auto simp: push_reserved_def)
  next
    case (Inr x)
    have two: "is_2xx (cl_status x) \<Longrightarrow> rs_status (relay_cloud x) = cl_status x"
      by (auto simp: relay_cloud_def is_2xx_def)
    with Inr assms(1,3) p rf restored show ?thesis by (auto simp: push_reserved_def Let_def split: if_splits)
  qed
qed

lemma push_charged_ledger:
  assumes "inv (bs_store st)" "ok_app (ae_id app)"
    and "push_charged env ops app p pr c spec art st = (resp, log0, st')"
  shows "inv (bs_store st') \<and> (led (bs_store st') = led (bs_store st) \<or> is_2xx (rs_status resp) \<and>
     (\<exists>m. ((True, m), led (bs_store st')) = spec_debit (led (bs_store st)) (ae_id app, c) (credit_cost app (pv_push_path p))))"
proof -
  let ?cost = "credit_cost app (pv_push_path p)"
  obtain d s1 where db: "op_debit ops (bs_store st) (ae_id app) c ?cost = (d, s1)" by fastforce
  from debit_spec[OF assms(1,2) db] obtain b m where d: "inv s1" "d = Inr (b, m)"
    "((b, m), led s1) = spec_debit (led (bs_store st)) (ae_id app, c) ?cost" by auto
  have refused: "\<not> b \<Longrightarrow> led s1 = led (bs_store st)" using d(3) by (auto simp: spec_debit_def split: if_splits)
  let ?poor = "case op_get ops (bs_store st) (ae_id app) c of Inl _ \<Rightarrow> False | Inr None \<Rightarrow> True
      | Inr (Some rec) \<Rightarrow> pr_credits rec \<le> 0"
  consider (poor) "?poor" | (refused) "\<not> ?poor" "\<not> b" | (go) "\<not> ?poor" "b" by blast
  then show ?thesis
  proof cases
    case poor
    with assms(1,3) show ?thesis by (simp add: push_charged_def answer_def)
  next
    case refused
    with assms(3) db d \<open>\<not> b \<Longrightarrow> led s1 = led (bs_store st)\<close> show ?thesis
      by (auto simp: push_charged_def answer_def Let_def)
  next
    case go
    with assms(3) db d have f: "push_reserved env ops app pr c ?cost spec art (st\<lparr>bs_store := s1\<rparr>) = (resp, log0, st')"
      by (auto simp: push_charged_def Let_def)
    have "((True, m), led (bs_store (st\<lparr>bs_store := s1\<rparr>))) = spec_debit (led (bs_store st)) (ae_id app, c) ?cost"
      using d(3) go by simp
    from push_reserved_ledger[OF _ assms(2) f this] d(1,3) go show ?thesis by auto
  qed
qed

lemma serve_push_ledger:
  assumes "so_prov (en_store env) = Some ops" "inv (bs_store st)" "ok_app (ae_id app)"
    and "serve_push env app p pr c body st = (resp, log0, st')"
  shows "inv (bs_store st') \<and> (led (bs_store st') = led (bs_store st) \<or> is_2xx (rs_status resp) \<and>
     (\<exists>m. ((True, m), led (bs_store st')) = spec_debit (led (bs_store st)) (ae_id app, c) (credit_cost app (pv_push_path p))))"
proof -
  obtain okay st1 where ask: "ask_breaker env app st = (okay, st1)" by fastforce
  have s1: "bs_store st1 = bs_store st" using ask_breaker_store[OF ask] .
  show ?thesis
  proof (cases "log0 = [] \<and> bs_store st' = bs_store st")
    case True
    with assms(2) show ?thesis by simp
  next
    case False
    with assms(1,4) ask s1 obtain spec art where "push_charged env ops app p pr c spec art st1 = (resp, log0, st')"
      by (auto simp: serve_push_def answer_def Let_def split: if_splits option.splits)
    from push_charged_ledger[OF _ assms(3) this] s1 assms(2) show ?thesis by simp
  qed
qed

lemma unsigned_only_spends:
  assumes "so_prov (en_store env) = Some ops" "inv (bs_store st)" "ok_app (ae_id app)"
    and "serve_provisioned env req app p pr mp None body st = (resp, log0, st')"
  shows "inv (bs_store st') \<and> only_spent (led (bs_store st)) (led (bs_store st')) \<and>
    (led (bs_store st') \<noteq> led (bs_store st) \<longrightarrow>
       (\<exists>tok c. rq_header req ''Authorization'' = ''Bearer '' @ tok \<and>
          caller_from_key env app (trim_space tok) (bs_store st) = Some c))"
proof (cases "bs_store st' = bs_store st")
  case True
  with assms(2) show ?thesis by simp
next
  case False
  with assms(4) obtain c where c: "auth_cloud_caller env app None (rq_header req) (bs_store st) = Some c"
    and sp: "serve_push env app p pr c body st = (resp, log0, st')"
    by (auto simp: serve_provisioned_def answer_def serve_cloud_list_def split: if_splits option.splits prod.splits sum.splits)
  from c obtain tok where "rq_header req ''Authorization'' = ''Bearer '' @ tok"
    "caller_from_key env app (trim_space tok) (bs_store st) = Some c"
    by (auto simp: auth_cloud_caller_def cut_prefix_def has_prefix_iff split: option.splits if_splits)
  with serve_push_ledger[OF assms(1-3) sp] show ?thesis by (auto intro: spec_debit_only_spent)
qed

end

section \<open>A concrete provisioned application\<close>

definition sample_provision :: provision_spec where
  "sample_provision = \<lparr>pv_provider = [], pv_secret_env = ''SEC'', pv_key_version = 0, pv_seed_credits = 500,
     pv_cost_credits = [(''/push'', 40)], pv_max_identities_per_ip = 3, pv_mint_cooldown_ms = 0, pv_provision_path = [],
     pv_balance_path = [], pv_key_path = [], pv_rotate_path = [], pv_push_path = [], pv_list_path = [],
     pv_artifact_max_bytes = 0, pv_owner_env_key = [], pv_admin_key_env = [], pv_meter_interval_ms = 0,
     pv_cpu_hour_micros = 3600, pv_mem_gb_hour_micros = 0, pv_disk_gb_hour_micros = 0\<rparr>"

definition cloud_env :: "string \<Rightarrow> string" where
  "cloud_env k = (if k = ''KEY'' then ''master'' else if k = ''SEC'' then ''s3'' else [])"

definition cloud_config :: app_config where
  "cloud_config = (plain_config ''p'')\<lparr>ae_provision := Some sample_provision\<rparr>"

definition cloud_entry :: app_entry where
  "cloud_entry = (case load_entry cloud_env cloud_config of Inr a \<Rightarrow> a | Inl _ \<Rightarrow> new_entry cloud_config)"

definition cloud_spec :: provision_spec where
  "cloud_spec = fill_provision (sample_provision\<lparr>pv_key_version := 1\<rparr>)"

definition cloud_master :: cloud_provider where
  "cloud_master = new_master_key_provider ''https://up'' ''master'' ''PILOT_OWNER''"

definition cloud_state :: "sqlite_store broker_state" where
  "cloud_state = demo_state\<lparr>bs_store := snd (sql_provision open_sqlite_store ''p'' demo_caller ''ip'' 500 3 0 0)\<rparr>"

lemma cloud_entry_loads: "load_entry cloud_env cloud_config = Inr cloud_entry"
  "ae_provision cloud_entry = Some cloud_spec" "rt_provider cloud_entry = Some cloud_master"
  by code_simp+

lemma cloud_state_inv: "sql_inv (bs_store cloud_state)"
  by (simp add: cloud_state_def sql_inv_def sql_provision_def open_sqlite_store_def sql_set_def wf_map_def)

section \<open>Properties\<close>

text \<open>C29: On the SQLite store a request to a provisioned app without a valid signature never
  provisions or rotates anyone and raises no balance; it changes the ledger at all only when it
  carries a valid current key of some caller.\<close>

theorem unsigned_request_limits:
  assumes "so_prov (en_store env) = Some sql_prov_ops" "sql_inv (bs_store st)"
    and "serve_provisioned env req app p pr mp None body st = (resp, log0, st')"
  shows "only_spent (sql_led (bs_store st)) (sql_led (bs_store st')) \<and>
    (sql_led (bs_store st') \<noteq> sql_led (bs_store st) \<longrightarrow>
       (\<exists>tok c. rq_header req ''Authorization'' = ''Bearer '' @ tok \<and>
          caller_from_key env app (trim_space tok) (bs_store st) = Some c))"
  using sql_credits.unsigned_only_spends[OF assms(1,2) TrueI assms(3)] by blast

theorem unsigned_request_limits_witness:
  "rs_status (fst (serve_provisioned demo_env (demo_request ''POST'' ''/p/_rotate'' []) cloud_entry cloud_spec cloud_master
      ''/_rotate'' None [] cloud_state)) = 401 \<and>
   only_spent (sql_led (bs_store cloud_state)) (sql_led (bs_store (snd (snd (serve_provisioned demo_env
      (demo_request ''POST'' ''/p/_rotate'' []) cloud_entry cloud_spec cloud_master ''/_rotate'' None [] cloud_state)))))"
proof
  let ?o = "serve_provisioned demo_env (demo_request ''POST'' ''/p/_rotate'' []) cloud_entry cloud_spec cloud_master
      ''/_rotate'' None [] cloud_state"
  show "rs_status (fst ?o) = 401" by code_simp
  have "so_prov (en_store demo_env) = Some sql_prov_ops" by (simp add: demo_env_def)
  from unsigned_request_limits[OF this cloud_state_inv, of _ _ _ _ _ _ "fst ?o" "fst (snd ?o)" "snd (snd ?o)"]
  show "only_spent (sql_led (bs_store cloud_state)) (sql_led (bs_store (snd (snd ?o))))"
    by (metis prod.collapse)
qed

text \<open>Observation: On the SQLite store a push leaves the ledger exactly as it was, unless the caller is
  answered with success: then exactly its price has been debited from the caller.\<close>

theorem push_billed_on_success:
  assumes "so_prov (en_store env) = Some sql_prov_ops" "sql_inv (bs_store st)"
    and "serve_push env app p pr c body st = (resp, log0, st')"
  shows "sql_inv (bs_store st') \<and> (sql_led (bs_store st') = sql_led (bs_store st) \<or> is_2xx (rs_status resp) \<and>
     (\<exists>m. ((True, m), sql_led (bs_store st')) = spec_debit (sql_led (bs_store st)) (ae_id app, c) (credit_cost app (pv_push_path p))))"
  using sql_credits.serve_push_ledger[OF assms(1,2) TrueI assms(3)] by blast

theorem push_billed_on_success_witness:
  "rs_status (fst (serve_push demo_env cloud_entry cloud_spec cloud_master demo_caller ''{}'' cloud_state)) = 400 \<and>
   sql_led (bs_store (snd (snd (serve_push demo_env cloud_entry cloud_spec cloud_master demo_caller ''{}'' cloud_state))))
     = sql_led (bs_store cloud_state)"
proof
  let ?o = "serve_push demo_env cloud_entry cloud_spec cloud_master demo_caller ''{}'' cloud_state"
  show s: "rs_status (fst ?o) = 400" by code_simp
  have "so_prov (en_store demo_env) = Some sql_prov_ops" by (simp add: demo_env_def)
  from push_billed_on_success[OF this cloud_state_inv, of cloud_entry cloud_spec cloud_master demo_caller "''{}''"
      "fst ?o" "fst (snd ?o)" "snd (snd ?o)"] s
  show "sql_led (bs_store (snd (snd ?o))) = sql_led (bs_store cloud_state)"
    by (simp add: is_2xx_def)
qed

text \<open>Observation: After a signed rotation of a caller the key it held is refused and the key of the new rotation
  is accepted, for any MAC that tells the two messages apart; no balance changes.\<close>

theorem rotate_replaces_key:
  assumes "so_prov (en_store env) = Some sql_prov_ops" "sql_inv (bs_store st)"
    and "sql_led (bs_store st) (ae_id app, c) = Some x"
    and "rt_secrets_by_version app = [(nat (pv_key_version p), rt_derive_secret app)]"
    and "1 \<le> pv_key_version p" "pv_key_version p \<le> 255" "rt_derive_secret app \<noteq> []"
    and "\<And>r. length (compute_mac (en_crypto env) (rt_derive_secret app) (nat (pv_key_version p)) r c) = sha256_size"
    and "compute_mac (en_crypto env) (rt_derive_secret app) (nat (pv_key_version p)) (ac_rot x) c
         \<noteq> compute_mac (en_crypto env) (rt_derive_secret app) (nat (pv_key_version p)) (ac_rot x + 1) c"
    and "serve_rotate env app p c st = (resp, log0, st')"
  shows "caller_from_key env app (app_key env app p (ac_rot x) c) (bs_store st) = Some c \<and>
    caller_from_key env app (app_key env app p (ac_rot x) c) (bs_store st') = None \<and>
    caller_from_key env app (app_key env app p (ac_rot x + 1) c) (bs_store st') = Some c \<and>
    (\<forall>k. bal (sql_led (bs_store st')) k = bal (sql_led (bs_store st)) k)"
proof -
  let ?v = "nat (pv_key_version p)" and ?cy = "en_crypto env" and ?sec = "rt_derive_secret app"
  have v: "nat (pv_key_version p mod 256) = ?v" "?v \<le> 255" using assms(5,6) by auto
  have key: "app_key env app p r c = derive_key ?cy ?sec ?v r c" for r by (simp add: app_key_def v)
  have parse: "parse_derived (derive_key ?cy ?sec ?v r c) = Some (?v, c, compute_mac ?cy ?sec ?v r c)" for r
    by (rule parse_derive[OF v(2) assms(8)])
  have from_key: "caller_from_key env app (derive_key ?cy ?sec ?v r c) s =
      (case sql_get s (ae_id app) c of Inr (Some rec) \<Rightarrow>
         if compute_mac ?cy ?sec ?v r c = compute_mac ?cy ?sec ?v (pr_rot rec) c then Some c else None | _ \<Rightarrow> None)" for r s
    using assms(4,7) by (auto simp: caller_from_key_def assms(1) parse validate_derived_def split: sum.split option.split)
  obtain w where w: "map_of (sq_prov (bs_store st)) (ae_id app, c) = Some w" "x = row_acct w"
    using assms(3) by (auto simp: sql_led_def)
  have up: "\<not> sq_down (bs_store st)" using assms(2) by (simp add: sql_inv_def)
  from assms(10) w up have st': "bs_store st' = sql_set (bs_store st) (ae_id app, c) (w\<lparr>pw_rot := pw_rot w + 1\<rparr>)"
    by (auto simp: serve_rotate_def assms(1) sql_rotate_def answer_def)
  have "caller_from_key env app (derive_key ?cy ?sec ?v (ac_rot x) c) (bs_store st) = Some c"
    using w up by (simp add: from_key sql_get_def)
  moreover have "caller_from_key env app (derive_key ?cy ?sec ?v (ac_rot x) c) (bs_store st') = None"
    using w up assms(9) by (simp add: from_key sql_get_def st' sql_set_def)
  moreover have "caller_from_key env app (derive_key ?cy ?sec ?v (ac_rot x + 1) c) (bs_store st') = Some c"
    using w up by (simp add: from_key sql_get_def st' sql_set_def)
  moreover have "bal (sql_led (bs_store st')) k = bal (sql_led (bs_store st)) k" for k
    using w by (cases "k = (ae_id app, c)") (simp_all add: st' sql_led_def)
  ultimately show ?thesis by (simp add: key)
qed

theorem rotate_replaces_key_witness:
  "caller_from_key demo_env cloud_entry (app_key demo_env cloud_entry cloud_spec 0 demo_caller)
     (bs_store (snd (snd (serve_rotate demo_env cloud_entry cloud_spec demo_caller cloud_state)))) = None"
proof -
  let ?o = "serve_rotate demo_env cloud_entry cloud_spec demo_caller cloud_state"
  have a: "so_prov (en_store demo_env) = Some sql_prov_ops" "en_crypto demo_env = toy_crypto" by (simp_all add: demo_env_def)
  have f: "rt_secrets_by_version cloud_entry = [(nat (pv_key_version cloud_spec), rt_derive_secret cloud_entry)]"
    "1 \<le> pv_key_version cloud_spec" "pv_key_version cloud_spec \<le> 255" "rt_derive_secret cloud_entry \<noteq> []"
    "compute_mac toy_crypto (rt_derive_secret cloud_entry) (nat (pv_key_version cloud_spec)) 0 demo_caller
      \<noteq> compute_mac toy_crypto (rt_derive_secret cloud_entry) (nat (pv_key_version cloud_spec)) (0 + 1) demo_caller"
    by code_simp+
  have "sql_led (bs_store cloud_state) (ae_id cloud_entry, demo_caller)
      = Some \<lparr>ac_ip = ''ip'', ac_credits = 500, ac_rot = 0, ac_mint = 0\<rparr>" by code_simp
  from rotate_replaces_key[OF a(1) cloud_state_inv this f(1-4), of "fst ?o" "fst (snd ?o)" "snd (snd ?o)"] f(5)
  show ?thesis by (simp add: a toy_mac_length)
qed

text \<open>Observation: The list of a provisioned app is filtered to the caller only when every element is an object:
  an answer with one element of another type is relayed as it is, with everybody's machines.\<close>

theorem odd_list_relayed:
  "rs_body (fst (serve_cloud_list (demo_env\<lparr>en_partner := (\<lambda>_. Some (200,
       ''[{\"env\":{\"PILOT_OWNER\":\"bob\"},\"id\":\"m1\"}]''))\<rparr>) cloud_master ''alice'' demo_state)) = ''[]'' \<and>
   rs_body (fst (serve_cloud_list (demo_env\<lparr>en_partner := (\<lambda>_. Some (200,
       ''[{\"env\":{\"PILOT_OWNER\":\"bob\"},\"id\":\"m1\"},7]''))\<rparr>) cloud_master ''alice'' demo_state))
     = ''[{\"env\":{\"PILOT_OWNER\":\"bob\"},\"id\":\"m1\"},7]''"
  by (intro conjI; code_simp)

end
