(* ===== verification/Meter.thy ===== *)
theory Meter
  imports Provisioned
begin

text \<open>
  internal/broker/meter.go: what a running machine costs, one metering tick of an application, and
  the ticks of \<open>RunMeter\<close> over the registry. float64 is an exact rational.
\<close>

section \<open>Rates\<close>

record meter_rates =
  mr_cpu_hour :: int
  mr_mem_gb_hour :: int
  mr_disk_gb_hour :: int

definition meter_rates_of :: "provision_spec \<Rightarrow> meter_rates" where
  "meter_rates_of p = \<lparr>mr_cpu_hour = pv_cpu_hour_micros p, mr_mem_gb_hour = pv_mem_gb_hour_micros p,
     mr_disk_gb_hour = pv_disk_gb_hour_micros p\<rparr>"

definition rates_enabled :: "meter_rates \<Rightarrow> bool" where
  "rates_enabled r \<longleftrightarrow> mr_cpu_hour r > 0 \<or> mr_mem_gb_hour r > 0 \<or> mr_disk_gb_hour r > 0"

text \<open>Conversion of a float to an integer truncates towards zero.\<close>

definition trunc :: "rat \<Rightarrow> int" where
  "trunc x = (if x < 0 then - \<lfloor>- x\<rfloor> else \<lfloor>x\<rfloor>)"

definition cost_micros :: "meter_rates \<Rightarrow> machine_info \<Rightarrow> duration \<Rightarrow> int" where
  "cost_micros r m dur =
     (let perHour = of_int (mr_cpu_hour r) * mi_cpus m + of_int (mr_mem_gb_hour r) * (mi_memory_mb m / 1024)
                      + of_int (mr_disk_gb_hour r) * mi_disk_gb m
      in trunc (perHour * (of_int dur / of_int (3600 * second))))"

section \<open>One tick\<close>

text \<open>One machine: the requests sent, whether it was stopped, and the store after the charge.\<close>

definition meter_machine ::
  "'s broker_env \<Rightarrow> 's prov_ops \<Rightarrow> app_entry \<Rightarrow> cloud_provider \<Rightarrow> meter_rates \<Rightarrow> duration \<Rightarrow> machine_info \<Rightarrow> 's
    \<Rightarrow> out_request list \<times> bool \<times> 's" where
  "meter_machine env ps app provider rates dur m s =
     (if mi_owner m = [] \<or> \<not> machine_running m then ([], False, s)
      else case op_get ps s (ae_id app) (mi_owner m) of
        Inl _ \<Rightarrow> ([], False, s)
      | Inr None \<Rightarrow> ([], False, s)
      | Inr (Some rec) \<Rightarrow>
          let bal0 = pr_credits rec;
              charge = (if bal0 > 0 then min (cost_micros rates m dur) bal0 else 0);
              s1 = (if charge > 0 then snd (op_debit ps s (ae_id app) (mi_owner m) charge) else s);
              bal = (if charge > 0 then bal0 - charge else bal0)
          in if bal \<le> 0 then
               (case provider_stop env provider (mi_id m) of
                  (Inr _, log0) \<Rightarrow> (log0, True, s1)
                | (Inl _, log0) \<Rightarrow> (log0, False, s1))
             else ([], False, s1))"

fun meter_machines ::
  "'s broker_env \<Rightarrow> 's prov_ops \<Rightarrow> app_entry \<Rightarrow> cloud_provider \<Rightarrow> meter_rates \<Rightarrow> duration \<Rightarrow> machine_info list \<Rightarrow> 's
    \<Rightarrow> out_request list \<times> nat \<times> 's" where
  "meter_machines env ps app provider rates dur [] s = ([], 0, s)"
| "meter_machines env ps app provider rates dur (m # ms) s =
     (let (log1, st1, s1) = meter_machine env ps app provider rates dur m s;
          (log2, n, s2) = meter_machines env ps app provider rates dur ms s1
      in (log1 @ log2, (if st1 then Suc n else n), s2))"

text \<open>The number of machines stopped or the provider's error, the requests sent, the store.\<close>

definition meter_once ::
  "'s broker_env \<Rightarrow> app_entry \<Rightarrow> duration \<Rightarrow> 's \<Rightarrow> (cloud_err + nat) \<times> out_request list \<times> 's" where
  "meter_once env app dur s =
     (case (so_prov (en_store env), ae_provision app, rt_provider app) of
        (Some ps, Some p, Some provider) \<Rightarrow>
          if \<not> rates_enabled (meter_rates_of p) then (Inr 0, [], s)
          else (case provider_all_owned env provider of
                  (Inl e, log0) \<Rightarrow> (Inl e, log0, s)
                | (Inr machines, log0) \<Rightarrow>
                    (let (log1, n, s') = meter_machines env ps app provider (meter_rates_of p) dur machines s
                     in (Inr n, log0 @ log1, s')))
      | _ \<Rightarrow> (Inr 0, [], s))"

section \<open>The loop\<close>

definition meter_apps :: "'s broker_env \<Rightarrow> registry \<Rightarrow> duration \<Rightarrow> 's \<Rightarrow> 's" where
  "meter_apps env reg dur s =
     fold (\<lambda>(_, app) s. case ae_provision app of
             None \<Rightarrow> s
           | Some p \<Rightarrow> if pv_meter_interval_ms p < 0 then s else snd (snd (meter_once env app dur s))) reg s"

text \<open>The ticks until the context is cancelled: each with the registry and the time it reads.\<close>

fun run_meter :: "'s broker_env \<Rightarrow> gotime \<Rightarrow> (registry \<times> gotime) list \<Rightarrow> 's \<Rightarrow> 's" where
  "run_meter env last_tick [] s = s"
| "run_meter env last_tick ((reg, now) # ticks) s =
     run_meter env now ticks (meter_apps env reg (time_sub now last_tick) s)"

section \<open>What metering does to the ledger\<close>

text \<open>Every account stays, with its rotation; balances only fall, and never below zero.\<close>

definition drained :: "ledger \<Rightarrow> ledger \<Rightarrow> bool" where
  "drained L L' \<longleftrightarrow> only_spent L L' \<and> (nonneg_ledger L \<longrightarrow> nonneg_ledger L')"

lemma drained_refl [simp]: "drained L L"
  by (simp add: drained_def)

lemma drained_trans: "drained L1 L2 \<Longrightarrow> drained L2 L3 \<Longrightarrow> drained L1 L3"
  by (auto simp: drained_def intro: only_spent_trans)

context credit_ledger
begin

lemma meter_machine_ledger:
  assumes "inv s" "ok_app (ae_id app)" "meter_machine env ops app pr rates dur m s = (log0, stopped, s')"
  shows "inv s' \<and> drained (led s) (led s') \<and>
    (stopped \<or> log0 \<noteq> [] \<longrightarrow> mi_owner m \<noteq> [] \<and> machine_running m \<and> bal (led s') (ae_id app, mi_owner m) \<le> 0)"
proof (cases "mi_owner m = [] \<or> \<not> machine_running m")
  case True
  with assms(1,3) show ?thesis by (auto simp: meter_machine_def)
next
  case False
  let ?k = "(ae_id app, mi_owner m)"
  obtain rg where g: "op_get ops s (ae_id app) (mi_owner m) = Inr rg"
    and ag: "case (rg, led s ?k) of (None, None) \<Rightarrow> True | (Some p, Some x) \<Rightarrow> rec_agrees p x False \<or> rec_agrees p x True
        | _ \<Rightarrow> False"
    using get_spec[OF assms(1,2)] by blast
  show ?thesis
  proof (cases rg)
    case None
    with False g assms(1,3) show ?thesis by (auto simp: meter_machine_def)
  next
    case (Some rec)
    with ag have b: "pr_credits rec = bal (led s) ?k" and some: "led s ?k \<noteq> None"
      by (auto simp: rec_agrees_def split: option.splits)
    define n where "n = (if pr_credits rec > 0 then min (cost_micros rates m dur) (pr_credits rec) else 0)"
    define s1 where "s1 = (if n > 0 then snd (op_debit ops s (ae_id app) (mi_owner m) n) else s)"
    obtain r s2 where db: "op_debit ops s (ae_id app) (mi_owner m) n = (r, s2)" by fastforce
    from debit_spec[OF assms(1,2) db] obtain ok v where d: "inv s2" "((ok, v), led s2) = spec_debit (led s) ?k n" by auto
    have le: "n \<le> bal (led s) ?k" if "n > 0" using that b by (auto simp: n_def split: if_splits)
    have led1: "inv s1 \<and> drained (led s) (led s1) \<and> bal (led s1) ?k = (if n > 0 then bal (led s) ?k - n else bal (led s) ?k)"
    proof (cases "n > 0")
      case True
      have "led s2 = (led s)(?k := map_option (add_credits (- n)) (led s ?k))"
        using d(2) True some le[OF True] by (auto simp: spec_debit_def split: if_splits)
      then have "bal (led s2) ?k = bal (led s) ?k - n" using some by (auto split: option.split)
      with True d db spec_debit_only_spent[OF d(2)] spec_debit_nonneg[OF _ d(2)] show ?thesis
        by (simp add: drained_def s1_def)
    qed (use assms(1) in \<open>simp add: s1_def\<close>)
    have "(log0, stopped, s') = (if (if n > 0 then pr_credits rec - n else pr_credits rec) \<le> 0
        then (case provider_stop env pr (mi_id m) of (Inr _, l) \<Rightarrow> (l, True, s1) | (Inl _, l) \<Rightarrow> (l, False, s1))
        else ([], False, s1))"
      unfolding assms(3)[symmetric] s1_def n_def using False g Some by (simp add: meter_machine_def Let_def)
    then have "s' = s1 \<and> (stopped \<or> log0 \<noteq> [] \<longrightarrow> (if n > 0 then pr_credits rec - n else pr_credits rec) \<le> 0)"
      by (auto split: if_splits sum.splits prod.splits)
    with False b led1 show ?thesis by auto
  qed
qed

lemma meter_machines_ledger:
  assumes "inv s" "ok_app (ae_id app)" "meter_machines env ops app pr rates dur ms s = (log0, n, s')"
  shows "inv s' \<and> drained (led s) (led s')"
  using assms(1,3)
proof (induction ms arbitrary: s log0 n)
  case (Cons m ms)
  obtain l1 k s1 where m: "meter_machine env ops app pr rates dur m s = (l1, k, s1)" by (metis prod.exhaust)
  obtain l2 n2 s2 where ms: "meter_machines env ops app pr rates dur ms s1 = (l2, n2, s2)" by (metis prod.exhaust)
  from meter_machine_ledger[OF Cons.prems(1) assms(2) m] have a: "inv s1" "drained (led s) (led s1)" by auto
  have "s' = s2" using Cons.prems(2) m ms by simp
  with Cons.IH[OF a(1)] ms a(2) show ?case by (auto intro: drained_trans)
qed simp

lemma meter_once_ledger:
  assumes "so_prov (en_store env) = Some ops" "inv s" "ok_app (ae_id app)"
  shows "inv (snd (snd (meter_once env app dur s))) \<and> drained (led s) (led (snd (snd (meter_once env app dur s))))"
proof (cases "snd (snd (meter_once env app dur s)) = s")
  case True
  with assms(2) show ?thesis by simp
next
  case False
  with assms(1) obtain p pr ms where "snd (snd (meter_once env app dur s))
      = snd (snd (meter_machines env ops app pr (meter_rates_of p) dur ms s))"
    by (auto simp: meter_once_def case_prod_beta Let_def split: option.splits sum.splits if_splits)
  then show ?thesis
    using meter_machines_ledger[OF assms(2,3), of env pr "meter_rates_of p" dur ms] by (metis prod.collapse)
qed

lemma meter_apps_ledger:
  assumes "so_prov (en_store env) = Some ops" "inv s" "\<forall>a \<in> snd ` set reg. ok_app (ae_id a)"
  shows "inv (meter_apps env reg dur s) \<and> drained (led s) (led (meter_apps env reg dur s))"
  using assms(2,3)
proof (induction reg arbitrary: s)
  case (Cons e reg)
  let ?s1 = "case ae_provision (snd e) of None \<Rightarrow> s
             | Some p \<Rightarrow> if pv_meter_interval_ms p < 0 then s else snd (snd (meter_once env (snd e) dur s))"
  have a: "inv ?s1 \<and> drained (led s) (led ?s1)"
    using meter_once_ledger[OF assms(1) Cons.prems(1), of "snd e"] Cons.prems by (auto split: option.split)
  have "meter_apps env (e # reg) dur s = meter_apps env reg dur ?s1"
    by (simp add: meter_apps_def case_prod_beta)
  with Cons.IH[of ?s1] a Cons.prems(2) show ?case by (auto intro: drained_trans)
qed (simp add: meter_apps_def)

lemma run_meter_ledger:
  assumes "so_prov (en_store env) = Some ops" "inv s" "\<forall>t \<in> set ticks. \<forall>a \<in> snd ` set (fst t). ok_app (ae_id a)"
  shows "inv (run_meter env t0 ticks s) \<and> drained (led s) (led (run_meter env t0 ticks s))"
  using assms
proof (induction env t0 ticks s rule: run_meter.induct)
  case (2 env last_tick reg now ticks s)
  have "\<forall>a \<in> snd ` set reg. ok_app (ae_id a)" using 2(4) by auto
  from meter_apps_ledger[OF 2(2,3) this, of "time_sub now last_tick"]
  have a: "inv (meter_apps env reg (time_sub now last_tick) s)" "drained (led s) (led (meter_apps env reg (time_sub now last_tick) s))"
    by auto
  with 2(1)[OF 2(2) a(1)] 2(4) show ?case by (auto intro: drained_trans)
qed simp

end

section \<open>Properties\<close>

text \<open>Observation: Over the SQLite store any number of metering ticks, with any registries, times and answers
  of the cloud, keeps every account and its rotation, raises no balance and takes none below zero.\<close>

theorem metering_only_drains:
  assumes "so_prov (en_store env) = Some sql_prov_ops" "sql_inv s" "\<And>k. 0 \<le> bal (sql_led s) k"
  shows "sql_inv (run_meter env t0 ticks s) \<and> only_spent (sql_led s) (sql_led (run_meter env t0 ticks s)) \<and>
    (\<forall>k. 0 \<le> bal (sql_led (run_meter env t0 ticks s)) k)"
  using sql_credits.run_meter_ledger[OF assms(1,2), of ticks t0] assms(3)
  by (auto simp: drained_def nonneg_ledger_def)

text \<open>Observation: A machine is told to stop only when it is running, has an owner, and the owner's balance is
  used up once this machine has been charged.\<close>

theorem stops_only_exhausted:
  assumes "sql_inv s" "meter_machine env sql_prov_ops app pr rates dur m s = (log0, stopped, s')" "stopped \<or> log0 \<noteq> []"
  shows "mi_owner m \<noteq> [] \<and> machine_running m \<and> bal (sql_led s') (ae_id app, mi_owner m) \<le> 0"
  using sql_credits.meter_machine_ledger[OF assms(1) TrueI assms(2)] assms(3) by blast

definition metered_env :: "sqlite_store broker_env" where
  "metered_env = demo_env\<lparr>en_partner := (\<lambda>r. if ou_method r = ''GET'' then Some (200,
     ''[{\"id\":\"m1\",\"state\":\"started\",\"env\":{\"PILOT_OWNER\":\"c\"},\"resources\":{\"cpus\":2}}]'') else Some (200, ''{}''))\<rparr>"

definition metered_store :: sqlite_store where
  "metered_store = snd (sql_provision open_sqlite_store ''p'' ''c'' ''ip'' 500 3 0 0)"

lemma metered_inv: "sql_inv metered_store" "so_prov (en_store metered_env) = Some sql_prov_ops"
  by (simp_all add: metered_store_def metered_env_def demo_env_def sql_inv_def sql_provision_def open_sqlite_store_def
      sql_set_def wf_map_def)

theorem metering_only_drains_witness:
  "bal (sql_led (run_meter metered_env 0 [([(''p'', cloud_entry)], 60 * second), ([(''p'', cloud_entry)], 7200 * second)] metered_store)) (''p'', ''c'') = 0 \<and>
   (\<forall>k. 0 \<le> bal (sql_led (run_meter metered_env 0 [([(''p'', cloud_entry)], 60 * second), ([(''p'', cloud_entry)], 7200 * second)] metered_store)) k)"
proof
  show "bal (sql_led (run_meter metered_env 0 [([(''p'', cloud_entry)], 60 * second), ([(''p'', cloud_entry)], 7200 * second)] metered_store)) (''p'', ''c'') = 0"
    by code_simp
  have "0 \<le> bal (sql_led metered_store) k" for k
    by (simp add: metered_store_def sql_provision_def open_sqlite_store_def sql_led_def sql_set_def bal_def)
  then show "\<forall>k. 0 \<le> bal (sql_led (run_meter metered_env 0 [([(''p'', cloud_entry)], 60 * second), ([(''p'', cloud_entry)], 7200 * second)] metered_store)) k"
    using metering_only_drains[OF metered_inv(2,1)] by blast
qed

theorem stops_only_exhausted_witness:
  "bal (sql_led (snd (snd (meter_machine metered_env sql_prov_ops cloud_entry cloud_master (meter_rates_of cloud_spec) (7200 * second)
     \<lparr>mi_id = ''m1'', mi_owner = ''c'', mi_state = ''started'', mi_cpus = 2, mi_memory_mb = 0, mi_disk_gb = 0\<rparr> metered_store))))
     (ae_id cloud_entry, ''c'') \<le> 0"
proof -
  let ?m = "\<lparr>mi_id = ''m1'', mi_owner = ''c'', mi_state = ''started'', mi_cpus = 2, mi_memory_mb = 0, mi_disk_gb = 0\<rparr>"
  let ?o = "meter_machine metered_env sql_prov_ops cloud_entry cloud_master (meter_rates_of cloud_spec) (7200 * second) ?m metered_store"
  have "fst (snd ?o)" by code_simp
  then have st: "fst (snd ?o) \<or> fst ?o \<noteq> []" by (rule disjI1)
  have "?o = (fst ?o, fst (snd ?o), snd (snd ?o))" by (simp only: prod.collapse)
  from stops_only_exhausted[OF metered_inv(1) this st] show ?thesis by (simp del: sql_ops_simps)
qed

end
