(* ===== verification/Broker.thy ===== *)
theory Broker
  imports Provisioned
begin

text \<open>
  internal/broker/broker.go: \<open>ServeHTTP\<close>, the forward path of a managed application. The handler is
  cut where it returns early: \<open>reserve_credit\<close> (step 5b), \<open>forward_call\<close> (steps 6 and 7),
  \<open>serve_admitted\<close> (steps 4 and 5), \<open>serve_caller\<close> (steps 2b to 3b), \<open>serve_http\<close>.
\<close>

section \<open>Credit of a call\<close>

definition insufficient :: "int \<Rightarrow> int option \<Rightarrow> response" where
  "insufficient remaining required =
     set_hdr credits_header (itoa remaining) (write_json 402 (JObj
       ([(''error'', JStr (''insufficient credit '' @ em_dash @ '' per-user budget exhausted'')),
         (''credits_remaining'', jint remaining)]
        @ (case required of Some n \<Rightarrow> [(''credits_required'', jint n)] | None \<Rightarrow> []))))"

text \<open>Seeds the caller and reserves the cost: a refusal, or the amount taken and whether the call is
  billable when the response tells its cost.\<close>

definition reserve_credit ::
  "'s broker_env \<Rightarrow> request \<Rightarrow> app_entry \<Rightarrow> string \<Rightarrow> string \<Rightarrow> 's \<Rightarrow> (response + int \<times> bool) \<times> 's" where
  "reserve_credit env req app caller mpath s =
     (if \<not> credit_enabled app then (Inr (0, False), s)
      else case so_prov (en_store env) of
        None \<Rightarrow> (Inl (json_error 500 ''store does not support credit metering''), s)
      | Some ps \<Rightarrow>
          let (r, s1) = seed_caller ps (ae_id app) caller (request_ip env req) app
                          (en_clock env AtSeed) (en_clock env AtReseed) s
          in case r of
               Inl e \<Rightarrow> (Inl (if e = ErrCooldown then cooldown_response else internal_error env 500), s1)
             | Inr _ \<Rightarrow>
                 let cost = cost_for_call app (rq_method req) mpath in
                 if rt_credit_resp_cost app then
                   (if cost > 0 then
                      (case op_credit ps s1 (ae_id app) caller of
                         Inl _ \<Rightarrow> (Inl (internal_error env 500), s1)
                       | Inr b \<Rightarrow> if b \<le> 0 then (Inl (insufficient b None), s1) else (Inr (0, True), s1))
                    else (Inr (0, False), s1))
                 else
                   (let (d, s2) = op_debit ps s1 (ae_id app) caller cost
                    in case d of
                         Inl _ \<Rightarrow> (Inl (internal_error env 500), s2)
                       | Inr (False, remaining) \<Rightarrow> (Inl (insufficient remaining (Some cost)), s2)
                       | Inr (True, _) \<Rightarrow> (Inr (cost, False), s2)))"

definition refund_credit :: "'s broker_env \<Rightarrow> app_entry \<Rightarrow> string \<Rightarrow> int \<Rightarrow> 's \<Rightarrow> 's" where
  "refund_credit env app caller cost s =
     (if credit_enabled app \<and> cost > 0
      then (case so_prov (en_store env) of None \<Rightarrow> s | Some ps \<Rightarrow> op_refund ps s (ae_id app) caller cost)
      else s)"

definition go_round :: "rat \<Rightarrow> int" where
  "go_round x = (if x < 0 then - \<lfloor>1 / 2 - x\<rfloor> else \<lfloor>x + 1 / 2\<rfloor>)"

text \<open>A successful call: the reported cost is metered, and charged when the response tells the price.\<close>

definition settle_success :: "'s broker_env \<Rightarrow> app_entry \<Rightarrow> string \<Rightarrow> bool \<Rightarrow> string \<Rightarrow> 's \<Rightarrow> 's" where
  "settle_success env app caller billable body s =
     (let c = extract_cost body (ae_cost_field app) in
      if c \<le> 0 then s
      else let s1 = op_add_cost (so_usage (en_store env)) s (ae_id app) caller c;
               micros = go_round (c * of_int (rt_credit_cost_scale app))
           in if credit_enabled app \<and> rt_credit_resp_cost app \<and> billable \<and> micros > 0
              then (case so_prov (en_store env) of
                      None \<Rightarrow> s1 | Some ps \<Rightarrow> snd (op_settle ps s1 (ae_id app) caller micros))
              else s1)"

section \<open>The call upstream\<close>

definition upstream_target :: "app_entry \<Rightarrow> request \<Rightarrow> string \<Rightarrow> string" where
  "upstream_target app req mpath =
     ae_upstream app @ mpath @ (if rq_raw_query req \<noteq> [] then CHR ''?'' # rq_raw_query req else [])"

definition upstream_request :: "app_entry \<Rightarrow> request \<Rightarrow> string \<Rightarrow> string \<Rightarrow> out_request" where
  "upstream_request app req mpath body =
     inject (rt_injector app) (rt_master app)
       (set_out_header ''Content-Type'' (forward_content_type app (rq_header req ''Content-Type''))
         (new_out_request (rq_method req) (upstream_target app req mpath) body))"

text \<open>Ownership after a successful call, and the body the caller gets.\<close>

definition tenancy_after ::
  "'s broker_env \<Rightarrow> request \<Rightarrow> app_entry \<Rightarrow> string \<Rightarrow> string \<Rightarrow> string \<Rightarrow> 's \<Rightarrow> string \<times> 's" where
  "tenancy_after env req app caller mpath rb s =
     (case ae_tenancy app of
        None \<Rightarrow> (rb, s)
      | Some t \<Rightarrow>
          let os = so_owner (en_store env); m = rq_method req;
              s1 = claim_from t os (ae_id app) m mpath rb caller (en_clock env AtClaim) s;
              s2 = release_from t os (ae_id app) (tenancy_patterns app m mpath) m mpath s1;
              ((filtered, did), s3) = filter_response t os (ae_id app) m mpath rb caller (en_clock env AtFilter) s2
          in if did then (filtered, s3)
             else let (obj, did') = filter_object t os (ae_id app) m mpath rb caller s3
                  in (if did' then obj else rb, s3))"

definition with_credits_header :: "'s broker_env \<Rightarrow> app_entry \<Rightarrow> string \<Rightarrow> 's \<Rightarrow> response \<Rightarrow> response" where
  "with_credits_header env app caller s r =
     (if \<not> credit_enabled app then r
      else case so_prov (en_store env) of
        None \<Rightarrow> r
      | Some ps \<Rightarrow> (case op_credit ps s (ae_id app) caller of
            Inr b \<Rightarrow> set_hdr credits_header (itoa b) r | Inl _ \<Rightarrow> r))"

text \<open>The store after the partner's answer, and the body relayed.\<close>

definition after_response ::
  "'s broker_env \<Rightarrow> request \<Rightarrow> app_entry \<Rightarrow> string \<Rightarrow> string \<Rightarrow> int \<Rightarrow> bool \<Rightarrow> int \<Rightarrow> string \<Rightarrow> 's \<Rightarrow> string \<times> 's" where
  "after_response env req app caller mpath cost billable status rb s =
     (if \<not> is_2xx status then (rb, refund_credit env app caller cost s)
      else tenancy_after env req app caller mpath rb (settle_success env app caller billable rb s))"

definition forward_call ::
  "'s broker_env \<Rightarrow> request \<Rightarrow> app_entry \<Rightarrow> string \<Rightarrow> string \<Rightarrow> string \<Rightarrow> int \<Rightarrow> bool \<Rightarrow> 's broker_state \<Rightarrow> 's outcome" where
  "forward_call env req app caller mpath body cost billable st =
     (let out = upstream_request app req mpath body;
          refunded = st\<lparr>bs_store := refund_credit env app caller cost (bs_store st)\<rparr>
      in if \<not> en_url_ok env (rq_method req) (upstream_target app req mpath)
         then answer (internal_error env 502) refunded
         else case en_partner env out of
           None \<Rightarrow> (internal_error env 502, [out], report_breaker env app False refunded)
         | Some (status, rb) \<Rightarrow>
             let (rb', s') = after_response env req app caller mpath cost billable status rb (bs_store st);
                 st' = (report_breaker env app (status < 500) st)\<lparr>bs_store := s'\<rparr>
             in (with_credits_header env app caller s'
                   \<lparr>rs_status = status, rs_headers = [(''Content-Type'', json_type)], rs_body = rb'\<rparr>,
                 [out], st'))"

section \<open>The gates before it\<close>

definition serve_admitted ::
  "'s broker_env \<Rightarrow> request \<Rightarrow> app_entry \<Rightarrow> string \<Rightarrow> string \<Rightarrow> string \<Rightarrow> 's broker_state \<Rightarrow> 's outcome" where
  "serve_admitted env req app caller mpath body st =
     (let (okay, st1) = ask_breaker env app st
      in if \<not> okay then answer (json_error 503 ''upstream circuit open'') st1
         else let ((admitted, _), s2) = op_admit (so_usage (en_store env)) (bs_store st1) (ae_id app) caller (ae_quota app)
              in if \<not> admitted then answer (json_error 429 ''per-caller quota exceeded'') (st1\<lparr>bs_store := s2\<rparr>)
                 else let (r, s3) = reserve_credit env req app caller mpath s2; st3 = st1\<lparr>bs_store := s3\<rparr>
                      in case r of
                           Inl resp \<Rightarrow> answer resp st3
                         | Inr (cost, billable) \<Rightarrow> forward_call env req app caller mpath body cost billable st3)"

definition pilot_balance_path :: string where "pilot_balance_path = ''/_pilot/balance''"

definition serve_caller ::
  "'s broker_env \<Rightarrow> request \<Rightarrow> app_entry \<Rightarrow> string \<Rightarrow> string \<Rightarrow> string \<Rightarrow> 's broker_state \<Rightarrow> 's outcome" where
  "serve_caller env req app caller mpath body st =
     (if credit_enabled app \<and> (mpath = pilot_balance_path \<or>
           rt_credit_balance_path app \<noteq> [] \<and> mpath = rt_credit_balance_path app)
      then serve_credit_balance env req app caller st
      else if \<not> allowed app (rq_method req) mpath
      then answer (json_error 403 (''method not allowed for this app: '' @ mpath)) st
      else if enforce_request (ae_tenancy app) (so_owner (en_store env)) (bs_store st) (ae_id app)
                (tenancy_patterns app (rq_method req) mpath) mpath (rq_raw_query req)
                (rq_header req ''Content-Type'') body caller (en_multipart env) \<noteq> None
      then answer (json_error 404 ''not found'') st
      else serve_admitted env req app caller mpath body st)"

definition body_limit :: "'s broker_env \<Rightarrow> app_entry \<Rightarrow> string \<Rightarrow> int" where
  "body_limit env app mpath =
     (let limit = (if ae_max_body_bytes app > 0 then ae_max_body_bytes app else en_max_body env)
      in case ae_provision app of
           Some p \<Rightarrow> if mpath = pv_push_path p then pv_artifact_max_bytes p else limit
         | None \<Rightarrow> limit)"

text \<open>A provisioned entry whose provider is missing does not come out of a registry load; the code
  would dereference a nil interface, which is the last branch.\<close>

definition serve_app ::
  "'s broker_env \<Rightarrow> request \<Rightarrow> app_entry \<Rightarrow> string \<Rightarrow> 's broker_state \<Rightarrow> 's outcome" where
  "serve_app env req app mpath st =
     (case require_access_key (en_crypto env) (en_access_keys env) (rq_header req) app of
        Some resp \<Rightarrow> answer resp st
      | None \<Rightarrow> (case rq_body req of
          Inl _ \<Rightarrow> answer (json_error 400 ''read body'') st
        | Inr body \<Rightarrow>
            if int (length body) > body_limit env app mpath
            then answer (json_error 413 (''request body exceeds '' @ itoa (body_limit env app mpath) @ '' bytes'')) st
            else let v = verify (en_crypto env) (en_window env) (en_clock env AtVerify) (rq_header req)
                           (rq_method req) (rq_path req) body
                 in case ae_provision app of
                      Some p \<Rightarrow>
                        (case rt_provider app of
                           Some provider \<Rightarrow> serve_provisioned env req app p provider mpath
                             (case v of Inr c \<Rightarrow> Some c | Inl _ \<Rightarrow> None) body st
                         | None \<Rightarrow> answer (internal_error env 500) st)
                    | None \<Rightarrow> (case v of
                          Inl e \<Rightarrow> answer (json_error 401 (id_err_text e)) st
                        | Inr caller \<Rightarrow> serve_caller env req app caller mpath body st)))"

definition unrouted :: "string \<Rightarrow> response" where
  "unrouted msg = set_hdr unrouted_header ''1'' (json_error 404 msg)"

definition serve_http :: "'s broker_env \<Rightarrow> registry \<Rightarrow> request \<Rightarrow> 's broker_state \<Rightarrow> 's outcome" where
  "serve_http env reg req st =
     (case cut_at (CHR ''/'') (trim_prefix ''/'' (rq_path req)) of
        None \<Rightarrow> answer (unrouted ''route must be /<app-id>/<path>'') st
      | Some (appID, rest) \<Rightarrow>
          if appID = [] then answer (unrouted ''route must be /<app-id>/<path>'') st
          else (case registry_get (Some reg) appID of
                  None \<Rightarrow> answer (unrouted (''unknown app: '' @ appID)) st
                | Some app \<Rightarrow> serve_app env req app (CHR ''/'' # rest) st))"

section \<open>What the other operations leave alone\<close>

text \<open>Whatever claims and releases preserve, the tenancy steps after a response preserve.\<close>

lemma claim_from_preserves:
  assumes "\<And>ow s a t i c now. os = Some ow \<Longrightarrow> P s \<Longrightarrow> P (snd (op_claim ow s a t i c now))" "P s"
  shows "P (claim_from t os app m path body c now s)"
proof (cases os)
  case (Some ow)
  have "P (fold (\<lambda>r s. if route_hits r m (path_segs path) then claim_route ow app body c now (snd (snd r)) s else s) rs s)"
    if "P s" for rs s
    using that by (induction rs arbitrary: s)
      (auto simp: claim_route_def claim_def intro: assms(1)[OF Some] split: option.split)
  with assms(2) Some show ?thesis by (simp add: claim_from_def)
qed (use assms in \<open>simp add: claim_from_def\<close>)

lemma release_from_preserves:
  assumes "\<And>ow s a t i. os = Some ow \<Longrightarrow> P s \<Longrightarrow> P (snd (op_release ow s a t i))" "P s"
  shows "P (release_from t os app pats m path s)"
proof (cases os)
  case (Some ow)
  have "P (fold (\<lambda>r s. if route_hits r m (path_segs path)
                       then (case map_of (path_params pats path) (dr_param (snd (snd r))) of
                               Some i \<Rightarrow> if i \<noteq> [] then snd (op_release ow s app (dr_type (snd (snd r))) i) else s
                             | None \<Rightarrow> s)
                       else s) rs s)"
    if "P s" for rs s
    using that by (induction rs arbitrary: s) (auto intro: assms(1)[OF Some] split: option.split)
  with assms(2) Some show ?thesis by (simp add: release_from_def)
qed (use assms in \<open>simp add: release_from_def\<close>)

lemma keep_links_preserves:
  assumes "\<And>s a t i c now. P s \<Longrightarrow> P (snd (op_claim ow s a t i c now))" "P s"
  shows "P (snd (keep_links ow app m c ks ca cf now s))"
  using assms(2) by (induction ks) (auto simp: claim_def Let_def intro: assms(1) split: option.split)

lemma keep_all_preserves:
  assumes "\<And>s a t i c now. P s \<Longrightarrow> P (snd (op_claim ow s a t i c now))" "P s"
  shows "P (snd (keep_all ow app c l now els s))"
  using assms(2)
proof (induction els arbitrary: s)
  case (Cons el els)
  have "P (snd (keep_element ow app el c l now s))"
    using keep_links_preserves[of P ow, OF assms(1)] Cons.prems by (auto simp: keep_element_def split: json.split)
  then have "P (snd (keep_all ow app c l now els (snd (keep_element ow app el c l now s))))" by (rule Cons.IH)
  then show ?case by (simp add: Let_def case_prod_beta)
qed simp

lemma filter_response_preserves:
  assumes "\<And>ow s a t i c now. os = Some ow \<Longrightarrow> P s \<Longrightarrow> P (snd (op_claim ow s a t i c now))" "P s"
  shows "P (snd (filter_response t os app m path body c now s))"
proof (cases os)
  case (Some ow)
  have ka: "P (snd (keep_all ow app c l now els s))" for l els
    by (rule keep_all_preserves) (use assms Some in auto)
  have "P (snd (filter_list ow app c l now v s))" for l v
  proof -
    have "snd (filter_list ow app c l now v s) = s \<or> (\<exists>els. snd (filter_list ow app c l now v s) = snd (keep_all ow app c l now els s))"
      by (auto simp: filter_list_def case_prod_beta Let_def split: option.split json.split)
    with ka assms(2) show ?thesis by auto
  qed
  moreover have "snd (filter_response t os app m path body c now s) = s \<or>
      (\<exists>l v. snd (filter_response t os app m path body c now s) = snd (filter_list ow app c l now v s))"
    using Some by (auto simp: filter_response_def split: option.split prod.split) (metis snd_conv)+
  ultimately show ?thesis using assms(2) by auto
qed (use assms in \<open>simp add: filter_response_def\<close>)

section \<open>A store behind the broker\<close>

text \<open>What the forward path needs of its whole store: a credit ledger that counting calls, metering and
  ownership leave alone.\<close>

locale broker_store = credit_ledger ops inv led ok_app stamp
  for ops :: "'s prov_ops" and inv led ok_app stamp +
  fixes sops :: "'s store_ops"
  assumes has_prov: "so_prov sops = Some ops"
    and admit_frame: "inv s \<Longrightarrow> inv (snd (op_admit (so_usage sops) s a c q)) \<and>
      led (snd (op_admit (so_usage sops) s a c q)) = led s"
    and cost_frame: "inv s \<Longrightarrow> inv (op_add_cost (so_usage sops) s a c x) \<and>
      led (op_add_cost (so_usage sops) s a c x) = led s"
    and claim_frame: "so_owner sops = Some ow \<Longrightarrow> inv s \<Longrightarrow> inv (snd (op_claim ow s a t i c now)) \<and>
      led (snd (op_claim ow s a t i c now)) = led s"
    and release_frame: "so_owner sops = Some ow \<Longrightarrow> inv s \<Longrightarrow> inv (snd (op_release ow s a t i)) \<and>
      led (snd (op_release ow s a t i)) = led s"

interpretation mem_broker: broker_store mem_prov_ops mem_inv mem_led no_bar "\<lambda>t. t" mem_ops
proof (unfold_locales, goal_cases)
  case 1
  then show ?case by simp
next
  case (2 s a c q)
  then show ?case by (auto simp: mem_admit_def mem_inv_def mem_led_def Let_def)
next
  case (3 s a c x)
  then show ?case by (auto simp: mem_add_cost_def mem_inv_def mem_led_def Let_def split: option.split)
next
  case (4 ow s a t i c now)
  have "ms_prov (snd (mem_claim s a t i c now)) = ms_prov s"
    by (simp add: mem_claim_def Let_def split: option.split)
  with 4 show ?case by (auto simp: mem_inv_def mem_led_def)
next
  case (5 ow s a t i)
  then show ?case by (auto simp: mem_release_def mem_inv_def mem_led_def)
qed

interpretation sql_broker: broker_store sql_prov_ops sql_inv sql_led "\<lambda>_. True" sql_stamp sql_ops
proof (unfold_locales, goal_cases)
  case 1
  then show ?case by simp
next
  case (2 s a c q)
  have "sq_prov (snd (sql_admit s a c q)) = sq_prov s \<and> sq_down (snd (sql_admit s a c q)) = sq_down s"
    by (simp add: sql_admit_def Let_def split: option.split)
  with 2 show ?case by (auto simp: sql_inv_def sql_led_def fun_eq_iff)
next
  case (3 s a c x)
  then show ?case by (auto simp: sql_add_cost_def sql_inv_def sql_led_def fun_eq_iff Let_def split: option.split)
next
  case (4 ow s a t i c now)
  have "sq_prov (snd (sql_claim s a t i c now)) = sq_prov s \<and> sq_down (snd (sql_claim s a t i c now)) = sq_down s"
    by (simp add: sql_claim_def split: option.split)
  with 4 show ?case by (auto simp: sql_inv_def sql_led_def fun_eq_iff)
next
  case (5 ow s a t i)
  then show ?case by (auto simp: sql_release_def sql_inv_def sql_led_def fun_eq_iff)
qed

section \<open>What a request does to the ledger\<close>

text \<open>Seeding a caller: others keep their rows, a known caller its balance, a new one gets the seed
  budget or nothing.\<close>

definition seeded :: "int \<Rightarrow> string \<times> string \<Rightarrow> ledger \<Rightarrow> ledger \<Rightarrow> bool" where
  "seeded seed me L L' \<longleftrightarrow> (\<forall>k. k \<noteq> me \<longrightarrow> L' k = L k) \<and>
     (if L me = None then bal L' me \<in> {0, seed} else bal L' me = bal L me)"

lemma seeded_refl: "seeded seed me L L"
  by (simp add: seeded_def)

lemma seeded_nonneg: "seeded seed me L L' \<Longrightarrow> 0 \<le> seed \<Longrightarrow> nonneg_ledger L \<Longrightarrow> nonneg_ledger L'"
proof -
  assume s: "seeded seed me L L'" "0 \<le> seed" "nonneg_ledger L"
  have "0 \<le> bal L' k" for k
  proof (cases "k = me")
    case True
    with s(1,2) nonneg_bal[OF s(3), of me] show ?thesis by (auto simp: seeded_def split: if_splits)
  next
    case False
    with s(1) have "L' k = L k" unfolding seeded_def by blast
    then have "bal L' k = bal L k" by (simp only: bal_def)
    with nonneg_bal[OF s(3)] show ?thesis by simp
  qed
  then show ?thesis by (simp add: nonneg_ledger_def)
qed

lemma spec_provision_seeded:
  assumes "(r, L') = spec_provision stamp L me ip seed cap cd now"
  shows "seeded seed me L L' \<and> (r = Inl e \<longrightarrow> L' = L)"
  using assms by (auto simp: spec_provision_def seeded_def Let_def split: option.splits if_splits)

text \<open>The outcome of a request that was served.\<close>

definition served_ok :: "'s broker_env \<Rightarrow> out_request list \<Rightarrow> bool" where
  "served_ok env log0 \<longleftrightarrow> (\<exists>out status rb. log0 = [out] \<and> en_partner env out = Some (status, rb) \<and> is_2xx status)"

definition charged :: "string \<times> string \<Rightarrow> int \<Rightarrow> ledger \<Rightarrow> ledger \<Rightarrow> bool" where
  "charged me n L L' \<longleftrightarrow> (\<forall>k. k \<noteq> me \<longrightarrow> L' k = L k) \<and> bal L' me = bal L me - n \<and> n \<le> max 0 (bal L me)"

text \<open>What a reservation has done to the seeded ledger.\<close>

definition reserved :: "app_entry \<Rightarrow> string \<Rightarrow> int \<Rightarrow> bool \<Rightarrow> ledger \<Rightarrow> ledger \<Rightarrow> bool" where
  "reserved app c cost billable L1 L2 \<longleftrightarrow>
     (if rt_credit_resp_cost app then cost = 0 \<and> L2 = L1
      else \<not> billable \<and> (\<exists>m. ((True, m), L2) = spec_debit L1 (ae_id app, c) cost))"

definition bill :: "app_entry \<Rightarrow> int \<Rightarrow> bool \<Rightarrow> string \<times> string \<Rightarrow> ledger \<Rightarrow> ledger \<Rightarrow> bool" where
  "bill app cost okay me L1 L' \<longleftrightarrow>
     (\<exists>n. charged me n L1 L' \<and> 0 \<le> n \<and> (\<not> okay \<longrightarrow> n = 0) \<and>
        (okay \<and> \<not> rt_credit_resp_cost app \<longrightarrow> n = max 0 cost))"

context broker_store
begin

lemma seed_caller_seeded:
  assumes "inv s" "ok_app app" "seed_caller ops app c ip a t u s = (r, s')"
  shows "inv s' \<and> seeded (rt_credit_seed a) (app, c) (led s) (led s')"
proof -
  obtain r1 s1 where p: "op_provision ops s app c ip (rt_credit_seed a) (rt_credit_max_per_ip a)
      (rt_credit_mint_cooldown a) t = (r1, s1)" by fastforce
  from provision_spec[OF assms(1,2) p] obtain r0 where i1: "inv s1"
    and sp: "(r0, led s1) = spec_provision stamp (led s) (app, c) ip (rt_credit_seed a) (rt_credit_max_per_ip a)
      (rt_credit_mint_cooldown a) t"
    and ag: "case (r1, r0) of (Inl e, Inl e0) \<Rightarrow> e = e0 | (Inr p, Inr (x, new)) \<Rightarrow> rec_agrees p x new | _ \<Rightarrow> False"
    by blast
  show ?thesis
  proof (cases "r1 = Inl ErrIPCap")
    case False
    with assms(3) p i1 spec_provision_seeded[OF sp] show ?thesis by (auto simp: seed_caller_def)
  next
    case True
    then have "r0 = Inl ErrIPCap" using ag by (auto split: sum.splits)
    with spec_provision_seeded[OF sp] have same: "led s1 = led s" by blast
    from True assms(3) p have p2: "op_provision ops s1 app c ip 0 0 0 u = (r, s')" by (simp add: seed_caller_def)
    from provision_spec[OF i1 assms(2) p2] obtain r2 where "inv s'"
      "(r2, led s') = spec_provision stamp (led s1) (app, c) ip 0 0 0 u" by blast
    with same spec_provision_seeded[of r2 "led s'" stamp "led s1" "(app, c)" ip 0] show ?thesis
      by (auto simp: seeded_def split: if_splits)
  qed
qed

lemma tenancy_after_frame:
  assumes "en_store env = sops" "inv s" "tenancy_after env req app c mp rb s = (rb', s')"
  shows "inv s' \<and> led s' = led s"
proof (cases "ae_tenancy app")
  case (Some t)
  let ?P = "\<lambda>x. inv x \<and> led x = led s"
  let ?s1 = "claim_from t (so_owner sops) (ae_id app) (rq_method req) mp rb c (en_clock env AtClaim) s"
  let ?s2 = "release_from t (so_owner sops) (ae_id app) (tenancy_patterns app (rq_method req) mp) (rq_method req) mp ?s1"
  have p1: "?P ?s1" by (rule claim_from_preserves[where P = ?P]) (use claim_frame assms(2) in auto)
  have p2: "?P ?s2" by (rule release_from_preserves[where P = ?P]) (use release_frame p1 in auto)
  have "?P (snd (filter_response t (so_owner sops) (ae_id app) (rq_method req) mp rb c (en_clock env AtFilter) ?s2))"
    by (rule filter_response_preserves[where P = ?P]) (use claim_frame p2 in auto)
  moreover have "snd (tenancy_after env req app c mp rb s)
      = snd (filter_response t (so_owner sops) (ae_id app) (rq_method req) mp rb c (en_clock env AtFilter) ?s2)"
    by (simp add: tenancy_after_def Let_def Some assms(1) case_prod_beta)
  ultimately show ?thesis using assms(3) by simp
qed (use assms in \<open>simp add: tenancy_after_def\<close>)

text \<open>Reserving: the seeded ledger, and in the fixed mode the debit on it.\<close>

lemma reserve_credit_spec:
  assumes "en_store env = sops" "inv s" "ok_app (ae_id app)" "credit_enabled app"
    and "reserve_credit env req app c mp s = (r, s')"
  obtains L1 where "inv s'" "seeded (rt_credit_seed app) (ae_id app, c) (led s) L1"
    "(\<exists>resp. r = Inl resp) \<and> led s' = L1 \<or>
     (rt_credit_resp_cost app \<and> led s' = L1 \<and> (\<exists>b. r = Inr (0, b))) \<or>
     (\<not> rt_credit_resp_cost app \<and> r = Inr (cost_for_call app (rq_method req) mp, False) \<and>
        (\<exists>m. ((True, m), led s') = spec_debit L1 (ae_id app, c) (cost_for_call app (rq_method req) mp)))"
proof -
  obtain r1 s1 where sd: "seed_caller ops (ae_id app) c (request_ip env req) app
      (en_clock env AtSeed) (en_clock env AtReseed) s = (r1, s1)" by fastforce
  from seed_caller_seeded[OF assms(2,3) sd] have i: "inv s1"
    and L: "seeded (rt_credit_seed app) (ae_id app, c) (led s) (led s1)" by auto
  let ?cost = "cost_for_call app (rq_method req) mp"
  obtain d s2 where db: "op_debit ops s1 (ae_id app) c ?cost = (d, s2)" by fastforce
  from debit_spec[OF i assms(3) db] obtain b m where d: "inv s2" "d = Inr (b, m)"
    "((b, m), led s2) = spec_debit (led s1) (ae_id app, c) ?cost" by auto
  then have refused: "\<not> b \<Longrightarrow> led s2 = led s1" by (auto simp: spec_debit_def split: if_splits)
  have "inv s' \<and> ((\<exists>resp. r = Inl resp) \<and> led s' = led s1 \<or>
     (rt_credit_resp_cost app \<and> led s' = led s1 \<and> (\<exists>b. r = Inr (0, b))) \<or>
     (\<not> rt_credit_resp_cost app \<and> r = Inr (?cost, False) \<and> (\<exists>m. ((True, m), led s') = spec_debit (led s1) (ae_id app, c) ?cost)))"
  proof (cases r1)
    case (Inl e)
    with assms(1,4,5) sd has_prov i show ?thesis by (auto simp: reserve_credit_def)
  next
    case (Inr rec)
    show ?thesis
    proof (cases "rt_credit_resp_cost app")
      case True
      with assms(1,4,5) sd has_prov Inr i show ?thesis
        by (auto simp: reserve_credit_def Let_def split: if_splits sum.splits)
    next
      case False
      with assms(1,4,5) sd has_prov Inr db d refused show ?thesis
        by (cases b) (auto simp: reserve_credit_def Let_def)
    qed
  qed
  then show ?thesis using that[OF _ L] by blast
qed

lemma bill_none: "bill app cost False me L L"
  by (auto simp: bill_def charged_def intro!: exI[of _ 0])

lemma refund_reserved:
  assumes "en_store env = sops" "inv s" "ok_app (ae_id app)" "credit_enabled app" "reserved app c cost b L1 (led s)"
  shows "inv (refund_credit env app c cost s) \<and> led (refund_credit env app c cost s) = L1"
proof (cases "0 < cost")
  case True
  with assms(5) obtain m where "((True, m), led s) = spec_debit L1 (ae_id app, c) cost"
    by (auto simp: reserved_def split: if_splits)
  then have "spec_refund (led s) (ae_id app, c) cost = L1" by (rule spec_debit_refund)
  with True assms has_prov refund_spec[OF assms(2,3), of c cost] show ?thesis by (simp add: refund_credit_def)
next
  case False
  with assms(5) have "led s = L1" by (auto simp: reserved_def spec_debit_def split: if_splits)
  with False assms(2) show ?thesis by (simp add: refund_credit_def)
qed

lemma settle_success_spec:
  assumes "en_store env = sops" "inv s" "ok_app (ae_id app)" "0 \<le> bal (led s) (ae_id app, c)"
  shows "inv (settle_success env app c b rb s) \<and>
    (if rt_credit_resp_cost app then \<exists>n. 0 \<le> n \<and> charged (ae_id app, c) n (led s) (led (settle_success env app c b rb s))
     else led (settle_success env app c b rb s) = led s)"
proof -
  let ?x = "extract_cost rb (ae_cost_field app)" and ?n = "go_round (extract_cost rb (ae_cost_field app) * of_int (rt_credit_cost_scale app))"
  let ?s1 = "op_add_cost (so_usage sops) s (ae_id app) c ?x"
  have fr: "inv ?s1" "led ?s1 = led s" using cost_frame[OF assms(2)] by auto
  have same: "\<exists>n. 0 \<le> n \<and> charged (ae_id app, c) n (led s) (led s)" by (auto simp: charged_def intro!: exI[of _ 0])
  show ?thesis
  proof (cases "0 < ?x \<and> credit_enabled app \<and> rt_credit_resp_cost app \<and> b \<and> 0 < ?n")
    case False
    then have "settle_success env app c b rb s \<in> {s, ?s1}"
      using assms(1) by (auto simp: settle_success_def Let_def)
    with fr same assms(2) show ?thesis by auto
  next
    case True
    then have eq: "settle_success env app c b rb s = snd (op_settle ops ?s1 (ae_id app) c ?n)"
      using assms(1) has_prov by (simp add: settle_success_def Let_def)
    obtain r s2 where st: "op_settle ops ?s1 (ae_id app) c ?n = (r, s2)" by fastforce
    have "0 \<le> bal (led ?s1) (ae_id app, c)" using fr(2) assms(4) by simp
    from settle_spec[OF fr(1) assms(3) _ this st] True fr(2) obtain m where
      i: "inv s2" "(m, led s2) = spec_settle (led s) (ae_id app, c) ?n" by auto
    then have "charged (ae_id app, c) (min ?n (bal (led s) (ae_id app, c))) (led s) (led s2)"
      using assms(4) True by (auto simp: charged_def spec_settle_def Let_def split: option.splits)
    moreover have "0 \<le> min ?n (bal (led s) (ae_id app, c))" using True assms(4) by simp
    ultimately have "\<exists>n\<ge>0. charged (ae_id app, c) n (led s) (led s2)" by blast
    then show ?thesis using i eq st True by auto
  qed
qed

lemma after_response_bill:
  assumes "en_store env = sops" "inv s" "ok_app (ae_id app)" "credit_enabled app"
    and "reserved app c cost b L1 (led s)" "nonneg_ledger L1"
    and "after_response env req app c mp cost b status rb s = (rb', s')"
  shows "inv s' \<and> bill app cost (is_2xx status) (ae_id app, c) L1 (led s')"
proof (cases "is_2xx status")
  case False
  with assms(7) have "s' = refund_credit env app c cost s" by (simp add: after_response_def)
  with refund_reserved[OF assms(1-5)] bill_none False show ?thesis by simp
next
  case True
  let ?s1 = "settle_success env app c b rb s"
  have t: "tenancy_after env req app c mp rb ?s1 = (rb', s')" using True assms(7) by (simp add: after_response_def)
  have nn: "nonneg_ledger (led s)"
    using assms(5,6) by (auto simp: reserved_def split: if_splits dest: spec_debit_nonneg)
  note st = settle_success_spec[OF assms(1-3) nonneg_bal[OF nn], where b = b and rb = rb]
  have fr: "inv s'" "led s' = led ?s1" using tenancy_after_frame[OF assms(1) _ t] st by auto
  show ?thesis
  proof (cases "rt_credit_resp_cost app")
    case resp: True
    with assms(5) have "led s = L1" by (simp add: reserved_def)
    with st resp fr True show ?thesis by (auto simp: bill_def)
  next
    case False
    with assms(5) obtain m where d: "((True, m), led s) = spec_debit L1 (ae_id app, c) cost" by (auto simp: reserved_def)
    then have "charged (ae_id app, c) (max 0 cost) L1 (led s)"
      by (auto simp: charged_def spec_debit_def split: if_splits option.splits)
    with st False fr True show ?thesis by (auto simp: bill_def)
  qed
qed

lemma forward_call_bill:
  assumes "en_store env = sops" "inv (bs_store st)" "ok_app (ae_id app)" "credit_enabled app"
    and "reserved app c cost b L1 (led (bs_store st))" "nonneg_ledger L1"
    and "forward_call env req app c mp body cost b st = (resp, log0, st')"
  shows "inv (bs_store st') \<and> bill app cost (served_ok env log0) (ae_id app, c) L1 (led (bs_store st'))"
proof -
  let ?out = "upstream_request app req mp body"
  note rf = refund_reserved[OF assms(1-5)]
  show ?thesis
  proof (cases "en_url_ok env (rq_method req) (upstream_target app req mp)")
    case False
    with assms(7) have "log0 = []" "bs_store st' = refund_credit env app c cost (bs_store st)"
      by (auto simp: forward_call_def answer_def Let_def)
    with rf bill_none show ?thesis by (simp add: served_ok_def)
  next
    case True
    show ?thesis
    proof (cases "en_partner env ?out")
      case None
      with True assms(7) have "log0 = [?out]" "bs_store st' = refund_credit env app c cost (bs_store st)"
        by (auto simp: forward_call_def Let_def)
      with rf bill_none None show ?thesis by (simp add: served_ok_def)
    next
      case (Some a)
      obtain status rb where a: "a = (status, rb)" by fastforce
      obtain rb' s' where r: "after_response env req app c mp cost b status rb (bs_store st) = (rb', s')" by fastforce
      with True Some a assms(7) have "log0 = [?out]" "bs_store st' = s'"
        by (auto simp: forward_call_def Let_def)
      with after_response_bill[OF assms(1-6) r] Some a show ?thesis by (simp add: served_ok_def)
    qed
  qed
qed

text \<open>The whole forward path of a credit app, for a verified caller.\<close>

lemma serve_admitted_bill:
  assumes "en_store env = sops" "inv (bs_store st)" "ok_app (ae_id app)" "credit_enabled app"
    and "0 \<le> rt_credit_seed app" "nonneg_ledger (led (bs_store st))"
    and "serve_admitted env req app c mp body st = (resp, log0, st')"
  shows "inv (bs_store st') \<and> (\<exists>L1. seeded (rt_credit_seed app) (ae_id app, c) (led (bs_store st)) L1 \<and>
     bill app (cost_for_call app (rq_method req) mp) (served_ok env log0) (ae_id app, c) L1 (led (bs_store st')))"
proof -
  obtain okay st1 where ask: "ask_breaker env app st = (okay, st1)" by fastforce
  have s1: "bs_store st1 = bs_store st" using ask_breaker_store[OF ask] .
  obtain adm k s2 where ad: "op_admit (so_usage sops) (bs_store st) (ae_id app) c (ae_quota app) = ((adm, k), s2)"
    by (metis prod.exhaust)
  have fr: "inv s2" "led s2 = led (bs_store st)" using admit_frame[OF assms(2), of "ae_id app" c "ae_quota app"] ad by auto
  have stay: "\<exists>L1. seeded (rt_credit_seed app) (ae_id app, c) (led (bs_store st)) L1 \<and>
      bill app (cost_for_call app (rq_method req) mp) (served_ok env []) (ae_id app, c) L1 (led (bs_store st))"
    by (intro exI[of _ "led (bs_store st)"] conjI seeded_refl) (simp add: served_ok_def bill_none)
  obtain r s3 where rc: "reserve_credit env req app c mp s2 = (r, s3)" by fastforce
  from reserve_credit_spec[OF assms(1) fr(1) assms(3,4) rc] obtain L1 where
    i3: "inv s3" and sd: "seeded (rt_credit_seed app) (ae_id app, c) (led s2) L1"
    and cs: "(\<exists>resp. r = Inl resp) \<and> led s3 = L1 \<or>
     (rt_credit_resp_cost app \<and> led s3 = L1 \<and> (\<exists>b. r = Inr (0, b))) \<or>
     (\<not> rt_credit_resp_cost app \<and> r = Inr (cost_for_call app (rq_method req) mp, False) \<and>
        (\<exists>m. ((True, m), led s3) = spec_debit L1 (ae_id app, c) (cost_for_call app (rq_method req) mp)))" .
  consider (shut) "\<not> okay" | (quota) "okay" "\<not> adm" | (refused) resp' where "okay" "adm" "r = Inl resp'"
    | (go) cost b where "okay" "adm" "r = Inr (cost, b)" by (cases r) auto
  then show ?thesis
  proof cases
    case shut
    with assms(7) ask have "log0 = []" "bs_store st' = bs_store st" using s1 by (auto simp: serve_admitted_def answer_def)
    with stay assms(2) show ?thesis by simp
  next
    case quota
    with assms(1,7) ask ad s1 have "log0 = []" "bs_store st' = s2" by (auto simp: serve_admitted_def answer_def)
    with fr stay show ?thesis by simp
  next
    case refused
    with assms(1,7) ask ad s1 rc have "log0 = []" "bs_store st' = s3" by (auto simp: serve_admitted_def answer_def)
    with i3 sd cs refused fr bill_none show ?thesis by (auto simp: served_ok_def)
  next
    case go
    with assms(1,7) ask ad s1 rc have f: "forward_call env req app c mp body cost b (st1\<lparr>bs_store := s3\<rparr>) = (resp, log0, st')"
      by (simp add: serve_admitted_def)
    have rs: "reserved app c cost b L1 (led s3)" using cs go by (auto simp: reserved_def)
    have "nonneg_ledger L1" using seeded_nonneg[OF sd assms(5)] fr assms(6) by simp
    with forward_call_bill[OF assms(1) _ assms(3,4) _ _ f, of L1] i3 rs
    have fin: "inv (bs_store st')" "bill app cost (served_ok env log0) (ae_id app, c) L1 (led (bs_store st'))" by auto
    have "bill app (cost_for_call app (rq_method req) mp) (served_ok env log0) (ae_id app, c) L1 (led (bs_store st'))"
      using fin(2) cs go by (auto simp: bill_def)
    with fin(1) sd fr show ?thesis by auto
  qed
qed

end

section \<open>Properties\<close>

text \<open>C1: A request leaves the broker for a classic managed app only when it is the one request
  built from a call whose access key, body size and signature were accepted, whose method and path
  are allowed, whose references are all the caller's, with the breaker closed or probing, the quota
  not used up and the credit reserved.\<close>

theorem forward_only_authorized:
  assumes "serve_http env reg req st = (resp, out # log0, st')"
    and "cut_at (CHR ''/'') (trim_prefix ''/'' (rq_path req)) = Some (appID, rest)"
    and "registry_get (Some reg) appID = Some app" "ae_provision app = None"
  shows "\<exists>body caller. log0 = [] \<and> out = upstream_request app req (CHR ''/'' # rest) body \<and>
     require_access_key (en_crypto env) (en_access_keys env) (rq_header req) app = None \<and>
     rq_body req = Inr body \<and> int (length body) \<le> body_limit env app (CHR ''/'' # rest) \<and>
     verify (en_crypto env) (en_window env) (en_clock env AtVerify) (rq_header req) (rq_method req) (rq_path req) body = Inr caller \<and>
     allowed app (rq_method req) (CHR ''/'' # rest) \<and>
     enforce_request (ae_tenancy app) (so_owner (en_store env)) (bs_store st) (ae_id app)
       (tenancy_patterns app (rq_method req) (CHR ''/'' # rest)) (CHR ''/'' # rest) (rq_raw_query req)
       (rq_header req ''Content-Type'') body caller (en_multipart env) = None \<and>
     fst (ask_breaker env app st) \<and>
     fst (fst (op_admit (so_usage (en_store env)) (bs_store st) (ae_id app) caller (ae_quota app))) \<and>
     (\<exists>held. fst (reserve_credit env req app caller (CHR ''/'' # rest)
        (snd (op_admit (so_usage (en_store env)) (bs_store st) (ae_id app) caller (ae_quota app)))) = Inr held)"
proof -
  let ?mp = "CHR ''/'' # rest"
  have "appID \<noteq> []" using assms(1,2) by (auto simp: serve_http_def answer_def)
  with assms have "serve_app env req app ?mp st = (resp, out # log0, st')" by (simp add: serve_http_def)
  with assms(4) obtain body caller where
    b: "require_access_key (en_crypto env) (en_access_keys env) (rq_header req) app = None"
      "rq_body req = Inr body" "int (length body) \<le> body_limit env app ?mp"
      "verify (en_crypto env) (en_window env) (en_clock env AtVerify) (rq_header req) (rq_method req) (rq_path req) body = Inr caller"
    and c: "serve_caller env req app caller ?mp body st = (resp, out # log0, st')"
    by (auto simp: serve_app_def answer_def Let_def split: option.splits sum.splits if_splits)
  have nb: "serve_credit_balance env req app caller st \<noteq> (resp, out # log0, st')"
    by (auto simp: serve_credit_balance_def answer_def Let_def split: option.splits sum.splits prod.splits if_splits)
  from c nb have al: "allowed app (rq_method req) ?mp"
    and en: "enforce_request (ae_tenancy app) (so_owner (en_store env)) (bs_store st) (ae_id app)
       (tenancy_patterns app (rq_method req) ?mp) ?mp (rq_raw_query req) (rq_header req ''Content-Type'') body caller
       (en_multipart env) = None"
    and ad: "serve_admitted env req app caller ?mp body st = (resp, out # log0, st')"
    by (auto simp: serve_caller_def answer_def split: if_splits)
  obtain okay st1 where ask: "ask_breaker env app st = (okay, st1)" by fastforce
  obtain adm k s2 where q: "op_admit (so_usage (en_store env)) (bs_store st) (ae_id app) caller (ae_quota app) = ((adm, k), s2)"
    by (metis prod.exhaust)
  obtain r s3 where rc: "reserve_credit env req app caller ?mp s2 = (r, s3)" by fastforce
  from ad ask q rc ask_breaker_store[OF ask] have "okay" "adm"
    by (auto simp: serve_admitted_def answer_def split: if_splits)
  moreover from this ad ask q rc ask_breaker_store[OF ask] obtain cost bl where r: "r = Inr (cost, bl)"
    by (cases r) (auto simp: serve_admitted_def answer_def)
  moreover from calculation ad ask q rc ask_breaker_store[OF ask]
  have "forward_call env req app caller ?mp body cost bl (st1\<lparr>bs_store := s3\<rparr>) = (resp, out # log0, st')"
    by (simp add: serve_admitted_def)
  then have "out = upstream_request app req ?mp body" "log0 = []"
    by (auto simp: forward_call_def answer_def Let_def split: if_splits option.splits prod.splits)
  ultimately show ?thesis using b al en ask q rc by (intro exI[of _ body] exI[of _ caller]) simp
qed

text \<open>Observation: What the partner receives depends on the caller's headers through the content type only:
  two calls that agree on method, query and content type send the same request, and every header it
  carries is the content type or the app's own authentication header.\<close>

theorem caller_headers_dropped:
  assumes "rq_method req' = rq_method req" "rq_raw_query req' = rq_raw_query req"
    and "rq_header req' ''Content-Type'' = rq_header req ''Content-Type''"
  shows "upstream_request app req' mp body = upstream_request app req mp body \<and>
    fst ` set (ou_headers (upstream_request app req mp body)) \<subseteq>
      {canon_header ''Content-Type'', canon_header ''Authorization''} \<union>
      (case rt_injector app of HeaderInjector n sch \<Rightarrow> {canon_header n} | _ \<Rightarrow> {})"
proof
  show "upstream_request app req' mp body = upstream_request app req mp body"
    by (simp only: upstream_request_def upstream_target_def assms)
  have "ou_headers (new_out_request m t b) = []" for m t b
    by (simp add: new_out_request_def Let_def split: prod.split)
  then show "fst ` set (ou_headers (upstream_request app req mp body)) \<subseteq>
      {canon_header ''Content-Type'', canon_header ''Authorization''} \<union>
      (case rt_injector app of HeaderInjector n sch \<Rightarrow> {canon_header n} | _ \<Rightarrow> {})"
    by (auto simp: upstream_request_def inject_def set_out_header_def Let_def split: injector.split)
qed


text \<open>Witnesses, and what the gates miss.\<close>

theorem forward_only_authorized_witness:
  "allowed credit_entry ''GET'' ''/v1/x/7'' \<and>
   fst (snd (serve_http demo_env [(''a'', credit_entry)] (demo_request ''GET'' ''/a/v1/x/7'' ''q=1'') demo_state))
     = [upstream_request credit_entry (demo_request ''GET'' ''/a/v1/x/7'' ''q=1'') ''/v1/x/7'' []]"
proof -
  let ?o = "serve_http demo_env [(''a'', credit_entry)] (demo_request ''GET'' ''/a/v1/x/7'' ''q=1'') demo_state"
  have l: "fst (snd ?o) = [upstream_request credit_entry (demo_request ''GET'' ''/a/v1/x/7'' ''q=1'') ''/v1/x/7'' []]"
    by code_simp
  then have o: "?o = (fst ?o, upstream_request credit_entry (demo_request ''GET'' ''/a/v1/x/7'' ''q=1'') ''/v1/x/7'' [] # [], snd (snd ?o))"
    by (metis prod.collapse)
  have "cut_at (CHR ''/'') (trim_prefix ''/'' (rq_path (demo_request ''GET'' ''/a/v1/x/7'' ''q=1''))) = Some (''a'', ''v1/x/7'')"
    "registry_get (Some [(''a'', credit_entry)]) ''a'' = Some credit_entry" "ae_provision credit_entry = None" by code_simp+
  from forward_only_authorized[OF o this] l show ?thesis by (auto simp: demo_request_def)
qed

theorem caller_headers_dropped_witness:
  "upstream_request credit_entry (demo_request ''GET'' ''/a/v1/x/7'' ''q=1''\<lparr>rq_header := (\<lambda>k. if k = ''Content-Type'' then [] else ''evil'')\<rparr>) ''/v1/x/7'' []
   = upstream_request credit_entry (demo_request ''GET'' ''/a/v1/x/7'' ''q=1''\<lparr>rq_header := (\<lambda>_. [])\<rparr>) ''/v1/x/7'' []"
  using caller_headers_dropped[of "demo_request ''GET'' ''/a/v1/x/7'' ''q=1''\<lparr>rq_header := (\<lambda>k. if k = ''Content-Type'' then [] else ''evil'')\<rparr>"
     "demo_request ''GET'' ''/a/v1/x/7'' ''q=1''\<lparr>rq_header := (\<lambda>_. [])\<rparr>" credit_entry] by simp


text \<open>Observation: The probe of an open breaker that stops at the quota is never reported: after it the app
  answers 503 at every later time, although the partner was not called.\<close>

theorem quota_refusal_keeps_circuit_open:
  "\<exists>st'. serve_admitted (demo_env\<lparr>en_clock := (\<lambda>_. of_unix 1000)\<rparr>) (demo_request ''GET'' ''/a/v1/x/7'' [])
      (credit_entry\<lparr>ae_quota := 1\<rparr>) ''c'' ''/v1/x/7'' []
      (demo_state\<lparr>bs_store := snd (sql_admit open_sqlite_store ''a'' ''c'' 1),
         bs_breakers := [(''a'', \<lparr>bk_failures = 2, bk_opened_at = of_unix 5, bk_open = True, bk_probing = False\<rparr>)]\<rparr>)
      = (json_error 429 ''per-caller quota exceeded'', [], st') \<and>
    (\<forall>env req c mp body. fst (serve_admitted env req (credit_entry\<lparr>ae_quota := 1\<rparr>) c mp body st')
       = json_error 503 ''upstream circuit open'')"
proof -
  let ?app = "credit_entry\<lparr>ae_quota := 1\<rparr>"
  let ?b = "\<lparr>bk_failures = 2, bk_opened_at = of_unix 5, bk_open = True, bk_probing = True\<rparr>"
  let ?st' = "demo_state\<lparr>bs_store := snd (sql_admit open_sqlite_store ''a'' ''c'' 1), bs_breakers := [(''a'', ?b)]\<rparr>"
  have t: "bc_threshold (rt_breaker credit_entry) = 2" "ae_id credit_entry = ''a''" by code_simp+
  have "serve_admitted (demo_env\<lparr>en_clock := (\<lambda>_. of_unix 1000)\<rparr>) (demo_request ''GET'' ''/a/v1/x/7'' [])
      ?app ''c'' ''/v1/x/7'' []
      (demo_state\<lparr>bs_store := snd (sql_admit open_sqlite_store ''a'' ''c'' 1),
         bs_breakers := [(''a'', \<lparr>bk_failures = 2, bk_opened_at = of_unix 5, bk_open = True, bk_probing = False\<rparr>)]\<rparr>)
      = (json_error 429 ''per-caller quota exceeded'', [], ?st')" by code_simp
  moreover have "fst (serve_admitted env req ?app c mp body ?st') = json_error 503 ''upstream circuit open''"
    for env :: "sqlite_store broker_env" and req c mp body
  proof -
    have "app_breaker ?app ?st' = ?b" by (simp add: app_breaker_def t)
    then have "fst (ask_breaker env ?app ?st') = False"
      by (simp add: ask_breaker_def breaker_allow_def t)
    then show ?thesis by (cases "ask_breaker env ?app ?st'") (simp add: serve_admitted_def answer_def)
  qed
  ultimately show ?thesis by blast
qed

text \<open>Observation: The path that is matched and checked is the decoded one, and the target is built from it:
  an escaped question mark in an untyped path parameter becomes the query the partner sees, so a
  reference to somebody else's resource that the gate refuses in the query passes in the path.\<close>

theorem decoded_path_smuggles_query:
  "sql_own sample_owners (''a'', ''doc'', ''d2'') = Some ''bob'' \<and>
   (let app = (new_entry (plain_config ''a''))\<lparr>rt_allow_patterns := [\<lparr>ap_method = ''GET'', ap_segs = path_segs ''/find/{term}''\<rparr>],
          rt_allow_segs := [path_segs ''/find/{term}''], ae_tenancy := Some sample_tenancy, rt_master := ''master''\<rparr>;
        st = demo_state\<lparr>bs_store := sample_owners\<rparr>;
        direct = serve_caller demo_env (demo_request ''GET'' ''/a/find/x'' ''doc_id=d2'') app ''alice'' ''/find/x'' [] st;
        smuggled = serve_caller demo_env (demo_request ''GET'' ''/a/find/x?doc_id=d2'' []) app ''alice'' ''/find/x?doc_id=d2'' [] st
    in fst (snd direct) = [] \<and> fst direct = json_error 404 ''not found'' \<and>
       map ou_query (fst (snd smuggled)) = [''doc_id=d2''])"
  by code_simp

end
