(* ===== verification/Access_Log.thy ===== *)
theory Access_Log
  imports Broker
begin

text \<open>
  internal/broker/accesslog.go: the wrapper that emits one event per request served. A response
  reaches the writer as a sequence of calls; the recorder in front of it keeps the status and the
  number of bytes. The textual form of a time is the argument \<open>fmt\<close>.
\<close>

section \<open>The status recorder\<close>

datatype writer_call = Write_header int | Write_body string

record status_recorder =
  sr_status :: int
  sr_nbytes :: int

definition recorder_step :: "writer_call \<Rightarrow> status_recorder \<Rightarrow> status_recorder" where
  "recorder_step w r =
     (case w of
        Write_header code \<Rightarrow> r\<lparr>sr_status := code\<rparr>
      | Write_body b \<Rightarrow>
          (let r1 = (if sr_status r = 0 then r\<lparr>sr_status := 200\<rparr> else r)
           in r1\<lparr>sr_nbytes := sr_nbytes r1 + int (length b)\<rparr>))"

definition writer_calls :: "response \<Rightarrow> writer_call list" where
  "writer_calls resp = [Write_header (rs_status resp), Write_body (rs_body resp)]"

definition record_calls :: "writer_call list \<Rightarrow> status_recorder" where
  "record_calls ws = fold recorder_step ws \<lparr>sr_status = 0, sr_nbytes = 0\<rparr>"

section \<open>Events\<close>

record access_event =
  ev_ts :: gotime
  ev_broker :: string
  ev_app_id :: string
  ev_http_method :: string
  ev_path :: string
  ev_status :: int
  ev_duration_ms :: int
  ev_req_bytes :: int
  ev_resp_bytes :: int
  ev_method :: string
  ev_source :: string

definition pilot_method_header :: string where "pilot_method_header = ''X-Pilot-Method''"
definition access_log_prefix :: string where "access_log_prefix = ''ACCESS ''"

definition app_id_from_path :: "string \<Rightarrow> string \<times> string" where
  "app_id_from_path p =
     (case cut_at (CHR ''/'') (trim_prefix ''/'' p) of
        Some (appID, rest) \<Rightarrow> (appID, CHR ''/'' # rest)
      | None \<Rightarrow> (trim_prefix ''/'' p, ''/''))"

text \<open>Milliseconds of a duration: Go's division truncates.\<close>

definition to_millis :: "duration \<Rightarrow> int" where
  "to_millis d = (if d < 0 then - ((- d) div millisecond) else d div millisecond)"

text \<open>The wrapper around a handler: the handler's outcome, and the event emitted, if any. \<open>sink\<close> says
  whether a sink is configured; \<open>start\<close> and \<open>done\<close> are the two readings of the clock.\<close>

definition with_access_log ::
  "(request \<Rightarrow> 's broker_state \<Rightarrow> 's outcome) \<Rightarrow> string \<Rightarrow> bool \<Rightarrow> gotime \<Rightarrow> gotime \<Rightarrow> request \<Rightarrow> 's broker_state
    \<Rightarrow> access_event option \<times> 's outcome" where
  "with_access_log handler broker sink start stop req st =
     (let (resp, log0, st') = handler req st in
      if \<not> sink \<or> has_prefix ''/gw/'' (rq_path req) then (None, resp, log0, st')
      else let rec = record_calls (writer_calls resp);
               hdr = (case map_of (rs_headers resp) unrouted_header of Some v \<Rightarrow> v | None \<Rightarrow> [])
           in if hdr \<noteq> [] then (None, resp, log0, st')
              else let (appID, method) = app_id_from_path (rq_path req)
                   in (Some \<lparr>ev_ts = start, ev_broker = broker, ev_app_id = appID, ev_http_method = rq_method req,
                         ev_path = method, ev_status = (if sr_status rec = 0 then 200 else sr_status rec),
                         ev_duration_ms = to_millis (time_sub stop start),
                         ev_req_bytes = max 0 (rq_content_length req), ev_resp_bytes = sr_nbytes rec,
                         ev_method = rq_header req pilot_method_header, ev_source = []\<rparr>, resp, log0, st'))"

text \<open>The line \<open>StdoutSink\<close> writes: the fields in the order of the struct.\<close>

definition event_line :: "(gotime \<Rightarrow> string) \<Rightarrow> access_event \<Rightarrow> string" where
  "event_line fmt e =
     (let field = (\<lambda>k v. json_quote k @ CHR '':'' # json_text v);
          opt = (\<lambda>k v. if v = [] then [] else [field k (JStr v)])
      in access_log_prefix @ ''{'' @ join_on (CHR '','')
        ([field ''ts'' (JStr (fmt (ev_ts e))), field ''broker'' (JStr (ev_broker e)),
          field ''app_id'' (JStr (ev_app_id e)), field ''http_method'' (JStr (ev_http_method e)),
          field ''path'' (JStr (ev_path e)), field ''status'' (jint (ev_status e)),
          field ''duration_ms'' (jint (ev_duration_ms e)), field ''req_bytes'' (jint (ev_req_bytes e)),
          field ''resp_bytes'' (jint (ev_resp_bytes e))]
         @ opt ''method'' (ev_method e) @ opt ''source'' (ev_source e)) @ ''}'' @ [CHR 0x0A])"

section \<open>Which responses are flagged\<close>

definition flagged :: "response \<Rightarrow> bool" where
  "flagged r \<longleftrightarrow> map_of (rs_headers r) unrouted_header \<noteq> None"

lemma flagged_simps [simp]:
  "\<not> flagged (write_json code v)" "\<not> flagged (json_error code m)" "\<not> flagged (internal_error env code)"
  "flagged (set_hdr credits_header hv r) = flagged r" "flagged (set_hdr ''WWW-Authenticate'' hv r) = flagged r"
  "flagged (unrouted m)" "\<not> flagged (relay_cloud cr)" "\<not> flagged (credit_answer a pr)" "\<not> flagged rate_limited"
  "\<not> flagged cooldown_response" "\<not> flagged (insufficient n q)" "\<not> flagged no_provisioning"
  "\<not> flagged (key_answer env a p c rec x)"
  by (auto simp: flagged_def write_json_def json_error_def internal_error_def set_hdr_def unrouted_def unrouted_header_def
      credits_header_def relay_cloud_def credit_answer_def rate_limited_def cooldown_response_def insufficient_def
      no_provisioning_def key_answer_def)

lemma credit_balance_unflagged: "\<not> flagged (fst (serve_credit_balance env req app c st))"
  by (simp add: serve_credit_balance_def answer_def Let_def case_prod_beta split: option.split sum.split)

lemma provision_unflagged: "\<not> flagged (fst (serve_provision env app p c ip st))"
  by (simp add: serve_provision_def answer_def Let_def case_prod_beta split: option.split sum.split)

lemma key_unflagged: "\<not> flagged (fst (serve_key env app p c st))"
  by (simp add: serve_key_def answer_def split: option.split sum.split)

lemma rotate_unflagged: "\<not> flagged (fst (serve_rotate env app p c st))"
  by (simp add: serve_rotate_def answer_def Let_def case_prod_beta split: option.split sum.split)

lemma balance_unflagged: "\<not> flagged (fst (serve_balance env app c st))"
  by (simp add: serve_balance_def answer_def Let_def case_prod_beta split: option.split sum.split)

lemma push_unflagged: "\<not> flagged (fst (serve_push env app p pr c body st))"
proof -
  have r: "\<not> flagged (fst (push_reserved env ps app pr c cost spec art st))" for ps cost spec art st
    by (simp add: push_reserved_def Let_def case_prod_beta split: prod.split sum.split)
  have "\<not> flagged (fst (push_charged env ps app p pr c spec art st))" for ps spec art st
    by (simp add: push_charged_def answer_def Let_def case_prod_beta r split: option.split sum.split bool.split prod.split)
  then show ?thesis by (simp add: serve_push_def answer_def Let_def case_prod_beta split: option.split)
qed

lemma list_unflagged: "\<not> flagged (fst (serve_cloud_list env pr c st))"
  by (simp add: serve_cloud_list_def split: prod.split sum.split)

lemma provisioned_unflagged: "\<not> flagged (fst (serve_provisioned env req app p pr mp sc body st))"
  by (simp add: serve_provisioned_def answer_def provision_unflagged key_unflagged rotate_unflagged balance_unflagged
      push_unflagged list_unflagged split: option.split)

lemma forward_unflagged: "\<not> flagged (fst (forward_call env req app c mp body cost b st))"
proof -
  have "\<not> flagged (with_credits_header env app c s \<lparr>rs_status = n, rs_headers = [(''Content-Type'', json_type)], rs_body = x\<rparr>)" for s n x
    by (simp add: with_credits_header_def split: option.split sum.split)
      (simp add: flagged_def unrouted_header_def)
  then show ?thesis
    by (simp add: forward_call_def answer_def Let_def case_prod_beta split: option.split)
qed

lemma caller_unflagged: "\<not> flagged (fst (serve_caller env req app c mp body st))"
proof -
  have "\<not> flagged x" if "fst (reserve_credit env req app c mp s) = Inl x" for x s
    using that by (auto simp: reserve_credit_def Let_def case_prod_beta split: if_splits option.splits sum.splits bool.splits)
  then have "\<not> flagged (fst (serve_admitted env req app c mp body st))"
    by (simp add: serve_admitted_def answer_def Let_def case_prod_beta forward_unflagged split: sum.split)
  then show ?thesis by (simp add: serve_caller_def answer_def credit_balance_unflagged)
qed

lemma app_unflagged: "\<not> flagged (fst (serve_app env req app mp st))"
  by (simp add: serve_app_def answer_def Let_def provisioned_unflagged caller_unflagged require_access_key_def
      split: option.split sum.split)

text \<open>Observation: With a sink, a request outside the gateway prefix is logged exactly when its path names an
  application of the registry; the event then names that application and carries the status and the
  number of bytes the caller got.\<close>

theorem logged_iff_routed:
  assumes "\<not> has_prefix ''/gw/'' (rq_path req)"
    and "with_access_log (serve_http env reg) broker True start stop req st = (ev, resp, log0, st')"
  shows "(ev \<noteq> None \<longleftrightarrow> (\<exists>appID rest app. cut_at (CHR ''/'') (trim_prefix ''/'' (rq_path req)) = Some (appID, rest) \<and>
       appID \<noteq> [] \<and> map_of reg appID = Some app)) \<and>
    (\<forall>e. ev = Some e \<longrightarrow> map_of reg (ev_app_id e) \<noteq> None \<and> ev_resp_bytes e = int (length (rs_body resp)) \<and>
       (rs_status resp \<noteq> 0 \<longrightarrow> ev_status e = rs_status resp))"
proof -
  let ?o = "serve_http env reg req st"
  let ?routed = "\<exists>appID rest app. cut_at (CHR ''/'') (trim_prefix ''/'' (rq_path req)) = Some (appID, rest) \<and>
       appID \<noteq> [] \<and> map_of reg appID = Some app"
  have fl: "flagged (fst ?o) \<longleftrightarrow> \<not> ?routed"
    by (auto simp: serve_http_def answer_def registry_get_def app_unflagged split: option.split)
  have one: "flagged (fst ?o) \<Longrightarrow> map_of (rs_headers (fst ?o)) unrouted_header = Some ''1''"
    by (auto simp: serve_http_def answer_def unrouted_def set_hdr_def app_unflagged split: option.splits if_splits)
  have resp: "resp = fst ?o" using assms by (auto simp: with_access_log_def Let_def split: prod.splits if_splits)
  have rc: "sr_nbytes (record_calls (writer_calls r)) = int (length (rs_body r))"
    "rs_status r \<noteq> 0 \<Longrightarrow> sr_status (record_calls (writer_calls r)) = rs_status r" for r
    by (simp_all add: record_calls_def writer_calls_def recorder_step_def)
  show ?thesis
  proof (cases ?routed)
    case True
    with fl have "\<not> flagged (fst ?o)" by blast
    then have nf: "map_of (rs_headers resp) unrouted_header = None" by (simp add: flagged_def resp)
    with True assms resp rc show ?thesis
      by (auto simp: with_access_log_def Let_def app_id_from_path_def split: prod.splits)
  next
    case False
    with fl have "flagged (fst ?o)" by blast
    with one have "map_of (rs_headers resp) unrouted_header = Some ''1''" by (simp add: resp)
    with False assms resp have "ev = None" by (auto simp: with_access_log_def Let_def split: prod.splits)
    with False show ?thesis by simp
  qed
qed

theorem logged_iff_routed_witness:
  "map_option ev_app_id (fst (with_access_log (serve_http demo_env [(''a'', credit_entry)]) ''b'' True 0 5000000
      (demo_request ''GET'' ''/a/v1/x/7'' []) demo_state)) = Some ''a'' \<and>
   fst (with_access_log (serve_http demo_env [(''a'', credit_entry)]) ''b'' True 0 5000000 (demo_request ''GET'' ''/zz/x'' []) demo_state) = None"
proof -
  have p: "\<not> has_prefix ''/gw/'' (rq_path (demo_request ''GET'' ''/zz/x'' []))"
    "cut_at (CHR ''/'') (trim_prefix ''/'' (rq_path (demo_request ''GET'' ''/zz/x'' []))) = Some (''zz'', ''x'')" by code_simp+
  obtain ev resp log0 st' where w: "with_access_log (serve_http demo_env [(''a'', credit_entry)]) ''b'' True 0 5000000
      (demo_request ''GET'' ''/zz/x'' []) demo_state = (ev, resp, log0, st')" by (metis prod.exhaust)
  from logged_iff_routed[OF p(1) w] p(2) have "ev = None" by simp
  moreover have "map_option ev_app_id (fst (with_access_log (serve_http demo_env [(''a'', credit_entry)]) ''b'' True 0 5000000
      (demo_request ''GET'' ''/a/v1/x/7'' []) demo_state)) = Some ''a''" by code_simp
  ultimately show ?thesis using w by simp
qed

end
