(* ===== verification/Json_Print.thy ===== *)
theory Json_Print
  imports Json_Struct
begin

text \<open>
  What encoding/json writes, it reads back: the writer's text of a value is decoded to that value
  with the members of its objects in the order of their names.
\<close>

section \<open>Strings\<close>

lemma hex_val_digit: "n < 16 \<Longrightarrow> hex_val (hex_digit n) = Some n"
  by (cases "n < 10") (simp_all add: hex_val_def hex_digit_def is_digit_def byte_def)

lemma lex_unicode_low:
  assumes "byte c < 128"
  shows "lex_unicode (CHR ''0'' # CHR ''0'' # hex_digit (byte c div 16) # hex_digit (byte c mod 16) # s) = Some ([c], 5)"
proof -
  have "hex_val (CHR ''0'') = Some 0" by code_simp
  moreover have "byte c div 16 < 16" "byte c mod 16 < 16" using assms by simp_all
  ultimately have "hex4 (CHR ''0'') (CHR ''0'') (hex_digit (byte c div 16)) (hex_digit (byte c mod 16)) = Some (byte c)"
    by (simp add: hex4_def hex_val_digit)
  with assms show ?thesis by (simp add: lex_unicode_def is_surrogate_def utf8_encode_def)
qed

lemma simple_escapes:
  "simple_escape (CHR 0x22) = Some (CHR 0x22)" "simple_escape (CHR 0x5C) = Some (CHR 0x5C)"
  "simple_escape (CHR ''b'') = Some (CHR 0x08)" "simple_escape (CHR ''f'') = Some (CHR 0x0C)"
  "simple_escape (CHR ''n'') = Some (CHR 0x0A)" "simple_escape (CHR ''r'') = Some (CHR 0x0D)"
  "simple_escape (CHR ''t'') = Some (CHR 0x09)"
  by (simp_all add: simple_escape_def)

lemma lex_string_escape: "lex_string (json_escape c @ s) = prepend [c] (lex_string s)"
proof -
  have e: "lex_string (CHR 0x5C # x # s) = prepend [d] (lex_string s)" if "simple_escape x = Some d" "x \<noteq> CHR ''u''" for x d
    using that by (simp add: lex_escape_def)
  have low: "byte (CHR ''<'') = 60" "byte (CHR ''>'') = 62" "byte (CHR ''&'') = 38" by (simp_all add: byte_def)
  let ?named = "{CHR 0x22, CHR 0x5C, CHR 0x08, CHR 0x0C, CHR 0x0A, CHR 0x0D, CHR 0x09}"
  define hex where "hex \<longleftrightarrow> byte c < 32 \<or> c = CHR ''<'' \<or> c = CHR ''>'' \<or> c = CHR ''&''"
  consider (named) "c \<in> ?named" | (u) "c \<notin> ?named" hex | (plain) "c \<notin> ?named" "\<not> hex" by blast
  then show ?thesis
  proof cases
    case named
    note es = simple_escapes[THEN e]
    from named show ?thesis
      by (elim insertE emptyE; hypsubst; simp add: json_escape_def es del: lex_string.simps)
  next
    case u
    from u(2)[unfolded hex_def] have "byte c < 128" by (elim disjE) (simp_all add: low)
    note lx = lex_unicode_low[OF this, of s]
    have esc: "json_escape c @ s =
        CHR 0x5C # CHR ''u'' # CHR ''0'' # CHR ''0'' # hex_digit (byte c div 16) # hex_digit (byte c mod 16) # s"
      using u hex_def unfolding json_escape_def by simp
    show ?thesis unfolding esc by (simp add: lex_escape_def lx)
  next
    case plain
    then have "json_escape c = [c]" using hex_def unfolding json_escape_def by simp
    with plain hex_def show ?thesis by simp
  qed
qed

lemma prepend_Some_eq [simp]: "prepend p (Some (a, b)) = Some (p @ a, b)"
  by (simp add: prepend_def)

lemma lex_quoted: "lex_string (concat (map json_escape s) @ CHR 0x22 # r) = Some (s, r)"
  by (induction s) (simp_all add: lex_string_escape)

lemma json_quote_inject: "json_quote s @ a = json_quote t @ b \<longleftrightarrow> s = t \<and> a = b"
proof
  assume "json_quote s @ a = json_quote t @ b"
  then have "lex_string (concat (map json_escape s) @ CHR 0x22 # a) = lex_string (concat (map json_escape t) @ CHR 0x22 # b)"
    by (simp only: json_quote_def append_Cons append_assoc list.inject append_Nil)
  then show "s = t \<and> a = b" by (simp only: lex_quoted option.inject prod.inject)
qed simp

section \<open>Numbers\<close>

text \<open>A literal as the lexer takes it; what may follow a value in a text.\<close>

definition number_ok :: "string \<Rightarrow> bool" where
  "number_ok t \<longleftrightarrow> lex_number t = Some (t, [])"

definition ends_value :: "string \<Rightarrow> bool" where
  "ends_value r \<longleftrightarrow> r = [] \<or> hd r \<in> set '',]}:'' \<or> json_ws (hd r)"

lemma ends_value_not: "ends_value (c # r) \<Longrightarrow> \<not> is_digit c \<and> c \<notin> set ''.eE''"
  by (auto simp: ends_value_def json_ws_def is_digit_def)

lemma takeWhile_ends: "ends_value r \<Longrightarrow> dropWhile is_digit s = q \<Longrightarrow>
   takeWhile is_digit (s @ r) = takeWhile is_digit s \<and> dropWhile is_digit (s @ r) = q @ r"
proof (induction s)
  case Nil
  then show ?case using ends_value_not by (cases r) auto
qed (auto split: if_splits)

lemma lex_int_ends: "ends_value r \<Longrightarrow> lex_int s = Some (t, q) \<Longrightarrow> lex_int (s @ r) = Some (t, q @ r)"
  using takeWhile_ends[of r s q] by (auto simp: lex_int_def split: list.splits if_splits)

lemma lex_frac_ends: "ends_value r \<Longrightarrow> lex_frac s = Some (t, q) \<Longrightarrow> lex_frac (s @ r) = Some (t, q @ r)"
proof (cases s)
  case Nil
  assume "ends_value r" "lex_frac s = Some (t, q)"
  then show ?thesis using Nil ends_value_not by (cases r) (auto simp: lex_frac_def)
next
  case (Cons c s')
  assume "ends_value r" "lex_frac s = Some (t, q)"
  then show ?thesis using Cons takeWhile_ends[of r s' q] by (auto simp: lex_frac_def Let_def split: if_splits)
qed

lemma lex_exp_ends: "ends_value r \<Longrightarrow> lex_exp s = Some (t, q) \<Longrightarrow> lex_exp (s @ r) = Some (t, q @ r)"
proof (cases s)
  case Nil
  assume "ends_value r" "lex_exp s = Some (t, q)"
  then show ?thesis using Nil ends_value_not by (cases r) (auto simp: lex_exp_def)
next
  case (Cons c s')
  assume "ends_value r" "lex_exp s = Some (t, q)"
  then show ?thesis using Cons takeWhile_ends[of r s' q] takeWhile_ends[of r "tl s'" q]
    by (cases s') (auto simp: lex_exp_def Let_def split: if_splits)
qed

definition number_sign :: "string \<Rightarrow> string \<times> string" where
  "number_sign s = (case s of c # r \<Rightarrow> if c = CHR ''-'' then ([c], r) else ([], s) | [] \<Rightarrow> ([], []))"

lemma lex_number_sign:
  "lex_number s =
     (case number_sign s of (sg, r) \<Rightarrow>
        case lex_int r of None \<Rightarrow> None
        | Some (i, r1) \<Rightarrow> (case lex_frac r1 of None \<Rightarrow> None
            | Some (f, r2) \<Rightarrow> (case lex_exp r2 of None \<Rightarrow> None
               | Some (e, r3) \<Rightarrow> Some (sg @ i @ f @ e, r3))))"
  by (simp add: lex_number_def number_sign_def)

lemma number_sign_append: "s \<noteq> [] \<Longrightarrow> number_sign s = (sg, q) \<Longrightarrow> number_sign (s @ r) = (sg, q @ r)"
  by (cases s) (auto simp: number_sign_def split: if_splits)

lemma number_sign_Nil: "lex_number [] = None"
  by (simp add: lex_number_sign number_sign_def lex_int_def)

lemma lex_number_ends:
  assumes "ends_value r" "number_ok t"
  shows "lex_number (t @ r) = Some (t, r)"
proof -
  obtain sg q where s: "number_sign t = (sg, q)" by (cases "number_sign t")
  from assms(2) s obtain i r1 f r2 e where l: "lex_int q = Some (i, r1)" "lex_frac r1 = Some (f, r2)" "lex_exp r2 = Some (e, [])"
    "sg @ i @ f @ e = t"
    by (auto simp: number_ok_def lex_number_sign split: option.splits)
  have "t \<noteq> []" using assms(2) number_sign_Nil by (auto simp: number_ok_def)
  from number_sign_append[OF this s] l
  show ?thesis
    by (simp add: lex_number_sign lex_int_ends[OF assms(1)] lex_frac_ends[OF assms(1)] lex_exp_ends[OF assms(1)])
qed

lemma number_head: "number_ok t \<Longrightarrow> \<exists>c s. t = c # s \<and> (is_digit c \<or> c = CHR ''-'')"
  by (cases t) (auto simp: number_ok_def lex_number_def lex_int_def is_digit_def split: if_splits)

section \<open>Values\<close>

fun printable :: "json \<Rightarrow> bool" where
  "printable (JNum t) = number_ok t"
| "printable (JArr xs) = list_all printable xs"
| "printable (JObj kvs) = list_all (\<lambda>(_, v). printable v) kvs"
| "printable _ = True"

fun json_ordered :: "json \<Rightarrow> json" where
  "json_ordered (JArr xs) = JArr (map json_ordered xs)"
| "json_ordered (JObj kvs) = JObj (sort_members (map (\<lambda>(k, v). (k, json_ordered v)) kvs))"
| "json_ordered v = v"

lemma insert_member_map:
  "insert_member (k, f k v) (map (\<lambda>(k, v). (k, f k v)) ms) = map (\<lambda>(k, v). (k, f k v)) (insert_member (k, v) ms)"
  by (induction ms) auto

lemma sort_members_map: "sort_members (map (\<lambda>(k, v). (k, f k v)) ms) = map (\<lambda>(k, v). (k, f k v)) (sort_members ms)"
  by (induction ms) (auto simp: sort_members_def insert_member_map)

lemma insert_member_elems: "set (insert_member x ms) = insert x (set ms)"
  by (induction ms) auto

lemma sort_members_elems: "set (sort_members ms) = set ms"
  by (induction ms) (auto simp: sort_members_def insert_member_elems)

definition reads_back :: "json \<Rightarrow> bool" where
  "reads_back v \<longleftrightarrow> (\<forall>n r. ends_value r \<longrightarrow> 2 * length (json_text v @ r) < n \<longrightarrow>
     parse_value n (json_text v @ r) = Some (json_ordered v, r))"

lemma reads_backD:
  "reads_back v \<Longrightarrow> ends_value r \<Longrightarrow> 2 * length (json_text v @ r) < n \<Longrightarrow>
   parse_value n (json_text v @ r) = Some (json_ordered v, r)"
  unfolding reads_back_def by blast

lemma seps_end [simp]: "ends_value (CHR '','' # r)" "ends_value (CHR '']'' # r)" "ends_value (CHR ''}'' # r)"
  by (simp_all add: ends_value_def)

lemma seps_not_ws [simp]: "skip_ws (CHR '','' # r) = CHR '','' # r" "skip_ws (CHR '']'' # r) = CHR '']'' # r"
  "skip_ws (CHR ''}'' # r) = CHR ''}'' # r" "skip_ws (CHR '':'' # r) = CHR '':'' # r"
  "skip_ws (CHR 0x22 # r) = CHR 0x22 # r" "skip_ws (CHR ''['' # r) = CHR ''['' # r" "skip_ws (CHR ''{'' # r) = CHR ''{'' # r"
  by (simp_all add: skip_ws_def json_ws_def)

lemma elems_read_back:
  "xs \<noteq> [] \<Longrightarrow> list_all reads_back xs \<Longrightarrow>
   2 * length (join_on (CHR '','') (map json_text xs) @ CHR '']'' # r) + 1 < n \<Longrightarrow>
   parse_elems n (join_on (CHR '','') (map json_text xs) @ CHR '']'' # r) = Some (map json_ordered xs, r)"
proof (induction xs arbitrary: n)
  case (Cons x xs)
  then obtain m where n: "n = Suc m" by (cases n) auto
  show ?case
  proof (cases xs)
    case Nil
    with Cons.prems n reads_backD[of x "CHR '']'' # r" m] show ?thesis by simp
  next
    case (Cons y ys)
    let ?rest = "join_on (CHR '','') (map json_text xs) @ CHR '']'' # r"
    have t: "join_on (CHR '','') (map json_text (x # xs)) @ CHR '']'' # r = json_text x @ CHR '','' # ?rest"
      using Cons by simp
    have "parse_value m (json_text x @ CHR '','' # ?rest) = Some (json_ordered x, CHR '','' # ?rest)"
      using Cons.prems n t by (intro reads_backD) simp_all
    moreover have "parse_elems m ?rest = Some (map json_ordered xs, r)"
      using Cons.prems n t Cons by (intro Cons.IH) simp_all
    ultimately show ?thesis unfolding t n by simp
  qed
qed simp

abbreviation member_text :: "string \<times> json \<Rightarrow> string" where
  "member_text m \<equiv> json_quote (fst m) @ CHR '':'' # json_text (snd m)"

lemma members_read_back:
  "ms \<noteq> [] \<Longrightarrow> list_all (\<lambda>m. reads_back (snd m)) ms \<Longrightarrow>
   2 * length (join_on (CHR '','') (map member_text ms) @ CHR ''}'' # r) + 1 < n \<Longrightarrow>
   parse_members n (join_on (CHR '','') (map member_text ms) @ CHR ''}'' # r) =
     Some (map (\<lambda>(k, v). (k, json_ordered v)) ms, r)"
proof (induction ms arbitrary: n)
  case (Cons m ms)
  obtain k v where m: "m = (k, v)" by (cases m)
  obtain n' where n: "n = Suc n'" using Cons.prems(3) by (cases n) auto
  have key: "lex_string (concat (map json_escape k) @ CHR 0x22 # q) = Some (k, q)" for q by (rule lex_quoted)
  show ?case
  proof (cases ms)
    case Nil
    with Cons.prems n m reads_backD[of v "CHR ''}'' # r" n'] key show ?thesis by (simp add: json_quote_def)
  next
    case (Cons m' ms')
    let ?rest = "join_on (CHR '','') (map member_text ms) @ CHR ''}'' # r"
    have t: "join_on (CHR '','') (map member_text (m # ms)) @ CHR ''}'' # r =
        json_quote k @ CHR '':'' # json_text v @ CHR '','' # ?rest"
      using Cons m by simp
    have "parse_value n' (json_text v @ CHR '','' # ?rest) = Some (json_ordered v, CHR '','' # ?rest)"
      using Cons.prems n t m by (intro reads_backD) simp_all
    moreover have "parse_members n' ?rest = Some (map (\<lambda>(k, v). (k, json_ordered v)) ms, r)"
      using Cons.prems n t Cons by (intro Cons.IH) simp_all
    ultimately show ?thesis unfolding t n using m key by (simp add: json_quote_def)
  qed
qed simp

lemma member_texts:
  "map snd (sort_members (map (\<lambda>(k, v). (k, json_quote k @ CHR '':'' # json_text v)) kvs)) = map member_text (sort_members kvs)"
  by (simp add: sort_members_map case_prod_beta comp_def)

lemma text_head: "printable v \<Longrightarrow> \<exists>c s. json_text v = c # s \<and> \<not> json_ws c \<and> c \<noteq> CHR '']''"
proof (cases v)
  case (JNum t)
  assume "printable v"
  then show ?thesis using JNum number_head[of t] by (auto simp: is_digit_def json_ws_def)
qed (auto simp: json_quote_def json_ws_def)

lemma joined_head: "xs \<noteq> [] \<Longrightarrow> list_all printable xs \<Longrightarrow>
   \<exists>c s. join_on (CHR '','') (map json_text xs) @ q = c # s \<and> \<not> json_ws c \<and> c \<noteq> CHR '']''"
proof (cases xs)
  case (Cons x ys)
  assume "list_all printable xs"
  then obtain c s where "json_text x = c # s" "\<not> json_ws c" "c \<noteq> CHR '']''" using Cons text_head[of x] by auto
  then show ?thesis using Cons by (cases ys) auto
qed simp

lemma value_reads_back: "printable v \<Longrightarrow> reads_back v"
proof (induction v)
  case JNull
  show ?case unfolding reads_back_def
  proof (intro allI impI)
    fix n r assume "2 * length (json_text JNull @ r) < n"
    then obtain m where "n = Suc m" by (cases n) auto
    then show "parse_value n (json_text JNull @ r) = Some (json_ordered JNull, r)"
      by (simp add: skip_ws_def json_ws_def has_prefix_def)
  qed
next
  case (JBool b)
  show ?case unfolding reads_back_def
  proof (intro allI impI)
    fix n r assume "2 * length (json_text (JBool b) @ r) < n"
    then obtain m where "n = Suc m" by (cases n) auto
    then show "parse_value n (json_text (JBool b) @ r) = Some (json_ordered (JBool b), r)"
      by (simp add: skip_ws_def json_ws_def has_prefix_def)
  qed
next
  case (JNum t)
  show ?case unfolding reads_back_def
  proof (intro allI impI)
    fix n r assume r: "ends_value r" "2 * length (json_text (JNum t) @ r) < n"
    then obtain m where n: "n = Suc m" by (cases n) auto
    obtain c s where t: "t = c # s" "is_digit c \<or> c = CHR ''-''" using JNum number_head[of t] by auto
    then have "c \<notin> set ''{[tfn'' \<and> c \<noteq> CHR 0x22 \<and> \<not> json_ws c" by (auto simp: is_digit_def json_ws_def)
    with n t lex_number_ends[OF r(1), of t] JNum show "parse_value n (json_text (JNum t) @ r) = Some (json_ordered (JNum t), r)"
      by (simp add: skip_ws_def has_prefix_def)
  qed
next
  case (JStr s)
  show ?case unfolding reads_back_def
  proof (intro allI impI)
    fix n r assume "2 * length (json_text (JStr s) @ r) < n"
    then obtain m where "n = Suc m" by (cases n) auto
    then show "parse_value n (json_text (JStr s) @ r) = Some (json_ordered (JStr s), r)"
      by (simp add: json_quote_def lex_quoted)
  qed
next
  case (JArr xs)
  show ?case unfolding reads_back_def
  proof (intro allI impI)
    fix n r assume n0: "2 * length (json_text (JArr xs) @ r) < n"
    then obtain m where n: "n = Suc m" by (cases n) auto
    have rb: "list_all reads_back xs" using JArr by (auto simp: list_all_iff)
    show "parse_value n (json_text (JArr xs) @ r) = Some (json_ordered (JArr xs), r)"
    proof (cases "xs = []")
      case True
      with n show ?thesis by simp
    next
      case False
      let ?t = "join_on (CHR '','') (map json_text xs) @ CHR '']'' # r"
      obtain c s where c: "?t = c # s" "\<not> json_ws c" "c \<noteq> CHR '']''"
        using joined_head[OF False, of "CHR '']'' # r"] JArr.prems by auto
      have "parse_elems m ?t = Some (map json_ordered xs, r)"
        using n0 n by (intro elems_read_back[OF False rb]) simp
      moreover have "json_text (JArr xs) @ r = CHR ''['' # ?t" by simp
      moreover have "skip_ws ?t = c # s" using c by (simp add: skip_ws_def)
      ultimately show ?thesis using c(3) n by simp
    qed
  qed
next
  case (JObj kvs)
  let ?ms = "sort_members kvs"
  have whole: "json_text (JObj kvs) @ r = CHR ''{'' # join_on (CHR '','') (map member_text ?ms) @ CHR ''}'' # r" for r
    by (simp add: member_texts)
  have "json_ordered (JObj kvs) = JObj (map (\<lambda>(k, v). (k, json_ordered v)) ?ms)" by (simp add: sort_members_map)
  note ord = this
  show ?case unfolding reads_back_def
  proof (intro allI impI)
    fix n r assume n0: "2 * length (json_text (JObj kvs) @ r) < n"
    then obtain m where n: "n = Suc m" by (cases n) auto
    have rb: "list_all (\<lambda>m. reads_back (snd m)) ?ms"
      using JObj by (fastforce simp: list_all_iff sort_members_elems)
    show "parse_value n (json_text (JObj kvs) @ r) = Some (json_ordered (JObj kvs), r)"
    proof (cases "?ms = []")
      case True
      with n show ?thesis unfolding whole ord by simp
    next
      case False
      let ?t = "join_on (CHR '','') (map member_text ?ms) @ CHR ''}'' # r"
      obtain s where c: "?t = CHR 0x22 # s"
        using False by (cases ?ms; cases "tl ?ms") (auto simp: json_quote_def)
      have "parse_members m ?t = Some (map (\<lambda>(k, v). (k, json_ordered v)) ?ms, r)"
        using n0 n unfolding whole by (intro members_read_back[OF False rb]) simp
      with c n show ?thesis unfolding whole ord by simp
    qed
  qed
qed

lemma text_decodes: "printable v \<Longrightarrow> ends_value r \<Longrightarrow> raw_decode (json_text v @ r) = Some (json_ordered v, r)"
  unfolding raw_decode_def by (rule reads_backD[OF value_reads_back]) simp_all

text \<open>Observation: What the writer writes, the reader reads: the text of any value whose number literals are
  well-formed decodes to that value with every object's members in name order, and the reader stops
  exactly at what follows the value.\<close>

theorem json_roundtrip:
  assumes "printable v" "ends_value r"
  shows "raw_decode (json_text v @ r) = Some (json_ordered v, r)"
  using assms by (rule text_decodes)

theorem json_roundtrip_witness:
  "raw_decode (json_text (JObj [(''b'', JArr [JNum ''-1.5e3'', JNull]), (''a'', JStr [CHR 0x0A, CHR 0x22])]) @ '' x'') =
     Some (JObj [(''a'', JStr [CHR 0x0A, CHR 0x22]), (''b'', JArr [JNum ''-1.5e3'', JNull])], '' x'')"
proof -
  have "printable (JObj [(''b'', JArr [JNum ''-1.5e3'', JNull]), (''a'', JStr [CHR 0x0A, CHR 0x22])])" "ends_value '' x''"
    by code_simp+
  from json_roundtrip[OF this] show ?thesis by (simp add: sort_members_def byte_def)
qed

lemma raw_doc_text: "printable v \<Longrightarrow> raw_doc (json_text v @ [CHR 0x0A]) = Some (json_ordered v)"
  by (simp add: raw_doc_def text_decodes ends_value_def json_ws_def skip_ws_def)

end
