(* ===== verification/Utf8.thy ===== *)
theory Utf8
  imports Json
begin

text \<open>
  Ranging over a Go string: the runes of its bytes, an invalid byte being one replacement rune of
  width one (unicode/utf8.DecodeRune).
\<close>

definition utf8_cont :: "char \<Rightarrow> bool" where
  "utf8_cont c \<longleftrightarrow> byte c div 64 = 2"

definition rune_error :: nat where "rune_error = 65533"

text \<open>The first rune and its width. The second byte's range rules out overlong forms, surrogates
  and values past U+10FFFF.\<close>

definition decode_rune :: "char \<Rightarrow> string \<Rightarrow> nat \<times> nat" where
  "decode_rune c s =
     (let b = byte c in
      if b < 128 then (b, 1)
      else if 194 \<le> b \<and> b < 224 then
        (case s of c1 # _ \<Rightarrow> if utf8_cont c1 then ((b - 192) * 64 + (byte c1 - 128), 2) else (rune_error, 1)
         | [] \<Rightarrow> (rune_error, 1))
      else if 224 \<le> b \<and> b < 240 then
        (case s of c1 # c2 # _ \<Rightarrow>
           if utf8_cont c1 \<and> utf8_cont c2 \<and> (b = 224 \<longrightarrow> 160 \<le> byte c1) \<and> (b = 237 \<longrightarrow> byte c1 < 160)
           then ((b - 224) * 4096 + (byte c1 - 128) * 64 + (byte c2 - 128), 3) else (rune_error, 1)
         | _ \<Rightarrow> (rune_error, 1))
      else if 240 \<le> b \<and> b < 245 then
        (case s of c1 # c2 # c3 # _ \<Rightarrow>
           if utf8_cont c1 \<and> utf8_cont c2 \<and> utf8_cont c3 \<and> (b = 240 \<longrightarrow> 144 \<le> byte c1) \<and> (b = 244 \<longrightarrow> byte c1 < 144)
           then ((b - 240) * 262144 + (byte c1 - 128) * 4096 + (byte c2 - 128) * 64 + (byte c3 - 128), 4)
           else (rune_error, 1)
         | _ \<Rightarrow> (rune_error, 1))
      else (rune_error, 1))"

fun runes :: "string \<Rightarrow> nat list" where
  "runes [] = []"
| "runes (c # s) = (case decode_rune c s of (u, w) \<Rightarrow> u # runes (drop (w - 1) s))"

definition of_runes :: "nat list \<Rightarrow> string" where
  "of_runes us = concat (map utf8_encode us)"

definition is_ascii :: "string \<Rightarrow> bool" where
  "is_ascii s \<longleftrightarrow> list_all (\<lambda>c. byte c < 128) s"

lemma is_ascii_simps [simp]: "is_ascii []" "is_ascii (c # s) \<longleftrightarrow> byte c < 128 \<and> is_ascii s"
  "is_ascii (s @ t) \<longleftrightarrow> is_ascii s \<and> is_ascii t"
  by (simp_all add: is_ascii_def)

lemma runes_ascii: "is_ascii s \<Longrightarrow> runes s = map byte s"
  by (induction s) (simp_all add: decode_rune_def)

lemma runes_ascii_append: "is_ascii s \<Longrightarrow> runes (s @ t) = map byte s @ runes t"
  by (induction s) (simp_all add: decode_rune_def)

lemma of_runes_ascii: "list_all (\<lambda>u. u < 128) us \<Longrightarrow> of_runes us = map char_of us"
  by (induction us) (simp_all add: of_runes_def utf8_encode_def)

lemma of_runes_bytes: "is_ascii s \<Longrightarrow> of_runes (map byte s) = s"
  by (induction s) (simp_all add: of_runes_def utf8_encode_def)

lemma cont_bounds: "utf8_cont c \<Longrightarrow> 128 \<le> byte c \<and> byte c < 192"
  using div_mult_mod_eq[of "byte c" 64] mod_less_divisor[of 64 "byte c"] by (simp add: utf8_cont_def)

text \<open>A rune below 128 stands for itself: it is a byte of the text.\<close>

lemma decode_rune_low: "decode_rune c s = (u, w) \<Longrightarrow> u < 128 \<Longrightarrow> u = byte c \<and> w = 1"
  by (auto simp: decode_rune_def Let_def rune_error_def dest!: cont_bounds split: if_splits list.splits)

end
