(* ===== verification/Blob_Store.thy ===== *)
theory Blob_Store
  imports Identity
begin

text \<open>
  internal/multipartkit/blob.go: uploads staged in chunks under a directory. The directory is a map
  from file names to contents and modification times; what a process keeps is the map of uploads in
  progress, with the bytes hashed so far standing for the rolling hash. Every operation is one step
  (the mutex). The disk may fail: a chunk may be written in part, sealing may fail at closing, at the
  metadata or at the rename; the process may die and be started again, also between the metadata and
  the rename. SHA-256 and the JSON text of a metadata file are parameters.
\<close>

section \<open>State\<close>

record blob_meta =
  bm_id :: string
  bm_file_name :: string
  bm_content_type :: string
  bm_total :: int
  bm_sha :: string
  bm_created :: gotime

record blob_env =
  be_sha256 :: "string \<Rightarrow> string"
  be_encode :: "blob_meta \<Rightarrow> string"
  be_decode :: "string \<Rightarrow> blob_meta option"

record staged =
  sg_meta :: blob_meta
  sg_closed :: bool
  sg_hashed :: string
  sg_written :: int
  sg_next :: int

record blob_file =
  bf_data :: string
  bf_mtime :: gotime

record blob_store =
  bl_files :: "blob_file gmap"
  bl_open :: "staged gmap"
  bl_max :: int
  bl_ttl :: duration

datatype blob_err =
    BlobNotFound | BlobSealed | BlobOutOfOrder int int | BlobTooLarge | BlobChecksum string string
  | BlobIncomplete "(int \<times> int) option" | BlobChunkTooBig | BlobBadId | BlobBadDeclared int int | BlobBadChecksum
  | BlobNameRequired | BlobIO

definition max_chunk_bytes :: int where "max_chunk_bytes = 524288"
definition default_max_blob_bytes :: int where "default_max_blob_bytes = 25165824"
definition default_ttl :: duration where "default_ttl = 30 * 60 * second"

definition part_path :: "string \<Rightarrow> string" where "part_path i = i @ ''.part''"
definition blob_path :: "string \<Rightarrow> string" where "blob_path i = i @ ''.blob''"
definition meta_path :: "string \<Rightarrow> string" where "meta_path i = i @ ''.meta''"

definition valid_blob_id :: "string \<Rightarrow> bool" where
  "valid_blob_id i \<longleftrightarrow> length i = 32 \<and> list_all (\<lambda>c. is_digit c \<or> (97 \<le> byte c \<and> byte c \<le> 102)) i"

definition cut_suffix :: "string \<Rightarrow> string \<Rightarrow> string option" where
  "cut_suffix suf s = (if suf = drop (length s - length suf) s then Some (take (length s - length suf) s) else None)"

section \<open>Operations\<close>

definition sweep_parts :: "blob_file gmap \<Rightarrow> blob_file gmap" where
  "sweep_parts fs = filter (\<lambda>(n, _). cut_suffix ''.part'' n = None) fs"

definition new_blob_store :: "blob_file gmap \<Rightarrow> blob_store" where
  "new_blob_store fs =
     \<lparr>bl_files = sweep_parts fs, bl_open = [], bl_max = default_max_blob_bytes, bl_ttl = default_ttl\<rparr>"

definition set_limits :: "int \<Rightarrow> duration \<Rightarrow> blob_store \<Rightarrow> blob_store" where
  "set_limits mx ttl s =
     (let s1 = (if mx > 0 then s\<lparr>bl_max := mx\<rparr> else s) in if ttl > 0 then s1\<lparr>bl_ttl := ttl\<rparr> else s1)"

text \<open>\<open>filepath.Base(filepath.Clean("/" + name))\<close>: the last component that stays when empty ones and
  dots are dropped and two dots take the one before away.\<close>

fun clean_comps :: "string list \<Rightarrow> string list \<Rightarrow> string list" where
  "clean_comps st [] = st"
| "clean_comps st (c # cs) =
     (if c = [] \<or> c = ''.'' then clean_comps st cs
      else if c = ''..'' then clean_comps (drop 1 st) cs
      else clean_comps (c # st) cs)"

definition base_name :: "string \<Rightarrow> string" where
  "base_name n = (case clean_comps [] (split_on CHR ''/'' n) of [] \<Rightarrow> ''/'' | c # _ \<Rightarrow> c)"

definition hex_char :: "char \<Rightarrow> bool" where
  "hex_char c \<longleftrightarrow> is_digit c \<or> (97 \<le> byte c \<and> byte c \<le> 102) \<or> (65 \<le> byte c \<and> byte c \<le> 70)"

definition set_file :: "string \<Rightarrow> string \<Rightarrow> gotime \<Rightarrow> blob_store \<Rightarrow> blob_store" where
  "set_file n d t s = s\<lparr>bl_files := AList.update n \<lparr>bf_data = d, bf_mtime = t\<rparr> (bl_files s)\<rparr>"

definition remove_file :: "string \<Rightarrow> blob_store \<Rightarrow> blob_store" where
  "remove_file n s = s\<lparr>bl_files := AList.delete n (bl_files s)\<rparr>"

definition file_exists :: "string \<Rightarrow> blob_store \<Rightarrow> bool" where
  "file_exists n s \<longleftrightarrow> map_of (bl_files s) n \<noteq> None"

text \<open>\<open>raw\<close> is what the random source gave (None when it failed), \<open>opens\<close> whether the staging file
  could be created besides not being there.\<close>

definition begin_blob ::
  "string \<Rightarrow> string \<Rightarrow> int \<Rightarrow> string \<Rightarrow> string option \<Rightarrow> bool \<Rightarrow> gotime \<Rightarrow> blob_store \<Rightarrow> (blob_err + blob_meta) \<times> blob_store" where
  "begin_blob fileName contentType declared sha raw opens now s =
     (let digest = to_lower (trim_space sha) in
      if trim_space fileName = [] then (Inl BlobNameRequired, s)
      else if declared \<le> 0 \<or> declared > bl_max s then (Inl (BlobBadDeclared declared (bl_max s)), s)
      else if length digest \<noteq> 64 \<or> \<not> list_all hex_char digest then (Inl BlobBadChecksum, s)
      else case raw of
        None \<Rightarrow> (Inl BlobIO, s)
      | Some bytes \<Rightarrow>
          let i = hex_encode bytes; ct = trim_space contentType;
              m = \<lparr>bm_id = i, bm_file_name = base_name (trim_space fileName),
                   bm_content_type = (if ct = [] then ''application/octet-stream'' else ct),
                   bm_total = declared, bm_sha = digest, bm_created = now\<rparr>
          in if file_exists (part_path i) s \<or> \<not> opens then (Inl BlobIO, s)
             else (Inr m, (set_file (part_path i) [] now s)
                     \<lparr>bl_open := AList.update i \<lparr>sg_meta = m, sg_closed = False, sg_hashed = [], sg_written = 0, sg_next = 0\<rparr>
                                   (bl_open s)\<rparr>))"

definition sealed_on_disk :: "string \<Rightarrow> blob_store \<Rightarrow> bool" where
  "sealed_on_disk i s \<longleftrightarrow> file_exists (blob_path i) s"

text \<open>Writing at the end of an open staging file.\<close>

definition write_part :: "string \<Rightarrow> string \<Rightarrow> gotime \<Rightarrow> blob_store \<Rightarrow> blob_store" where
  "write_part i d t s =
     (case map_of (bl_files s) (part_path i) of
        None \<Rightarrow> s
      | Some f \<Rightarrow> set_file (part_path i) (bf_data f @ d) t s)"

text \<open>\<open>fault = Some k\<close>: the disk takes the first k bytes of the chunk and fails.\<close>

definition append_chunk ::
  "string \<Rightarrow> int \<Rightarrow> string \<Rightarrow> nat option \<Rightarrow> gotime \<Rightarrow> blob_store \<Rightarrow> (int \<times> blob_err option) \<times> blob_store" where
  "append_chunk i seq data fault now s =
     (if \<not> valid_blob_id i then ((0, Some BlobBadId), s)
      else if int (length data) > max_chunk_bytes then ((0, Some BlobChunkTooBig), s)
      else case map_of (bl_open s) i of
        None \<Rightarrow> ((0, Some (if sealed_on_disk i s then BlobSealed else BlobNotFound)), s)
      | Some st \<Rightarrow>
          if seq \<noteq> sg_next st then ((sg_written st, Some (BlobOutOfOrder (sg_next st) seq)), s)
          else if sg_written st + int (length data) > bm_total (sg_meta st) then ((sg_written st, Some BlobTooLarge), s)
          else if sg_closed st then ((sg_written st, Some BlobIO), s)
          else case fault of
            Some k \<Rightarrow> ((sg_written st, Some BlobIO), write_part i (take k data) now s)
          | None \<Rightarrow>
              let st' = st\<lparr>sg_hashed := sg_hashed st @ data, sg_written := sg_written st + int (length data),
                           sg_next := sg_next st + 1\<rparr>
              in ((sg_written st', None),
                  (write_part i data now s)\<lparr>bl_open := AList.update i st' (bl_open s)\<rparr>))"

text \<open>The metadata of a sealed blob, when the bytes it describes are there.\<close>

definition read_meta :: "blob_env \<Rightarrow> string \<Rightarrow> blob_store \<Rightarrow> blob_meta option" where
  "read_meta env i s =
     (case map_of (bl_files s) (meta_path i) of
        None \<Rightarrow> None
      | Some f \<Rightarrow>
          (case be_decode env (bf_data f) of
             None \<Rightarrow> None
           | Some m \<Rightarrow>
               (case map_of (bl_files s) (blob_path i) of
                  None \<Rightarrow> None
                | Some b \<Rightarrow> if int (length (bf_data b)) \<noteq> bm_total m then None else Some m)))"

datatype seal_fault = SealOk | SealClose | SealMeta string | SealRename

definition close_part :: "string \<Rightarrow> staged \<Rightarrow> blob_store \<Rightarrow> blob_store" where
  "close_part i st s = s\<lparr>bl_open := AList.update i (st\<lparr>sg_closed := True\<rparr>) (bl_open s)\<rparr>"

definition rename_part :: "string \<Rightarrow> blob_store \<Rightarrow> blob_store" where
  "rename_part i s =
     (case map_of (bl_files s) (part_path i) of
        None \<Rightarrow> s
      | Some f \<Rightarrow> s\<lparr>bl_files := AList.update (blob_path i) f (AList.delete (part_path i) (bl_files s))\<rparr>)"

definition seal_ready :: "blob_env \<Rightarrow> staged \<Rightarrow> blob_err option" where
  "seal_ready env st =
     (if sg_written st \<noteq> bm_total (sg_meta st) then Some (BlobIncomplete (Some (sg_written st, bm_total (sg_meta st))))
      else let got = hex_encode (be_sha256 env (sg_hashed st)) in
        if got \<noteq> bm_sha (sg_meta st) then Some (BlobChecksum (bm_sha (sg_meta st)) got) else None)"

definition finalize_blob ::
  "blob_env \<Rightarrow> string \<Rightarrow> seal_fault \<Rightarrow> gotime \<Rightarrow> blob_store \<Rightarrow> (blob_err + blob_meta) \<times> blob_store" where
  "finalize_blob env i fault now s =
     (if \<not> valid_blob_id i then (Inl BlobBadId, s)
      else case map_of (bl_open s) i of
        None \<Rightarrow> (case read_meta env i s of Some m \<Rightarrow> (Inr m, s) | None \<Rightarrow> (Inl BlobNotFound, s))
      | Some st \<Rightarrow>
          (case seal_ready env st of
             Some e \<Rightarrow> (Inl e, s)
           | None \<Rightarrow>
               if sg_closed st \<or> fault = SealClose then (Inl BlobIO, close_part i st s)
               else
                 let s1 = close_part i st s;
                     s2 = set_file (meta_path i) (be_encode env (sg_meta st)) now s1
                 in case fault of
                      SealMeta partial \<Rightarrow> (Inl BlobIO, set_file (meta_path i) partial now s1)
                    | SealRename \<Rightarrow> (Inl BlobIO, remove_file (meta_path i) s2)
                    | _ \<Rightarrow> if \<not> file_exists (part_path i) s2 then (Inl BlobIO, remove_file (meta_path i) s2)
                           else (Inr (sg_meta st), (rename_part i s2)\<lparr>bl_open := AList.delete i (bl_open s)\<rparr>)))"

definition open_blob :: "blob_env \<Rightarrow> string \<Rightarrow> blob_store \<Rightarrow> blob_err + (string \<times> blob_meta)" where
  "open_blob env i s =
     (if \<not> valid_blob_id i then Inl BlobBadId
      else if map_of (bl_open s) i \<noteq> None then Inl (BlobIncomplete None)
      else case read_meta env i s of
        None \<Rightarrow> Inl BlobNotFound
      | Some m \<Rightarrow> (case map_of (bl_files s) (blob_path i) of None \<Rightarrow> Inl BlobNotFound | Some f \<Rightarrow> Inr (bf_data f, m)))"

definition abort_blob :: "string \<Rightarrow> blob_store \<Rightarrow> blob_err option \<times> blob_store" where
  "abort_blob i s =
     (if \<not> valid_blob_id i then (Some BlobBadId, s)
      else (if map_of (bl_open s) i = None \<and> \<not> sealed_on_disk i s then Some BlobNotFound else None,
            remove_file (meta_path i) (remove_file (blob_path i) (remove_file (part_path i)
              (s\<lparr>bl_open := AList.delete i (bl_open s)\<rparr>)))))"

definition stale_blobs :: "gotime \<Rightarrow> blob_store \<Rightarrow> string list" where
  "stale_blobs now s =
     (let cutoff = now - bl_ttl s;
          stale = map fst (filter (\<lambda>(_, st). bm_created (sg_meta st) < cutoff) (bl_open s))
      in stale @ List.map_filter (\<lambda>(n, f). case cut_suffix ''.blob'' n of
                     None \<Rightarrow> None
                   | Some i \<Rightarrow> if i \<in> set stale \<or> \<not> valid_blob_id i \<or> \<not> bf_mtime f < cutoff then None else Some i)
                 (bl_files s))"

definition gc_blobs :: "gotime \<Rightarrow> blob_store \<Rightarrow> nat \<times> blob_store" where
  "gc_blobs now s = (length (stale_blobs now s), fold (\<lambda>i s. snd (abort_blob i s)) (stale_blobs now s) s)"

section \<open>Runs\<close>

text \<open>What can happen to a store: its operations with their faults, a new process on the same
  directory, and a process that dies after writing the metadata (all of it or some text) and before
  the rename of a seal.\<close>

datatype blob_event =
    EvLimits int duration
  | EvBegin string string int string "string option" bool gotime
  | EvAppend string int string "nat option" gotime
  | EvFinalize string seal_fault gotime
  | EvAbort string
  | EvGC gotime
  | EvRestart
  | EvDie string "string option" gotime

definition die_sealing :: "blob_env \<Rightarrow> string \<Rightarrow> string option \<Rightarrow> gotime \<Rightarrow> blob_store \<Rightarrow> blob_store" where
  "die_sealing env i partial now s =
     (case map_of (bl_open s) i of
        None \<Rightarrow> new_blob_store (bl_files s)
      | Some st \<Rightarrow>
          if seal_ready env st \<noteq> None \<or> sg_closed st then new_blob_store (bl_files s)
          else new_blob_store (bl_files (set_file (meta_path i)
                 (case partial of Some p \<Rightarrow> p | None \<Rightarrow> be_encode env (sg_meta st)) now s)))"

fun blob_step :: "blob_env \<Rightarrow> blob_event \<Rightarrow> blob_store \<Rightarrow> blob_store" where
  "blob_step env (EvLimits mx ttl) s = set_limits mx ttl s"
| "blob_step env (EvBegin n ct declared sha raw opens now) s = snd (begin_blob n ct declared sha raw opens now s)"
| "blob_step env (EvAppend i seq d fault now) s = snd (append_chunk i seq d fault now s)"
| "blob_step env (EvFinalize i fault now) s = snd (finalize_blob env i fault now s)"
| "blob_step env (EvAbort i) s = snd (abort_blob i s)"
| "blob_step env (EvGC now) s = snd (gc_blobs now s)"
| "blob_step env EvRestart s = new_blob_store (bl_files s)"
| "blob_step env (EvDie i partial now) s = die_sealing env i partial now s"

text \<open>The random source gives 16 bytes, and never the id of a blob that is sealed.\<close>

fun minted_fresh :: "blob_event \<Rightarrow> blob_store \<Rightarrow> bool" where
  "minted_fresh (EvBegin n ct declared sha (Some raw) opens now) s =
     (length raw = 16 \<and> \<not> file_exists (blob_path (hex_encode raw)) s \<and> map_of (bl_open s) (hex_encode raw) = None)"
| "minted_fresh _ s = True"

inductive blob_reachable :: "blob_env \<Rightarrow> blob_store \<Rightarrow> bool" for env where
  fresh_dir: "blob_reachable env (new_blob_store [])"
| stepped: "blob_reachable env s \<Longrightarrow> minted_fresh ev s \<Longrightarrow> blob_reachable env (blob_step env ev s)"

section \<open>The invariant\<close>

text \<open>JSON text of a metadata record whose id and digest are plain keeps both and the size; a file name
  with stray bytes may come back changed.\<close>

definition meta_codec :: "blob_env \<Rightarrow> bool" where
  "meta_codec env \<longleftrightarrow> (\<forall>m. valid_blob_id (bm_id m) \<longrightarrow> list_all hex_char (bm_sha m) \<longrightarrow>
     (\<exists>m'. be_decode env (be_encode env m) = Some m' \<and> bm_id m' = bm_id m \<and>
           bm_total m' = bm_total m \<and> bm_sha m' = bm_sha m))"

type_synonym files = "string \<Rightarrow> blob_file option"

text \<open>The staging file holds the hashed bytes, or is longer than them after a failed write.\<close>

definition staged_ok :: "files \<Rightarrow> string \<Rightarrow> staged \<Rightarrow> bool" where
  "staged_ok F i st \<longleftrightarrow>
     valid_blob_id i \<and> bm_id (sg_meta st) = i \<and> list_all hex_char (bm_sha (sg_meta st)) \<and>
     sg_written st = int (length (sg_hashed st)) \<and> sg_written st \<le> bm_total (sg_meta st) \<and>
     F (blob_path i) = None \<and>
     (\<exists>f. F (part_path i) = Some f \<and> length (sg_hashed st) \<le> length (bf_data f) \<and>
          (length (bf_data f) = length (sg_hashed st) \<longrightarrow> bf_data f = sg_hashed st))"

definition blob_ok :: "blob_env \<Rightarrow> files \<Rightarrow> string \<Rightarrow> bool" where
  "blob_ok env F i \<longleftrightarrow>
     (\<forall>f g m. F (blob_path i) = Some f \<longrightarrow> F (meta_path i) = Some g \<longrightarrow> be_decode env (bf_data g) = Some m \<longrightarrow>
        int (length (bf_data f)) = bm_total m \<longrightarrow> hex_encode (be_sha256 env (bf_data f)) = bm_sha m)"

definition minted_name :: "string \<Rightarrow> bool" where
  "minted_name n \<longleftrightarrow> (\<exists>i. valid_blob_id i \<and> n \<in> {part_path i, blob_path i, meta_path i})"

definition inv_maps :: "blob_env \<Rightarrow> files \<Rightarrow> (string \<Rightarrow> staged option) \<Rightarrow> bool" where
  "inv_maps env F U \<longleftrightarrow>
     (\<forall>i st. U i = Some st \<longrightarrow> staged_ok F i st) \<and> (\<forall>i. blob_ok env F i) \<and> (\<forall>n \<in> dom F. minted_name n)"

definition blob_inv :: "blob_env \<Rightarrow> blob_store \<Rightarrow> bool" where
  "blob_inv env s \<longleftrightarrow> inv_maps env (map_of (bl_files s)) (map_of (bl_open s))"

lemma path_simps [simp]:
  "part_path i = part_path j \<longleftrightarrow> i = j" "blob_path i = blob_path j \<longleftrightarrow> i = j" "meta_path i = meta_path j \<longleftrightarrow> i = j"
  "part_path i \<noteq> blob_path j" "part_path i \<noteq> meta_path j" "blob_path i \<noteq> part_path j"
  "blob_path i \<noteq> meta_path j" "meta_path i \<noteq> part_path j" "meta_path i \<noteq> blob_path j"
  by (auto simp: part_path_def blob_path_def meta_path_def)

lemma minted_name_simps [simp, intro]:
  "valid_blob_id i \<Longrightarrow> minted_name (part_path i)" "valid_blob_id i \<Longrightarrow> minted_name (blob_path i)"
  "valid_blob_id i \<Longrightarrow> minted_name (meta_path i)"
  by (auto simp: minted_name_def)

lemma file_ops [simp]:
  "map_of (bl_files (set_file n d t s)) = (map_of (bl_files s))(n \<mapsto> \<lparr>bf_data = d, bf_mtime = t\<rparr>)"
  "map_of (bl_files (remove_file n s)) = (map_of (bl_files s))(n := None)"
  "bl_open (set_file n d t s) = bl_open s" "bl_open (remove_file n s) = bl_open s"
  "bl_files (s\<lparr>bl_open := U\<rparr>) = bl_files s"
  by (auto simp: set_file_def remove_file_def update_conv' delete_conv')

lemma hex_lower_chr: "n < 16 \<Longrightarrow> is_digit (hex_lower n) \<or> (97 \<le> byte (hex_lower n) \<and> byte (hex_lower n) \<le> 102)"
  by (auto simp: hex_lower_def is_digit_def byte_def)

lemma minted_valid: "length raw = 16 \<Longrightarrow> valid_blob_id (hex_encode raw)"
proof -
  have lt: "byte c div 16 < 16" "byte c mod 16 < 16" for c using byte_lt[of c] by (simp_all add: div_less_iff_less_mult)
  have "length (hex_encode raw) = 2 * length raw" for raw
    by (induction raw) (auto simp: hex_encode_def)
  moreover have "\<forall>c \<in> set (hex_encode raw). is_digit c \<or> (97 \<le> byte c \<and> byte c \<le> 102)" for raw
    using hex_lower_chr lt by (auto simp: hex_encode_def)
  ultimately show "length raw = 16 \<Longrightarrow> valid_blob_id (hex_encode raw)"
    by (simp add: valid_blob_id_def list_all_iff)
qed

section \<open>Moves that keep the invariant\<close>

lemma staged_ok_upd [simp]:
  "j \<noteq> i \<Longrightarrow> staged_ok (F(part_path i := x)) j st = staged_ok F j st"
  "j \<noteq> i \<Longrightarrow> staged_ok (F(blob_path i := x)) j st = staged_ok F j st"
  "staged_ok (F(meta_path i := x)) j st = staged_ok F j st"
  by (simp_all add: staged_ok_def)

lemma staged_ok_closed [simp]: "staged_ok F i (st\<lparr>sg_closed := b\<rparr>) = staged_ok F i st"
  by (simp add: staged_ok_def)

lemma blob_ok_upd [simp]:
  "blob_ok env (F(part_path i := x)) j = blob_ok env F j"
  "j \<noteq> i \<Longrightarrow> blob_ok env (F(blob_path i := x)) j = blob_ok env F j"
  "j \<noteq> i \<Longrightarrow> blob_ok env (F(meta_path i := x)) j = blob_ok env F j"
  by (simp_all add: blob_ok_def)

lemma blob_ok_keep:
  "blob_ok env F i \<Longrightarrow> G (meta_path i) = F (meta_path i) \<Longrightarrow> G (blob_path i) = F (blob_path i) \<Longrightarrow> blob_ok env G i"
  by (simp add: blob_ok_def)

lemma staged_okD:
  "staged_ok F i st \<Longrightarrow> valid_blob_id i" "staged_ok F i st \<Longrightarrow> F (blob_path i) = None"
  "staged_ok F i st \<Longrightarrow> bm_id (sg_meta st) = i" "staged_ok F i st \<Longrightarrow> list_all hex_char (bm_sha (sg_meta st))"
  "staged_ok F i st \<Longrightarrow> sg_written st = int (length (sg_hashed st))"
  by (auto simp: staged_ok_def)

lemma blob_ok_gone [simp]: "F (blob_path i) = None \<Longrightarrow> blob_ok env F i"
  by (simp add: blob_ok_def)

lemma inv_mapsD:
  assumes "inv_maps env F U"
  shows "U i = Some st \<Longrightarrow> staged_ok F i st" "blob_ok env F i" "F n = Some f \<Longrightarrow> minted_name n"
  using assms by (auto simp: inv_maps_def)

lemma inv_mapsI:
  "(\<And>i st. U i = Some st \<Longrightarrow> staged_ok F i st) \<Longrightarrow> (\<And>i. blob_ok env F i) \<Longrightarrow>
   (\<And>n f. F n = Some f \<Longrightarrow> minted_name n) \<Longrightarrow> inv_maps env F U"
  by (auto simp: inv_maps_def)

lemma inv_put_part:
  assumes "inv_maps env F U" "staged_ok (F(part_path i \<mapsto> f)) i st"
  shows "inv_maps env (F(part_path i \<mapsto> f)) (U(i \<mapsto> st))"
proof (rule inv_mapsI)
  fix j st'
  assume "(U(i \<mapsto> st)) j = Some st'"
  then show "staged_ok (F(part_path i \<mapsto> f)) j st'"
    using assms(2) inv_mapsD(1)[OF assms(1)] by (cases "j = i") auto
qed (use inv_mapsD(2,3)[OF assms(1)] staged_okD(1)[OF assms(2)] in \<open>auto split: if_splits\<close>)

lemma inv_put_meta:
  assumes "inv_maps env F U" "F (blob_path i) = None" "valid_blob_id i"
  shows "inv_maps env (F(meta_path i := g)) U"
proof (rule inv_mapsI)
  fix j
  show "blob_ok env (F(meta_path i := g)) j"
    using assms(2) inv_mapsD(2)[OF assms(1)] by (cases "j = i") auto
qed (use inv_mapsD(1,3)[OF assms(1)] assms(3) in \<open>auto split: if_splits\<close>)

lemma inv_drop:
  assumes "inv_maps env F U"
  shows "inv_maps env (F(part_path i := None, blob_path i := None, meta_path i := None)) (U(i := None))"
proof (rule inv_mapsI)
  fix j
  show "blob_ok env (F(part_path i := None, blob_path i := None, meta_path i := None)) j"
    using inv_mapsD(2)[OF assms] by (cases "j = i") auto
qed (use inv_mapsD(1,3)[OF assms] in \<open>auto split: if_splits\<close>)

lemma inv_seal:
  assumes "inv_maps env F U" "valid_blob_id i"
    and "blob_ok env (F(meta_path i \<mapsto> g, part_path i := None, blob_path i \<mapsto> f)) i"
  shows "inv_maps env (F(meta_path i \<mapsto> g, part_path i := None, blob_path i \<mapsto> f)) (U(i := None))"
proof (rule inv_mapsI)
  fix j
  show "blob_ok env (F(meta_path i \<mapsto> g, part_path i := None, blob_path i \<mapsto> f)) j"
    using assms(3) inv_mapsD(2)[OF assms(1)] by (cases "j = i") auto
qed (use inv_mapsD(1,3)[OF assms(1)] assms(2) in \<open>auto split: if_splits\<close>)

lemma inv_close:
  assumes "inv_maps env F U" "U i = Some st"
  shows "inv_maps env F (U(i \<mapsto> st\<lparr>sg_closed := True\<rparr>))"
  using assms inv_mapsD[OF assms(1)] by (intro inv_mapsI) (auto split: if_splits)

lemma map_of_filter_key: "map_of (filter (\<lambda>(n, _). P n) xs) n = (if P n then map_of xs n else None)"
  by (induction xs) auto

lemma cut_part [simp]:
  "cut_suffix ''.part'' (part_path i) \<noteq> None" "cut_suffix ''.part'' (blob_path i) = None"
  "cut_suffix ''.part'' (meta_path i) = None"
  by (auto simp: cut_suffix_def part_path_def blob_path_def meta_path_def)

lemma inv_restart:
  assumes "inv_maps env (map_of fs) U"
  shows "blob_inv env (new_blob_store fs)"
proof -
  have f: "map_of (bl_files (new_blob_store fs)) n = (if cut_suffix ''.part'' n = None then map_of fs n else None)" for n
    by (simp add: new_blob_store_def sweep_parts_def map_of_filter_key)
  have o: "map_of (bl_open (new_blob_store fs)) = Map.empty" by (simp add: new_blob_store_def)
  show ?thesis unfolding blob_inv_def o
  proof (rule inv_mapsI)
    fix i
    show "blob_ok env (map_of (bl_files (new_blob_store fs))) i"
      by (rule blob_ok_keep[OF inv_mapsD(2)[OF assms]]) (simp_all add: f)
  qed (use inv_mapsD(3)[OF assms] in \<open>auto simp: f split: if_splits\<close>)
qed

section \<open>Every step keeps the invariant\<close>

lemma begin_inv:
  assumes inv: "blob_inv env s" and fresh: "minted_fresh (EvBegin n ct declared sha raw opens now) s"
  shows "blob_inv env (snd (begin_blob n ct declared sha raw opens now s))"
proof (cases "fst (begin_blob n ct declared sha raw opens now s)")
  case (Inl e)
  then have "snd (begin_blob n ct declared sha raw opens now s) = s"
    by (auto simp: begin_blob_def Let_def split: if_splits option.splits)
  with inv show ?thesis by simp
next
  case (Inr m)
  then obtain bytes where raw: "raw = Some bytes" and ok: "\<not> declared \<le> 0" "list_all hex_char (bm_sha m)" "bm_total m = declared"
      "bm_id m = hex_encode bytes"
    and s': "snd (begin_blob n ct declared sha raw opens now s) = (set_file (part_path (hex_encode bytes)) [] now s)
        \<lparr>bl_open := AList.update (hex_encode bytes)
           \<lparr>sg_meta = m, sg_closed = False, sg_hashed = [], sg_written = 0, sg_next = 0\<rparr> (bl_open s)\<rparr>"
    by (auto simp: begin_blob_def Let_def split: if_splits option.splits)
  have v: "valid_blob_id (hex_encode bytes)" "map_of (bl_files s) (blob_path (hex_encode bytes)) = None"
    using fresh raw by (auto simp: minted_valid file_exists_def)
  show ?thesis
    using inv ok v unfolding s' blob_inv_def
    by (auto simp: update_conv' intro!: inv_put_part) (simp add: staged_ok_def)
qed

lemma write_part_files:
  "map_of (bl_files s) (part_path i) = Some f \<Longrightarrow>
   map_of (bl_files (write_part i d t s)) = (map_of (bl_files s))(part_path i \<mapsto> \<lparr>bf_data = bf_data f @ d, bf_mtime = t\<rparr>)"
  "bl_open (write_part i d t s) = bl_open s"
  by (auto simp: write_part_def split: option.splits)

lemma append_inv:
  assumes inv: "blob_inv env s"
  shows "blob_inv env (snd (append_chunk i seq d fault now s))"
proof (cases "snd (append_chunk i seq d fault now s) = s")
  case False
  then obtain st where st: "map_of (bl_open s) i = Some st"
    and room: "sg_written st + int (length d) \<le> bm_total (sg_meta st)"
    by (auto simp: append_chunk_def Let_def split: if_splits option.splits)
  have ok: "staged_ok (map_of (bl_files s)) i st" using inv st inv_mapsD(1) blob_inv_def by blast
  then obtain f where f: "map_of (bl_files s) (part_path i) = Some f" "length (sg_hashed st) \<le> length (bf_data f)"
    "length (bf_data f) = length (sg_hashed st) \<longrightarrow> bf_data f = sg_hashed st"
    by (auto simp: staged_ok_def)
  note w = write_part_files(1)[OF f(1)] write_part_files(2)
  show ?thesis
  proof (cases fault)
    case None
    define st' where "st' = st\<lparr>sg_hashed := sg_hashed st @ d, sg_written := sg_written st + int (length d), sg_next := sg_next st + 1\<rparr>"
    have "snd (append_chunk i seq d fault now s) = (write_part i d now s)\<lparr>bl_open := AList.update i st' (bl_open s)\<rparr>"
      using False st None by (auto simp: append_chunk_def Let_def st'_def split: if_splits)
    moreover have "staged_ok ((map_of (bl_files s))(part_path i \<mapsto> \<lparr>bf_data = bf_data f @ d, bf_mtime = now\<rparr>)) i st'"
      using ok f room by (simp add: staged_ok_def st'_def)
    ultimately show ?thesis
      using inv by (auto simp: blob_inv_def w update_conv' intro: inv_put_part)
  next
    case (Some k)
    have "snd (append_chunk i seq d fault now s) = write_part i (take k d) now s"
      using False st Some by (auto simp: append_chunk_def Let_def split: if_splits)
    moreover have "staged_ok ((map_of (bl_files s))(part_path i \<mapsto> \<lparr>bf_data = bf_data f @ take k d, bf_mtime = now\<rparr>)) i st"
      using ok f by (auto simp: staged_ok_def min_def split: if_splits)
    then have "inv_maps env ((map_of (bl_files s))(part_path i \<mapsto> \<lparr>bf_data = bf_data f @ take k d, bf_mtime = now\<rparr>))
        ((map_of (bl_open s))(i \<mapsto> st))"
      using inv by (auto simp: blob_inv_def intro: inv_put_part)
    ultimately show ?thesis using st by (simp add: blob_inv_def w map_upd_triv)
  qed
qed (use inv in simp)

lemma seal_ready_digest:
  "seal_ready env st = None \<longleftrightarrow> sg_written st = bm_total (sg_meta st) \<and>
     hex_encode (be_sha256 env (sg_hashed st)) = bm_sha (sg_meta st)"
  by (auto simp: seal_ready_def Let_def)

lemma sealed_blob_ok:
  assumes "meta_codec env" and ok: "staged_ok F i st" and ready: "seal_ready env st = None"
    and f: "F (part_path i) = Some f"
  shows "blob_ok env (F(meta_path i \<mapsto> \<lparr>bf_data = be_encode env (sg_meta st), bf_mtime = now\<rparr>,
                        part_path i := None, blob_path i \<mapsto> f)) i"
proof -
  obtain m' where m': "be_decode env (be_encode env (sg_meta st)) = Some m'"
    "bm_total m' = bm_total (sg_meta st)" "bm_sha m' = bm_sha (sg_meta st)"
    using assms(1) staged_okD[OF ok] unfolding meta_codec_def by metis
  have "bf_data f = sg_hashed st" if "int (length (bf_data f)) = bm_total (sg_meta st)"
    using that ok ready f by (auto simp: staged_ok_def seal_ready_digest)
  with m' ready show ?thesis by (auto simp: blob_ok_def seal_ready_digest)
qed

lemma finalize_inv:
  assumes codec: "meta_codec env" and inv: "blob_inv env s"
  shows "blob_inv env (snd (finalize_blob env i fault now s))"
proof (cases "snd (finalize_blob env i fault now s) = s")
  case False
  then obtain st where st: "map_of (bl_open s) i = Some st" and ready: "seal_ready env st = None"
    by (auto simp: finalize_blob_def split: if_splits option.splits)
  let ?F = "map_of (bl_files s)" and ?U = "map_of (bl_open s)"
  let ?meta = "\<lparr>bf_data = be_encode env (sg_meta st), bf_mtime = now\<rparr>"
  have maps: "inv_maps env ?F ?U" using inv by (simp add: blob_inv_def)
  have ok: "staged_ok ?F i st" using inv_mapsD(1)[OF maps st] .
  note d = staged_okD[OF ok]
  obtain f where f: "?F (part_path i) = Some f" using ok by (auto simp: staged_ok_def)
  have closed: "inv_maps env ?F (?U(i \<mapsto> st\<lparr>sg_closed := True\<rparr>))" by (rule inv_close[OF maps st])
  have meta: "inv_maps env (?F(meta_path i := g)) (?U(i \<mapsto> st\<lparr>sg_closed := True\<rparr>))" for g
    using inv_put_meta[OF closed d(2,1)] .
  have seal: "inv_maps env (?F(meta_path i \<mapsto> ?meta, part_path i := None, blob_path i \<mapsto> f)) (?U(i := None))"
    by (rule inv_seal[OF maps d(1) sealed_blob_ok[OF codec ok ready f]])
  show ?thesis
    using closed meta meta[of None] seal st ready d(1) f
    by (cases fault)
       (auto simp: finalize_blob_def close_part_def rename_part_def blob_inv_def update_conv' delete_conv'
          file_exists_def Let_def)
qed (use inv in simp)

lemma abort_inv: "blob_inv env s \<Longrightarrow> blob_inv env (snd (abort_blob i s))"
  by (auto simp: abort_blob_def blob_inv_def delete_conv' intro: inv_drop)

lemma gc_inv: "blob_inv env s \<Longrightarrow> blob_inv env (snd (gc_blobs now s))"
proof -
  have "blob_inv env s \<Longrightarrow> blob_inv env (fold (\<lambda>i s. snd (abort_blob i s)) is s)" for "is"
    by (induction "is" arbitrary: s) (auto intro: abort_inv)
  then show "blob_inv env s \<Longrightarrow> blob_inv env (snd (gc_blobs now s))" by (simp add: gc_blobs_def)
qed

lemma die_inv: "blob_inv env s \<Longrightarrow> blob_inv env (die_sealing env i partial now s)"
proof -
  assume "blob_inv env s"
  then have maps: "inv_maps env (map_of (bl_files s)) (map_of (bl_open s))" by (simp add: blob_inv_def)
  show ?thesis
  proof (cases "map_of (bl_open s) i")
    case None
    then show ?thesis using inv_restart[OF maps] by (simp add: die_sealing_def)
  next
    case (Some st)
    note d = staged_okD[OF inv_mapsD(1)[OF maps Some]]
    have "inv_maps env (map_of (bl_files (set_file (meta_path i) x now s))) (map_of (bl_open s))" for x
      using inv_put_meta[OF maps d(2,1)] by simp
    from inv_restart[OF this] inv_restart[OF maps] Some show ?thesis by (simp add: die_sealing_def)
  qed
qed

lemma blob_step_inv:
  assumes "meta_codec env" "blob_inv env s" "minted_fresh ev s"
  shows "blob_inv env (blob_step env ev s)"
proof (cases ev)
  case (EvLimits mx ttl)
  with assms(2) show ?thesis by (simp add: blob_inv_def set_limits_def Let_def)
next
  case (EvBegin n ct declared sha raw opens now)
  with begin_inv[OF assms(2)] assms(3) show ?thesis by simp
next
  case EvRestart
  with assms(2) show ?thesis by (simp add: blob_inv_def[of env s] inv_restart)
qed (use assms in \<open>simp_all add: append_inv finalize_inv abort_inv gc_inv die_inv\<close>)

lemma reachable_inv: "blob_reachable env s \<Longrightarrow> meta_codec env \<Longrightarrow> blob_inv env s"
proof (induction rule: blob_reachable.induct)
  case fresh_dir
  show ?case by (simp add: blob_inv_def new_blob_store_def sweep_parts_def inv_maps_def)
qed (rule blob_step_inv)

section \<open>What a store promises\<close>

text \<open>C32: Whatever happens to a store, in any order, including failing and partial writes and a process that
  dies at any point and is started again: bytes that are handed out for sending have exactly the size
  and the SHA-256 that their metadata declares.\<close>

theorem opened_blob_intact:
  assumes "blob_reachable env s" "meta_codec env" and "open_blob env i s = Inr (d, m)"
  shows "int (length d) = bm_total m \<and> hex_encode (be_sha256 env d) = bm_sha m"
proof -
  have ok: "blob_ok env (map_of (bl_files s)) i"
    using reachable_inv[OF assms(1,2)] inv_mapsD(2) by (simp add: blob_inv_def)
  obtain g f where "map_of (bl_files s) (meta_path i) = Some g" "be_decode env (bf_data g) = Some m"
    "map_of (bl_files s) (blob_path i) = Some f" "int (length (bf_data f)) = bm_total m" "d = bf_data f"
    using assms(3) by (auto simp: open_blob_def read_meta_def split: if_splits option.splits)
  with ok show ?thesis by (auto simp: blob_ok_def)
qed

text \<open>Observation: Every file a store ever creates is named by an id of 32 lower-case hexadecimal digits and one of
  three extensions; a name that comes from the caller never names a file, and what is kept of it has
  no slash unless it is the single slash.\<close>

lemma clean_comps_parts:
  "c \<in> set (clean_comps st cs) \<Longrightarrow> c \<in> set st \<or> (c \<in> set cs \<and> c \<noteq> [] \<and> c \<noteq> ''.'' \<and> c \<noteq> ''..'')"
proof (induction st cs rule: clean_comps.induct)
  case (2 st x xs)
  then show ?case by (auto split: if_splits dest: in_set_dropD)
qed simp

theorem only_minted_paths:
  assumes "blob_reachable env s" "meta_codec env"
  shows "map_of (bl_files s) n = Some f \<Longrightarrow> minted_name n"
    and "base_name nm = ''/'' \<or> (CHR ''/'' \<notin> set (base_name nm) \<and> base_name nm \<notin> {[], ''.'', ''..''})"
proof -
  show "map_of (bl_files s) n = Some f \<Longrightarrow> minted_name n"
    using reachable_inv[OF assms] inv_mapsD(3) by (auto simp: blob_inv_def)
  show "base_name nm = ''/'' \<or> (CHR ''/'' \<notin> set (base_name nm) \<and> base_name nm \<notin> {[], ''.'', ''..''})"
  proof (cases "clean_comps [] (split_on CHR ''/'' nm)")
    case (Cons c cs)
    then have "c \<in> set (clean_comps [] (split_on CHR ''/'' nm))" by simp
    from clean_comps_parts[OF this] have "c \<in> set (split_on CHR ''/'' nm)" "c \<notin> {[], ''.'', ''..''}" by auto
    with Cons split_on_parts[of c "CHR ''/''" nm] show ?thesis by (auto simp: base_name_def)
  qed (simp add: base_name_def)
qed

text \<open>An upload: the chunks appended in order.\<close>

fun append_all :: "string \<Rightarrow> int \<Rightarrow> string list \<Rightarrow> gotime \<Rightarrow> blob_store \<Rightarrow> blob_store" where
  "append_all i seq [] now s = s"
| "append_all i seq (c # cs) now s = append_all i (seq + 1) cs now (snd (append_chunk i seq c None now s))"

definition staged_exactly :: "blob_store \<Rightarrow> string \<Rightarrow> blob_meta \<Rightarrow> string \<Rightarrow> int \<Rightarrow> bool" where
  "staged_exactly s i m d seq \<longleftrightarrow>
     map_of (bl_open s) i = Some \<lparr>sg_meta = m, sg_closed = False, sg_hashed = d, sg_written = int (length d), sg_next = seq\<rparr>
     \<and> (\<exists>t. map_of (bl_files s) (part_path i) = Some \<lparr>bf_data = d, bf_mtime = t\<rparr>)"

lemma append_one:
  assumes "staged_exactly s i m d seq" "valid_blob_id i" "int (length c) \<le> max_chunk_bytes"
    "int (length d + length c) \<le> bm_total m"
  shows "staged_exactly (snd (append_chunk i seq c None now s)) i m (d @ c) (seq + 1)"
  using assms
  by (auto simp: staged_exactly_def append_chunk_def write_part_files(1) update_conv' Let_def)

lemma append_all_staged:
  "staged_exactly s i m d seq \<Longrightarrow> valid_blob_id i \<Longrightarrow> \<forall>c \<in> set cs. int (length c) \<le> max_chunk_bytes \<Longrightarrow>
   int (length (d @ concat cs)) \<le> bm_total m \<Longrightarrow>
   staged_exactly (append_all i seq cs now s) i m (d @ concat cs) (seq + int (length cs))"
proof (induction cs arbitrary: s d seq)
  case (Cons c cs)
  have "staged_exactly (snd (append_chunk i seq c None now s)) i m (d @ c) (seq + 1)"
    by (rule append_one) (use Cons.prems in auto)
  from Cons.IH[OF this] Cons.prems show ?case by (simp add: add.assoc)
qed simp

text \<open>C40: An upload whose chunks arrive in order and add up to the declared size and digest is sealed, and
  opens to exactly the chunks put together, by the process that received it and by one started later.\<close>

theorem upload_roundtrip:
  assumes "meta_codec env" "length raw = 16"
    and b: "begin_blob n ct declared sha (Some raw) True now s = (Inr m, s1)"
    and chunks: "\<forall>c \<in> set cs. int (length c) \<le> max_chunk_bytes" "int (length (concat cs)) = declared"
      "hex_encode (be_sha256 env (concat cs)) = to_lower (trim_space sha)"
  shows "\<exists>s2 m'. finalize_blob env (bm_id m) SealOk now (append_all (bm_id m) 0 cs now s1) = (Inr m, s2) \<and>
           open_blob env (bm_id m) s2 = Inr (concat cs, m') \<and>
           open_blob env (bm_id m) (new_blob_store (bl_files s2)) = Inr (concat cs, m')"
proof -
  let ?i = "bm_id m"
  have m: "?i = hex_encode raw" "bm_total m = declared" "bm_sha m = to_lower (trim_space sha)" "list_all hex_char (bm_sha m)"
    and s1: "staged_exactly s1 ?i m [] 0"
    using b by (auto simp: begin_blob_def Let_def staged_exactly_def update_conv' split: if_splits)
  have v: "valid_blob_id ?i" using m(1) assms(2) minted_valid by simp
  let ?s = "append_all ?i 0 cs now s1"
  obtain t where st: "map_of (bl_open ?s) ?i = Some \<lparr>sg_meta = m, sg_closed = False, sg_hashed = concat cs,
      sg_written = int (length (concat cs)), sg_next = int (length cs)\<rparr>"
    and f: "map_of (bl_files ?s) (part_path ?i) = Some \<lparr>bf_data = concat cs, bf_mtime = t\<rparr>"
    using append_all_staged[OF s1 v chunks(1), of now] chunks(2) m(2) by (auto simp: staged_exactly_def)
  obtain m' where m': "be_decode env (be_encode env m) = Some m'" "bm_total m' = declared"
    using assms(1) v m(2,4) by (auto simp: meta_codec_def)
  define s2 where "s2 = snd (finalize_blob env ?i SealOk now ?s)"
  have fin: "finalize_blob env ?i SealOk now ?s = (Inr m, s2)"
    using v st f m chunks by (simp add: s2_def finalize_blob_def seal_ready_def file_exists_def close_part_def Let_def)
  have s2: "map_of (bl_open s2) ?i = None"
    "map_of (bl_files s2) (meta_path ?i) = Some \<lparr>bf_data = be_encode env m, bf_mtime = now\<rparr>"
    "map_of (bl_files s2) (blob_path ?i) = Some \<lparr>bf_data = concat cs, bf_mtime = t\<rparr>"
    using v st f m chunks
    by (simp_all add: s2_def finalize_blob_def seal_ready_def file_exists_def close_part_def rename_part_def
        update_conv' delete_conv' Let_def)
  have s3: "map_of (bl_open (new_blob_store (bl_files s2))) ?i = None"
    "map_of (bl_files (new_blob_store (bl_files s2))) (meta_path ?i) = map_of (bl_files s2) (meta_path ?i)"
    "map_of (bl_files (new_blob_store (bl_files s2))) (blob_path ?i) = map_of (bl_files s2) (blob_path ?i)"
    by (simp_all add: new_blob_store_def sweep_parts_def map_of_filter_key)
  have "open_blob env ?i s2 = Inr (concat cs, m')" "open_blob env ?i (new_blob_store (bl_files s2)) = Inr (concat cs, m')"
    using v s2 s3 m' chunks(2) by (simp_all add: open_blob_def read_meta_def)
  with fin show ?thesis by blast
qed


section \<open>A run\<close>

text \<open>A codec that keeps what the law asks for, and a digest that pads.\<close>

definition unary :: "int \<Rightarrow> string" where
  "unary n = (if n < 0 then ''-'' else []) @ replicate (nat \<bar>n\<bar>) CHR ''1''"

definition of_unary :: "string \<Rightarrow> int" where
  "of_unary s = (case s of [] \<Rightarrow> 0 | c # cs \<Rightarrow> if c = CHR ''-'' then - int (length cs) else int (length s))"

definition toy_blob_env :: blob_env where
  "toy_blob_env =
     \<lparr>be_sha256 = (\<lambda>d. take 32 (d @ replicate 32 (char_of (0::nat)))),
      be_encode = (\<lambda>m. unary (bm_total m) @ CHR '','' # bm_sha m @ CHR '','' # bm_id m),
      be_decode = (\<lambda>s. case split_on CHR '','' s of
          [n, h, i] \<Rightarrow> Some \<lparr>bm_id = i, bm_file_name = [], bm_content_type = [], bm_total = of_unary n, bm_sha = h, bm_created = 0\<rparr>
        | _ \<Rightarrow> None)\<rparr>"

lemma of_unary_unary [simp]: "of_unary (unary n) = n"
  by (cases "nat \<bar>n\<bar>") (auto simp: unary_def of_unary_def)

lemma toy_codec: "meta_codec toy_blob_env"
  unfolding meta_codec_def
proof (intro allI impI)
  fix m :: blob_meta
  assume h: "valid_blob_id (bm_id m)" "list_all hex_char (bm_sha m)"
  have "CHR '','' \<notin> set (bm_sha m)" using h(2) by (auto simp: list_all_iff hex_char_def is_digit_def byte_def)
  moreover have "CHR '','' \<notin> set (bm_id m)" using h(1) by (auto simp: valid_blob_id_def list_all_iff is_digit_def byte_def)
  moreover have "CHR '','' \<notin> set (unary (bm_total m))" by (auto simp: unary_def)
  ultimately show "\<exists>m'. be_decode toy_blob_env (be_encode toy_blob_env m) = Some m' \<and> bm_id m' = bm_id m \<and>
           bm_total m' = bm_total m \<and> bm_sha m' = bm_sha m"
    by (simp add: toy_blob_env_def split_on_append split_on_no_sep)
qed

fun fresh_run :: "blob_env \<Rightarrow> blob_event list \<Rightarrow> blob_store \<Rightarrow> bool" where
  "fresh_run env [] s = True"
| "fresh_run env (ev # evs) s = (minted_fresh ev s \<and> fresh_run env evs (blob_step env ev s))"

lemma reachable_run: "blob_reachable env s \<Longrightarrow> fresh_run env evs s \<Longrightarrow> blob_reachable env (fold (blob_step env) evs s)"
  by (induction evs arbitrary: s) (auto intro: blob_reachable.stepped)

definition sample_raw :: string where "sample_raw = replicate 16 CHR ''a''"
definition sample_sha :: string where "sample_sha = hex_encode (take 32 (''abc'' @ replicate 32 (char_of (0::nat))))"

definition sample_blob_run :: "blob_event list" where
  "sample_blob_run =
     [EvBegin ''../dir/doc.pdf'' [] 3 sample_sha (Some sample_raw) True 0, EvAppend (hex_encode sample_raw) 0 ''ab'' None 1,
      EvAppend (hex_encode sample_raw) 1 ''c'' (Some 0) 2, EvAppend (hex_encode sample_raw) 1 ''c'' None 3,
      EvFinalize (hex_encode sample_raw) SealOk 4, EvRestart]"

definition sample_blob_store :: blob_store where
  "sample_blob_store = fold (blob_step toy_blob_env) sample_blob_run (new_blob_store [])"

lemma sample_blob_reachable: "blob_reachable toy_blob_env sample_blob_store"
proof -
  have "fresh_run toy_blob_env sample_blob_run (new_blob_store [])" by code_simp
  with reachable_run[OF blob_reachable.fresh_dir] show ?thesis by (simp add: sample_blob_store_def)
qed

lemma sample_blob_opens:
  "map_sum id (map_prod id bm_total) (open_blob toy_blob_env (hex_encode sample_raw) sample_blob_store) = Inr (''abc'', 3)"
  by code_simp

theorem opened_blob_intact_witness:
  "\<exists>m. open_blob toy_blob_env (hex_encode sample_raw) sample_blob_store = Inr (''abc'', m)
     \<and> hex_encode (be_sha256 toy_blob_env ''abc'') = bm_sha m"
proof (cases "open_blob toy_blob_env (hex_encode sample_raw) sample_blob_store")
  case (Inr r)
  with sample_blob_opens obtain m where m: "open_blob toy_blob_env (hex_encode sample_raw) sample_blob_store = Inr (''abc'', m)"
    by (cases r) auto
  from opened_blob_intact[OF sample_blob_reachable toy_codec this] m show ?thesis by blast
qed (use sample_blob_opens in simp)

theorem only_minted_paths_witness:
  "\<forall>n \<in> fst ` set (bl_files sample_blob_store). minted_name n"
proof
  fix n
  assume "n \<in> fst ` set (bl_files sample_blob_store)"
  then obtain f where "map_of (bl_files sample_blob_store) n = Some f"
    by (metis map_of_eq_None_iff not_None_eq)
  with only_minted_paths(1)[OF sample_blob_reachable toy_codec] show "minted_name n" by blast
qed

lemma sample_begins:
  "\<exists>m s1. begin_blob ''doc'' [] 3 sample_sha (Some sample_raw) True 0 (new_blob_store []) = (Inr m, s1)"
proof -
  have "case fst (begin_blob ''doc'' [] 3 sample_sha (Some sample_raw) True 0 (new_blob_store [])) of Inl _ \<Rightarrow> False | Inr _ \<Rightarrow> True"
    by code_simp
  then show ?thesis by (auto split: sum.splits simp: prod_eq_iff)
qed

theorem upload_roundtrip_witness:
  "\<exists>i s. case open_blob toy_blob_env i s of Inl _ \<Rightarrow> False | Inr (d, _) \<Rightarrow> d = ''abc''"
proof -
  obtain m s1 where b: "begin_blob ''doc'' [] 3 sample_sha (Some sample_raw) True 0 (new_blob_store []) = (Inr m, s1)"
    using sample_begins by blast
  have "\<forall>c \<in> set [''ab'', ''c'']. int (length c) \<le> max_chunk_bytes" "int (length (concat [''ab'', ''c''])) = 3"
    "hex_encode (be_sha256 toy_blob_env (concat [''ab'', ''c''])) = to_lower (trim_space sample_sha)" "length sample_raw = 16"
    by code_simp+
  from upload_roundtrip[OF toy_codec this(4) b this(1-3)] obtain s2 m'
    where "open_blob toy_blob_env (bm_id m) s2 = Inr (concat [''ab'', ''c''], m')" by blast
  then show ?thesis by (intro exI[of _ "bm_id m"] exI[of _ s2]) simp
qed


end
