(* ===== verification/Multipart_Form.thy ===== *)
theory Multipart_Form
  imports Identity Json
begin

text \<open>
  internal/multipartkit/form.go: one multipart body with scalar fields, in the order of their names,
  and a file. The writer of mime/multipart is the text it writes around a boundary it is given; the
  verb %q of fmt is modelled for ASCII and for bytes of printable runes, which it keeps.
\<close>

definition crlf :: string where "crlf = [CHR 0x0D, CHR 0x0A]"
definition dquote :: char where "dquote = CHR 0x22"
definition backslash :: char where "backslash = CHR 0x5C"

definition escape_quotes :: "string \<Rightarrow> string" where
  "escape_quotes s = concat (map (\<lambda>c. if c = backslash \<or> c = dquote then [backslash, c] else [c]) s)"

definition quote_chr :: "char \<Rightarrow> string" where
  "quote_chr c =
     (if c = dquote \<or> c = backslash then [backslash, c]
      else if byte c = 7 then [backslash, CHR ''a'']
      else if byte c = 8 then [backslash, CHR ''b'']
      else if byte c = 9 then [backslash, CHR ''t'']
      else if byte c = 10 then [backslash, CHR ''n'']
      else if byte c = 11 then [backslash, CHR ''v'']
      else if byte c = 12 then [backslash, CHR ''f'']
      else if byte c = 13 then [backslash, CHR ''r'']
      else if byte c < 32 \<or> byte c = 127 then
        [backslash, CHR ''x'', hex_lower (byte c div 16), hex_lower (byte c mod 16)]
      else [c])"

definition go_quote :: "string \<Rightarrow> string" where
  "go_quote s = dquote # concat (map quote_chr s) @ [dquote]"

text \<open>The header and content of a part; a part after another one starts with a line break.\<close>

definition form_part :: "bool \<Rightarrow> string \<Rightarrow> string gmap \<Rightarrow> string \<Rightarrow> string" where
  "form_part first boundary hdr content =
     (if first then [] else crlf) @ ''--'' @ boundary @ crlf
     @ concat (map (\<lambda>(k, v). k @ '': '' @ v @ crlf) hdr) @ crlf @ content"

definition field_part :: "bool \<Rightarrow> string \<Rightarrow> string \<times> string \<Rightarrow> string" where
  "field_part first boundary f =
     form_part first boundary
       [(''Content-Disposition'', ''form-data; name='' @ dquote # escape_quotes (fst f) @ [dquote])] (snd f)"

definition file_part :: "bool \<Rightarrow> string \<Rightarrow> string \<Rightarrow> string \<Rightarrow> string \<Rightarrow> string \<Rightarrow> string" where
  "file_part first boundary fileField fileName fileContentType content =
     form_part first boundary
       [(''Content-Disposition'',
          ''form-data; name='' @ go_quote (escape_quotes fileField) @ ''; filename='' @ go_quote (escape_quotes fileName)),
        (''Content-Type'', (let ct = trim_space fileContentType in if ct = [] then ''application/octet-stream'' else ct))]
       content"

text \<open>The body and the content type, or None without a file field.\<close>

definition build_form ::
  "string \<Rightarrow> string \<Rightarrow> string \<Rightarrow> string \<Rightarrow> string \<Rightarrow> string gmap \<Rightarrow> (string \<times> string) option" where
  "build_form boundary fileField fileName fileContentType content flds =
     (if trim_space fileField = [] then None
      else
        let fs = sort_members flds;
            scalars = concat (map (\<lambda>(n, f). field_part (n = 0) boundary f) (enumerate 0 fs))
        in Some (scalars @ file_part (fs = []) boundary fileField fileName fileContentType content
                   @ crlf @ ''--'' @ boundary @ ''--'' @ crlf,
                 ''multipart/form-data; boundary='' @ boundary))"

section \<open>What arrives\<close>

lemma quote_chars [simp]: "is_tspecial dquote" "is_tspecial backslash" "dquote \<noteq> backslash" "backslash \<noteq> dquote"
  by (simp_all add: is_tspecial_def dquote_def backslash_def)

lemma consume_quoted_plain:
  "c \<noteq> dquote \<Longrightarrow> c \<noteq> backslash \<Longrightarrow> c \<noteq> CHR 0x0D \<Longrightarrow> c \<noteq> CHR 0x0A \<Longrightarrow>
   s \<noteq> [] \<Longrightarrow> consume_quoted acc (c # s) = consume_quoted (c # acc) s"
  by (cases s) (auto simp: dquote_def backslash_def)

lemma consume_quoted_escape:
  "is_tspecial d \<Longrightarrow> consume_quoted acc (backslash # d # s) = consume_quoted (d # acc) s"
  by (simp add: backslash_def)

lemma consume_quoted_end: "consume_quoted acc (dquote # r) = Some (rev acc, r)"
  by (cases r) (simp_all add: dquote_def)

lemma consume_quoted_chars:
  "\<forall>c \<in> set t. 32 \<le> byte c \<and> byte c \<noteq> 127 \<Longrightarrow>
   consume_quoted acc (concat (map quote_chr t) @ dquote # r) = Some (rev acc @ t, r)"
proof (induction t arbitrary: acc)
  case Nil
  then show ?case by (simp add: consume_quoted_end)
next
  case (Cons c t)
  have no: "c \<noteq> CHR 0x0D" "c \<noteq> CHR 0x0A" using Cons.prems by (auto simp: byte_def)
  show ?case
  proof (cases "c = dquote \<or> c = backslash")
    case True
    then have "quote_chr c = [backslash, c]" "is_tspecial c" by (auto simp: quote_chr_def)
    with Cons show ?thesis by (simp add: consume_quoted_escape del: consume_quoted.simps)
  next
    case False
    then have "quote_chr c = [c]" using Cons.prems by (simp add: quote_chr_def)
    with False no Cons show ?thesis by (simp add: consume_quoted_plain del: consume_quoted.simps)
  qed
qed

lemma escape_quotes_printable:
  "\<forall>c \<in> set s. 32 \<le> byte c \<and> byte c \<noteq> 127 \<Longrightarrow> \<forall>c \<in> set (escape_quotes s). 32 \<le> byte c \<and> byte c \<noteq> 127"
  by (auto simp: escape_quotes_def backslash_def byte_def split: if_splits)

lemma escape_quotes_length:
  "length (escape_quotes s) = length s + length (filter (\<lambda>c. c = backslash \<or> c = dquote) s)"
  by (induction s) (auto simp: escape_quotes_def)

lemma escape_quotes_id: "escape_quotes s = s \<longleftrightarrow> dquote \<notin> set s \<and> backslash \<notin> set s"
proof
  assume "escape_quotes s = s"
  then have "filter (\<lambda>c. c = backslash \<or> c = dquote) s = []" using escape_quotes_length[of s] by simp
  then show "dquote \<notin> set s \<and> backslash \<notin> set s" by (auto simp: filter_empty_conv)
next
  show "dquote \<notin> set s \<and> backslash \<notin> set s \<Longrightarrow> escape_quotes s = s"
    by (induction s) (auto simp: escape_quotes_def)
qed

text \<open>Observation: A file name of printable characters is read back, by the parser of Go's own mime package, as the
  escaped name and nothing more of the header: the name itself exactly when it has no quote and no
  backslash, and otherwise a name with extra backslashes, because it is escaped twice.\<close>

theorem form_file_name_arrives:
  assumes "\<forall>c \<in> set s. 32 \<le> byte c \<and> byte c \<noteq> 127"
  shows "consume_value (go_quote (escape_quotes s) @ r) = (escape_quotes s, r)"
    and "escape_quotes s = s \<longleftrightarrow> dquote \<notin> set s \<and> backslash \<notin> set s"
proof -
  have "consume_quoted [] (concat (map quote_chr (escape_quotes s)) @ dquote # r) = Some (escape_quotes s, r)"
    using consume_quoted_chars[OF escape_quotes_printable[OF assms], of "[]" r] by simp
  then show "consume_value (go_quote (escape_quotes s) @ r) = (escape_quotes s, r)"
    by (simp add: consume_value_def go_quote_def dquote_def)
qed (rule escape_quotes_id)

theorem form_file_name_arrives_witness:
  "fst (consume_value (go_quote (escape_quotes [CHR ''a'', dquote]))) = [CHR ''a'', backslash, dquote]"
proof -
  have "\<forall>c \<in> set [CHR ''a'', dquote]. 32 \<le> byte c \<and> byte c \<noteq> 127" by code_simp
  from form_file_name_arrives(1)[OF this, of "[]"] show ?thesis by (simp add: escape_quotes_def dquote_def backslash_def)
qed

end
