(* ===== verification/Next_Steps.thy ===== *)
theory Next_Steps
  imports Prelude
begin

text \<open>
  internal/nextsteps: the graph an agent is shown after every call. Resolve picks one edge for a
  completed call, Validate rejects graphs that could not guide anyone, RenderCall prints an edge.
  An author's own pattern is compiled and matched by the regexp package, which is a parameter here
  (\<open>regex pattern text\<close>, None for a pattern that does not compile); the three fixed patterns of the
  package are scanners below. An error is a value that names the place and the rule, not its text.
\<close>

section \<open>The graph\<close>

record step =
  st_cmd :: string
  st_why :: string
  st_kind :: string

record edge =
  eg_from :: string
  eg_on :: string
  eg_match :: string
  eg_code :: int
  eg_why :: string
  eg_then :: "step list"

record graph =
  gr_schema :: int
  gr_app :: string
  gr_edges :: "edge list"

type_synonym regex = "string \<Rightarrow> string \<Rightarrow> bool option"

definition wildcard :: string where "wildcard = ''*''"
definition outcome_ok :: string where "outcome_ok = ''ok''"
definition outcome_err :: string where "outcome_err = ''err''"
definition kind_gateway :: string where "kind_gateway = ''gateway''"
definition kind_flow :: string where "kind_flow = ''flow''"
definition kind_recovery :: string where "kind_recovery = ''recovery''"

definition max_then :: nat where "max_then = 3"
definition max_edges :: nat where "max_edges = 40"
definition max_why :: nat where "max_why = 200"
definition max_step_why :: nat where "max_step_why = 160"

lemmas nextsteps_consts = wildcard_def outcome_ok_def outcome_err_def kind_gateway_def kind_flow_def
  kind_recovery_def max_then_def max_edges_def max_why_def max_step_why_def

section \<open>The fixed patterns\<close>

definition re_space :: "char \<Rightarrow> bool" where
  "re_space c \<longleftrightarrow> c \<in> set [CHR '' '', CHR 0x09, CHR 0x0A, CHR 0x0C, CHR 0x0D]"

definition id_char :: "char \<Rightarrow> bool" where
  "id_char c \<longleftrightarrow> is_lower_chr c \<or> is_digit c"

text \<open>\<open>^[a-z0-9]+(\.[a-z0-9-]+)+$\<close>\<close>

definition valid_id :: "string \<Rightarrow> bool" where
  "valid_id i = (case split_on CHR ''.'' i of
       [] \<Rightarrow> False
     | p # ps \<Rightarrow> p \<noteq> [] \<and> list_all id_char p \<and> ps \<noteq> [] \<and>
         list_all (\<lambda>q. q \<noteq> [] \<and> list_all (\<lambda>c. id_char c \<or> c = CHR ''-'') q) ps)"

definition last_dot :: "string \<Rightarrow> string" where
  "last_dot s = last (split_on CHR ''.'' s)"

text \<open>What follows the last dot, or the whole id when there is no dot or nothing after it.\<close>

definition namespace_of :: "string \<Rightarrow> string" where
  "namespace_of i = (if CHR ''.'' \<in> set i \<and> last_dot i \<noteq> [] then last_dot i else i)"

text \<open>\<open>^pilotctl appstore call\s+(\S+)\s+(\S+)\<close>: the classes are disjoint, so the greedy runs decide.\<close>

definition next_word :: "string \<Rightarrow> (string \<times> string) option" where
  "next_word s =
     (let t = dropWhile re_space s;
          w = takeWhile (\<lambda>c. \<not> re_space c) t
      in if s = t \<or> w = [] then None else Some (w, drop (length w) t))"

definition parse_call :: "string \<Rightarrow> (string \<times> string) option" where
  "parse_call cmd =
     Option.bind (cut_prefix ''pilotctl appstore call'' (trim_space cmd)) (\<lambda>r.
     Option.bind (next_word r) (\<lambda>(a, r1).
     Option.bind (next_word r1) (\<lambda>(m, _). Some (a, m))))"

definition word_chr :: "char \<Rightarrow> bool" where
  "word_chr c \<longleftrightarrow> is_digit c \<or> is_lower_chr c \<or> is_upper_chr c \<or> c = CHR ''_''"

text \<open>\<open>->\s*(\d{3})\b\<close> at the front of a text, and at its first match.\<close>

definition status_at :: "string \<Rightarrow> string option" where
  "status_at s = Option.bind (cut_prefix ''->'' s) (\<lambda>r.
     let t = dropWhile re_space r; d = take 3 t; u = drop 3 t in
     if length d = 3 \<and> list_all is_digit d \<and> (u = [] \<or> \<not> word_chr (hd u)) then Some d else None)"

fun find_status :: "string \<Rightarrow> string option" where
  "find_status [] = None"
| "find_status (c # cs) = (case status_at (c # cs) of Some d \<Rightarrow> Some d | None \<Rightarrow> find_status cs)"

definition matches_code :: "string \<Rightarrow> int \<Rightarrow> bool" where
  "matches_code errText code = (case find_status errText of None \<Rightarrow> False | Some d \<Rightarrow> d = itoa code)"

section \<open>Resolve\<close>

text \<open>The score of an edge for a completed call; None when the edge does not apply.\<close>

definition from_score :: "string \<Rightarrow> edge \<Rightarrow> int option" where
  "from_score method e =
     (if eg_from e = method then Some 1 else if eg_from e = wildcard then Some 0 else None)"

definition edge_score :: "regex \<Rightarrow> string \<Rightarrow> string \<Rightarrow> string \<Rightarrow> edge \<Rightarrow> int option" where
  "edge_score regex method want payload e =
     (if eg_on e \<noteq> want then None
      else case from_score method e of
             None \<Rightarrow> None
           | Some b \<Rightarrow>
               if eg_code e \<noteq> 0 then (if matches_code payload (eg_code e) then Some (b + 6) else None)
               else if eg_match e \<noteq> [] then
                 (if regex (''(?i)'' @ eg_match e) payload = Some True then Some (b + 4) else None)
               else Some b)"

fun best_edge :: "(edge \<Rightarrow> int option) \<Rightarrow> int \<Rightarrow> edge option \<Rightarrow> edge list \<Rightarrow> edge option" where
  "best_edge score bestScore best [] = best"
| "best_edge score bestScore best (e # es) =
     (case score e of
        None \<Rightarrow> best_edge score bestScore best es
      | Some s \<Rightarrow> if s > bestScore then best_edge score s (Some e) es
                  else best_edge score bestScore best es)"

definition resolve :: "regex \<Rightarrow> graph option \<Rightarrow> string \<Rightarrow> bool \<Rightarrow> string \<Rightarrow> edge option" where
  "resolve regex g method okay payload =
     (case g of
        None \<Rightarrow> None
      | Some gr \<Rightarrow>
          if gr_schema gr \<noteq> 1 then None
          else best_edge (edge_score regex method (if okay then outcome_ok else outcome_err) payload)
                 (-1) None (gr_edges gr))"

section \<open>Validate\<close>

datatype step_err =
    CmdMissing | CmdNotPilotctl | CmdBadApp string | CmdForeignMethod string string
  | CmdNotExposed string | StepWhyMissing | StepWhyLong nat | StepKind string

datatype edge_err =
    FromMissing | FromForeign string | FromNotExposed string | CodeOnOk | BadRegex string
  | CodeRange int | OnMissing | OnUnknown string | WhyLong nat | ThenEmpty | ThenLong nat
  | StepErr nat step_err

datatype graph_err =
    SchemaErr int | AppErr string | EdgesEmpty | EdgesMany nat | EdgeErr nat edge_err | DupEdge nat nat

definition step_cmd_errs :: "string \<Rightarrow> string list \<Rightarrow> string \<Rightarrow> step_err list" where
  "step_cmd_errs ns known cmd =
     (if cmd = [] then [CmdMissing]
      else if \<not> has_prefix ''pilotctl '' cmd then [CmdNotPilotctl]
      else case parse_call cmd of
             None \<Rightarrow> []
           | Some (app, method) \<Rightarrow>
               if \<not> valid_id app then [CmdBadApp app]
               else if \<not> has_prefix (namespace_of app @ ''.'') method then [CmdForeignMethod app method]
               else if namespace_of app = ns \<and> known \<noteq> [] \<and> method \<notin> set known then [CmdNotExposed method]
               else [])"

definition step_errs :: "string \<Rightarrow> string list \<Rightarrow> step \<Rightarrow> step_err list" where
  "step_errs ns known s =
     step_cmd_errs ns known (trim_space (st_cmd s))
     @ (if trim_space (st_why s) = [] then [StepWhyMissing]
        else if length (st_why s) > max_step_why then [StepWhyLong (length (st_why s))] else [])
     @ (if st_kind s \<in> set [[], kind_gateway, kind_flow, kind_recovery] then [] else [StepKind (st_kind s)])"

definition regex_errs :: "regex \<Rightarrow> string \<Rightarrow> edge_err list" where
  "regex_errs regex m = (if m = [] then [] else if regex m [] = None then [BadRegex m] else [])"

definition from_errs :: "string \<Rightarrow> string list \<Rightarrow> string \<Rightarrow> edge_err list" where
  "from_errs ns known f =
     (if f = [] then [FromMissing]
      else if f = wildcard then []
      else if \<not> has_prefix (ns @ ''.'') f then [FromForeign f]
      else if known \<noteq> [] \<and> f \<notin> set known then [FromNotExposed f]
      else [])"

definition on_errs :: "regex \<Rightarrow> edge \<Rightarrow> edge_err list" where
  "on_errs regex e =
     (if eg_on e = outcome_ok then (if eg_code e \<noteq> 0 then [CodeOnOk] else []) @ regex_errs regex (eg_match e)
      else if eg_on e = outcome_err then
        regex_errs regex (eg_match e)
        @ (if eg_code e \<noteq> 0 \<and> (eg_code e < 100 \<or> eg_code e > 599) then [CodeRange (eg_code e)] else [])
      else if eg_on e = [] then [OnMissing] else [OnUnknown (eg_on e)])"

definition then_errs :: "step list \<Rightarrow> edge_err list" where
  "then_errs ss = (if ss = [] then [ThenEmpty] else if length ss > max_then then [ThenLong (length ss)] else [])"

definition edge_errs :: "regex \<Rightarrow> string \<Rightarrow> string list \<Rightarrow> edge \<Rightarrow> edge_err list" where
  "edge_errs regex ns known e =
     from_errs ns known (eg_from e) @ on_errs regex e
     @ (if length (eg_why e) > max_why then [WhyLong (length (eg_why e))] else [])
     @ then_errs (eg_then e)
     @ concat (map (\<lambda>(i, s). map (StepErr i) (step_errs ns known s)) (enumerate 0 (eg_then e)))"

text \<open>The key of the duplicate check: the four fields joined by bars.\<close>

definition edge_key :: "edge \<Rightarrow> string" where
  "edge_key e = eg_from e @ ''|'' @ eg_on e @ ''|'' @ eg_match e @ ''|'' @ itoa (eg_code e)"

fun edges_errs :: "regex \<Rightarrow> string \<Rightarrow> string list \<Rightarrow> nat \<Rightarrow> nat gmap \<Rightarrow> edge list \<Rightarrow> graph_err list" where
  "edges_errs regex ns known i seen [] = []"
| "edges_errs regex ns known i seen (e # es) =
     map (EdgeErr i) (edge_errs regex ns known e)
     @ (case map_of seen (edge_key e) of None \<Rightarrow> [] | Some p \<Rightarrow> [DupEdge i p])
     @ edges_errs regex ns known (Suc i) (AList.update (edge_key e) i seen) es"

definition validate_graph :: "regex \<Rightarrow> string \<Rightarrow> string list \<Rightarrow> graph \<Rightarrow> graph_err list" where
  "validate_graph regex appID exposes g =
     (if gr_schema g \<noteq> 1 then [SchemaErr (gr_schema g)] else [])
     @ (if gr_app g \<noteq> appID then [AppErr (gr_app g)] else [])
     @ (if gr_edges g = [] then [EdgesEmpty]
        else if length (gr_edges g) > max_edges then [EdgesMany (length (gr_edges g))] else [])
     @ edges_errs regex (namespace_of appID) exposes 0 [] (gr_edges g)"

text \<open>The methods the graph marks as gateways, each once, in order.\<close>

fun add_gateways :: "string list \<Rightarrow> step list \<Rightarrow> string list" where
  "add_gateways out [] = out"
| "add_gateways out (s # ss) =
     (if st_kind s \<noteq> kind_gateway then add_gateways out ss
      else case parse_call (st_cmd s) of
             Some (_, m) \<Rightarrow> add_gateways (if m \<in> set out then out else out @ [m]) ss
           | None \<Rightarrow> add_gateways out ss)"

definition gateway_methods :: "graph option \<Rightarrow> string list" where
  "gateway_methods g = (case g of None \<Rightarrow> [] | Some gr \<Rightarrow> add_gateways [] (concat (map eg_then (gr_edges gr))))"

section \<open>Rendering\<close>

definition line_end :: string where "line_end = [CHR 0x0A]"

text \<open>\<open>strings.Fields\<close>, and its words joined by blanks.\<close>

fun add_chr :: "char \<Rightarrow> string list \<times> bool \<Rightarrow> string list \<times> bool" where
  "add_chr c (ws, inWord) =
     (if is_space c then (ws, False)
      else if inWord then (case ws of [] \<Rightarrow> ([[c]], True) | w # vs \<Rightarrow> ((c # w) # vs, True))
      else ([c] # ws, True))"

definition str_fields :: "string \<Rightarrow> string list" where
  "str_fields s = fst (foldr add_chr s ([], False))"

definition one_line :: "string \<Rightarrow> string" where
  "one_line s = join_on CHR '' '' (str_fields s)"

definition kind_suffix :: "string \<Rightarrow> string" where
  "kind_suffix k =
     (if k = kind_gateway then '' (required first)''
      else if k = kind_recovery then '' (fixes the error above)'' else [])"

definition render_step :: "nat \<Rightarrow> step \<Rightarrow> string" where
  "render_step i s =
     ''  '' @ itoa (int i) @ ''. '' @ trim_space (st_cmd s) @ line_end
     @ (if trim_space (st_why s) \<noteq> []
        then ''     why: '' @ one_line (trim_space (st_why s)) @ kind_suffix (st_kind s) @ line_end else [])"

definition render_call :: "edge option \<Rightarrow> string" where
  "render_call e =
     (case e of
        None \<Rightarrow> []
      | Some ed \<Rightarrow>
          if eg_then ed = [] then []
          else (if trim_space (eg_why ed) \<noteq> [] then ''next: '' @ one_line (trim_space (eg_why ed)) @ line_end
                else ''next:'' @ line_end)
               @ concat (map (\<lambda>(i, s). render_step i s) (enumerate 1 (take max_then (eg_then ed)))))"

section \<open>The chosen edge\<close>

text \<open>The edge the loop ends with: the first of the highest score above the one it started with.\<close>

definition first_best :: "(edge \<Rightarrow> int option) \<Rightarrow> int \<Rightarrow> edge list \<Rightarrow> edge \<Rightarrow> bool" where
  "first_best score b es e \<longleftrightarrow>
     (\<exists>pre post s. es = pre @ e # post \<and> score e = Some s \<and> s > b \<and>
        (\<forall>x \<in> set pre. \<forall>t. score x = Some t \<longrightarrow> t < s) \<and>
        (\<forall>x \<in> set post. \<forall>t. score x = Some t \<longrightarrow> t \<le> s))"

definition none_above :: "(edge \<Rightarrow> int option) \<Rightarrow> int \<Rightarrow> edge list \<Rightarrow> bool" where
  "none_above score b es \<longleftrightarrow> (\<forall>x \<in> set es. \<forall>t. score x = Some t \<longrightarrow> t \<le> b)"

lemma first_bestI:
  "es = pre @ e # post \<Longrightarrow> score e = Some s \<Longrightarrow> s > b \<Longrightarrow>
   (\<And>x t. x \<in> set pre \<Longrightarrow> score x = Some t \<Longrightarrow> t < s) \<Longrightarrow>
   (\<And>x t. x \<in> set post \<Longrightarrow> score x = Some t \<Longrightarrow> t \<le> s) \<Longrightarrow> first_best score b es e"
  unfolding first_best_def by blast

lemma first_bestE:
  assumes "first_best score b es e"
  obtains pre post s where "es = pre @ e # post" "score e = Some s" "s > b"
    "\<And>x t. x \<in> set pre \<Longrightarrow> score x = Some t \<Longrightarrow> t < s"
    "\<And>x t. x \<in> set post \<Longrightarrow> score x = Some t \<Longrightarrow> t \<le> s"
  using assms unfolding first_best_def by blast

lemma first_best_skip:
  assumes "first_best score b es e" and low: "\<And>t. score x = Some t \<Longrightarrow> t \<le> b"
  shows "first_best score b (x # es) e"
  using assms(1)
proof (rule first_bestE)
  fix pre post s
  assume "es = pre @ e # post" "score e = Some s" "s > b"
    and pre: "\<And>y t. y \<in> set pre \<Longrightarrow> score y = Some t \<Longrightarrow> t < s"
    and post: "\<And>y t. y \<in> set post \<Longrightarrow> score y = Some t \<Longrightarrow> t \<le> s"
  then show ?thesis
    by (intro first_bestI[of _ "x # pre" _ post _ s]) (auto dest: low pre post)
qed

lemma first_best_take:
  assumes x: "score x = Some s" "b < s" and "first_best score s es e"
  shows "first_best score b (x # es) e"
  using assms(3)
proof (rule first_bestE)
  fix pre post t
  assume "es = pre @ e # post" "score e = Some t" "t > s"
    and pre: "\<And>y u. y \<in> set pre \<Longrightarrow> score y = Some u \<Longrightarrow> u < t"
    and post: "\<And>y u. y \<in> set post \<Longrightarrow> score y = Some u \<Longrightarrow> u \<le> t"
  then show ?thesis
    using x by (intro first_bestI[of _ "x # pre" _ post _ t]) (auto dest: pre post)
qed

lemma first_best_hd:
  "score x = Some s \<Longrightarrow> b < s \<Longrightarrow> none_above score s es \<Longrightarrow> first_best score b (x # es) x"
  by (rule first_bestI[of _ "[]" _ es _ s]) (auto simp: none_above_def)

lemma none_above_Cons:
  "none_above score b (x # es) \<longleftrightarrow> (\<forall>t. score x = Some t \<longrightarrow> t \<le> b) \<and> none_above score b es"
  by (simp add: none_above_def)

lemma best_edge_result:
  "(best_edge score b best es = best \<and> none_above score b es)
   \<or> (\<exists>e. best_edge score b best es = Some e \<and> first_best score b es e)"
proof (induction score b best es rule: best_edge.induct)
  case (1 score b best)
  then show ?case by (simp add: none_above_def)
next
  case (2 score b best x es)
  have skip: "\<lbrakk>\<And>t. score x = Some t \<Longrightarrow> t \<le> b; best_edge score b best (x # es) = best_edge score b best es;
      (best_edge score b best es = best \<and> none_above score b es)
        \<or> (\<exists>e. best_edge score b best es = Some e \<and> first_best score b es e)\<rbrakk> \<Longrightarrow> ?case"
    using first_best_skip[of score b es _ x] none_above_Cons[of score b x es] by metis
  show ?case
  proof (cases "score x")
    case None
    with 2(1) show ?thesis by (intro skip) auto
  next
    case (Some s)
    show ?thesis
    proof (cases "s > b")
      case True
      with Some have "best_edge score b best (x # es) = best_edge score s (Some x) es" by simp
      with 2(2)[OF Some True] Some True show ?thesis
        using first_best_hd[of score x s b es] first_best_take[of score x s b es] by metis
    next
      case False
      with Some 2(3)[OF Some False] show ?thesis by (intro skip) auto
    qed
  qed
qed

lemma split_twice:
  assumes "pre @ e # post = pre' @ e' # post'"
  shows "e = e' \<or> (e \<in> set pre' \<and> e' \<in> set post) \<or> (e' \<in> set pre \<and> e \<in> set post')"
  using assms unfolding append_eq_append_conv2
  by (auto simp: Cons_eq_append_conv append_eq_Cons_conv)

lemma first_best_unique:
  assumes "first_best score b es e" "first_best score b es e'"
  shows "e = e'"
  using assms(1)
proof (rule first_bestE)
  fix pre post s
  assume a: "es = pre @ e # post" "score e = Some s"
    "\<And>x t. x \<in> set pre \<Longrightarrow> score x = Some t \<Longrightarrow> t < s" "\<And>x t. x \<in> set post \<Longrightarrow> score x = Some t \<Longrightarrow> t \<le> s"
  show ?thesis
    using assms(2)
  proof (rule first_bestE)
    fix pre' post' s'
    assume b: "es = pre' @ e' # post'" "score e' = Some s'"
      "\<And>x t. x \<in> set pre' \<Longrightarrow> score x = Some t \<Longrightarrow> t < s'" "\<And>x t. x \<in> set post' \<Longrightarrow> score x = Some t \<Longrightarrow> t \<le> s'"
    from a(1) b(1) split_twice[of pre e post pre' e' post'] show ?thesis
      using a(2) b(2) a(3)[of e' s'] a(4)[of e' s'] b(3)[of e s] b(4)[of e s] by fastforce
  qed
qed

lemma first_best_above: "first_best score b es e \<Longrightarrow> \<not> none_above score b es"
  by (erule first_bestE) (auto simp: none_above_def)

lemma best_edge_iff:
  "best_edge score b None es = Some e \<longleftrightarrow> first_best score b es e"
  "best_edge score b None es = None \<longleftrightarrow> none_above score b es"
  using best_edge_result[of score b None es] first_best_above[of score b es] first_best_unique[of score b es]
  by (metis option.distinct(1) option.inject)+

definition discriminated :: "edge \<Rightarrow> bool" where
  "discriminated e \<longleftrightarrow> eg_code e \<noteq> 0 \<or> eg_match e \<noteq> []"

lemma from_score_range: "from_score m e = Some b \<Longrightarrow> b = 0 \<or> b = 1"
  by (auto simp: from_score_def split: if_splits)

lemma edge_score_range:
  assumes "edge_score regex m w p e = Some s"
  shows "s \<ge> 0" "discriminated e \<longleftrightarrow> s \<ge> 4" "\<not> discriminated e \<longleftrightarrow> s \<le> 1"
  using assms from_score_range[of m e]
  by (auto simp: edge_score_def discriminated_def split: if_splits option.splits)

abbreviation call_score :: "regex \<Rightarrow> string \<Rightarrow> bool \<Rightarrow> string \<Rightarrow> edge \<Rightarrow> int option" where
  "call_score regex method okay payload \<equiv> edge_score regex method (if okay then outcome_ok else outcome_err) payload"

text \<open>Observation: The edge resolved for a call is the first one of the highest score among the edges that
  apply to it, and there is none exactly when no edge applies or the graph has another schema version.\<close>

theorem resolve_first_of_best:
  "resolve regex (Some g) method okay payload = Some e
     \<longleftrightarrow> gr_schema g = 1 \<and>
         (\<exists>pre post s. gr_edges g = pre @ e # post \<and> call_score regex method okay payload e = Some s \<and>
            (\<forall>x \<in> set pre. \<forall>t. call_score regex method okay payload x = Some t \<longrightarrow> t < s) \<and>
            (\<forall>x \<in> set post. \<forall>t. call_score regex method okay payload x = Some t \<longrightarrow> t \<le> s))"
  "resolve regex (Some g) method okay payload = None
     \<longleftrightarrow> gr_schema g \<noteq> 1 \<or> (\<forall>x \<in> set (gr_edges g). call_score regex method okay payload x = None)"
proof -
  let ?sc = "call_score regex method okay payload"
  have pos: "0 \<le> t" if "?sc x = Some t" for x t using edge_score_range(1)[OF that] .
  have above: "-1 < t" if "?sc x = Some t" for x t using pos[OF that] by simp
  have b: "first_best ?sc (-1) (gr_edges g) e \<longleftrightarrow>
     (\<exists>pre post s. gr_edges g = pre @ e # post \<and> ?sc e = Some s \<and>
            (\<forall>x \<in> set pre. \<forall>t. ?sc x = Some t \<longrightarrow> t < s) \<and> (\<forall>x \<in> set post. \<forall>t. ?sc x = Some t \<longrightarrow> t \<le> s))"
    unfolding first_best_def using above[of e] by blast
  have n: "none_above ?sc (-1) (gr_edges g) \<longleftrightarrow> (\<forall>x \<in> set (gr_edges g). ?sc x = None)"
  proof (intro iffI ballI)
    fix x
    assume "none_above ?sc (-1) (gr_edges g)" "x \<in> set (gr_edges g)"
    then show "?sc x = None" using above[of x] unfolding none_above_def by (cases "?sc x") force+
  qed (simp add: none_above_def)
  show "resolve regex (Some g) method okay payload = Some e
     \<longleftrightarrow> gr_schema g = 1 \<and> (\<exists>pre post s. gr_edges g = pre @ e # post \<and> ?sc e = Some s \<and>
            (\<forall>x \<in> set pre. \<forall>t. ?sc x = Some t \<longrightarrow> t < s) \<and> (\<forall>x \<in> set post. \<forall>t. ?sc x = Some t \<longrightarrow> t \<le> s))"
    using b by (simp add: resolve_def best_edge_iff del: not_Some_eq)
  show "resolve regex (Some g) method okay payload = None \<longleftrightarrow> gr_schema g \<noteq> 1 \<or> (\<forall>x \<in> set (gr_edges g). ?sc x = None)"
    using n by (simp add: resolve_def best_edge_iff del: not_None_eq)
qed

text \<open>Observation: An edge that matched the actual outcome, by status code or by pattern, is never passed over
  for one that merely matched the method name.\<close>

theorem situation_beats_name:
  assumes "resolve regex (Some g) method okay payload = Some e"
    and "e' \<in> set (gr_edges g)" "call_score regex method okay payload e' \<noteq> None" "discriminated e'"
  shows "discriminated e \<and>
    (if eg_code e \<noteq> 0 then matches_code payload (eg_code e) else regex (''(?i)'' @ eg_match e) payload = Some True)"
proof -
  let ?sc = "call_score regex method okay payload"
  from assms(1) have "first_best ?sc (-1) (gr_edges g) e"
    by (simp add: resolve_def best_edge_iff split: if_splits)
  then obtain pre post s where e: "gr_edges g = pre @ e # post" "?sc e = Some s"
    "\<And>x t. x \<in> set pre \<Longrightarrow> ?sc x = Some t \<Longrightarrow> t < s" "\<And>x t. x \<in> set post \<Longrightarrow> ?sc x = Some t \<Longrightarrow> t \<le> s"
    by (rule first_bestE) blast
  from assms(3) obtain t where t: "?sc e' = Some t" by blast
  with assms(4) have "t \<ge> 4" using edge_score_range(2) by blast
  moreover have "t \<le> s" using e(1,2) e(3,4)[of e' t] t assms(2) by fastforce
  ultimately have d: "discriminated e" using edge_score_range(2)[OF e(2)] by simp
  then show ?thesis
    using e(2) by (auto simp: edge_score_def discriminated_def split: if_splits option.splits)
qed

section \<open>Valid graphs\<close>

lemma edges_errs_Nil:
  "edges_errs regex ns known i seen es = [] \<Longrightarrow> e \<in> set es \<Longrightarrow> edge_errs regex ns known e = []"
  by (induction regex ns known i seen es rule: edges_errs.induct) (auto split: option.splits)

lemma edge_errs_steps:
  "edge_errs regex ns known e = [] \<Longrightarrow> s \<in> set (eg_then e) \<Longrightarrow> step_errs ns known s = []"
proof -
  assume e: "edge_errs regex ns known e = []" and "s \<in> set (eg_then e)"
  then obtain i where "i < length (eg_then e)" "eg_then e ! i = s"
    by (auto simp: in_set_conv_nth)
  then have "(i, s) \<in> set (enumerate 0 (eg_then e))"
    by (simp add: in_set_enumerate_eq)
  with e show ?thesis by (fastforce simp: edge_errs_def)
qed

lemma trim_idem [simp]: "trim_space (trim_space s) = trim_space s"
proof -
  have d: "dropWhile is_space (rev (dropWhile is_space (rev t))) = rev (dropWhile is_space (rev t))"
    if "dropWhile is_space t = t" for t
  proof (cases "rev (dropWhile is_space (rev t))")
    case (Cons x xs)
    have "prefix (rev (dropWhile is_space (rev t))) t"
      by (metis prefixI rev_append rev_rev_ident takeWhile_dropWhile_id)
    with Cons have "hd t = x" "t \<noteq> []" by (auto simp: prefix_def)
    with that have "\<not> is_space x" by (metis dropWhile_eq_self_iff)
    with Cons show ?thesis by simp
  qed (simp only: dropWhile.simps)
  show ?thesis unfolding trim_space_def using d[of "dropWhile is_space s"] by simp
qed

lemma parse_call_trim [simp]: "parse_call (trim_space s) = parse_call s"
  by (simp add: parse_call_def)

lemma step_errs_cmd:
  assumes "step_errs ns known s = []"
  shows "has_prefix ''pilotctl '' (trim_space (st_cmd s))" "trim_space (st_why s) \<noteq> []"
    "parse_call (st_cmd s) = Some (app, method) \<Longrightarrow>
       valid_id app \<and> has_prefix (namespace_of app @ ''.'') method \<and>
       (namespace_of app = ns \<longrightarrow> known \<noteq> [] \<longrightarrow> method \<in> set known)"
  using assms by (auto simp: step_errs_def step_cmd_errs_def split: if_splits)


section \<open>What is printed\<close>

definition line_count :: "string \<Rightarrow> nat" where
  "line_count s = length (filter (\<lambda>c. c = CHR 0x0A) s)"

lemma line_count_append [simp]: "line_count (a @ b) = line_count a + line_count b"
  and line_count_Nil [simp]: "line_count [] = 0"
  and line_count_Cons [simp]: "line_count (c # s) = (if c = CHR 0x0A then 1 else 0) + line_count s"
  by (simp_all add: line_count_def)

lemma line_count_zero: "line_count s = 0 \<longleftrightarrow> CHR 0x0A \<notin> set s"
  by (induction s) (auto simp: line_count_def)

lemma trim_subset: "set (trim_space s) \<subseteq> set s"
  unfolding trim_space_def by (metis set_dropWhileD set_rev subsetI)

lemma str_fields_no_space: "w \<in> set (fst (foldr add_chr s (ws, b))) \<Longrightarrow> w \<notin> set ws \<Longrightarrow>
    (\<And>v c. v \<in> set ws \<Longrightarrow> c \<in> set v \<Longrightarrow> \<not> is_space c) \<Longrightarrow> c \<in> set w \<Longrightarrow> \<not> is_space c"
proof -
  have "\<forall>w \<in> set (fst (foldr add_chr s (ws, b))). \<forall>c \<in> set w. \<not> is_space c"
    if "\<forall>v \<in> set ws. \<forall>c \<in> set v. \<not> is_space c" for s :: string
  proof (induction s)
    case Nil
    with that show ?case by simp
  next
    case (Cons x xs)
    then show ?case
      by (cases "foldr add_chr xs (ws, b)") (auto split: list.splits if_splits)
  qed
  then show "w \<in> set (fst (foldr add_chr s (ws, b))) \<Longrightarrow> w \<notin> set ws \<Longrightarrow>
    (\<And>v c. v \<in> set ws \<Longrightarrow> c \<in> set v \<Longrightarrow> \<not> is_space c) \<Longrightarrow> c \<in> set w \<Longrightarrow> \<not> is_space c" by blast
qed

lemma line_count_join: "line_count (join_on CHR '' '' ws) = (\<Sum>w\<leftarrow>ws. line_count w)"
  by (induction "CHR '' ''" ws rule: join_on.induct) auto

lemma one_line_flat [simp]: "line_count (one_line s) = 0"
proof -
  have "line_count w = 0" if "w \<in> set (str_fields s)" for w
    using str_fields_no_space[of w s "[]" False "CHR 0x0A"] that
    by (auto simp: line_count_zero str_fields_def is_space_def)
  then show ?thesis by (simp add: one_line_def line_count_join)
qed

lemma itoa_flat [simp]: "line_count (itoa n) = 0"
  using itoa_chars[of "CHR 0x0A" n] by (auto simp: line_count_zero is_digit_def)

lemma kind_suffix_flat [simp]: "line_count (kind_suffix k) = 0"
  by (simp add: kind_suffix_def)

lemma render_step_lines:
  "CHR 0x0A \<notin> set (st_cmd s) \<Longrightarrow> line_count (render_step i s) \<le> 2"
proof -
  assume "CHR 0x0A \<notin> set (st_cmd s)"
  then have "line_count (trim_space (st_cmd s)) = 0" using trim_subset line_count_zero by blast
  then show ?thesis by (simp add: render_step_def line_end_def)
qed

text \<open>Observation: What is printed after a call is at most seven lines, however long the graph's texts are and
  however many steps the edge lists, when no command holds a line break.\<close>

theorem rendered_block_short:
  assumes "\<forall>s \<in> set (eg_then e). CHR 0x0A \<notin> set (st_cmd s)"
  shows "line_count (render_call (Some e)) \<le> 1 + 2 * max_then"
proof -
  have steps: "line_count (concat (map (\<lambda>(i, s). render_step i s) ps)) \<le> 2 * length ps"
    if "\<forall>(i, s) \<in> set ps. CHR 0x0A \<notin> set (st_cmd s)" for ps :: "(nat \<times> step) list"
    using that
  proof (induction ps)
    case (Cons p ps)
    then show ?case using render_step_lines[of "snd p" "fst p"] by (cases p) auto
  qed simp
  have "line_count (concat (map (\<lambda>(i, s). render_step i s) (enumerate 1 (take max_then (eg_then e)))))
          \<le> 2 * length (enumerate 1 (take max_then (eg_then e)))"
    using assms by (intro steps) (auto dest: in_set_takeD simp: in_set_enumerate_eq)
  also have "\<dots> \<le> 2 * max_then" by simp
  finally show ?thesis by (simp add: render_call_def line_end_def)
qed

section \<open>A graph\<close>

definition gw_step :: step where
  "gw_step = \<lparr>st_cmd = ''pilotctl appstore call io.pilot.ab ab.signup {}'', st_why = ''sign up'', st_kind = kind_gateway\<rparr>"

definition sample_graph :: graph where
  "sample_graph =
     \<lparr>gr_schema = 1, gr_app = ''io.pilot.ab'',
      gr_edges =
        [\<lparr>eg_from = ''ab.send'', eg_on = ''ok'', eg_match = [], eg_code = 0, eg_why = [],
          eg_then = [\<lparr>st_cmd = ''pilotctl appstore call io.pilot.ab ab.read {}'', st_why = ''read'', st_kind = kind_flow\<rparr>]\<rparr>,
         \<lparr>eg_from = ''*'', eg_on = ''ok'', eg_match = ''needs'', eg_code = 0, eg_why = ''first'', eg_then = [gw_step]\<rparr>,
         \<lparr>eg_from = ''*'', eg_on = ''err'', eg_match = [], eg_code = 402, eg_why = [], eg_then = [gw_step]\<rparr>]\<rparr>"

text \<open>A pattern language with literal patterns only: the case flag is dropped and the rest looked up.\<close>

definition literal_regex :: regex where
  "literal_regex p t = Some (sublist (trim_prefix ''(?i)'' p) t)"

lemmas graph_simps = sample_graph_def gw_step_def nextsteps_consts resolve_def edge_score_def from_score_def
  literal_regex_def discriminated_def trim_prefix_def has_prefix_def

lemma sample_resolves:
  "resolve literal_regex (Some sample_graph) ''ab.send'' True ''needs'' = Some (gr_edges sample_graph ! 1)"
  "validate_graph literal_regex ''io.pilot.ab'' [''ab.signup'', ''ab.read'', ''ab.send''] sample_graph = []"
  by code_simp+

theorem resolve_first_of_best_witness:
  "\<exists>pre post. gr_edges sample_graph = pre @ (gr_edges sample_graph ! 1) # post"
  using sample_resolves(1) unfolding resolve_first_of_best(1) by blast

theorem situation_beats_name_witness:
  "discriminated (gr_edges sample_graph ! 1)"
  by (rule conjunct1[OF situation_beats_name[OF sample_resolves(1), of "gr_edges sample_graph ! 1"]])
     (simp_all add: graph_simps)


theorem rendered_block_short_witness:
  "line_count (render_call (Some (gr_edges sample_graph ! 1))) \<le> 7"
proof -
  have "\<forall>s \<in> set (eg_then (gr_edges sample_graph ! 1)). CHR 0x0A \<notin> set (st_cmd s)"
    by (simp add: graph_simps)
  from rendered_block_short[OF this] show ?thesis by (simp add: max_then_def)
qed

text \<open>Observation: A validated command may hold a line break, which the printed block keeps.\<close>

theorem validated_command_breaks_line:
  "step_errs ''ab'' [''ab.read'']
     \<lparr>st_cmd = ''pilotctl appstore call io.pilot.ab ab.read'' @ line_end @ ''rm'', st_why = ''read'', st_kind = []\<rparr> = []"
  by code_simp

end
