(* ===== verification/X402.thy ===== *)
theory X402
  imports Http Json_Struct
begin

text \<open>
  internal/x402: a client that answers one 402 with a capped payment. Networks and assets are
  compared as ASCII text up to letter case. The transport sees the requests sent so far and answers
  the last one, so that it may be stateful; the wallet is a function from an option to a header
  value. Prices are integers of any size, as in math/big.
\<close>

section \<open>Challenges\<close>

record pay_option =
  po_scheme :: string
  po_network :: string
  po_network_name :: string
  po_asset :: string
  po_pay_to :: string
  po_max_amount :: string
  po_description :: string
  po_resource :: string
  po_mime_type :: string

record challenge =
  ch_version :: int
  ch_accepts :: "pay_option list"

datatype pay_err =
    NoChallenge | NoEligible "string list" "string list" | OverCap "int option"
  | WalletErr string | SendErr string | BodyErr

record pay_config =
  pc_networks :: "string list"
  pc_asset :: string
  pc_max_atomic :: "int option"

definition payment_header :: string where "payment_header = ''X-PAYMENT''"

definition decode_option :: "json \<Rightarrow> pay_option \<times> bool" where
  "decode_option v =
     (case struct_members v of
        None \<Rightarrow> (\<lparr>po_scheme = [], po_network = [], po_network_name = [], po_asset = [], po_pay_to = [],
                  po_max_amount = [], po_description = [], po_resource = [], po_mime_type = []\<rparr>, False)
      | Some m \<Rightarrow>
          let f = (\<lambda>n. get_str n m) in
          (\<lparr>po_scheme = fst (f ''scheme''), po_network = fst (f ''network''),
            po_network_name = fst (f ''networkName''), po_asset = fst (f ''asset''),
            po_pay_to = fst (f ''payTo''), po_max_amount = fst (f ''maxAmountRequired''),
            po_description = fst (f ''description''), po_resource = fst (f ''resource''),
            po_mime_type = fst (f ''mimeType'')\<rparr>,
           list_all (\<lambda>n. snd (f n))
             [''scheme'', ''network'', ''networkName'', ''asset'', ''payTo'', ''maxAmountRequired'',
              ''description'', ''resource'', ''mimeType'']))"

definition parse_challenge :: "string \<Rightarrow> pay_err + challenge" where
  "parse_challenge body =
     (case Option.bind (raw_doc body) struct_members of
        None \<Rightarrow> Inl NoChallenge
      | Some m \<Rightarrow>
          let (version, ok1) = get_int ''x402Version'' m;
              (opts, ok2) = get_list ''accepts'' decode_option m
          in if \<not> ok1 \<or> \<not> ok2 \<or> opts = [] then Inl NoChallenge
             else Inr \<lparr>ch_version = version, ch_accepts = opts\<rparr>)"

section \<open>Selection\<close>

definition network_ok :: "pay_config \<Rightarrow> pay_option \<Rightarrow> bool" where
  "network_ok c a \<longleftrightarrow> pc_networks c = [] \<or>
     list_ex (\<lambda>n. equal_fold n (po_network a) \<or> equal_fold n (po_network_name a)) (pc_networks c)"

text \<open>\<open>SetString(s, 10)\<close>: an optional sign and decimal digits.\<close>

definition big_int :: "string \<Rightarrow> int option" where
  "big_int s =
     (let (neg, body) = (case s of [] \<Rightarrow> (False, [])
                         | c # cs \<Rightarrow> if c = CHR ''-'' then (True, cs)
                                     else if c = CHR ''+'' then (False, cs) else (False, s))
      in map_option (\<lambda>n. if neg then - int n else int n) (dec_nat body))"

definition asset_ok :: "pay_config \<Rightarrow> pay_option \<Rightarrow> bool" where
  "asset_ok c a \<longleftrightarrow> pc_asset c = [] \<or> equal_fold (pc_asset c) (po_asset a)"

definition price_ok :: "pay_config \<Rightarrow> pay_option \<Rightarrow> bool" where
  "price_ok c a = (case pc_max_atomic c of
       None \<Rightarrow> True
     | Some cap \<Rightarrow> (case big_int (trim_space (po_max_amount a)) of None \<Rightarrow> False | Some n \<Rightarrow> n \<le> cap))"

fun select_from :: "pay_config \<Rightarrow> bool \<Rightarrow> string list \<Rightarrow> pay_option list \<Rightarrow> pay_err + pay_option" where
  "select_from c sawEligible available [] =
     (if sawEligible then Inl (OverCap (pc_max_atomic c)) else Inl (NoEligible available (pc_networks c)))"
| "select_from c sawEligible available (a # as) =
     (let avail = available @ [if po_network_name a = [] then po_network a else po_network_name a] in
      if \<not> network_ok c a then select_from c sawEligible avail as
      else if \<not> asset_ok c a then select_from c sawEligible avail as
      else if \<not> price_ok c a then select_from c True avail as
      else Inr a)"

definition select_option :: "pay_config \<Rightarrow> challenge \<Rightarrow> pay_err + pay_option" where
  "select_option c ch = (if ch_accepts ch = [] then Inl NoChallenge else select_from c False [] (ch_accepts ch))"

section \<open>The paying client\<close>

text \<open>What a call did: the requests it sent and the options it paid, in order.\<close>

type_synonym transport = "out_request list \<Rightarrow> string + (int \<times> string)"
type_synonym wallet = "pay_option \<Rightarrow> string + string"

definition pay_and_retry ::
  "pay_config \<Rightarrow> wallet \<Rightarrow> transport \<Rightarrow> out_request \<Rightarrow> string
     \<Rightarrow> (pay_err + (int \<times> string)) \<times> out_request list \<times> pay_option list" where
  "pay_and_retry c wallet net req chBody =
     (case parse_challenge chBody of
        Inl e \<Rightarrow> (Inl e, [req], [])
      | Inr ch \<Rightarrow>
          (case select_option c ch of
             Inl e \<Rightarrow> (Inl e, [req], [])
           | Inr opt \<Rightarrow>
               (case wallet opt of
                  Inl e \<Rightarrow> (Inl (WalletErr e), [req], [opt])
                | Inr xpay \<Rightarrow>
                    let retry = set_out_header payment_header xpay req
                    in (case net [req, retry] of
                          Inl e \<Rightarrow> (Inl (SendErr e), [req, retry], [opt])
                        | Inr r \<Rightarrow> (Inr r, [req, retry], [opt])))))"

definition x402_do ::
  "pay_config \<Rightarrow> wallet option \<Rightarrow> transport \<Rightarrow> out_request \<Rightarrow> (unit + string) option
     \<Rightarrow> (pay_err + (int \<times> string)) \<times> out_request list \<times> pay_option list" where
  "x402_do c payer net req0 body =
     (case body of
        Some (Inl _) \<Rightarrow> (Inl BodyErr, [], [])
      | _ \<Rightarrow>
          let req = (case body of Some (Inr b) \<Rightarrow> req0\<lparr>ou_body := b\<rparr> | _ \<Rightarrow> req0)
          in (case net [req] of
                Inl e \<Rightarrow> (Inl (SendErr e), [req], [])
              | Inr (status, rbody) \<Rightarrow>
                  (case payer of
                     None \<Rightarrow> (Inr (status, rbody), [req], [])
                   | Some wallet \<Rightarrow>
                       if status \<noteq> 402 then (Inr (status, rbody), [req], [])
                       else pay_and_retry c wallet net req rbody)))"

section \<open>What is paid\<close>

definition eligible :: "pay_config \<Rightarrow> pay_option \<Rightarrow> bool" where
  "eligible c a \<longleftrightarrow> network_ok c a \<and> asset_ok c a"

definition fits :: "pay_config \<Rightarrow> pay_option \<Rightarrow> bool" where
  "fits c a \<longleftrightarrow> eligible c a \<and> price_ok c a"

lemma select_from_find:
  "select_from c saw av as =
     (case find (fits c) as of
        Some a \<Rightarrow> Inr a
      | None \<Rightarrow> if saw \<or> list_ex (eligible c) as then Inl (OverCap (pc_max_atomic c))
                else Inl (NoEligible (av @ map (\<lambda>a. if po_network_name a = [] then po_network a else po_network_name a) as)
                       (pc_networks c)))"
proof (induction "as" arbitrary: saw av)
  case (Cons a "as")
  have f: "fits c a \<longleftrightarrow> network_ok c a \<and> asset_ok c a \<and> price_ok c a" "eligible c a \<longleftrightarrow> network_ok c a \<and> asset_ok c a"
    by (auto simp: fits_def eligible_def)
  show ?case
    by (cases "network_ok c a"; cases "asset_ok c a"; cases "price_ok c a")
       (simp_all add: Cons f split: option.splits)
qed simp

lemma find_first: "find P xs = Some x \<longleftrightarrow> (\<exists>pre post. xs = pre @ x # post \<and> P x \<and> (\<forall>y \<in> set pre. \<not> P y))"
proof (induction xs)
  case (Cons y ys)
  have "(\<exists>pre post. y # ys = pre @ x # post \<and> P x \<and> (\<forall>z \<in> set pre. \<not> P z))
      \<longleftrightarrow> (y = x \<and> P x) \<or> (\<not> P y \<and> (\<exists>pre post. ys = pre @ x # post \<and> P x \<and> (\<forall>z \<in> set pre. \<not> P z)))"
    (is "?l \<longleftrightarrow> ?r")
  proof
    assume ?l
    then obtain pre post where p: "y # ys = pre @ x # post" "P x" "\<forall>z \<in> set pre. \<not> P z" by blast
    then show ?r by (cases pre) auto
  next
    assume ?r
    then show ?l
    proof (elim disjE conjE exE)
      fix pre post
      assume "\<not> P y" "ys = pre @ x # post" "P x" "\<forall>z \<in> set pre. \<not> P z"
      then show ?l by (intro exI[of _ "y # pre"] exI[of _ post]) auto
    qed (auto intro: exI[of _ "[]"])
  qed
  with Cons show ?case by auto
qed simp

text \<open>Observation: The option that is selected is the first one offered whose network and asset are allowed and
  whose price is a number within the cap; the error tells an offer that was only too expensive from
  one with no allowed network and asset.\<close>

theorem select_first_that_fits:
  "select_option c ch = Inr a
     \<longleftrightarrow> (\<exists>pre post. ch_accepts ch = pre @ a # post \<and> fits c a \<and> (\<forall>x \<in> set pre. \<not> fits c x))"
  "select_option c ch = Inl (OverCap cap)
     \<longleftrightarrow> cap = pc_max_atomic c \<and> (\<exists>x \<in> set (ch_accepts ch). eligible c x) \<and> (\<forall>x \<in> set (ch_accepts ch). \<not> fits c x)"
  "(\<exists>off nets. select_option c ch = Inl (NoEligible off nets))
     \<longleftrightarrow> ch_accepts ch \<noteq> [] \<and> (\<forall>x \<in> set (ch_accepts ch). \<not> eligible c x)"
proof -
  have none: "find (fits c) xs = None \<longleftrightarrow> (\<forall>x \<in> set xs. \<not> fits c x)" for xs
    by (auto simp: find_None_iff)
  show "select_option c ch = Inr a
     \<longleftrightarrow> (\<exists>pre post. ch_accepts ch = pre @ a # post \<and> fits c a \<and> (\<forall>x \<in> set pre. \<not> fits c x))"
    unfolding find_first[symmetric] by (auto simp: select_option_def select_from_find split: option.splits)
  show "select_option c ch = Inl (OverCap cap)
     \<longleftrightarrow> cap = pc_max_atomic c \<and> (\<exists>x \<in> set (ch_accepts ch). eligible c x) \<and> (\<forall>x \<in> set (ch_accepts ch). \<not> fits c x)"
    using none[of "ch_accepts ch"]
    by (auto simp: select_option_def select_from_find list_ex_iff split: option.splits)
  show "(\<exists>off nets. select_option c ch = Inl (NoEligible off nets))
     \<longleftrightarrow> ch_accepts ch \<noteq> [] \<and> (\<forall>x \<in> set (ch_accepts ch). \<not> eligible c x)"
    using none[of "ch_accepts ch"]
    by (auto simp: select_option_def select_from_find list_ex_iff fits_def split: option.splits)
qed

text \<open>C39: A call sends its request, and at most once more the same request with a payment header; it pays
  at most one option, only after the first answer was a 402, and only one that this answer offered
  and that fits the policy. The second answer is returned whatever it is.\<close>

theorem pays_at_most_once:
  assumes "x402_do c payer net req body = (r, sent, paid)"
  shows "if paid = [] then length sent \<le> 1
    else \<exists>req1 rbody ch opt. net [req1] = Inr (402, rbody) \<and> parse_challenge rbody = Inr ch \<and>
        paid = [opt] \<and> opt \<in> set (ch_accepts ch) \<and> fits c opt \<and>
        (\<exists>wallet. payer = Some wallet \<and>
          (case wallet opt of
             Inl e \<Rightarrow> sent = [req1] \<and> r = Inl (WalletErr e)
           | Inr xpay \<Rightarrow> sent = [req1, set_out_header payment_header xpay req1] \<and>
               (\<forall>answer. net sent = Inr answer \<longrightarrow> r = Inr answer)))"
proof -
  have find: "select_option c ch = Inr opt \<Longrightarrow> opt \<in> set (ch_accepts ch) \<and> fits c opt" for ch opt
    by (auto simp: select_option_def select_from_find split: if_splits option.splits
        dest: find_first[THEN iffD1])
  have "paid = [] \<Longrightarrow> length sent \<le> 1"
    using assms by (auto simp: x402_do_def pay_and_retry_def Let_def split: option.splits sum.splits if_splits)
  moreover have "\<exists>req1 rbody ch opt. net [req1] = Inr (402, rbody) \<and> parse_challenge rbody = Inr ch \<and>
        paid = [opt] \<and> opt \<in> set (ch_accepts ch) \<and> fits c opt \<and>
        (\<exists>wallet. payer = Some wallet \<and>
          (case wallet opt of
             Inl e \<Rightarrow> sent = [req1] \<and> r = Inl (WalletErr e)
           | Inr xpay \<Rightarrow> sent = [req1, set_out_header payment_header xpay req1] \<and>
               (\<forall>answer. net sent = Inr answer \<longrightarrow> r = Inr answer)))"
    if ne: "paid \<noteq> []"
  proof -
    obtain req1 rbody wallet where first: "net [req1] = Inr (402, rbody)" "payer = Some wallet"
      "pay_and_retry c wallet net req1 rbody = (r, sent, paid)"
      using assms ne
      by (auto simp: x402_do_def Let_def split: option.splits sum.splits if_splits prod.splits)
    then obtain ch opt where "parse_challenge rbody = Inr ch" "select_option c ch = Inr opt" "paid = [opt]"
      using ne by (auto simp: pay_and_retry_def Let_def split: sum.splits)
    with first find[of ch opt] show ?thesis
      by (intro exI[of _ req1] exI[of _ rbody] exI[of _ ch] exI[of _ opt])
         (auto simp: pay_and_retry_def Let_def split: sum.splits)
  qed
  ultimately show ?thesis by simp
qed

section \<open>A paid call\<close>

definition base_policy :: pay_config where
  "base_policy = \<lparr>pc_networks = [''BASE''], pc_asset = [], pc_max_atomic = Some 9\<rparr>"

definition offer_body :: string where
  "offer_body = json_text (JObj [(''accepts'', JArr
     [JObj [(''network'', JStr ''base''), (''maxAmountRequired'', JStr ''9'')]])])"

definition paid_net :: transport where
  "paid_net sent = Inr (if length sent = 1 then (402, offer_body) else (200, ''ok''))"

definition sample_call :: out_request where
  "sample_call = new_out_request ''POST'' ''https://api.example/v1'' ''{}''"

lemma sample_offer:
  "map_sum id (select_option base_policy) (parse_challenge offer_body)
     = Inr (Inr (fst (decode_option (JObj [(''network'', JStr ''base''), (''maxAmountRequired'', JStr ''9'')]))))"
  by code_simp

theorem pays_at_most_once_witness:
  "\<exists>rbody ch opt. paid_net [sample_call] = Inr (402, rbody) \<and> parse_challenge rbody = Inr ch \<and>
     opt \<in> set (ch_accepts ch) \<and> fits base_policy opt"
proof -
  obtain ch opt where o: "parse_challenge offer_body = Inr ch" "select_option base_policy ch = Inr opt"
    using sample_offer by (cases "parse_challenge offer_body") auto
  have "x402_do base_policy (Some (\<lambda>a. Inr ''sig'')) paid_net sample_call None
      = (Inr (200, ''ok''), [sample_call, set_out_header payment_header ''sig'' sample_call], [opt])"
    by (simp add: x402_do_def paid_net_def pay_and_retry_def o Let_def)
  from pays_at_most_once[OF this] show ?thesis by (auto simp: paid_net_def)
qed

theorem select_first_that_fits_witness:
  "\<exists>ch opt pre post. parse_challenge offer_body = Inr ch \<and> ch_accepts ch = pre @ opt # post \<and> fits base_policy opt"
proof -
  obtain ch opt where "parse_challenge offer_body = Inr ch" "select_option base_policy ch = Inr opt"
    using sample_offer by (cases "parse_challenge offer_body") auto
  then show ?thesis unfolding select_first_that_fits(1) by blast
qed

text \<open>Observation: A price below zero is a number within every cap, so an option that asks for it is selected.\<close>

theorem negative_price_fits:
  "price_ok (c\<lparr>pc_max_atomic := Some 0\<rparr>) (a\<lparr>po_max_amount := '' -7''\<rparr>)"
proof -
  have "big_int (trim_space '' -7'') = Some (-7)" by code_simp
  then show ?thesis by (simp add: price_ok_def)
qed

end
