(* ===== verification/Signup_Ledger.thy ===== *)
theory Signup_Ledger
  imports Http
begin

text \<open>
  What the two signup brokers (internal/otpsignup, internal/insforgesignup) share word for word:
  secrets sealed at rest, the per-address gate, the source address, random tokens, and the contract
  of a ledger that keeps the first account of a caller. The cipher AES-256-GCM under the broker's
  key is a parameter.
\<close>

section \<open>Sealing\<close>

record sealer =
  sl_seal :: "string \<Rightarrow> string \<Rightarrow> string"
  sl_open :: "string \<Rightarrow> string \<Rightarrow> string option"

definition nonce_size :: nat where "nonce_size = 12"

definition sealer_ok :: "sealer \<Rightarrow> bool" where
  "sealer_ok sl \<longleftrightarrow> (\<forall>n p. length n = nonce_size \<longrightarrow> sl_open sl n (sl_seal sl n p) = Some p)"

definition seal_text :: "sealer \<Rightarrow> string \<Rightarrow> string \<Rightarrow> string" where
  "seal_text sl nonce plain = b64_pad_encode b64_std (nonce @ sl_seal sl nonce plain)"

definition open_text :: "sealer \<Rightarrow> string \<Rightarrow> string option" where
  "open_text sl enc =
     Option.bind (b64_pad_decode b64_std enc) (\<lambda>raw.
       if length raw < nonce_size then None else sl_open sl (take nonce_size raw) (drop nonce_size raw))"

lemma raw_encode_length:
  "length (b64_raw_encode al s) = 4 * (length s div 3) + (if length s mod 3 = 0 then 0 else Suc (length s mod 3))"
proof (induction al s rule: b64_raw_encode.induct)
  case (4 al a b c s)
  have "length (a # b # c # s) div 3 = Suc (length s div 3)" "length (a # b # c # s) mod 3 = length s mod 3" by simp_all
  with 4 show ?case by (simp only: b64_raw_encode.simps list.size) simp
qed simp_all

lemma pad_decode_encode:
  assumes al: "good_alphabet al" and eq: "CHR ''='' \<notin> set al"
  shows "b64_pad_decode al (b64_pad_encode al s) = Some s"
proof -
  let ?r = "b64_raw_encode al s"
  define pad where "pad = (if length s mod 3 = 1 then ''=='' else if length s mod 3 = 2 then ''='' else [])"
  have sub: "set ?r \<subseteq> set al" by (rule raw_encode_chars[OF al])
  have "drop_newlines ?r = ?r"
    using sub al by (auto simp: drop_newlines_def good_alphabet_def intro!: filter_True)
  then have nl: "drop_newlines (?r @ pad) = ?r @ pad" by (simp add: drop_newlines_def pad_def)
  have no: "drop k ?r \<noteq> t @ ''=''" for k t using sub eq by (metis UnCI in_set_dropD list.set_intros(1) set_append subsetD)
  have len: "length ?r = 4 * (length s div 3) + (if length s mod 3 = 0 then 0 else Suc (length s mod 3))"
    by (rule raw_encode_length)
  have "b64_pad_decode al (?r @ pad) = Option.bind (b64_sextets al ?r) b64_groups"
  proof -
    consider "length s mod 3 = 0" | "length s mod 3 = 1" | "length s mod 3 = 2" by linarith
    then show ?thesis
    proof cases
      case 1
      then have p: "pad = []" by (simp add: pad_def)
      have "drop (length ?r - 2) ?r \<noteq> ''==''" "drop (length ?r - 1) ?r \<noteq> ''=''"
        using no[of _ "''=''"] no[of _ "[]"] by simp_all
      with 1 nl len show ?thesis by (simp add: b64_pad_decode_def p Let_def)
    next
      case 2
      then have p: "pad = ''==''" by (simp add: pad_def)
      from 2 nl len show ?thesis by (simp add: b64_pad_decode_def p Let_def)
    next
      case 3
      then have p: "pad = ''=''" by (simp add: pad_def)
      have l: "length ?r = Suc (Suc (Suc (4 * (length s div 3))))" using 3 len by simp
      have "drop (length ?r - 1) ?r \<noteq> ''=''" using no[of _ "[]"] by simp
      then have "drop (length (?r @ ''='') - 2) (?r @ ''='') \<noteq> ''==''" using l by auto
      with 3 nl l show ?thesis by (simp add: b64_pad_decode_def p Let_def)
    qed
  qed
  then show ?thesis using groups_encode[OF al] by (simp add: b64_pad_encode_def pad_def)
qed

lemma open_seal:
  assumes "sealer_ok sl" "length n = nonce_size"
  shows "open_text sl (seal_text sl n p) = Some p"
proof -
  have "CHR ''='' \<notin> set b64_std" by (simp add: b64_std_def)
  with assms show ?thesis by (simp add: open_text_def seal_text_def pad_decode_encode sealer_ok_def)
qed

section \<open>The gate of a source address\<close>

record ip_gate =
  ig_seen :: "string list gmap"
  ig_last :: "gotime gmap"

definition no_mints :: ip_gate where "no_mints = \<lparr>ig_seen = [], ig_last = []\<rparr>"

definition seen_at :: "ip_gate \<Rightarrow> string \<Rightarrow> string list" where
  "seen_at g ip = (case map_of (ig_seen g) ip of None \<Rightarrow> [] | Some cs \<Rightarrow> cs)"

text \<open>Whether a caller may mint from an address: no mint from it within the cooldown, and the caller
  is known there or there is room under the cap. Zero turns each check off.\<close>

definition gate_open :: "duration \<Rightarrow> int \<Rightarrow> string \<Rightarrow> string \<Rightarrow> gotime \<Rightarrow> ip_gate \<Rightarrow> bool" where
  "gate_open cooldown cap caller ip now g \<longleftrightarrow>
     \<not> (cooldown > 0 \<and> (\<exists>t. map_of (ig_last g) ip = Some t \<and> time_sub now t < cooldown)) \<and>
     \<not> (cap > 0 \<and> map_of (ig_seen g) ip \<noteq> None \<and> caller \<notin> set (seen_at g ip) \<and> int (length (seen_at g ip)) \<ge> cap)"

definition mark_minted :: "string \<Rightarrow> string \<Rightarrow> gotime \<Rightarrow> ip_gate \<Rightarrow> ip_gate" where
  "mark_minted caller ip now g =
     g\<lparr>ig_seen := AList.update ip (List.insert caller (seen_at g ip)) (ig_seen g),
       ig_last := AList.update ip now (ig_last g)\<rparr>"

lemma gate_open_code [code]:
  "gate_open cooldown cap caller ip now g \<longleftrightarrow>
     \<not> (cooldown > 0 \<and> (case map_of (ig_last g) ip of None \<Rightarrow> False | Some t \<Rightarrow> time_sub now t < cooldown)) \<and>
     \<not> (cap > 0 \<and> map_of (ig_seen g) ip \<noteq> None \<and> caller \<notin> set (seen_at g ip) \<and> int (length (seen_at g ip)) \<ge> cap)"
  by (auto simp: gate_open_def split: option.splits)

lemma seen_at_minted:
  "seen_at (mark_minted caller ip now g) ip' = (if ip' = ip then List.insert caller (seen_at g ip) else seen_at g ip')"
  by (simp add: seen_at_def mark_minted_def update_conv')

text \<open>Where the cap is on, an address never has more callers than the cap, if every mint was let through
  by the gate as it stood at the mint.\<close>

definition gate_inv :: "int \<Rightarrow> ip_gate \<Rightarrow> bool" where
  "gate_inv cap g \<longleftrightarrow> (\<forall>ip. distinct (seen_at g ip) \<and> (cap > 0 \<longrightarrow> int (length (seen_at g ip)) \<le> cap))"

lemma no_mints_inv: "gate_inv cap no_mints"
  by (simp add: gate_inv_def no_mints_def seen_at_def)

lemma mark_minted_inv:
  assumes "gate_inv cap g" "gate_open cooldown cap caller ip now g"
  shows "gate_inv cap (mark_minted caller ip now' g)"
proof -
  have "int (length (List.insert caller (seen_at g ip))) \<le> cap" if "cap > 0"
  proof (cases "caller \<in> set (seen_at g ip)")
    case True
    with assms(1) that show ?thesis by (simp add: gate_inv_def)
  next
    case False
    with assms(2) that have "map_of (ig_seen g) ip = None \<or> int (length (seen_at g ip)) < cap"
      by (auto simp: gate_open_def)
    with that False show ?thesis by (auto simp: seen_at_def)
  qed
  with assms(1) show ?thesis by (auto simp: gate_inv_def seen_at_minted)
qed

section \<open>Source address and tokens\<close>

definition signup_ip :: "request \<Rightarrow> string" where
  "signup_ip r =
     (let xr = rq_header r ''X-Real-IP''; xff = rq_header r ''X-Forwarded-For'' in
      if xr \<noteq> [] then xr
      else if xff \<noteq> [] then trim_space (hd (split_on CHR '','' xff))
      else case split_host (rq_remote r) of Some host \<Rightarrow> host | None \<Rightarrow> [])"

definition token_alphabet :: string where
  "token_alphabet = ''abcdefghijklmnopqrstuvwxyz0123456789''"

text \<open>The random bytes read as letters and digits.\<close>

definition rand_token :: "string \<Rightarrow> string" where
  "rand_token bytes = map (\<lambda>c. token_alphabet ! (byte c mod 36)) bytes"

lemma rand_token_chars: "c \<in> set (rand_token bytes) \<Longrightarrow> is_lower_chr c \<or> is_digit c"
proof -
  have "\<forall>x \<in> set token_alphabet. is_lower_chr x \<or> is_digit x" by code_simp
  moreover have "length token_alphabet = 36" by code_simp
  then have "token_alphabet ! (k mod 36) \<in> set token_alphabet" for k by (intro nth_mem) simp
  ultimately show "c \<in> set (rand_token bytes) \<Longrightarrow> is_lower_chr c \<or> is_digit c" by (auto simp: rand_token_def)
qed

section \<open>Requests to other services\<close>

type_synonym signup_net = "out_request list \<Rightarrow> int \<times> string"

definition json_request :: "string \<Rightarrow> string \<Rightarrow> string \<Rightarrow> string \<Rightarrow> out_request" where
  "json_request method url token body =
     (let r = (if method = ''POST'' then set_out_header ''Content-Type'' json_type (new_out_request method url body)
               else new_out_request method url body);
          r1 = set_out_header ''Accept'' json_type r
      in if token \<noteq> [] then set_out_header ''Authorization'' (''Bearer '' @ token) r1 else r1)"

text \<open>Sending appends to the requests sent so far; status 0 stands for a transport failure.\<close>

definition post_json :: "signup_net \<Rightarrow> out_request list \<Rightarrow> string \<Rightarrow> (string \<times> string) list \<Rightarrow> string \<Rightarrow> (int \<times> string) \<times> out_request list" where
  "post_json net sent url flds token =
     (let sent' = sent @ [json_request ''POST'' url token (json_text (JObj (map (\<lambda>(k, v). (k, JStr v)) flds)))]
      in (net sent', sent'))"

definition get_json :: "signup_net \<Rightarrow> out_request list \<Rightarrow> string \<Rightarrow> string \<Rightarrow> (int \<times> string) \<times> out_request list" where
  "get_json net sent url token =
     (let sent' = sent @ [json_request ''GET'' url token []] in (net sent', sent'))"

text \<open>\<open>http.Error\<close>.\<close>

definition http_error :: "int \<Rightarrow> string \<Rightarrow> response" where
  "http_error code msg =
     \<lparr>rs_status = code,
      rs_headers = [(''Content-Type'', ''text/plain; charset=utf-8''), (''X-Content-Type-Options'', ''nosniff'')],
      rs_body = msg @ [CHR 0x0A]\<rparr>"

section \<open>A ledger that keeps the first account\<close>

text \<open>\<open>get\<close> reads an account, \<open>put\<close> files one unless the caller has a row; \<open>acct\<close> is the account an
  entry holds.\<close>

locale account_ledger =
  fixes get :: "'s \<Rightarrow> string \<Rightarrow> 'a option"
    and put :: "string \<Rightarrow> 'i \<Rightarrow> 's \<Rightarrow> 's"
    and acct :: "'i \<Rightarrow> 'a"
    and good :: "'s \<Rightarrow> bool"
    and fit :: "'i \<Rightarrow> bool"
  assumes put_good: "good s \<Longrightarrow> fit i \<Longrightarrow> good (put c i s)"
    and get_put_new: "good s \<Longrightarrow> fit i \<Longrightarrow> get s c = None \<Longrightarrow> get (put c i s) c = Some (acct i)"
    and get_put_kept: "good s \<Longrightarrow> get s d = Some a \<Longrightarrow> get (put c i s) d = Some a"
begin

definition file_all :: "(string \<times> 'i) list \<Rightarrow> 's \<Rightarrow> 's" where
  "file_all ps s = fold (\<lambda>(c, i). put c i) ps s"

lemma file_all_keeps:
  "good s \<Longrightarrow> \<forall>(c, i) \<in> set ps. fit i \<Longrightarrow> get s d = Some a \<Longrightarrow>
   good (file_all ps s) \<and> get (file_all ps s) d = Some a"
  unfolding file_all_def
  by (induction ps arbitrary: s) (auto intro: put_good get_put_kept)

lemma first_entry_stays:
  assumes "good s" "fit i" "get s c = None" "\<forall>(c, i) \<in> set ps. fit i"
  shows "get (file_all ps (put c i s)) c = Some (acct i)"
  using file_all_keeps[OF put_good[OF assms(1,2)] assms(4) get_put_new[OF assms(1-3)]] by blast

end

section \<open>A broker that mints once per caller\<close>

text \<open>Calls handled one after another, and how many of an address were answered with a new account.\<close>

fun serve_all :: "('k \<Rightarrow> 'st \<Rightarrow> 'r \<times> 'o \<times> 'st) \<Rightarrow> 'k list \<Rightarrow> 'st \<Rightarrow> 'st" where
  "serve_all step [] st = st"
| "serve_all step (k # ks) st = serve_all step ks (snd (snd (step k st)))"

fun count_new :: "('k \<Rightarrow> 'st \<Rightarrow> ('e + 'r) \<times> 'o \<times> 'st) \<Rightarrow> ('r \<Rightarrow> bool) \<Rightarrow> ('k \<Rightarrow> bool) \<Rightarrow> 'k list \<Rightarrow> 'st \<Rightarrow> nat" where
  "count_new step new P [] st = 0"
| "count_new step new P (k # ks) st =
     (case step k st of (r, _, st') \<Rightarrow>
        (if P k \<and> (case r of Inl _ \<Rightarrow> False | Inr a \<Rightarrow> new a) then 1 else 0) + count_new step new P ks st')"

text \<open>\<open>step\<close> handles a call: it repeats the account of a caller that has one, and otherwise fails leaving
  the ledger and the gate, or passes the gate, files an account and marks the address. \<open>answer\<close> is what
  the client gets, with the mark of a repeat.\<close>

locale signup_broker = account_ledger get put acct good fit
  for get :: "'s \<Rightarrow> string \<Rightarrow> 'a option" and put :: "string \<Rightarrow> 'i \<Rightarrow> 's \<Rightarrow> 's" and acct :: "'i \<Rightarrow> 'a"
    and good :: "'s \<Rightarrow> bool" and fit :: "'i \<Rightarrow> bool" +
  fixes ledger :: "'st \<Rightarrow> 's" and gate :: "'st \<Rightarrow> ip_gate"
    and caller :: "'k \<Rightarrow> string" and ip :: "'k \<Rightarrow> string" and fits :: "'k \<Rightarrow> bool" and cap :: int
    and step :: "'k \<Rightarrow> 'st \<Rightarrow> ('e + 'r) \<times> 'o list \<times> 'st"
    and answer :: "'a \<Rightarrow> bool \<Rightarrow> 'r" and new :: "'r \<Rightarrow> bool"
  assumes step_known: "get (ledger st) (caller k) = Some a \<Longrightarrow> step k st = (Inr (answer a True), [], st)"
    and step_unknown: "get (ledger st) (caller k) = None \<Longrightarrow> fits k \<Longrightarrow> step k st = (res, sent, st') \<Longrightarrow>
      (\<exists>e. res = Inl e \<and> ledger st' = ledger st \<and> gate st' = gate st) \<or>
      (\<exists>i cd t t'. fit i \<and> res = Inr (answer (acct i) False) \<and> gate_open cd cap (caller k) (ip k) t (gate st) \<and>
         ledger st' = put (caller k) i (ledger st) \<and> gate st' = mark_minted (caller k) (ip k) t' (gate st))"
    and new_answer: "new (answer a b) \<longleftrightarrow> \<not> b"
begin

definition inv :: "'st \<Rightarrow> bool" where
  "inv st \<longleftrightarrow> good (ledger st) \<and> gate_inv cap (gate st) \<and>
     (\<forall>x. \<forall>d \<in> set (seen_at (gate st) x). get (ledger st) d \<noteq> None)"

lemma step_cases:
  assumes "inv st" "fits k" "step k st = (res, sent, st')"
  obtains
    (known) a where "get (ledger st) (caller k) = Some a" "res = Inr (answer a True)" "sent = []" "st' = st"
  | (failed) e where "res = Inl e" "ledger st' = ledger st" "gate st' = gate st"
  | (minted) i cd t t' where "get (ledger st) (caller k) = None" "fit i" "res = Inr (answer (acct i) False)"
      "gate_open cd cap (caller k) (ip k) t (gate st)"
      "ledger st' = put (caller k) i (ledger st)" "gate st' = mark_minted (caller k) (ip k) t' (gate st)"
  using assms step_known[of st k] step_unknown[of st k res sent st']
  by (cases "get (ledger st) (caller k)") auto

lemma step_inv:
  assumes "inv st" "fits k" "step k st = (res, sent, st')"
  shows "inv st'"
  using assms
proof (cases rule: step_cases)
  case (minted i cd t t')
  have g: "good (ledger st)" "gate_inv cap (gate st)" using assms(1) by (simp_all add: inv_def)
  have kept: "get (ledger st) d \<noteq> None \<Longrightarrow> get (ledger st') d \<noteq> None" for d
    using get_put_kept[OF g(1), of d _ "caller k" i] minted(5) by auto
  have own: "get (ledger st') (caller k) \<noteq> None" using get_put_new[OF g(1) minted(2,1)] minted(5) by simp
  have "get (ledger st') d \<noteq> None" if "d \<in> set (seen_at (gate st') x)" for d x
    using that assms(1) kept own minted(6) unfolding inv_def by (auto simp: seen_at_minted split: if_splits)
  then show ?thesis
    using put_good[OF g(1) minted(2)] mark_minted_inv[OF g(2) minted(4)] minted(5,6) unfolding inv_def by simp
qed (use assms(1) in \<open>auto simp: inv_def\<close>)

lemma run_inv: "inv st \<Longrightarrow> list_all fits ks \<Longrightarrow> inv (serve_all step ks st)"
proof (induction ks arbitrary: st)
  case (Cons k ks)
  then show ?case using step_inv[of st k] by (cases "step k st") auto
qed simp

lemma step_keeps:
  assumes "inv st" "fits k" "get (ledger st) d = Some a"
  shows "get (ledger (snd (snd (step k st)))) d = Some a"
proof (cases "step k st")
  case (fields res sent st')
  from assms(1,2) fields show ?thesis
  proof (cases rule: step_cases)
    case (minted i cd t t')
    with assms fields show ?thesis by (auto intro: get_put_kept simp: inv_def)
  qed (use assms fields in auto)
qed

lemma run_keeps: "inv st \<Longrightarrow> list_all fits ks \<Longrightarrow> get (ledger st) d = Some a \<Longrightarrow> get (ledger (serve_all step ks st)) d = Some a"
proof (induction ks arbitrary: st)
  case (Cons k ks)
  then show ?case using step_inv[of st k] step_keeps[of st k d a] by (cases "step k st") auto
qed simp

lemma answered_account:
  assumes "inv st" "fits k" "step k st = (Inr x, sent, st')"
  shows "\<exists>a b. x = answer a b \<and> get (ledger st') (caller k) = Some a"
  using assms
proof (cases rule: step_cases)
  case (minted i cd t t')
  then show ?thesis using get_put_new[of "ledger st" i "caller k"] assms(1) by (auto simp: inv_def)
qed auto

lemma repeats:
  assumes "inv st0" "list_all fits (before @ k # after)" "step k (serve_all step before st0) = (Inr x, sent, st)"
    and "caller k' = caller k"
  shows "\<exists>a b. x = answer a b \<and> step k' (serve_all step after st) = (Inr (answer a True), [], serve_all step after st)"
proof -
  have i: "inv (serve_all step before st0)" using run_inv[OF assms(1)] assms(2) by simp
  have f: "fits k" "list_all fits after" using assms(2) by simp_all
  obtain a b where a: "x = answer a b" "get (ledger st) (caller k) = Some a"
    using answered_account[OF i f(1) assms(3)] by blast
  with run_keeps[OF step_inv[OF i f(1) assms(3)] f(2) a(2)] step_known[of "serve_all step after st" k' a] assms(4)
  show ?thesis by auto
qed

lemma new_bounded:
  "inv st \<Longrightarrow> list_all fits ks \<Longrightarrow> 0 < cap \<Longrightarrow>
   int (length (seen_at (gate st) x) + count_new step new (\<lambda>k. ip k = x) ks st) \<le> cap"
proof (induction ks arbitrary: st)
  case Nil
  then show ?case by (simp add: inv_def gate_inv_def)
next
  case (Cons k ks)
  obtain res sent st' where d: "step k st = (res, sent, st')" by (cases "step k st")
  have f: "fits k" using Cons.prems(2) by simp
  have IH: "int (length (seen_at (gate st') x) + count_new step new (\<lambda>k. ip k = x) ks st') \<le> cap"
    using Cons step_inv[OF _ f d] by simp
  from Cons.prems(1) f d show ?case
  proof (cases rule: step_cases)
    case (minted i cd t t')
    have "caller k \<in> set (seen_at (gate st) (ip k)) \<Longrightarrow> get (ledger st) (caller k) \<noteq> None"
      using Cons.prems(1) unfolding inv_def by blast
    with minted(1) have "caller k \<notin> set (seen_at (gate st) (ip k))" by blast
    then have "length (seen_at (gate st') x) = length (seen_at (gate st) x) + (if ip k = x then 1 else 0)"
      using minted(6) by (auto simp: seen_at_minted)
    with IH d minted new_answer show ?thesis by simp
  qed (use IH d new_answer in auto)
qed

end

end
