(* ===== verification/Otp_Signup.thy ===== *)
theory Otp_Signup
  imports Signup_Ledger Json_Struct Identity
begin

text \<open>
  internal/otpsignup: a broker that mints one provider account per caller by driving a mailbox. The
  ledger is the accounts table with its cipher; the provider and the mail server are a transport that
  sees the requests sent so far. A signup is two locked steps (read the ledger and the gate; file the
  account and mark the address) around the calls to the outside, so requests can interleave between
  them. The random bytes, the times, the number of polls before the deadline
  and whether the database takes the row are inputs.
\<close>

section \<open>Configuration and ledger\<close>

record otp_config =
  oc_listen :: string
  oc_mail_url :: string
  oc_mail_token :: string
  oc_mail_domain :: string
  oc_addr_prefix :: string
  oc_register_url :: string
  oc_verify_url :: string
  oc_key_path :: string
  oc_max_per_ip :: int
  oc_otp_timeout :: duration
  oc_cooldown :: duration

definition or_default :: "string \<Rightarrow> string \<Rightarrow> string" where
  "or_default d s = (if s = [] then d else s)"

definition new_otp_config :: "otp_config \<Rightarrow> otp_config option" where
  "new_otp_config c =
     (let c1 = c\<lparr>oc_listen := or_default ''127.0.0.1:8090'' (oc_listen c),
                 oc_addr_prefix := or_default ''pilot_'' (oc_addr_prefix c),
                 oc_key_path := or_default ''application.api_key'' (oc_key_path c),
                 oc_otp_timeout := (if oc_otp_timeout c \<le> 0 then 90 * second else oc_otp_timeout c)\<rparr>
      in if list_ex (\<lambda>v. trim_space v = [])
              [oc_mail_url c1, oc_mail_token c1, oc_mail_domain c1, oc_register_url c1, oc_verify_url c1]
         then None else Some c1)"

record account_row =
  ar_email :: string
  ar_password_enc :: string
  ar_apikey_enc :: string
  ar_created :: int

record otp_record =
  ot_email :: string
  ot_password :: string
  ot_api_key :: string
  ot_created :: int

record otp_store =
  ol_rows :: "account_row gmap"
  ol_sealer :: sealer

text \<open>An account to file with the two nonces its secrets are sealed under.\<close>

type_synonym otp_entry = "otp_record \<times> string \<times> string"

definition otp_put :: "string \<Rightarrow> otp_entry \<Rightarrow> otp_store \<Rightarrow> otp_store" where
  "otp_put caller e s =
     (case e of (r, n1, n2) \<Rightarrow>
        if map_of (ol_rows s) caller \<noteq> None then s
        else s\<lparr>ol_rows := AList.update caller
                 \<lparr>ar_email = ot_email r, ar_password_enc = seal_text (ol_sealer s) n1 (ot_password r),
                  ar_apikey_enc = seal_text (ol_sealer s) n2 (ot_api_key r), ar_created = ot_created r\<rparr> (ol_rows s)\<rparr>)"

text \<open>None when there is no row, and when a secret of the row does not open: the caller of \<open>get\<close>
  drops the error.\<close>

definition otp_get :: "otp_store \<Rightarrow> string \<Rightarrow> otp_record option" where
  "otp_get s caller =
     Option.bind (map_of (ol_rows s) caller) (\<lambda>row.
     Option.bind (open_text (ol_sealer s) (ar_password_enc row)) (\<lambda>pw.
     Option.bind (open_text (ol_sealer s) (ar_apikey_enc row)) (\<lambda>ak.
       Some \<lparr>ot_email = ar_email row, ot_password = pw, ot_api_key = ak, ot_created = ar_created row\<rparr>)))"

definition has_row :: "otp_store \<Rightarrow> string \<Rightarrow> bool" where
  "has_row s c \<longleftrightarrow> map_of (ol_rows s) c \<noteq> None"

definition otp_good :: "otp_store \<Rightarrow> bool" where
  "otp_good s \<longleftrightarrow> sealer_ok (ol_sealer s) \<and> (\<forall>c. has_row s c \<longrightarrow> otp_get s c \<noteq> None)"

definition otp_fit :: "otp_entry \<Rightarrow> bool" where
  "otp_fit e \<longleftrightarrow> (case e of (_, n1, n2) \<Rightarrow> length n1 = nonce_size \<and> length n2 = nonce_size)"

lemma otp_get_put:
  assumes "otp_good s" "otp_fit e" "\<not> has_row s c"
  shows "otp_get (otp_put c e s) c = Some (fst e)"
  using assms by (cases e) (auto simp: otp_put_def otp_get_def otp_good_def otp_fit_def has_row_def open_seal)

lemma otp_get_other: "d \<noteq> c \<Longrightarrow> otp_get (otp_put c e s) d = otp_get s d"
  by (cases e) (auto simp: otp_put_def otp_get_def)

lemma otp_put_same: "has_row s c \<Longrightarrow> otp_put c e s = s"
  by (cases e) (auto simp: otp_put_def has_row_def)

lemma otp_put_sealer [simp]: "ol_sealer (otp_put c e s) = ol_sealer s"
  by (cases e) (auto simp: otp_put_def)

lemma otp_put_rows [simp]: "has_row (otp_put c e s) d \<longleftrightarrow> d = c \<or> has_row s d"
  by (cases e) (auto simp: otp_put_def has_row_def)

lemma otp_get_row: "otp_get s c = Some r \<Longrightarrow> has_row s c"
  by (cases "map_of (ol_rows s) c") (auto simp: otp_get_def has_row_def)

lemma otp_good_row: "otp_good s \<Longrightarrow> has_row s c \<Longrightarrow> otp_get s c \<noteq> None"
  unfolding otp_good_def by blast

lemma otp_put_good: "otp_good s \<Longrightarrow> otp_fit e \<Longrightarrow> otp_good (otp_put c e s)"
proof (cases "has_row s c")
  case False
  assume s: "otp_good s" "otp_fit e"
  have "otp_get (otp_put c e s) d \<noteq> None" if "has_row (otp_put c e s) d" for d
    using otp_get_put[OF s False] otp_get_other[of d c e s] otp_good_row[OF s(1), of d] that by (cases "d = c") auto
  then show ?thesis using s(1) unfolding otp_good_def by simp
qed (simp add: otp_put_same)

interpretation otp_ledger: account_ledger otp_get otp_put fst otp_good otp_fit
proof
  show "otp_good s \<Longrightarrow> otp_fit i \<Longrightarrow> otp_good (otp_put c i s)" for s i c by (rule otp_put_good)
  show "otp_good s \<Longrightarrow> otp_fit i \<Longrightarrow> otp_get s c = None \<Longrightarrow> otp_get (otp_put c i s) c = Some (fst i)" for s i c
    using otp_get_put[of s i c] otp_good_row[of s c] by blast
  show "otp_good s \<Longrightarrow> otp_get s d = Some a \<Longrightarrow> otp_get (otp_put c i s) d = Some a" for s d a c i
    using otp_get_other[of d c i s] otp_put_same[of s c i] otp_get_row[of s d a] by (cases "d = c") auto
qed

section \<open>The provider and the mail server\<close>

datatype signup_err =
    RateLimited | MailControl string int | RegisterLimited | RegisterStatus int | OtpTimeout
  | VerifyStatus int | NoKeyAt string | OtpPersist

record mint_rand =
  mr_addr :: string
  mr_password :: string
  mr_nonce1 :: string
  mr_nonce2 :: string
  mr_polls :: nat
  mr_gate_time :: gotime
  mr_put_time :: gotime
  mr_put_ok :: bool
  mr_mark_time :: gotime

definition mail_control :: "otp_config \<Rightarrow> signup_net \<Rightarrow> out_request list \<Rightarrow> string \<Rightarrow> string \<Rightarrow> int \<times> out_request list" where
  "mail_control c net sent path addr =
     (case post_json net sent (oc_mail_url c @ path) [(''addr'', addr)] (oc_mail_token c) of ((st, _), sent') \<Rightarrow> (st, sent'))"

definition register :: "otp_config \<Rightarrow> signup_net \<Rightarrow> out_request list \<Rightarrow> string \<Rightarrow> string \<Rightarrow> signup_err option \<times> out_request list" where
  "register c net sent addr password =
     (case post_json net sent (oc_register_url c) [(''email'', addr), (''password'', password)] [] of
        ((st, body), sent') \<Rightarrow>
          (if st \<in> set [200, 201, 409] then None
           else if (st = 400 \<or> st = 422) \<and> sublist ''already'' (to_lower body) then None
           else if st = 429 then Some RegisterLimited else Some (RegisterStatus st), sent'))"

definition dig_string :: "string \<Rightarrow> string \<Rightarrow> string" where
  "dig_string body path = (case Option.bind (unmarshal_json body) (\<lambda>v. dig v path) of Some (JStr s) \<Rightarrow> s | _ \<Rightarrow> [])"

definition verify_email :: "otp_config \<Rightarrow> signup_net \<Rightarrow> out_request list \<Rightarrow> string \<Rightarrow> string \<Rightarrow> (signup_err + string) \<times> out_request list" where
  "verify_email c net sent addr code =
     (case post_json net sent (oc_verify_url c) [(''email'', addr), (''code'', code)] [] of
        ((st, body), sent') \<Rightarrow>
          (if st \<noteq> 200 \<and> st \<noteq> 201 then Inl (VerifyStatus st)
           else let key = dig_string body (oc_key_path c) in
             if key = [] then Inl (NoKeyAt (oc_key_path c)) else Inr key, sent'))"

text \<open>The code in an answer of the mail server, when it is ready.\<close>

definition otp_ready :: "string \<Rightarrow> string option" where
  "otp_ready body =
     (case Option.bind (raw_doc body) struct_members of
        None \<Rightarrow> None
      | Some m \<Rightarrow> let (ready, ok1) = get_bool ''ready'' m; (code, ok2) = get_str ''code'' m
                  in if ok1 \<and> ok2 \<and> ready \<and> code \<noteq> [] then Some code else None)"

fun poll_otp :: "otp_config \<Rightarrow> signup_net \<Rightarrow> string \<Rightarrow> nat \<Rightarrow> out_request list \<Rightarrow> (signup_err + string) \<times> out_request list" where
  "poll_otp c net addr 0 sent = (Inl OtpTimeout, sent)"
| "poll_otp c net addr (Suc n) sent =
     (case get_json net sent (oc_mail_url c @ ''/otp?addr='' @ addr) (oc_mail_token c) of
        ((st, body), sent') \<Rightarrow>
          (case (if st = 200 then otp_ready body else None) of
             Some code \<Rightarrow> (Inr code, sent')
           | None \<Rightarrow> poll_otp c net addr n sent'))"

section \<open>Signup\<close>

record account =
  ac_email :: string
  ac_api_key :: string
  ac_cached :: bool

record otp_state =
  os_store :: otp_store
  os_gate :: ip_gate

text \<open>The first locked part: the account of a known caller, or whether the gate lets it mint.\<close>

definition signup_enter :: "otp_config \<Rightarrow> string \<Rightarrow> string \<Rightarrow> gotime \<Rightarrow> otp_state \<Rightarrow> signup_err + account option" where
  "signup_enter c caller ip now st =
     (case otp_get (os_store st) caller of
        Some r \<Rightarrow> Inr (Some \<lparr>ac_email = ot_email r, ac_api_key = ot_api_key r, ac_cached = True\<rparr>)
      | None \<Rightarrow> if gate_open (oc_cooldown c) (oc_max_per_ip c) caller ip now (os_gate st) then Inr None else Inl RateLimited)"

definition mint_addr :: "otp_config \<Rightarrow> mint_rand \<Rightarrow> string" where
  "mint_addr c r = oc_addr_prefix c @ rand_token (mr_addr r) @ ''@'' @ oc_mail_domain c"

definition drive_mailbox :: "otp_config \<Rightarrow> signup_net \<Rightarrow> nat \<Rightarrow> string \<Rightarrow> string \<Rightarrow> out_request list \<Rightarrow> (signup_err + string) \<times> out_request list" where
  "drive_mailbox c net polls addr password sent =
     (case register c net sent addr password of
        (Some e, s1) \<Rightarrow> (Inl e, s1)
      | (None, s1) \<Rightarrow>
          (case poll_otp c net addr polls s1 of
             (Inl e, s2) \<Rightarrow> (Inl e, s2)
           | (Inr code, s2) \<Rightarrow> verify_email c net s2 addr code))"

text \<open>The calls to the outside; a mailbox that was provisioned is torn down last, whatever happened.\<close>

definition mint_account :: "otp_config \<Rightarrow> signup_net \<Rightarrow> mint_rand \<Rightarrow> (signup_err + otp_record) \<times> out_request list" where
  "mint_account c net r =
     (let addr = mint_addr c r; password = rand_token (mr_password r) @ ''Aa1!'' in
      case mail_control c net [] ''/provision'' addr of (st, s1) \<Rightarrow>
        if st \<noteq> 200 then (Inl (MailControl ''/provision'' st), s1)
        else case drive_mailbox c net (mr_polls r) addr password s1 of (res, s2) \<Rightarrow>
          (map_sum id (\<lambda>key. \<lparr>ot_email = addr, ot_password = password, ot_api_key = key,
                              ot_created = unix_sec (mr_put_time r)\<rparr>) res,
           snd (mail_control c net s2 ''/teardown'' addr)))"

definition signup_commit :: "string \<Rightarrow> string \<Rightarrow> mint_rand \<Rightarrow> otp_record \<Rightarrow> otp_state \<Rightarrow> otp_state" where
  "signup_commit caller ip r acct st =
     st\<lparr>os_store := otp_put caller (acct, mr_nonce1 r, mr_nonce2 r) (os_store st),
        os_gate := mark_minted caller ip (mr_mark_time r) (os_gate st)\<rparr>"

definition signup :: "otp_config \<Rightarrow> signup_net \<Rightarrow> mint_rand \<Rightarrow> string \<Rightarrow> string \<Rightarrow> otp_state \<Rightarrow> (signup_err + account) \<times> out_request list \<times> otp_state" where
  "signup c net r caller ip st =
     (case signup_enter c caller ip (mr_gate_time r) st of
        Inl e \<Rightarrow> (Inl e, [], st)
      | Inr (Some a) \<Rightarrow> (Inr a, [], st)
      | Inr None \<Rightarrow>
          (case mint_account c net r of
             (Inl e, sent) \<Rightarrow> (Inl e, sent, st)
           | (Inr acct, sent) \<Rightarrow>
               if \<not> mr_put_ok r then (Inl OtpPersist, sent, st)
               else (Inr \<lparr>ac_email = ot_email acct, ac_api_key = ot_api_key acct, ac_cached = False\<rparr>, sent,
                signup_commit caller ip r acct st)))"

section \<open>The handler\<close>

definition signup_err_text :: "signup_err \<Rightarrow> string" where
  "signup_err_text e = (case e of
      RateLimited \<Rightarrow> ''per-IP identity cap reached (anti-abuse)''
    | MailControl p n \<Rightarrow> ''provision: mail control '' @ p @ '' HTTP '' @ itoa n
    | RegisterLimited \<Rightarrow> ''provider register rate-limited (429)''
    | RegisterStatus n \<Rightarrow> ''provider register HTTP '' @ itoa n
    | OtpTimeout \<Rightarrow> ''timed out waiting for the OTP''
    | VerifyStatus n \<Rightarrow> ''provider verify HTTP '' @ itoa n
    | NoKeyAt p \<Rightarrow> ''provider verify returned no key at '' @ CHR 0x22 # p @ [CHR 0x22]
    | OtpPersist \<Rightarrow> ''persist: database error'')"

definition account_json :: "account \<Rightarrow> string" where
  "account_json a =
     ''{'' @ json_quote ''email'' @ '':'' @ json_quote (ac_email a) @ '','' @ json_quote ''api_key'' @ '':'' @ json_quote (ac_api_key a)
     @ '','' @ json_quote ''cached'' @ '':'' @ (if ac_cached a then ''true'' else ''false'') @ ''}'' @ [CHR 0x0A]"

definition handle_signup :: "otp_config \<Rightarrow> crypto \<Rightarrow> (id_err \<Rightarrow> string) \<Rightarrow> gotime \<Rightarrow> signup_net \<Rightarrow> mint_rand \<Rightarrow> request \<Rightarrow> otp_state
    \<Rightarrow> response \<times> out_request list \<times> otp_state" where
  "handle_signup c cy errText now net r req st =
     (let body = (case rq_body req of Inr b \<Rightarrow> take 65536 b | Inl _ \<Rightarrow> []) in
      case verify cy 0 now (rq_header req) (rq_method req) (rq_path req) body of
        Inl e \<Rightarrow> (http_error 401 (''identity: '' @ errText e), [], st)
      | Inr caller \<Rightarrow>
          (case signup c net r caller (signup_ip req) st of
             (Inl e, sent, st') \<Rightarrow> (http_error (if e = RateLimited then 429 else 502) (signup_err_text e), sent, st')
           | (Inr a, sent, st') \<Rightarrow>
               (\<lparr>rs_status = 200, rs_headers = [(''Content-Type'', json_type)], rs_body = account_json a\<rparr>, sent, st')))"

section \<open>Runs of signups\<close>

text \<open>Signups one after another: what each was given, and each one's answer with the state after all.\<close>

record signup_call =
  sc_caller :: string
  sc_ip :: string
  sc_net :: signup_net
  sc_rand :: mint_rand

definition call_fit :: "signup_call \<Rightarrow> bool" where
  "call_fit k \<longleftrightarrow> length (mr_nonce1 (sc_rand k)) = nonce_size \<and> length (mr_nonce2 (sc_rand k)) = nonce_size"

definition do_signup :: "otp_config \<Rightarrow> signup_call \<Rightarrow> otp_state \<Rightarrow> (signup_err + account) \<times> out_request list \<times> otp_state" where
  "do_signup c k st = signup c (sc_net k) (sc_rand k) (sc_caller k) (sc_ip k) st"

definition signup_run :: "otp_config \<Rightarrow> signup_call list \<Rightarrow> otp_state \<Rightarrow> otp_state" where
  "signup_run c ks st = serve_all (do_signup c) ks st"

text \<open>The mints from an address: the calls that were answered with a new account.\<close>

definition mints_from :: "otp_config \<Rightarrow> string \<Rightarrow> signup_call list \<Rightarrow> otp_state \<Rightarrow> nat" where
  "mints_from c ip ks st = count_new (do_signup c) (\<lambda>a. \<not> ac_cached a) (\<lambda>k. sc_ip k = ip) ks st"

definition fresh_signups :: "sealer \<Rightarrow> otp_state" where
  "fresh_signups sl = \<lparr>os_store = \<lparr>ol_rows = [], ol_sealer = sl\<rparr>, os_gate = no_mints\<rparr>"

text \<open>A signup changes nothing, or mints for a caller without a row that the gate let in.\<close>

lemma signup_cases:
  assumes "do_signup c k st = (res, sent, st')"
  obtains
    (cached) r where "otp_get (os_store st) (sc_caller k) = Some r" "sent = []" "st' = st"
      "res = Inr \<lparr>ac_email = ot_email r, ac_api_key = ot_api_key r, ac_cached = True\<rparr>"
  | (failed) e where "otp_get (os_store st) (sc_caller k) = None" "res = Inl e" "st' = st"
  | (minted) acct where "otp_get (os_store st) (sc_caller k) = None"
      "gate_open (oc_cooldown c) (oc_max_per_ip c) (sc_caller k) (sc_ip k) (mr_gate_time (sc_rand k)) (os_gate st)"
      "res = Inr \<lparr>ac_email = ot_email acct, ac_api_key = ot_api_key acct, ac_cached = False\<rparr>"
      "st' = signup_commit (sc_caller k) (sc_ip k) (sc_rand k) acct st"
proof (cases "signup_enter c (sc_caller k) (sc_ip k) (mr_gate_time (sc_rand k)) st")
  case (Inl e)
  with assms show ?thesis
    by (intro failed[of e]) (auto simp: do_signup_def signup_def signup_enter_def split: option.splits if_splits)
next
  case (Inr o1)
  show ?thesis
  proof (cases o1)
    case (Some a)
    then obtain r where "otp_get (os_store st) (sc_caller k) = Some r"
      "a = \<lparr>ac_email = ot_email r, ac_api_key = ot_api_key r, ac_cached = True\<rparr>"
      using Inr by (auto simp: signup_enter_def split: option.splits if_splits)
    with Inr Some assms show ?thesis by (intro cached[of r]) (auto simp: do_signup_def signup_def)
  next
    case None
    with Inr have g: "otp_get (os_store st) (sc_caller k) = None"
      "gate_open (oc_cooldown c) (oc_max_per_ip c) (sc_caller k) (sc_ip k) (mr_gate_time (sc_rand k)) (os_gate st)"
      by (auto simp: signup_enter_def split: option.splits if_splits)
    obtain m log0 where m: "mint_account c (sc_net k) (sc_rand k) = (m, log0)" by fastforce
    show ?thesis
    proof (cases m)
      case (Inl e)
      with \<open>signup_enter _ _ _ _ _ = Inr o1\<close> None m g assms show ?thesis
        by (intro failed[of e]) (auto simp: do_signup_def signup_def)
    next
      case acct: (Inr acct)
      show ?thesis
      proof (cases "mr_put_ok (sc_rand k)")
        case True
        with \<open>signup_enter _ _ _ _ _ = Inr o1\<close> None m acct g assms show ?thesis
          by (intro minted[of acct]) (auto simp: do_signup_def signup_def)
      next
        case False
        with \<open>signup_enter _ _ _ _ _ = Inr o1\<close> None m acct g assms show ?thesis
          by (intro failed[of OtpPersist]) (auto simp: do_signup_def signup_def)
      qed
    qed
  qed
qed

definition otp_answer :: "otp_record \<Rightarrow> bool \<Rightarrow> account" where
  "otp_answer r cached = \<lparr>ac_email = ot_email r, ac_api_key = ot_api_key r, ac_cached = cached\<rparr>"

interpretation otp_broker:
  signup_broker otp_get otp_put fst otp_good otp_fit os_store os_gate sc_caller sc_ip call_fit
    "oc_max_per_ip c" "do_signup c" otp_answer "\<lambda>a. \<not> ac_cached a" for c
proof
  show "otp_get (os_store st) (sc_caller k) = Some a \<Longrightarrow> do_signup c k st = (Inr (otp_answer a True), [], st)" for st k a
    by (simp add: do_signup_def signup_def signup_enter_def otp_answer_def)
  show "(\<exists>e. res = Inl e \<and> os_store st' = os_store st \<and> os_gate st' = os_gate st) \<or>
      (\<exists>i cd t t'. otp_fit i \<and> res = Inr (otp_answer (fst i) False) \<and>
         gate_open cd (oc_max_per_ip c) (sc_caller k) (sc_ip k) t (os_gate st) \<and>
         os_store st' = otp_put (sc_caller k) i (os_store st) \<and> os_gate st' = mark_minted (sc_caller k) (sc_ip k) t' (os_gate st))"
    if "otp_get (os_store st) (sc_caller k) = None" "call_fit k" "do_signup c k st = (res, sent, st')" for st k res sent st'
    using that(3)
  proof (cases rule: signup_cases)
    case (minted acct)
    have "otp_fit (acct, mr_nonce1 (sc_rand k), mr_nonce2 (sc_rand k))" using that(2) by (simp add: otp_fit_def call_fit_def)
    with minted show ?thesis
      by (intro disjI2 exI[of _ "(acct, mr_nonce1 (sc_rand k), mr_nonce2 (sc_rand k))"] exI[of _ "oc_cooldown c"]
          exI[of _ "mr_gate_time (sc_rand k)"] exI[of _ "mr_mark_time (sc_rand k)"])
        (simp add: signup_commit_def otp_answer_def)
  qed (use that(1) in auto)
  show "(\<not> ac_cached (otp_answer a b)) = (\<not> b)" for a b by (simp add: otp_answer_def)
qed

lemma fresh_inv: "sealer_ok sl \<Longrightarrow> otp_broker.inv c (fresh_signups sl)"
  using no_mints_inv
  by (simp add: otp_broker.inv_def fresh_signups_def otp_good_def has_row_def) (simp add: seen_at_def no_mints_def)

text \<open>Observation: From an empty ledger, a caller that signed up gets the same address and key from every later
  signup, whatever happened in between and wherever it comes from, marked as a repeat, and without a
  request to the provider or the mail server.\<close>

theorem signup_repeats_account:
  assumes "sealer_ok sl" "list_all call_fit (before @ k # after)"
    and "do_signup c k (signup_run c before (fresh_signups sl)) = (Inr a, sent, st)"
    and "sc_caller k' = sc_caller k"
  shows "do_signup c k' (signup_run c after st)
           = (Inr (a\<lparr>ac_cached := True\<rparr>), [], signup_run c after st)"
  using otp_broker.repeats[OF fresh_inv[OF assms(1)] assms(2), of c a sent st k'] assms(3,4)
  by (auto simp: signup_run_def otp_answer_def)

text \<open>Observation: Signups handled one after another mint at most as many accounts from one address as the cap.\<close>

theorem sequential_signups_capped:
  assumes "sealer_ok sl" "list_all call_fit ks" "0 < oc_max_per_ip c"
  shows "int (mints_from c ip ks (fresh_signups sl)) \<le> oc_max_per_ip c"
  using otp_broker.new_bounded[OF fresh_inv[OF assms(1)] assms(2,3), of ip] by (simp add: mints_from_def)

section \<open>The mailbox\<close>

definition mail_request :: "otp_config \<Rightarrow> string \<Rightarrow> string \<Rightarrow> out_request" where
  "mail_request c path addr =
     json_request ''POST'' (oc_mail_url c @ path) (oc_mail_token c) (json_text (JObj [(''addr'', JStr addr)]))"

lemma mail_control_sends:
  "mail_control c net sent path addr = (fst (net (sent @ [mail_request c path addr])), sent @ [mail_request c path addr])"
  by (simp add: mail_control_def post_json_def mail_request_def Let_def split: prod.splits)

lemma poll_otp_sends:
  "poll_otp c net addr n sent = (res, sent') \<Longrightarrow> \<exists>more. sent' = sent @ more \<and> length more \<le> n"
proof (induction c net addr n sent rule: poll_otp.induct)
  case (2 c net addr n sent)
  obtain st body s1 where g: "get_json net sent (oc_mail_url c @ ''/otp?addr='' @ addr) (oc_mail_token c) = ((st, body), s1)"
    by (cases "get_json net sent (oc_mail_url c @ ''/otp?addr='' @ addr) (oc_mail_token c)") auto
  then have s1: "\<exists>q. s1 = sent @ [q]" by (auto simp: get_json_def Let_def)
  show ?case
  proof (cases "if st = 200 then otp_ready body else None")
    case None
    then have "poll_otp c net addr n s1 = (res, sent')" using 2(2) g by simp
    from 2(1)[OF g[symmetric] refl None this] s1 show ?thesis by fastforce
  next
    case (Some code)
    with 2(2) g s1 show ?thesis by fastforce
  qed
qed simp

lemma register_sends: "register c net sent addr password = (res, sent') \<Longrightarrow> \<exists>q. sent' = sent @ [q]"
  by (auto simp: register_def post_json_def Let_def split: prod.splits)

lemma verify_sends: "verify_email c net sent addr code = (res, sent') \<Longrightarrow> \<exists>q. sent' = sent @ [q]"
  by (auto simp: verify_email_def post_json_def Let_def split: prod.splits)

lemma drive_mailbox_sends:
  "drive_mailbox c net polls addr password sent = (res, sent') \<Longrightarrow>
   \<exists>more. sent' = sent @ more \<and> length more \<le> polls + 2"
proof -
  assume d: "drive_mailbox c net polls addr password sent = (res, sent')"
  obtain e s1 where r: "register c net sent addr password = (e, s1)" by fastforce
  obtain q where s1: "s1 = sent @ [q]" using register_sends[OF r] by blast
  obtain p s2 where p: "poll_otp c net addr polls s1 = (p, s2)" by fastforce
  obtain more where s2: "s2 = s1 @ more" "length more \<le> polls" using poll_otp_sends[OF p] by blast
  show ?thesis
  proof (cases e)
    case (Some x)
    with d r have "sent' = s1" by (simp add: drive_mailbox_def)
    with s1 show ?thesis by (intro exI[of _ "[q]"]) simp
  next
    case None
    show ?thesis
    proof (cases p)
      case (Inl x)
      with None d r p have "sent' = s2" by (simp add: drive_mailbox_def)
      with s1 s2 show ?thesis by (intro exI[of _ "q # more"]) simp
    next
      case (Inr code)
      with None d r p have "verify_email c net s2 addr code = (res, sent')" by (simp add: drive_mailbox_def)
      from verify_sends[OF this] obtain q2 where "sent' = s2 @ [q2]" by blast
      with s1 s2 show ?thesis by (intro exI[of _ "q # more @ [q2]"]) simp
    qed
  qed
qed

text \<open>C36: A mint provisions a mailbox first; when the mail server agreed, the last request of the mint tears
  that mailbox down, whatever the provider, the code or the key ran into, and when it refused nothing
  else is sent. A mint sends at most four requests besides its polls.\<close>

theorem mailbox_torn_down:
  assumes "mint_account c net r = (res, sent)"
  shows "hd sent = mail_request c ''/provision'' (mint_addr c r) \<and>
    (if fst (net [hd sent]) = 200
     then last sent = mail_request c ''/teardown'' (mint_addr c r) \<and> length sent \<le> mr_polls r + 4
     else length sent = 1 \<and> (\<exists>e. res = Inl e))"
proof -
  let ?p = "mail_request c ''/provision'' (mint_addr c r)"
  obtain res2 s2 where d: "drive_mailbox c net (mr_polls r) (mint_addr c r) (rand_token (mr_password r) @ ''Aa1!'') [?p] = (res2, s2)"
    by fastforce
  obtain more where more: "s2 = [?p] @ more" "length more \<le> mr_polls r + 2" using drive_mailbox_sends[OF d] by blast
  have sent: "sent = (if fst (net [?p]) = 200 then s2 @ [mail_request c ''/teardown'' (mint_addr c r)] else [?p])"
    and res: "fst (net [?p]) \<noteq> 200 \<Longrightarrow> \<exists>e. res = Inl e"
    using assms d by (auto simp: mint_account_def mail_control_sends Let_def split: if_splits prod.splits)
  have hd: "hd sent = ?p" using sent more by simp
  show ?thesis using sent more res unfolding hd by simp
qed

section \<open>Signups at the same time\<close>

text \<open>Observation: The cap does not hold for signups that overlap: any number of callers from one address can pass
  the gate before the first of them is marked, and then all of them mint.\<close>

theorem overlapping_signups_exceed_cap:
  shows "signup_enter c caller ip now (fresh_signups sl) = Inr None"
    and "distinct callers \<Longrightarrow>
       length (seen_at (os_gate (fold (\<lambda>a. signup_commit a ip r acct) callers (fresh_signups sl))) ip) = length callers"
proof -
  show "signup_enter c caller ip now (fresh_signups sl) = Inr None"
    by (simp add: fresh_signups_def signup_enter_def otp_get_def gate_open_def no_mints_def)
  have "set (seen_at (os_gate (fold (\<lambda>a. signup_commit a ip r acct) as s)) ip) = set (seen_at (os_gate s) ip) \<union> set as
     \<and> (distinct (seen_at (os_gate s) ip) \<longrightarrow> distinct (seen_at (os_gate (fold (\<lambda>a. signup_commit a ip r acct) as s)) ip))" for "as" s
    by (induction "as" arbitrary: s) (auto simp: signup_commit_def seen_at_minted)
  from this[of callers "fresh_signups sl"] have "set (seen_at (os_gate (fold (\<lambda>a. signup_commit a ip r acct) callers (fresh_signups sl))) ip) = set callers"
    "distinct (seen_at (os_gate (fold (\<lambda>a. signup_commit a ip r acct) callers (fresh_signups sl))) ip)"
    by (simp_all add: fresh_signups_def no_mints_def seen_at_def)
  then show "distinct callers \<Longrightarrow>
       length (seen_at (os_gate (fold (\<lambda>a. signup_commit a ip r acct) callers (fresh_signups sl))) ip) = length callers"
    by (metis distinct_card)
qed

lemma mailbox_requests: "mint_account c net r = (res, sent) \<Longrightarrow> sent \<noteq> []"
  by (auto simp: mint_account_def mail_control_sends Let_def split: if_splits prod.splits)

text \<open>Observation: A caller whose row does not open any more (the key of the cipher changed) mints a new provider
  account at every signup, and none of them is kept.\<close>

theorem unreadable_row_mints_again:
  assumes "has_row (os_store st) (sc_caller k)" "otp_get (os_store st) (sc_caller k) = None"
    and "do_signup c k st = (Inr a, sent, st')"
  shows "\<not> ac_cached a \<and> sent \<noteq> [] \<and> os_store st' = os_store st"
  using assms(3)
proof (cases rule: signup_cases)
  case (minted acct)
  obtain m log0 where m: "mint_account c (sc_net k) (sc_rand k) = (m, log0)" by fastforce
  have "sent = log0"
    using assms(2,3) m minted(2)
    by (cases m) (auto simp: do_signup_def signup_def signup_enter_def split: if_splits)
  then have "sent \<noteq> []" using mailbox_requests[OF m] by simp
  with minted show ?thesis using otp_put_same[OF assms(1)] by (simp add: signup_commit_def)
qed (use assms(2) in auto)

section \<open>A signup\<close>

definition plain_sealer :: sealer where "plain_sealer = \<lparr>sl_seal = (\<lambda>n p. p), sl_open = (\<lambda>n p. Some p)\<rparr>"

definition sample_otp_config :: otp_config where
  "sample_otp_config =
     \<lparr>oc_listen = [], oc_mail_url = ''m'', oc_mail_token = ''t'', oc_mail_domain = ''x.net'', oc_addr_prefix = ''pilot_'',
      oc_register_url = ''r'', oc_verify_url = ''v'', oc_key_path = ''k'', oc_max_per_ip = 1, oc_otp_timeout = 0, oc_cooldown = 0\<rparr>"

definition sample_rand :: mint_rand where
  "sample_rand = \<lparr>mr_addr = ''ab'', mr_password = ''cd'', mr_nonce1 = ''0123456789ab'', mr_nonce2 = ''0123456789ac'', mr_polls = 2,
     mr_gate_time = 0, mr_put_time = 0, mr_put_ok = True, mr_mark_time = 0\<rparr>"

definition sample_provider :: signup_net where
  "sample_provider sent =
     (200, if ou_url (last sent) = ''v'' then json_text (JObj [(''k'', JStr ''key'')])
           else json_text (JObj [(''ready'', JBool True), (''code'', JStr ''A1B2C3'')]))"

definition sample_signup :: signup_call where
  "sample_signup = \<lparr>sc_caller = ''c'', sc_ip = ''1.1.1.1'', sc_net = sample_provider, sc_rand = sample_rand\<rparr>"

lemma plain_ok: "sealer_ok plain_sealer" "call_fit sample_signup"
  by (simp_all add: sealer_ok_def plain_sealer_def call_fit_def sample_signup_def sample_rand_def nonce_size_def)

lemma sample_signs_up:
  "case fst (do_signup sample_otp_config sample_signup (fresh_signups plain_sealer)) of
     Inl _ \<Rightarrow> False | Inr a \<Rightarrow> ac_api_key a = ''key'' \<and> \<not> ac_cached a"
  by code_simp

theorem signup_repeats_account_witness:
  "\<exists>st. map_sum id ac_api_key (fst (do_signup sample_otp_config (sample_signup\<lparr>sc_ip := ''2.2.2.2''\<rparr>) st)) = Inr ''key''"
proof -
  obtain a sent st where d: "do_signup sample_otp_config sample_signup (signup_run sample_otp_config [] (fresh_signups plain_sealer)) = (Inr a, sent, st)"
    "ac_api_key a = ''key''"
    using sample_signs_up by (cases "do_signup sample_otp_config sample_signup (fresh_signups plain_sealer)") (auto simp: signup_run_def split: sum.splits)
  have "list_all call_fit ([] @ sample_signup # [])" using plain_ok by simp
  from signup_repeats_account[OF plain_ok(1) this d(1), of "sample_signup\<lparr>sc_ip := ''2.2.2.2''\<rparr>"] d(2)
  show ?thesis by (intro exI[of _ st]) (simp add: signup_run_def)
qed

theorem sequential_signups_capped_witness:
  "int (mints_from sample_otp_config ''1.1.1.1'' [sample_signup, sample_signup\<lparr>sc_caller := ''d''\<rparr>] (fresh_signups plain_sealer)) \<le> 1"
  using sequential_signups_capped[of plain_sealer "[sample_signup, sample_signup\<lparr>sc_caller := ''d''\<rparr>]" sample_otp_config "''1.1.1.1''"] plain_ok
  by (simp add: call_fit_def sample_signup_def sample_rand_def nonce_size_def sample_otp_config_def)

theorem mailbox_torn_down_witness:
  "last (snd (mint_account sample_otp_config sample_provider sample_rand)) =
     mail_request sample_otp_config ''/teardown'' (mint_addr sample_otp_config sample_rand)"
proof -
  have "fst (sample_provider [hd (snd (mint_account sample_otp_config sample_provider sample_rand))]) = 200"
    by (simp add: sample_provider_def)
  with mailbox_torn_down[of sample_otp_config sample_provider sample_rand, OF prod.collapse[symmetric]] show ?thesis by simp
qed

theorem overlapping_signups_exceed_cap_witness:
  "length (seen_at (os_gate (fold (\<lambda>a. signup_commit a ''1.1.1.1'' sample_rand undefined) [''a'', ''b''] (fresh_signups plain_sealer))) ''1.1.1.1'') = 2"
  using overlapping_signups_exceed_cap(2)[of "[''a'', ''b'']" "''1.1.1.1''" sample_rand undefined plain_sealer] by simp

end
