(* ===== verification/Otp_Mail.thy ===== *)
theory Otp_Mail
  imports Signup_Ledger Json_Print Utf8
begin

text \<open>
  internal/otpmail: a mail server that only receives, for the one-time codes of a signup. The server's
  state is the table of provisioned addresses and the files of its maildir; an SMTP session is a
  function from the client's input to the replies and deliveries it causes; the control API is one
  handler. A delivery is two steps (is the address provisioned; write the file), so that another
  request can come between them. What the file system does is an input of each operation.
\<close>

section \<open>Configuration and state\<close>

record mail_config =
  mc_domain :: string
  mc_maildir :: string
  mc_smtp_addr :: string
  mc_control_addr :: string
  mc_token :: string
  mc_max :: int

record mail_server =
  ms_active :: "gotime gmap"
  ms_files :: "((string \<times> string) \<times> string) list"

definition mail_default :: "string \<Rightarrow> string \<Rightarrow> string" where
  "mail_default d s = (if s = [] then d else s)"

definition new_mail_config :: "mail_config \<Rightarrow> mail_config option" where
  "new_mail_config c =
     (if mc_domain c = [] \<or> mc_token c = [] then None
      else Some (c\<lparr>mc_maildir := mail_default ''/var/otpmail'' (mc_maildir c),
                   mc_smtp_addr := mail_default '':25'' (mc_smtp_addr c),
                   mc_control_addr := mail_default ''127.0.0.1:8025'' (mc_control_addr c),
                   mc_max := (if mc_max c \<le> 0 then 262144 else mc_max c),
                   mc_domain := to_lower (mc_domain c)\<rparr>))"

text \<open>A server starts with no address provisioned, over what the maildir holds.\<close>

definition new_mail_server :: "((string \<times> string) \<times> string) list \<Rightarrow> mail_server" where
  "new_mail_server fs = \<lparr>ms_active = [], ms_files = fs\<rparr>"

text \<open>The outcome of the file operations: creating the directory, writing a file (in full, its first
  bytes only, or not at all), which files can be read, removing a file, removing a directory.\<close>

datatype write_outcome = Wrote | WroteFirst nat | NotCreated

record mail_io =
  io_mkdir :: bool
  io_write :: write_outcome
  io_read :: "string \<Rightarrow> bool"
  io_remove :: bool
  io_remove_all :: bool

definition io_fine :: mail_io where
  "io_fine = \<lparr>io_mkdir = True, io_write = Wrote, io_read = (\<lambda>_. True), io_remove = True, io_remove_all = True\<rparr>"

section \<open>Addresses\<close>

definition local_chr :: "char \<Rightarrow> bool" where
  "local_chr c \<longleftrightarrow> is_lower_chr c \<or> is_digit c \<or> c \<in> set ''_.-+''"

definition safe_rune :: "nat \<Rightarrow> char" where
  "safe_rune u = (if u < 128 \<and> (local_chr (char_of u) \<or> char_of u = CHR ''@'') then char_of u else CHR ''_'')"

definition safe_local :: "string \<Rightarrow> string" where
  "safe_local addr = map safe_rune (runes addr)"

definition mailbox_dir :: "string \<Rightarrow> string" where
  "mailbox_dir addr = safe_local (to_lower addr)"

definition has_suffix :: "string \<Rightarrow> string \<Rightarrow> bool" where
  "has_suffix suf s \<longleftrightarrow> length suf \<le> length s \<and> drop (length s - length suf) s = suf"

definition at_domain :: "mail_config \<Rightarrow> string" where
  "at_domain c = CHR ''@'' # mc_domain c"

definition valid_addr :: "mail_config \<Rightarrow> string \<Rightarrow> bool" where
  "valid_addr c addr0 =
     (let addr = to_lower addr0; loc = take (length addr - length (at_domain c)) addr in
      has_suffix (at_domain c) addr \<and> loc \<noteq> [] \<and> length loc \<le> 64 \<and> list_all local_chr loc)"

section \<open>Provisioning and delivery\<close>

definition mail_provision :: "string \<Rightarrow> gotime \<Rightarrow> mail_server \<Rightarrow> mail_server" where
  "mail_provision addr now s = s\<lparr>ms_active := AList.update (to_lower addr) now (ms_active s)\<rparr>"

definition is_active :: "string \<Rightarrow> mail_server \<Rightarrow> bool" where
  "is_active addr s \<longleftrightarrow> map_of (ms_active s) (to_lower addr) \<noteq> None"

definition mail_teardown :: "string \<Rightarrow> mail_io \<Rightarrow> mail_server \<Rightarrow> mail_server" where
  "mail_teardown addr io s =
     s\<lparr>ms_active := AList.delete (to_lower addr) (ms_active s),
       ms_files := (if io_remove_all io then filter (\<lambda>((d, _), _). d \<noteq> mailbox_dir (to_lower addr)) (ms_files s)
                    else ms_files s)\<rparr>"

definition write_mail :: "string \<Rightarrow> string \<Rightarrow> gotime \<Rightarrow> mail_io \<Rightarrow> mail_server \<Rightarrow> mail_server" where
  "write_mail rcpt data now io s =
     (if \<not> io_mkdir io then s
      else let key = (mailbox_dir rcpt, itoa now @ ''.eml'') in
        case io_write io of
          Wrote \<Rightarrow> s\<lparr>ms_files := AList.update key data (ms_files s)\<rparr>
        | WroteFirst k \<Rightarrow> s\<lparr>ms_files := AList.update key (take k data) (ms_files s)\<rparr>
        | NotCreated \<Rightarrow> s)"

definition deliver :: "string \<Rightarrow> string \<Rightarrow> gotime \<Rightarrow> mail_io \<Rightarrow> mail_server \<Rightarrow> mail_server" where
  "deliver rcpt data now io s = (if is_active rcpt s then write_mail rcpt data now io s else s)"

section \<open>The SMTP session\<close>

text \<open>\<open>ReadString\<close>: up to and including the next newline; an error at the end of the input, which is
  also where the connection's deadline cuts it.\<close>

definition line_feed :: char where "line_feed = CHR 0x0A"

definition read_line :: "string \<Rightarrow> (string \<times> string) option" where
  "read_line s = map_option (\<lambda>(a, b). (a @ [line_feed], b)) (cut_at line_feed s)"

definition crlf :: string where "crlf = [CHR 0x0D, CHR 0x0A]"

definition trim_crlf :: "string \<Rightarrow> string" where
  "trim_crlf s = rev (dropWhile (\<lambda>c. c \<in> set crlf) (rev s))"

definition extract_angle :: "string \<Rightarrow> string" where
  "extract_angle s =
     (case (index_of (CHR ''<'') s, index_of (CHR ''>'') s) of
        (Some i, Some j) \<Rightarrow>
          if j > i then take (j - Suc i) (drop (Suc i) s)
          else (case last_index_of (CHR '':'') s of Some k \<Rightarrow> trim_space (drop (Suc k) s) | None \<Rightarrow> trim_space s)
      | _ \<Rightarrow> (case last_index_of (CHR '':'') s of Some k \<Rightarrow> trim_space (drop (Suc k) s) | None \<Rightarrow> trim_space s))"

text \<open>The body of a message: dot-stuffing undone, and nothing more once the cap is reached.\<close>

definition undot :: "string \<Rightarrow> string" where
  "undot l = (if has_prefix ''..'' l then tl l else l)"

definition body_line :: "int \<Rightarrow> string \<Rightarrow> string \<Rightarrow> string" where
  "body_line cap buf l = (if int (length buf) < cap then buf @ undot l else buf)"

definition last_dot :: "string \<Rightarrow> bool" where
  "last_dot l \<longleftrightarrow> l = CHR ''.'' # crlf \<or> l = CHR ''.'' # [line_feed]"

lemma read_line_length: "read_line s = Some (l, r) \<Longrightarrow> length r < length s"
  by (auto simp: read_line_def dest!: cut_at_SomeD)

function read_data :: "int \<Rightarrow> string \<Rightarrow> string \<Rightarrow> (string \<times> string) option" where
  "read_data cap buf s =
     (case read_line s of
        None \<Rightarrow> None
      | Some (l, r) \<Rightarrow> if last_dot l then Some (buf, r) else read_data cap (body_line cap buf l) r)"
  by pat_completeness auto
termination by (relation "measure (\<lambda>(_, _, s). length s)") (auto dest: read_line_length)

declare read_data.simps [simp del]

lemma read_data_step:
  "read_line s = Some (l, r) \<Longrightarrow>
   read_data cap buf s = (if last_dot l then Some (buf, r) else read_data cap (body_line cap buf l) r)"
  "read_line s = None \<Longrightarrow> read_data cap buf s = None"
  by (simp_all add: read_data.simps[of cap buf s])

lemma read_data_length: "read_data cap buf s = Some (d, r) \<Longrightarrow> length r < length s"
proof (induction cap buf s rule: read_data.induct)
  case (1 cap buf s)
  show ?case
  proof (cases "read_line s")
    case None
    with 1(2) show ?thesis by (simp add: read_data_step)
  next
    case (Some p)
    obtain l q where p: "p = (l, q)" by (cases p)
    note q = read_line_length[OF Some[unfolded p]]
    show ?thesis
    proof (cases "last_dot l")
      case True
      with 1(2) Some p q show ?thesis by (simp add: read_data_step)
    next
      case False
      with 1(2) Some p have "read_data cap (body_line cap buf l) q = Some (d, r)" by (simp add: read_data_step)
      from 1(1)[OF Some p[symmetric] False this] q show ?thesis by simp
    qed
  qed
qed

lemma data_after_line: "read_line s = Some (l, r) \<Longrightarrow> read_data cap buf r = Some (d, r') \<Longrightarrow> length r' < length s"
  using read_line_length read_data_length by fastforce

datatype smtp_event = Reply string | Deliver string string

definition smtp_verb :: "string \<Rightarrow> string" where
  "smtp_verb l = to_upper (takeWhile (\<lambda>c. c \<noteq> CHR '' '') l)"

definition rcpt_addr :: "string \<Rightarrow> string" where
  "rcpt_addr l = to_lower (extract_angle l)"

function smtp_loop :: "mail_config \<Rightarrow> string list \<Rightarrow> string \<Rightarrow> smtp_event list" where
  "smtp_loop c rcpts s =
     (case read_line s of
        None \<Rightarrow> []
      | Some (l0, r) \<Rightarrow>
          let l = trim_crlf l0; v = smtp_verb l in
          if v = ''HELO'' \<or> v = ''EHLO'' then Reply (''250 '' @ mc_domain c) # smtp_loop c rcpts r
          else if v = ''MAIL'' then Reply ''250 2.1.0 OK'' # smtp_loop c rcpts r
          else if v = ''RCPT'' then
            (if has_suffix (at_domain c) (rcpt_addr l)
             then Reply ''250 2.1.5 OK'' # smtp_loop c (rcpts @ [rcpt_addr l]) r
             else Reply ''550 5.7.1 relaying denied'' # smtp_loop c rcpts r)
          else if v = ''DATA'' then
            (if rcpts = [] then Reply ''503 5.5.1 need RCPT'' # smtp_loop c rcpts r
             else Reply ''354 End data with <CR><LF>.<CR><LF>'' #
               (case read_data (mc_max c) [] r of
                  None \<Rightarrow> []
                | Some (d, r') \<Rightarrow> map (\<lambda>a. Deliver a d) rcpts @ Reply ''250 2.0.0 OK'' # smtp_loop c [] r'))
          else if v = ''RSET'' then Reply ''250 2.0.0 OK'' # smtp_loop c [] r
          else if v = ''NOOP'' then Reply ''250 2.0.0 OK'' # smtp_loop c rcpts r
          else if v = ''QUIT'' then [Reply ''221 2.0.0 Bye'']
          else Reply ''250 2.0.0 OK'' # smtp_loop c rcpts r)"
  by pat_completeness auto
termination
  by (relation "measure (\<lambda>(_, _, s). length s)") (auto dest: read_line_length data_after_line)

declare smtp_loop.simps [simp del]

definition handle_smtp :: "mail_config \<Rightarrow> string \<Rightarrow> smtp_event list" where
  "handle_smtp c s = Reply (''220 '' @ mc_domain c @ '' ESMTP'') # smtp_loop c [] s"

section \<open>The code in a message\<close>

text \<open>The two regular expressions, over runes: a token is six letters or digits between word
  boundaries; the one after a keyword is found leftmost first, the gap of at most forty runes as short
  as possible. Ignoring case adds to the letters the two runes that fold to them (U+017F, U+212A).\<close>

definition word_rune :: "nat \<Rightarrow> bool" where
  "word_rune u \<longleftrightarrow> (48 \<le> u \<and> u \<le> 57) \<or> (65 \<le> u \<and> u \<le> 90) \<or> u = 95 \<or> (97 \<le> u \<and> u \<le> 122)"

definition alnum_rune :: "bool \<Rightarrow> nat \<Rightarrow> bool" where
  "alnum_rune fold_case u \<longleftrightarrow> (word_rune u \<and> u \<noteq> 95) \<or> (fold_case \<and> (u = 383 \<or> u = 8490))"

definition starts_word :: "nat list \<Rightarrow> bool" where
  "starts_word r = (case r of [] \<Rightarrow> False | u # _ \<Rightarrow> word_rune u)"

definition boundary :: "bool \<Rightarrow> nat list \<Rightarrow> bool" where
  "boundary p r \<longleftrightarrow> p \<noteq> starts_word r"

definition token_at :: "bool \<Rightarrow> bool \<Rightarrow> nat list \<Rightarrow> nat list option" where
  "token_at fold_case p r =
     (if length r \<ge> 6 \<and> boundary p r \<and> list_all (alnum_rune fold_case) (take 6 r) \<and> boundary (word_rune (r ! 5)) (drop 6 r)
      then Some (take 6 r) else None)"

fun after_gap :: "nat \<Rightarrow> bool \<Rightarrow> nat list \<Rightarrow> nat list option" where
  "after_gap n p r =
     (case token_at True p r of
        Some t \<Rightarrow> Some t
      | None \<Rightarrow> (case (n, r) of (Suc m, u # r') \<Rightarrow> after_gap m (word_rune u) r' | _ \<Rightarrow> None))"

declare after_gap.simps [simp del]

definition otp_keywords :: "string list" where
  "otp_keywords = [''code'', ''otp'', ''verification'', ''pin'']"

definition lower_rune :: "nat \<Rightarrow> nat" where
  "lower_rune u = (if 65 \<le> u \<and> u \<le> 90 then u + 32 else u)"

definition after_word :: "string \<Rightarrow> nat list \<Rightarrow> nat list option" where
  "after_word k r =
     (if length k \<le> length r \<and> map lower_rune (take (length k) r) = map byte k \<and> boundary True (drop (length k) r)
      then after_gap 40 True (drop (length k) r) else None)"

definition first_some :: "('a \<Rightarrow> 'b option) \<Rightarrow> 'a list \<Rightarrow> 'b option" where
  "first_some f xs = (case List.map_filter f xs of [] \<Rightarrow> None | y # _ \<Rightarrow> Some y)"

fun keyword_token :: "nat list \<Rightarrow> nat list option" where
  "keyword_token [] = None"
| "keyword_token (u # r) =
     (case first_some (\<lambda>k. after_word k (u # r)) otp_keywords of Some t \<Rightarrow> Some t | None \<Rightarrow> keyword_token r)"

fun all_tokens :: "bool \<Rightarrow> nat list \<Rightarrow> nat list list" where
  "all_tokens p [] = []"
| "all_tokens p (u # r) =
     (case token_at False p (u # r) of
        Some t \<Rightarrow> t # all_tokens (word_rune (last t)) (drop 5 r)
      | None \<Rightarrow> all_tokens (word_rune u) r)"

definition mixed :: "nat list \<Rightarrow> bool" where
  "mixed us \<longleftrightarrow> list_ex (\<lambda>u. word_rune u \<and> u \<ge> 65 \<and> u \<noteq> 95) us \<and> list_ex (\<lambda>u. 48 \<le> u \<and> u \<le> 57) us"

definition upper_rune :: "nat \<Rightarrow> nat" where
  "upper_rune u = (if 97 \<le> u \<and> u \<le> 122 then u - 32 else if u = 383 then 83 else u)"

definition upper_token :: "nat list \<Rightarrow> string" where
  "upper_token us = of_runes (map upper_rune us)"

definition parse_otp :: "string \<Rightarrow> string" where
  "parse_otp body =
     (let r = runes body; k = keyword_token r in
      case k of
        Some t \<Rightarrow> if mixed t then upper_token t
                  else (case List.find mixed (all_tokens False r) of Some m \<Rightarrow> upper_token m | None \<Rightarrow> upper_token t)
      | None \<Rightarrow> (case List.find mixed (all_tokens False r) of Some m \<Rightarrow> upper_token m | None \<Rightarrow> []))"

section \<open>Reading a code\<close>

definition mail_files :: "string \<Rightarrow> mail_server \<Rightarrow> (string \<times> string) list" where
  "mail_files dir s =
     sort_members (List.map_filter (\<lambda>((d, f), x). if d = dir \<and> has_suffix ''.eml'' f then Some (f, x) else None) (ms_files s))"

fun first_code :: "mail_io \<Rightarrow> (string \<times> string) list \<Rightarrow> (string \<times> string) option" where
  "first_code io [] = None"
| "first_code io ((f, x) # fs) =
     (let code = parse_otp (if io_read io f then x else []) in
      if code \<noteq> [] then Some (f, code) else first_code io fs)"

definition read_otp :: "string \<Rightarrow> mail_io \<Rightarrow> mail_server \<Rightarrow> string \<times> mail_server" where
  "read_otp addr io s =
     (let dir = mailbox_dir addr in
      case first_code io (mail_files dir s) of
        None \<Rightarrow> ([], s)
      | Some (f, code) \<Rightarrow>
          (code, if io_remove io then s\<lparr>ms_files := AList.delete (dir, f) (ms_files s)\<rparr> else s))"

section \<open>The control API\<close>

definition addr_from_req :: "request \<Rightarrow> string" where
  "addr_from_req r =
     (let a = (case map_of (query_values (rq_raw_query r)) ''addr'' of Some v \<Rightarrow> v | None \<Rightarrow> []) in
      if a \<noteq> [] then a
      else (case Option.bind (raw_decode (case rq_body r of Inr b \<Rightarrow> b | Inl _ \<Rightarrow> [])) (\<lambda>(v, _). struct_members v) of
              Some m \<Rightarrow> fst (get_str ''addr'' m) | None \<Rightarrow> []))"

definition mail_authorized :: "mail_config \<Rightarrow> request \<Rightarrow> bool" where
  "mail_authorized c r \<longleftrightarrow> rq_header r ''Authorization'' = ''Bearer '' @ mc_token c"

definition otp_reply :: "string \<Rightarrow> response" where
  "otp_reply code = write_json 200 (JObj [(''ok'', JBool True), (''ready'', JBool (code \<noteq> [])), (''code'', JStr code)])"

definition h_provision :: "mail_config \<Rightarrow> request \<Rightarrow> gotime \<Rightarrow> mail_server \<Rightarrow> response \<times> mail_server" where
  "h_provision c r now s =
     (let addr = addr_from_req r in
      if \<not> valid_addr c addr then (http_error 400 ''bad addr'', s)
      else (write_json 200 (JObj [(''ok'', JBool True), (''addr'', JStr (to_lower addr))]), mail_provision addr now s))"

definition h_otp :: "mail_config \<Rightarrow> request \<Rightarrow> mail_io \<Rightarrow> mail_server \<Rightarrow> response \<times> mail_server" where
  "h_otp c r io s =
     (let addr = addr_from_req r in
      if \<not> valid_addr c addr \<or> \<not> is_active addr s then (http_error 400 ''not provisioned'', s)
      else case read_otp addr io s of (code, s') \<Rightarrow> (otp_reply code, s'))"

definition h_teardown :: "mail_config \<Rightarrow> request \<Rightarrow> mail_io \<Rightarrow> mail_server \<Rightarrow> response \<times> mail_server" where
  "h_teardown c r io s =
     (let addr = addr_from_req r in
      if \<not> valid_addr c addr then (http_error 400 ''bad addr'', s)
      else (write_json 200 (JObj [(''ok'', JBool True)]), mail_teardown addr io s))"

definition mail_api :: "mail_config \<Rightarrow> request \<Rightarrow> gotime \<Rightarrow> mail_io \<Rightarrow> mail_server \<Rightarrow> response \<times> mail_server" where
  "mail_api c r now io s =
     (let guarded = (\<lambda>h. if mail_authorized c r then h else (http_error 401 ''unauthorized'', s)) in
      if rq_path r = ''/healthz''
      then (\<lparr>rs_status = 200, rs_headers = [(''Content-Type'', ''text/plain; charset=utf-8'')], rs_body = ''ok''\<rparr>, s)
      else if rq_path r = ''/provision'' then guarded (h_provision c r now s)
      else if rq_path r = ''/otp'' then guarded (h_otp c r io s)
      else if rq_path r = ''/teardown'' then guarded (h_teardown c r io s)
      else (http_error 404 ''404 page not found'', s))"

section \<open>Runs of the server\<close>

text \<open>Requests, deliveries in their two steps, and restarts, in any order. A run remembers the
  messages that passed the check, and the deliveries still to be written.\<close>

datatype mail_op = Api request | Mailed string string | Restarted

inductive mail_run :: "mail_config \<Rightarrow> mail_op list \<Rightarrow> (string \<times> string) list \<Rightarrow> mail_server \<Rightarrow> bool" for c where
  boot: "mail_run c [] [] (new_mail_server [])"
| served: "mail_run c ops pend s \<Longrightarrow> mail_run c (ops @ [Api req]) pend (snd (mail_api c req now io s))"
| checked: "mail_run c ops pend s \<Longrightarrow> Deliver rcpt data \<in> set (handle_smtp c input) \<Longrightarrow> is_active rcpt s \<Longrightarrow>
    mail_run c (ops @ [Mailed rcpt data]) ((rcpt, data) # pend) s"
| written: "mail_run c ops pend s \<Longrightarrow> (rcpt, data) \<in> set pend \<Longrightarrow>
    mail_run c ops (remove1 (rcpt, data) pend) (write_mail rcpt data now io s)"
| restarted: "mail_run c ops pend s \<Longrightarrow> mail_run c (ops @ [Restarted]) [] (new_mail_server (ms_files s))"

section \<open>Addresses and mailboxes\<close>

lemma chr_lower_idem [simp]: "chr_lower (chr_lower c) = chr_lower c"
  by (auto simp: chr_lower_def is_upper_chr_def)

lemma to_lower_idem [simp]: "to_lower (to_lower s) = to_lower s"
  by (simp add: to_lower_def)

lemma has_suffix_iff: "has_suffix suf s \<longleftrightarrow> (\<exists>p. s = p @ suf)"
proof
  assume "has_suffix suf s"
  then have "s = take (length s - length suf) s @ suf"
    unfolding has_suffix_def by (metis append_take_drop_id)
  then show "\<exists>p. s = p @ suf" ..
qed (auto simp: has_suffix_def)

lemma valid_addr_iff:
  "valid_addr c a \<longleftrightarrow>
     (\<exists>loc. to_lower a = loc @ at_domain c \<and> loc \<noteq> [] \<and> length loc \<le> 64 \<and> list_all local_chr loc)"
  unfolding valid_addr_def has_suffix_iff Let_def by (auto simp del: not_gr_zero)

lemma valid_addr_lower [simp]: "valid_addr c (to_lower a) = valid_addr c a"
  by (simp add: valid_addr_iff)

lemma local_chr_low: "local_chr c \<Longrightarrow> byte c < 128 \<and> safe_rune (byte c) = c"
proof -
  assume l: "local_chr c"
  then have "byte c < 128"
    by (auto simp: local_chr_def is_lower_chr_def is_digit_def byte_def)
  with l show ?thesis by (simp add: safe_rune_def)
qed

lemma local_ascii: "list_all local_chr s \<Longrightarrow> is_ascii s \<and> map (safe_rune \<circ> byte) s = s"
  by (induction s) (auto dest: local_chr_low)

lemma safe_local_append: "list_all local_chr s \<Longrightarrow> safe_local (s @ t) = s @ safe_local t"
  using local_ascii[of s] by (simp add: safe_local_def runes_ascii_append)

lemma safe_rune_chars: "local_chr (safe_rune u) \<or> safe_rune u = CHR ''@''"
  by (auto simp: safe_rune_def local_chr_def)

lemma safe_local_chars: "x \<in> set (safe_local a) \<Longrightarrow> local_chr x \<or> x = CHR ''@''"
  using safe_rune_chars by (auto simp: safe_local_def)

lemma safe_local_at: "safe_local (CHR ''@'' # t) = CHR ''@'' # safe_local t"
proof -
  have "byte (CHR ''@'') = 64" "char_of (64::nat) = CHR ''@''" by code_simp+
  then show ?thesis by (simp add: safe_local_def decode_rune_def safe_rune_def)
qed

lemma mailbox_dir_valid:
  assumes "valid_addr c a"
  obtains loc where "to_lower a = loc @ at_domain c" "loc \<noteq> []" "list_all local_chr loc"
    "mailbox_dir a = loc @ CHR ''@'' # safe_local (mc_domain c)"
proof -
  from assms obtain loc where l: "to_lower a = loc @ at_domain c" "loc \<noteq> []" "list_all local_chr loc"
    unfolding valid_addr_iff by blast
  with that show thesis by (simp add: mailbox_dir_def safe_local_append at_domain_def safe_local_at)
qed

text \<open>Observation: Two valid addresses share a mailbox only when they differ in letter case alone, and the mailbox
  of a valid address is one path component inside the maildir: no separator, not the directory itself
  nor its parent. So reading or removing one mailbox never touches another.\<close>

theorem mailboxes_apart:
  assumes "valid_addr c a" "valid_addr c b"
  shows "mailbox_dir a = mailbox_dir b \<longleftrightarrow> to_lower a = to_lower b"
    and "CHR ''/'' \<notin> set (mailbox_dir a) \<and> mailbox_dir a \<notin> {[], ''.'', ''..''}"
proof -
  from assms(1) obtain la where a: "to_lower a = la @ at_domain c" "la \<noteq> []" "mailbox_dir a = la @ CHR ''@'' # safe_local (mc_domain c)"
    by (rule mailbox_dir_valid)
  from assms(2) obtain lb where b: "to_lower b = lb @ at_domain c" "mailbox_dir b = lb @ CHR ''@'' # safe_local (mc_domain c)"
    by (rule mailbox_dir_valid)
  from a b show "mailbox_dir a = mailbox_dir b \<longleftrightarrow> to_lower a = to_lower b" by simp
  have "CHR ''@'' \<in> set (mailbox_dir a)" using a(3) by simp
  moreover have "x \<in> set (mailbox_dir a) \<Longrightarrow> x \<noteq> CHR ''/''" for x
    using safe_local_chars[of x "to_lower a"] unfolding mailbox_dir_def
    by (auto simp: local_chr_def is_lower_chr_def is_digit_def byte_def)
  ultimately show "CHR ''/'' \<notin> set (mailbox_dir a) \<and> mailbox_dir a \<notin> {[], ''.'', ''..''}" by auto
qed

lemma same_mailbox:
  "valid_addr c a \<Longrightarrow> valid_addr c b \<Longrightarrow> mailbox_dir a = mailbox_dir b \<Longrightarrow> to_lower a = to_lower b"
  by (elim mailbox_dir_valid) simp

lemma mailbox_dir_lower [simp]: "mailbox_dir (to_lower a) = mailbox_dir a"
  by (simp add: mailbox_dir_def)

section \<open>Sessions\<close>

lemma smtp_loop_end: "read_line s = None \<Longrightarrow> smtp_loop c rcpts s = []"
  by (simp add: smtp_loop.simps)

lemma suffix_lower: "has_suffix (at_domain c) (rcpt_addr l) \<Longrightarrow> to_lower (rcpt_addr l) = rcpt_addr l"
  by (simp add: rcpt_addr_def)

definition own_addr :: "mail_config \<Rightarrow> string \<Rightarrow> bool" where
  "own_addr c a \<longleftrightarrow> has_suffix (at_domain c) a \<and> to_lower a = a"

lemma own_rcpt: "has_suffix (at_domain c) (rcpt_addr l) \<Longrightarrow> own_addr c (rcpt_addr l)"
  by (simp add: own_addr_def rcpt_addr_def)

lemma smtp_loop_own:
  "list_all (own_addr c) rcpts \<Longrightarrow> Deliver a d \<in> set (smtp_loop c rcpts s) \<Longrightarrow> own_addr c a"
proof (induction s arbitrary: rcpts rule: measure_induct_rule[of length])
  case (less s)
  show ?case
  proof (cases "read_line s")
    case None
    with less(3) show ?thesis by (simp add: smtp_loop_end)
  next
    case (Some p)
    obtain l0 r where p: "p = (l0, r)" by (cases p)
    have IH: "Deliver a d \<in> set (smtp_loop c rs r) \<Longrightarrow> list_all (own_addr c) rs \<Longrightarrow> own_addr c a" for rs
      using less(1) read_line_length Some p by blast
    have IH2: "Some (d', r') = read_data cap b r \<Longrightarrow> Deliver a d \<in> set (smtp_loop c [] r') \<Longrightarrow> own_addr c a" for cap b d' r'
      using less(1)[of r' "[]"] data_after_line[of s l0 r cap b d' r'] Some p by simp
    from less(3) show ?thesis
      unfolding smtp_loop.simps[of c rcpts s] Some p option.case prod.case Let_def
      using less(2) IH[of "[]"] IH[of rcpts] IH[of "rcpts @ [rcpt_addr (trim_crlf l0)]"] IH2 own_rcpt
      by (auto split: if_splits option.splits simp: list_all_iff)
  qed
qed

text \<open>Observation: The server only receives: whatever a client sends, each message of a session goes to addresses of the
  configured domain, so a session never makes the server send or relay.\<close>

theorem sessions_never_relay:
  "Deliver a d \<in> set (handle_smtp c s) \<Longrightarrow> has_suffix (at_domain c) a \<and> to_lower a = a"
  using smtp_loop_own[of c "[]" a d s] by (simp add: handle_smtp_def own_addr_def)

text \<open>A sender stuffs a line that starts with a dot.\<close>

definition dot_stuff :: "string \<Rightarrow> string" where
  "dot_stuff l = (if has_prefix ''.'' l then CHR ''.'' # l else l)"

definition body_text :: "string list \<Rightarrow> string" where
  "body_text ls = concat (map (\<lambda>l. dot_stuff l @ crlf) ls) @ CHR ''.'' # crlf"

definition plain_line :: "string \<Rightarrow> bool" where
  "plain_line l \<longleftrightarrow> line_feed \<notin> set l"

lemma read_line_append: "line_feed \<notin> set l \<Longrightarrow> read_line (l @ line_feed # r) = Some (l @ [line_feed], r)"
  by (simp add: read_line_def cut_at_append)

lemma crlf_split: "l @ crlf @ r = (l @ [CHR 0x0D]) @ line_feed # r" "l @ crlf = (l @ [CHR 0x0D]) @ [line_feed]"
  by (simp_all add: crlf_def line_feed_def)

lemma read_crlf_line: "line_feed \<notin> set l \<Longrightarrow> read_line (l @ crlf @ r) = Some (l @ crlf, r)"
  unfolding crlf_split by (rule read_line_append) (simp add: line_feed_def)

lemma stuffed_line:
  assumes "plain_line l"
  shows "line_feed \<notin> set (dot_stuff l)" "\<not> last_dot (dot_stuff l @ crlf)" "undot (dot_stuff l @ crlf) = l @ crlf"
proof -
  show "line_feed \<notin> set (dot_stuff l)" using assms by (simp add: plain_line_def dot_stuff_def line_feed_def)
  have d: "dot_stuff l @ crlf = CHR ''.'' # crlf \<or> dot_stuff l @ crlf = CHR ''.'' # [line_feed] \<Longrightarrow> False"
    by (cases l; cases "tl l") (auto simp: dot_stuff_def has_prefix_def crlf_def line_feed_def split: if_splits)
  show "\<not> last_dot (dot_stuff l @ crlf)" using d unfolding last_dot_def by blast
  show "undot (dot_stuff l @ crlf) = l @ crlf"
    by (cases l) (auto simp: undot_def dot_stuff_def has_prefix_def crlf_def)
qed

lemma read_data_stuffed:
  "list_all plain_line ls \<Longrightarrow> int (length buf + length (concat (map (\<lambda>l. l @ crlf) ls))) \<le> cap \<Longrightarrow>
   read_data cap buf (body_text ls @ r) = Some (buf @ concat (map (\<lambda>l. l @ crlf) ls), r)"
proof (induction ls arbitrary: buf)
  case Nil
  have "read_line (body_text [] @ r) = Some (CHR ''.'' # crlf, r)"
    using read_crlf_line[of "''.''" r] by (simp add: body_text_def line_feed_def)
  then show ?case by (simp add: read_data_step last_dot_def)
next
  case (Cons l ls)
  have b: "body_text (l # ls) @ r = dot_stuff l @ crlf @ body_text ls @ r" by (simp add: body_text_def)
  have "int (length buf) < cap" using Cons.prems(2) by (simp add: crlf_def)
  then have "body_line cap buf (dot_stuff l @ crlf) = buf @ l @ crlf"
    using stuffed_line(3)[of l] Cons.prems(1) by (simp add: body_line_def)
  then show ?case
    using Cons.IH[of "buf @ l @ crlf"] Cons.prems stuffed_line[of l] read_crlf_line[of "dot_stuff l"]
    unfolding b by (simp add: read_data_step)
qed

text \<open>Observation: A message sent the way RFC 5321 says, its lines stuffed and closed by a lone dot, is stored as it
  was written, and the session goes on right after it, as long as it fits under the cap.\<close>

theorem message_roundtrip:
  assumes "list_all plain_line ls" "int (length (concat (map (\<lambda>l. l @ crlf) ls))) \<le> mc_max c"
  shows "read_data (mc_max c) [] (body_text ls @ r) = Some (concat (map (\<lambda>l. l @ crlf) ls), r)"
  using read_data_stuffed[of ls "[]" "mc_max c" r] assms by simp

text \<open>Observation: The cap on a message is checked before a line is added: one long line passes it whole, whatever the
  cap.\<close>

theorem long_line_passes_cap:
  assumes "0 < cap" "plain_line l"
  shows "read_data cap [] (body_text [l] @ r) = Some (l @ crlf, r)"
proof -
  have b: "body_text [l] @ r = dot_stuff l @ crlf @ body_text [] @ r" by (simp add: body_text_def)
  show ?thesis
    using assms read_data_stuffed[of "[]" "l @ crlf" "cap + int (length l + 2)" r]
      stuffed_line[of l] read_crlf_line[of "dot_stuff l"] read_crlf_line[of "''.''" r]
    unfolding b by (simp add: read_data_step body_line_def last_dot_def body_text_def line_feed_def)
qed

section \<open>Codes are words of the message\<close>

definition code_word :: "bool \<Rightarrow> nat list \<Rightarrow> nat list \<Rightarrow> nat list \<Rightarrow> bool" where
  "code_word p pre t post \<longleftrightarrow>
     length t = 6 \<and> list_all (alnum_rune False) t \<and>
     \<not> (if pre = [] then p else word_rune (last pre)) \<and> \<not> starts_word post"

lemma alnum_word: "alnum_rune False u \<Longrightarrow> word_rune u"
  by (simp add: alnum_rune_def)

lemma alnum_low: "u < 128 \<Longrightarrow> alnum_rune True u \<Longrightarrow> alnum_rune False u"
  by (auto simp: alnum_rune_def)

lemma token_at_SomeD:
  assumes "token_at f p r = Some t" "list_all (\<lambda>u. u < 128) r"
  shows "\<exists>post. r = t @ post \<and> code_word p [] t post"
proof -
  have t: "t = take 6 r" "length r \<ge> 6" "boundary p r" "list_all (alnum_rune f) t" "boundary (word_rune (r ! 5)) (drop 6 r)"
    using assms(1) by (auto simp: token_at_def split: if_splits)
  have low: "list_all (\<lambda>u. u < 128) t" using assms(2) t(1) by (auto simp: list_all_iff dest: in_set_takeD)
  with t(4) have al: "list_all (alnum_rune False) t" using alnum_low by (cases f) (auto simp: list_all_iff)
  have len: "length t = 6" using t(1,2) by simp
  have w: "word_rune (t ! k)" if "k < 6" for k using al len that alnum_word by (auto simp: list_all_length)
  have h: "word_rune (r ! 0)" "word_rune (r ! 5)" using w[of 0] w[of 5] t(1) by simp_all
  then have "starts_word r" using t(2) by (cases r) (auto simp: starts_word_def)
  with t h have "\<not> p" "\<not> starts_word (drop 6 r)" by (auto simp: boundary_def)
  with al len t(1) show ?thesis by (intro exI[of _ "drop 6 r"]) (simp add: code_word_def)
qed

lemma token_at_word:
  assumes "code_word p [] t post"
  shows "token_at False p (t @ post) = Some t"
proof -
  from assms have t: "length t = 6" "list_all (alnum_rune False) t" "\<not> p" "\<not> starts_word post" by (simp_all add: code_word_def)
  then obtain u t' where u: "t = u # t'" by (cases t) auto
  have "t ! 5 \<in> set t" "u \<in> set t" using t(1) u by (simp_all add: nth_mem)
  then have w: "word_rune (t ! 5)" "word_rune u" using t(2) alnum_word by (auto simp: list_all_iff)
  then show ?thesis using t u by (simp add: token_at_def boundary_def starts_word_def nth_append)
qed

lemma code_word_skip:
  "code_word (if q = [] then p else word_rune (last q)) pre t post \<Longrightarrow> code_word p (q @ pre) t post"
  by (auto simp: code_word_def split: if_splits)

definition word_in :: "bool \<Rightarrow> nat list \<Rightarrow> nat list \<Rightarrow> bool" where
  "word_in p r t \<longleftrightarrow> (\<exists>pre post. r = pre @ t @ post \<and> code_word p pre t post)"

lemma word_in_skip: "word_in (if q = [] then p else word_rune (last q)) r t \<Longrightarrow> word_in p (q @ r) t"
  unfolding word_in_def by (metis append.assoc code_word_skip)

lemma word_in_Cons: "word_in (word_rune u) r t \<Longrightarrow> word_in p (u # r) t"
  using word_in_skip[of "[u]" p r t] by simp

lemma token_at_in: "token_at f p r = Some t \<Longrightarrow> list_all (\<lambda>u. u < 128) r \<Longrightarrow> word_in p r t"
  unfolding word_in_def using token_at_SomeD by fastforce

lemma after_gap_in: "after_gap n p r = Some t \<Longrightarrow> list_all (\<lambda>u. u < 128) r \<Longrightarrow> word_in p r t"
proof (induction n p r rule: after_gap.induct)
  case (1 n p r)
  show ?case
  proof (cases "token_at True p r")
    case None
    with 1(2) obtain m u r' where m: "n = Suc m" "r = u # r'" "after_gap m (word_rune u) r' = Some t"
      by (subst (asm) after_gap.simps) (auto split: nat.splits list.splits)
    have "word_in (word_rune u) r' t"
      using 1(1)[OF None, of n r m u r'] 1(3) m by simp
    with m(2) show ?thesis by (simp add: word_in_Cons)
  next
    case (Some t')
    with 1(2) have "t' = t" by (subst (asm) after_gap.simps) simp
    with Some 1(3) show ?thesis by (simp add: token_at_in)
  qed
qed

lemma after_word_in:
  assumes "after_word k r = Some t" "k \<in> set otp_keywords" "list_all (\<lambda>u. u < 128) r"
  shows "word_in p r t"
proof -
  let ?q = "take (length k) r"
  from assms(1) have k: "length k \<le> length r" "map lower_rune ?q = map byte k" "after_gap 40 True (drop (length k) r) = Some t"
    by (auto simp: after_word_def split: if_splits)
  have ne: "k \<noteq> []" and bl: "97 \<le> byte (last k) \<and> byte (last k) \<le> 122"
    using assms(2) by (auto simp: otp_keywords_def byte_def)
  have q: "?q \<noteq> []" using ne k(1) by auto
  have "lower_rune (last ?q) = byte (last k)"
    using k(2) q ne by (metis last_map)
  with bl have "word_rune (last ?q)" by (auto simp: lower_rune_def word_rune_def split: if_splits)
  moreover have "list_all (\<lambda>u. u < 128) (drop (length k) r)" using assms(3) by (auto simp: list_all_iff dest: in_set_dropD)
  ultimately have "word_in p (?q @ drop (length k) r) t"
    using after_gap_in[OF k(3)] q by (intro word_in_skip) simp
  then show ?thesis by simp
qed

lemma keyword_token_in: "keyword_token r = Some t \<Longrightarrow> list_all (\<lambda>u. u < 128) r \<Longrightarrow> word_in p r t"
proof (induction r arbitrary: p)
  case (Cons u r)
  show ?case
  proof (cases "first_some (\<lambda>k. after_word k (u # r)) otp_keywords")
    case None
    with Cons show ?thesis by (intro word_in_Cons) simp
  next
    case (Some t')
    then have "t' \<in> set (List.map_filter (\<lambda>k. after_word k (u # r)) otp_keywords)"
      by (auto simp: first_some_def split: list.splits)
    then obtain k where "k \<in> set otp_keywords" "after_word k (u # r) = Some t'"
      by (auto simp: List.map_filter_def)
    with Some Cons.prems show ?thesis using after_word_in[of k "u # r" t' p] by simp
  qed
qed simp

lemma all_tokens_in: "t \<in> set (all_tokens p r) \<Longrightarrow> list_all (\<lambda>u. u < 128) r \<Longrightarrow> word_in p r t"
proof (induction p r rule: all_tokens.induct)
  case (2 p u r)
  show ?case
  proof (cases "token_at False p (u # r)")
    case None
    with 2 show ?thesis by (intro word_in_Cons) simp
  next
    case (Some t')
    obtain post where t': "u # r = t' @ post" "code_word p [] t' post" using token_at_SomeD[OF Some 2(4)] by blast
    then have d: "drop 5 r = post" "t' \<noteq> []" by (cases t'; auto simp: code_word_def)+
    from 2(3) Some consider "t = t'" | "t \<in> set (all_tokens (word_rune (last t')) (drop 5 r))" by auto
    then show ?thesis
    proof cases
      case 1
      with t' show ?thesis unfolding word_in_def by fastforce
    next
      case later: 2
      have "list_all (\<lambda>u. u < 128) (drop 5 r)" using 2(4) by (auto simp: list_all_iff dest: in_set_dropD)
      with 2(2)[OF Some later] d have "word_in p (t' @ post) t" by (intro word_in_skip) simp
      with t' show ?thesis by simp
    qed
  qed
qed simp

lemma all_tokens_complete: "code_word p pre t post \<Longrightarrow> r = pre @ t @ post \<Longrightarrow> list_all (\<lambda>u. u < 128) r \<Longrightarrow> t \<in> set (all_tokens p r)"
proof (induction p r arbitrary: pre rule: all_tokens.induct)
  case (1 p)
  then show ?case by (simp add: code_word_def)
next
  case (2 p u r)
  show ?case
  proof (cases pre)
    case Nil
    with 2(3) have "token_at False p (t @ post) = Some t" by (simp add: token_at_word)
    then have "token_at False p (u # r) = Some t" using 2(4) Nil by simp
    then show ?thesis by simp
  next
    case (Cons v pre')
    then have ur: "u = v" "r = pre' @ t @ post" using 2(4) by simp_all
    have cw: "code_word (word_rune u) pre' t post" using 2(3) Cons ur by (simp add: code_word_def split: if_splits)
    show ?thesis
    proof (cases "token_at False p (u # r)")
      case None
      with 2(1)[OF None cw ur(2)] 2(5) show ?thesis by simp
    next
      case (Some t')
      obtain po where t': "u # r = t' @ po" "code_word p [] t' po" using token_at_SomeD[OF Some 2(5)] by blast
      then have len: "length t' = 6" and al: "list_all (alnum_rune False) t'" by (simp_all add: code_word_def)
      have "6 \<le> length pre"
      proof (rule ccontr)
        assume short: "\<not> 6 \<le> length pre"
        have "last pre = (u # r) ! (length pre - 1)" using Cons ur by (simp add: last_conv_nth nth_append)
        also have "\<dots> = t' ! (length pre - 1)" using t'(1) short len Cons by (simp add: nth_append)
        finally have "word_rune (last pre)" using al short len Cons alnum_word by (auto simp: list_all_length)
        with 2(3) Cons show False by (simp add: code_word_def)
      qed
      have "t' = take 6 (u # r)" using t'(1) len by simp
      with \<open>6 \<le> length pre\<close> have d: "drop 5 r = drop 5 pre' @ t @ post" "pre = t' @ drop 5 pre'"
        using Cons ur by simp_all
      have "code_word (word_rune (last t')) (drop 5 pre') t post"
        using 2(3) d(2) len by (auto simp: code_word_def split: if_splits)
      from 2(2)[OF Some this d(1)] 2(5) Some show ?thesis by (auto simp: list_all_iff dest: in_set_dropD)
    qed
  qed
qed

lemma upper_token_ascii:
  "list_all (\<lambda>u. u < 128) t \<Longrightarrow> upper_token t = to_upper (map char_of t)"
proof (induction t)
  case (Cons u t)
  then have "upper_rune u < 128" "char_of (upper_rune u) = chr_upper (char_of u)"
    by (auto simp: upper_rune_def chr_upper_def is_lower_chr_def)
  with Cons show ?case by (simp add: upper_token_def of_runes_def utf8_encode_def to_upper_def)
qed (simp add: upper_token_def of_runes_def to_upper_def)

text \<open>A word of six letters and digits on its own in a text.\<close>

definition otp_word :: "string \<Rightarrow> string \<Rightarrow> bool" where
  "otp_word body w \<longleftrightarrow> word_in False (map byte body) (map byte w)"

definition mixed_word :: "string \<Rightarrow> bool" where
  "mixed_word w \<longleftrightarrow> list_ex (\<lambda>c. is_lower_chr c \<or> is_upper_chr c) w \<and> list_ex is_digit w"

lemma mixed_bytes: "mixed (map byte w) \<longleftrightarrow> mixed_word w"
proof -
  have "word_rune (byte c) \<and> 65 \<le> byte c \<and> byte c \<noteq> 95 \<longleftrightarrow> is_lower_chr c \<or> is_upper_chr c" for c
    by (auto simp: word_rune_def is_lower_chr_def is_upper_chr_def)
  then show ?thesis by (auto simp: mixed_def mixed_word_def list_ex_iff is_digit_def byte_def)
qed

lemma word_in_bytes: "word_in False (map byte body) t \<Longrightarrow> \<exists>w. t = map byte w \<and> otp_word body w"
proof -
  assume w: "word_in False (map byte body) t"
  then obtain pre post where "map byte body = pre @ t @ post" unfolding word_in_def by blast
  then have "t = map byte (take (length t) (drop (length pre) body))" by (simp flip: take_map drop_map)
  with w show ?thesis unfolding otp_word_def by metis
qed

lemma bytes_low: "is_ascii body \<Longrightarrow> list_all (\<lambda>u. u < 128) (map byte body)"
  by (simp add: is_ascii_def list_all_iff)

lemma word_upper: "is_ascii body \<Longrightarrow> otp_word body w \<Longrightarrow> upper_token (map byte w) = to_upper w"
proof -
  assume "is_ascii body" "otp_word body w"
  then have "list_all (\<lambda>u. u < 128) (map byte w)"
    by (auto simp: otp_word_def word_in_def code_word_def list_all_iff alnum_rune_def word_rune_def)
  from upper_token_ascii[OF this] show ?thesis by (simp add: comp_def)
qed

lemma find_SomeD: "List.find P xs = Some x \<Longrightarrow> x \<in> set xs \<and> P x"
  by (auto simp: find_Some_iff)

text \<open>Observation: The code read from a message of ASCII text is a word of six letters and digits of that message
  in upper case, never part of a longer word; and when the message has a word that mixes letters and
  digits, the code is one that does.\<close>

theorem parsed_code_is_a_word:
  assumes "is_ascii body"
  shows "(parse_otp body \<noteq> [] \<longrightarrow> (\<exists>w. otp_word body w \<and> parse_otp body = to_upper w)) \<and>
    (otp_word body m \<and> mixed_word m \<longrightarrow> (\<exists>w. otp_word body w \<and> mixed_word w \<and> parse_otp body = to_upper w))"
proof (intro conjI impI)
  let ?r = "map byte body"
  note low = bytes_low[OF assms]
  have run: "runes body = ?r" using assms by (rule runes_ascii)
  have kw: "keyword_token ?r = Some t \<Longrightarrow> \<exists>w. t = map byte w \<and> otp_word body w" for t
    using keyword_token_in[OF _ low] word_in_bytes by blast
  have tok: "List.find mixed (all_tokens False ?r) = Some t \<Longrightarrow> \<exists>w. t = map byte w \<and> otp_word body w \<and> mixed_word w" for t
    using all_tokens_in[OF _ low] word_in_bytes find_SomeD mixed_bytes by metis
  show "parse_otp body \<noteq> [] \<Longrightarrow> \<exists>w. otp_word body w \<and> parse_otp body = to_upper w"
    using kw tok word_upper[OF assms] unfolding parse_otp_def run Let_def
    by (fastforce split: option.splits if_splits)
  assume m: "otp_word body m \<and> mixed_word m"
  then have "\<exists>t \<in> set (all_tokens False ?r). mixed t"
    using all_tokens_complete[OF _ _ low] mixed_bytes unfolding otp_word_def word_in_def by blast
  then have "List.find mixed (all_tokens False ?r) \<noteq> None" by (auto simp: find_None_iff)
  then show "\<exists>w. otp_word body w \<and> mixed_word w \<and> parse_otp body = to_upper w"
    using kw tok word_upper[OF assms] mixed_bytes unfolding parse_otp_def run Let_def
    by (fastforce split: option.splits if_splits)
qed

section \<open>Whose code is read\<close>

definition active_ok :: "mail_config \<Rightarrow> mail_server \<Rightarrow> bool" where
  "active_ok c s \<longleftrightarrow> list_all (\<lambda>(a, _). valid_addr c a \<and> to_lower a = a) (ms_active s)"

definition mail_from :: "mail_config \<Rightarrow> mail_op list \<Rightarrow> string \<Rightarrow> string \<Rightarrow> bool" where
  "mail_from c ops r d \<longleftrightarrow> valid_addr c r \<and> to_lower r = r \<and> Mailed r d \<in> set ops"

definition file_ok :: "mail_config \<Rightarrow> mail_op list \<Rightarrow> (string \<times> string) \<times> string \<Rightarrow> bool" where
  "file_ok c ops p \<longleftrightarrow> (\<exists>r d k. mail_from c ops r d \<and> fst (fst p) = mailbox_dir r \<and> snd p = take k d)"

definition mail_inv :: "mail_config \<Rightarrow> mail_op list \<Rightarrow> (string \<times> string) list \<Rightarrow> mail_server \<Rightarrow> bool" where
  "mail_inv c ops pend s \<longleftrightarrow>
     active_ok c s \<and> list_all (\<lambda>(r, d). mail_from c ops r d) pend \<and> list_all (file_ok c ops) (ms_files s)"

lemma update_subset: "set (AList.update k v m) \<subseteq> insert (k, v) (set m)"
  by (induction m) (auto split: if_splits)

lemma delete_subset: "set (AList.delete k m) \<subseteq> set m"
  by (induction m) auto

lemma list_all_update: "list_all P m \<Longrightarrow> P (k, v) \<Longrightarrow> list_all P (AList.update k v m)"
  using update_subset[of k v m] by (auto simp: list_all_iff)

lemma list_all_delete: "list_all P m \<Longrightarrow> list_all P (AList.delete k m)"
  using delete_subset[of k m] by (auto simp: list_all_iff)

lemma mail_from_more: "mail_from c ops r d \<Longrightarrow> mail_from c (ops @ later) r d"
  by (simp add: mail_from_def)

lemma file_ok_more: "file_ok c ops p \<Longrightarrow> file_ok c (ops @ later) p"
  unfolding file_ok_def using mail_from_more by blast

lemma mail_inv_more: "mail_inv c ops pend s \<Longrightarrow> mail_inv c (ops @ later) pend s"
  unfolding mail_inv_def by (auto simp: list_all_iff intro: mail_from_more file_ok_more)

lemma active_addr: "active_ok c s \<Longrightarrow> is_active a s \<Longrightarrow> valid_addr c a"
  using valid_addr_lower[of c a] by (auto simp: active_ok_def is_active_def list_all_iff dest!: map_of_SomeD)

lemma read_otp_active: "ms_active (snd (read_otp a io s)) = ms_active s"
  by (auto simp: read_otp_def Let_def split: option.splits)

lemma read_otp_files: "list_all P (ms_files s) \<Longrightarrow> list_all P (ms_files (snd (read_otp a io s)))"
  by (auto simp: read_otp_def Let_def list_all_delete split: option.splits)

lemma provision_inv: "mail_inv c ops pend s \<Longrightarrow> valid_addr c a \<Longrightarrow> mail_inv c ops pend (mail_provision a now s)"
  by (simp add: mail_inv_def mail_provision_def active_ok_def list_all_update)

lemma teardown_inv: "mail_inv c ops pend s \<Longrightarrow> mail_inv c ops pend (mail_teardown a io s)"
  by (auto simp: mail_inv_def mail_teardown_def active_ok_def list_all_delete list_all_iff dest: delete_subset[THEN subsetD])

lemma read_inv: "mail_inv c ops pend s \<Longrightarrow> mail_inv c ops pend (snd (read_otp a io s))"
  by (simp add: mail_inv_def active_ok_def read_otp_active read_otp_files)

lemma mail_api_inv: "mail_inv c ops pend s \<Longrightarrow> mail_inv c ops pend (snd (mail_api c r now io s))"
  using read_inv[of c ops pend s "addr_from_req r" io]
  by (auto simp: mail_api_def h_provision_def h_otp_def h_teardown_def Let_def provision_inv teardown_inv split: prod.splits)

lemma write_inv:
  "mail_inv c ops pend s \<Longrightarrow> (r, d) \<in> set pend \<Longrightarrow> mail_inv c ops (remove1 (r, d) pend) (write_mail r d now io s)"
proof -
  assume i: "mail_inv c ops pend s" "(r, d) \<in> set pend"
  then have "mail_from c ops r d" by (auto simp: mail_inv_def list_all_iff)
  then have f: "file_ok c ops ((mailbox_dir r, n), take k d)" for n k
    unfolding file_ok_def by (intro exI[of _ r] exI[of _ d] exI[of _ k]) simp
  have f': "file_ok c ops ((mailbox_dir r, n), d)" for n using f[of n "length d"] by simp
  have "list_all (file_ok c ops) (ms_files (write_mail r d now io s))"
    using i f f' by (auto simp: write_mail_def mail_inv_def list_all_update Let_def split: write_outcome.splits)
  moreover have "ms_active (write_mail r d now io s) = ms_active s"
    by (auto simp: write_mail_def Let_def split: write_outcome.splits)
  ultimately show ?thesis
    using i by (auto simp: mail_inv_def active_ok_def list_all_iff dest: notin_set_remove1 set_remove1_subset[THEN subsetD])
qed

lemma own_valid: "own_addr c r \<Longrightarrow> to_lower r = r"
  by (simp add: own_addr_def)

lemma mail_run_inv: "mail_run c ops pend s \<Longrightarrow> mail_inv c ops pend s"
proof (induction rule: mail_run.induct)
  case boot
  show ?case by (simp add: mail_inv_def new_mail_server_def active_ok_def)
next
  case (served ops pend s req now io)
  then show ?case by (intro mail_inv_more mail_api_inv)
next
  case (checked ops pend s rcpt data input)
  have "own_addr c rcpt" using checked(2) smtp_loop_own[of c "[]"] by (auto simp: handle_smtp_def)
  moreover have "valid_addr c rcpt" using checked(3,4) active_addr by (auto simp: mail_inv_def)
  ultimately have "mail_from c (ops @ [Mailed rcpt data]) rcpt data" by (simp add: mail_from_def own_valid)
  moreover have "mail_inv c (ops @ [Mailed rcpt data]) pend s" using checked(4) by (rule mail_inv_more)
  ultimately show ?case by (simp add: mail_inv_def)
next
  case (written ops pend s rcpt data now io)
  then show ?case by (intro write_inv)
next
  case (restarted ops pend s)
  have "mail_inv c (ops @ [Restarted]) pend s" using restarted(2) by (rule mail_inv_more)
  then show ?case by (simp add: mail_inv_def new_mail_server_def active_ok_def)
qed

lemma mail_files_in: "(f, x) \<in> set (mail_files dir s) \<Longrightarrow> ((dir, f), x) \<in> set (ms_files s)"
  by (auto simp: mail_files_def List.map_filter_def split: if_splits)

lemma first_code_in: "first_code io fs = Some (f, code) \<Longrightarrow> code \<noteq> [] \<and> (\<exists>x. (f, x) \<in> set fs \<and> code = parse_otp (if io_read io f then x else []))"
  by (induction io fs rule: first_code.induct) (auto simp: Let_def split: if_splits)

lemma parse_otp_Nil: "parse_otp [] = []"
  by code_simp

lemma read_otp_in:
  assumes "read_otp a io s = (code, s')" "code \<noteq> []"
  shows "\<exists>f x. ((mailbox_dir a, f), x) \<in> set (ms_files s) \<and> code = parse_otp x"
proof -
  obtain f where "first_code io (mail_files (mailbox_dir a) s) = Some (f, code)"
    using assms by (auto simp: read_otp_def Let_def split: option.splits)
  from first_code_in[OF this] show ?thesis using mail_files_in parse_otp_Nil by (fastforce split: if_splits)
qed

lemma otp_reply_order: "sort_members [(''ok'', a), (''ready'', b), (''code'', c)] = [(''code'', c), (''ok'', a), (''ready'', b)]"
  by (simp add: sort_members_def byte_def)

lemma otp_reply_doc:
  "raw_doc (rs_body (otp_reply code)) =
     Some (JObj [(''code'', JStr code), (''ok'', JBool True), (''ready'', JBool (code \<noteq> []))])"
proof -
  let ?v = "JObj [(''ok'', JBool True), (''ready'', JBool (code \<noteq> [])), (''code'', JStr code)]"
  have "rs_body (otp_reply code) = json_text ?v @ [CHR 0x0A]"
    unfolding otp_reply_def write_json_def by (simp only: response.select_convs)
  moreover have "printable ?v" by simp
  moreover have "json_ordered ?v = JObj [(''code'', JStr code), (''ok'', JBool True), (''ready'', JBool (code \<noteq> []))]"
    unfolding json_ordered.simps list.map prod.case otp_reply_order by (rule refl)
  ultimately show ?thesis using raw_doc_text[of ?v] by (simp only:)
qed

lemma otp_reply_inject:
  assumes "otp_reply a = otp_reply b"
  shows "a = b"
proof -
  have "Some (JObj [(''code'', JStr a), (''ok'', JBool True), (''ready'', JBool (a \<noteq> []))]) =
        Some (JObj [(''code'', JStr b), (''ok'', JBool True), (''ready'', JBool (b \<noteq> []))])"
    using otp_reply_doc[of a] otp_reply_doc[of b] unfolding assms by (rule trans[OF sym])
  then show ?thesis by (simp only: option.inject json.inject list.inject prod.inject)
qed

text \<open>C31: Over every run of the server, with any mix of requests, sessions, late writes, failing file
  operations and restarts: a code it hands out was parsed from (the start of) a message some session
  delivered to that very address while it was provisioned, and it is provisioned now.\<close>

theorem code_from_own_mail:
  assumes "mail_run c ops pend s"
    and "h_otp c req io s = (otp_reply code, s')" "code \<noteq> []"
  shows "is_active (addr_from_req req) s \<and>
    (\<exists>d k. Mailed (to_lower (addr_from_req req)) d \<in> set ops \<and> code = parse_otp (take k d))"
proof -
  let ?a = "addr_from_req req"
  have ok: "http_error 400 m \<noteq> otp_reply code" for m by (simp add: otp_reply_def write_json_def http_error_def)
  with assms(2) have v: "valid_addr c ?a" "is_active ?a s"
    by (auto simp: h_otp_def Let_def split: if_splits)
  with assms(2) obtain code' where r: "read_otp ?a io s = (code', s')" "otp_reply code' = otp_reply code"
    by (auto simp: h_otp_def split: prod.splits)
  have "code' = code" using otp_reply_inject[OF r(2)] .
  then obtain f x where fx: "((mailbox_dir ?a, f), x) \<in> set (ms_files s)" "code = parse_otp x"
    using read_otp_in[of ?a io s] r(1) assms(3) by blast
  from mail_run_inv[OF assms(1)] fx(1) have "file_ok c ops ((mailbox_dir ?a, f), x)"
    by (auto simp: mail_inv_def list_all_iff)
  then obtain q d k where q: "mail_from c ops q d" "mailbox_dir ?a = mailbox_dir q" "x = take k d"
    unfolding file_ok_def by auto
  then have "to_lower ?a = q" using same_mailbox[OF v(1), of q] by (simp add: mail_from_def)
  with q fx(2) v(2) show ?thesis by (auto simp: mail_from_def)
qed

section \<open>Torn-down mailboxes\<close>

definition box_empty :: "string \<Rightarrow> mail_server \<Rightarrow> bool" where
  "box_empty a s \<longleftrightarrow> list_all (\<lambda>((d, _), _). d \<noteq> mailbox_dir a) (ms_files s)"

record delivery =
  dv_rcpt :: string
  dv_data :: string
  dv_time :: gotime
  dv_io :: mail_io

definition deliver_all :: "delivery list \<Rightarrow> mail_server \<Rightarrow> mail_server" where
  "deliver_all ds s = fold (\<lambda>d. deliver (dv_rcpt d) (dv_data d) (dv_time d) (dv_io d)) ds s"

lemma deliver_active: "ms_active (deliver r d now io s) = ms_active s"
  by (auto simp: deliver_def write_mail_def Let_def split: write_outcome.splits)

lemma deliver_elsewhere:
  assumes "active_ok c s" "valid_addr c a" "\<not> is_active a s" "box_empty a s"
  shows "box_empty a (deliver r d now io s)"
proof (cases "is_active r s")
  case True
  have "mailbox_dir r \<noteq> mailbox_dir a"
  proof
    assume "mailbox_dir r = mailbox_dir a"
    then have "to_lower r = to_lower a" using same_mailbox[OF _ assms(2), of r] active_addr[OF assms(1) True] by blast
    with True assms(3) show False by (simp add: is_active_def)
  qed
  with assms(4) True show ?thesis
    by (auto simp: deliver_def write_mail_def box_empty_def Let_def list_all_update split: write_outcome.splits)
qed (use assms in \<open>simp add: deliver_def\<close>)

lemma deliver_active_ok: "active_ok c (deliver r d now io s) = active_ok c s" "is_active a (deliver r d now io s) = is_active a s"
  by (simp_all add: active_ok_def is_active_def deliver_active)

lemma deliver_all_elsewhere:
  "active_ok c s \<Longrightarrow> valid_addr c a \<Longrightarrow> \<not> is_active a s \<Longrightarrow> box_empty a s \<Longrightarrow>
   box_empty a (deliver_all ds s) \<and> \<not> is_active a (deliver_all ds s)"
proof (induction ds arbitrary: s)
  case (Cons d ds)
  then show ?case
    using Cons.IH[of "deliver (dv_rcpt d) (dv_data d) (dv_time d) (dv_io d) s"]
    by (simp add: deliver_all_def deliver_active_ok deliver_elsewhere)
qed (simp add: deliver_all_def)

text \<open>Observation: A torn-down mailbox stays gone: whatever mail comes afterwards, for whichever addresses, the server
  keeps none for the address until it is provisioned again, as long as the directory could be removed
  and no delivery was under way.\<close>

theorem torn_down_mail_dropped:
  assumes "mail_run c ops pend s" "valid_addr c a" "io_remove_all io"
  shows "box_empty a (deliver_all ds (mail_teardown a io s)) \<and> \<not> is_active a (deliver_all ds (mail_teardown a io s))"
proof -
  let ?s = "mail_teardown a io s"
  have "active_ok c ?s" using teardown_inv[OF mail_run_inv[OF assms(1)]] by (simp add: mail_inv_def)
  moreover have "\<not> is_active a ?s" by (simp add: is_active_def mail_teardown_def)
  moreover have "box_empty a ?s" using assms(3) by (auto simp: box_empty_def mail_teardown_def list_all_iff)
  ultimately show ?thesis using assms(2) by (intro deliver_all_elsewhere)
qed

text \<open>C0@late_write: A delivery that passed the check before a teardown writes its message after it: the mailbox is there
  again, with a message nothing will remove.\<close>

definition api_call :: "mail_config \<Rightarrow> string \<Rightarrow> string \<Rightarrow> request" where
  "api_call c path addr =
     \<lparr>rq_method = ''POST'', rq_path = path, rq_raw_query = [],
      rq_header = (\<lambda>h. if h = ''Authorization'' then ''Bearer '' @ mc_token c else []),
      rq_remote = [], rq_content_length = -1, rq_body = Inr (json_text (JObj [(''addr'', JStr addr)]))\<rparr>"

lemma get_str_own: "get_str k [(k, JStr a)] = (a, True)"
  by (simp add: get_str_def same_field_def)

lemma api_call_addr: "addr_from_req (api_call c path a) = a"
proof -
  have "raw_decode (json_text (JObj [(''addr'', JStr a)])) = Some (JObj [(''addr'', JStr a)], [])"
    using text_decodes[of "JObj [(''addr'', JStr a)]" "[]"] by (simp add: ends_value_def sort_members_def del: json_text.simps)
  moreover have "query_values [] = []" by (simp add: query_values_def)
  ultimately show ?thesis
    by (simp add: addr_from_req_def api_call_def struct_members_def get_str_own del: json_text.simps)
qed

lemma teardown_call:
  "valid_addr c a \<Longrightarrow> snd (mail_api c (api_call c ''/teardown'' a) now io s) = mail_teardown a io s"
proof -
  assume "valid_addr c a"
  moreover have "mail_authorized c (api_call c ''/teardown'' a)" "rq_path (api_call c ''/teardown'' a) = ''/teardown''"
    by (simp_all add: mail_authorized_def api_call_def)
  ultimately show ?thesis by (simp add: mail_api_def h_teardown_def api_call_addr Let_def)
qed

theorem late_write_survives_teardown:
  assumes "mail_run c ops pend s" "(r, d) \<in> set pend"
  shows "\<exists>ops' pend' s'. mail_run c (ops @ ops') pend' s' \<and> \<not> is_active r s' \<and> \<not> box_empty r s'"
proof -
  let ?t = "mail_teardown r io_fine s" and ?q = "api_call c ''/teardown'' r"
  let ?w = "write_mail r d 0 io_fine ?t"
  have v: "valid_addr c r" using mail_run_inv[OF assms(1)] assms(2) by (auto simp: mail_inv_def list_all_iff mail_from_def)
  have "mail_run c (ops @ [Api ?q]) pend ?t"
    using served[OF assms(1), of ?q 0 io_fine] teardown_call[OF v] by simp
  then have "mail_run c (ops @ [Api ?q]) (remove1 (r, d) pend) ?w"
    using assms(2) by (rule written)
  moreover have "\<not> is_active r ?w"
    by (simp add: is_active_def write_mail_def mail_teardown_def io_fine_def)
  moreover have "((mailbox_dir r, itoa 0 @ ''.eml''), d) \<in> set (ms_files ?w)"
    by (simp add: write_mail_def io_fine_def Let_def map_of_SomeD)
  then have "\<not> box_empty r ?w" unfolding box_empty_def list_all_iff by fastforce
  ultimately show ?thesis by blast
qed

section \<open>A run\<close>

definition sample_mail_config :: mail_config where
  "sample_mail_config = \<lparr>mc_domain = ''x.net'', mc_maildir = ''/m'', mc_smtp_addr = '':25'', mc_control_addr = ''c'', mc_token = ''t'', mc_max = 100\<rparr>"

definition sample_session :: string where
  "sample_session =
     ''RCPT TO:<A@X.net>'' @ crlf @ ''DATA'' @ crlf @ body_text [''Your code is A3K9F2.'', ''.bye''] @ ''QUIT'' @ crlf"

definition sample_mail :: string where
  "sample_mail = ''Your code is A3K9F2.'' @ crlf @ ''.bye'' @ crlf"

lemma sample_session_delivers:
  "handle_smtp sample_mail_config sample_session =
     [Reply ''220 x.net ESMTP'', Reply ''250 2.1.5 OK'', Reply ''354 End data with <CR><LF>.<CR><LF>'',
      Deliver ''a@x.net'' sample_mail, Reply ''250 2.0.0 OK'', Reply ''221 2.0.0 Bye'']"
  by code_simp

lemma sample_code: "parse_otp sample_mail = ''A3K9F2''"
  by code_simp

definition mail_state :: "nat \<Rightarrow> mail_server" where
  "mail_state k =
     (let s1 = snd (mail_api sample_mail_config (api_call sample_mail_config ''/provision'' ''a@x.net'') 5 io_fine (new_mail_server []))
      in if k = 0 then s1 else write_mail ''a@x.net'' sample_mail 7 io_fine s1)"

lemma provision_call:
  "valid_addr c a \<Longrightarrow> snd (mail_api c (api_call c ''/provision'' a) now io s) = mail_provision a now s"
proof -
  assume "valid_addr c a"
  moreover have "mail_authorized c (api_call c ''/provision'' a)" "rq_path (api_call c ''/provision'' a) = ''/provision''"
    by (simp_all add: mail_authorized_def api_call_def)
  ultimately show ?thesis by (simp add: mail_api_def h_provision_def api_call_addr Let_def)
qed

lemma sample_valid: "valid_addr sample_mail_config ''a@x.net''" "valid_addr sample_mail_config ''B@x.net''"
  by code_simp+

lemma sample_states:
  "mail_state 0 = \<lparr>ms_active = [(''a@x.net'', 5)], ms_files = []\<rparr>"
  "mail_state 2 = \<lparr>ms_active = [(''a@x.net'', 5)], ms_files = [((''a@x.net'', ''7.eml''), sample_mail)]\<rparr>"
proof -
  have "to_lower ''a@x.net'' = ''a@x.net''" "mailbox_dir ''a@x.net'' = ''a@x.net''" "itoa 7 = ''7''" by code_simp+
  then show "mail_state 0 = \<lparr>ms_active = [(''a@x.net'', 5)], ms_files = []\<rparr>"
    "mail_state 2 = \<lparr>ms_active = [(''a@x.net'', 5)], ms_files = [((''a@x.net'', ''7.eml''), sample_mail)]\<rparr>"
    by (simp_all add: mail_state_def provision_call[OF sample_valid(1)] mail_provision_def new_mail_server_def write_mail_def io_fine_def)
qed

lemma sample_run:
  "mail_run sample_mail_config [Api (api_call sample_mail_config ''/provision'' ''a@x.net'')] [] (mail_state 0)"
  "\<exists>ops. mail_run sample_mail_config ops [] (mail_state 2)"
proof -
  show r: "mail_run sample_mail_config [Api (api_call sample_mail_config ''/provision'' ''a@x.net'')] [] (mail_state 0)"
    using served[OF boot, of sample_mail_config _ 5 io_fine] by (simp add: mail_state_def)
  have "Deliver ''a@x.net'' sample_mail \<in> set (handle_smtp sample_mail_config sample_session)"
    unfolding sample_session_delivers by simp
  moreover have "is_active ''a@x.net'' (mail_state 0)" unfolding sample_states by code_simp
  ultimately have "mail_run sample_mail_config ([Api (api_call sample_mail_config ''/provision'' ''a@x.net'')] @ [Mailed ''a@x.net'' sample_mail])
      [(''a@x.net'', sample_mail)] (mail_state 0)"
    by (rule checked[OF r])
  from written[OF this, of "''a@x.net''" sample_mail 7 io_fine]
  show "\<exists>ops. mail_run sample_mail_config ops [] (mail_state 2)" by (auto simp: mail_state_def Let_def)
qed

theorem mailboxes_apart_witness: "mailbox_dir ''a@x.net'' \<noteq> mailbox_dir ''B@x.net''"
proof -
  have "to_lower ''a@x.net'' \<noteq> to_lower ''B@x.net''" by code_simp
  with mailboxes_apart(1)[OF sample_valid] show ?thesis by simp
qed

theorem sessions_never_relay_witness: "has_suffix ''@x.net'' ''a@x.net''"
proof -
  have "Deliver ''a@x.net'' sample_mail \<in> set (handle_smtp sample_mail_config sample_session)"
    unfolding sample_session_delivers by simp
  from sessions_never_relay[OF this] show ?thesis by (simp add: at_domain_def sample_mail_config_def)
qed

theorem message_roundtrip_witness:
  "read_data 100 [] (body_text [''Your code is A3K9F2.'', ''.bye''] @ ''QUIT'') = Some (sample_mail, ''QUIT'')"
proof -
  have "list_all plain_line [''Your code is A3K9F2.'', ''.bye'']"
    "int (length (concat (map (\<lambda>l. l @ crlf) [''Your code is A3K9F2.'', ''.bye'']))) \<le> mc_max sample_mail_config"
    by code_simp+
  from message_roundtrip[OF this, of "''QUIT''"] show ?thesis
    by (simp add: sample_mail_def sample_mail_config_def)
qed

theorem parsed_code_is_a_word_witness:
  "\<exists>w. otp_word sample_mail w \<and> to_upper w = ''A3K9F2''"
proof -
  have "is_ascii sample_mail" "parse_otp sample_mail \<noteq> []" by code_simp+
  with parsed_code_is_a_word[of sample_mail] sample_code show ?thesis by metis
qed

lemma sample_read: "read_otp ''a@x.net'' io_fine (mail_state 2) = (''A3K9F2'', mail_state 0)"
proof -
  have f: "mail_files ''a@x.net'' (mail_state 2) = [(''7.eml'', sample_mail)]"
    unfolding sample_states by (simp add: mail_files_def List.map_filter_def has_suffix_def sort_members_def)
  have "mailbox_dir ''a@x.net'' = ''a@x.net''" by code_simp
  then show ?thesis using f sample_code by (simp add: read_otp_def io_fine_def sample_states)
qed

lemma sample_reads: "h_otp sample_mail_config (api_call sample_mail_config ''/otp'' ''a@x.net'') io_fine (mail_state 2) =
    (otp_reply ''A3K9F2'', mail_state 0)"
proof -
  have "is_active ''a@x.net'' (mail_state 2)" unfolding sample_states by code_simp
  then show ?thesis using sample_valid(1) by (simp add: h_otp_def api_call_addr sample_read)
qed

theorem code_from_own_mail_witness:
  "\<exists>ops d k. mail_run sample_mail_config ops [] (mail_state 2) \<and> Mailed ''a@x.net'' d \<in> set ops \<and> ''A3K9F2'' = parse_otp (take k d)"
proof -
  obtain ops where r: "mail_run sample_mail_config ops [] (mail_state 2)" using sample_run(2) by blast
  have "to_lower ''a@x.net'' = ''a@x.net''" by code_simp
  with code_from_own_mail[OF r sample_reads] r show ?thesis unfolding api_call_addr by auto
qed

theorem torn_down_mail_dropped_witness:
  "\<not> is_active ''a@x.net'' (deliver_all [\<lparr>dv_rcpt = ''a@x.net'', dv_data = sample_mail, dv_time = 8, dv_io = io_fine\<rparr>]
     (mail_teardown ''a@x.net'' io_fine (mail_state 0)))"
  using torn_down_mail_dropped[OF sample_run(1) sample_valid(1), of io_fine] by (simp add: io_fine_def)

end
