(* ===== verification/Otp_Flow.thy ===== *)
theory Otp_Flow
  imports Otp_Signup Otp_Mail
begin

text \<open>
  The two halves of a one-time-code signup together: the requests internal/otpsignup sends to the mail
  server, as internal/otpmail receives and answers them.
\<close>

section \<open>A request of the broker at the mail server\<close>

text \<open>What a request becomes on the wire for a server whose base URL is given: its path without the
  base, its query, headers by their canonical names.\<close>

definition arrives :: "string \<Rightarrow> out_request \<Rightarrow> request" where
  "arrives base q =
     \<lparr>rq_method = ou_method q, rq_path = trim_prefix base (ou_url q), rq_raw_query = ou_query q,
      rq_header = (\<lambda>h. case map_of (ou_headers q) (canon_header h) of Some v \<Rightarrow> v | None \<Rightarrow> []),
      rq_remote = [], rq_content_length = int (length (ou_body q)), rq_body = Inr (ou_body q)\<rparr>"

definition otp_request :: "otp_config \<Rightarrow> string \<Rightarrow> out_request" where
  "otp_request c addr = json_request ''GET'' (oc_mail_url c @ ''/otp?addr='' @ addr) (oc_mail_token c) []"

text \<open>Characters a URL's query leaves as they are.\<close>

definition query_plain :: "char \<Rightarrow> bool" where
  "query_plain ch \<longleftrightarrow> ch \<notin> set ''%&;#?=''"

lemma split_on_none: "ch \<notin> set s \<Longrightarrow> split_on ch s = [s]"
  by (rule split_on_no_sep)

lemma unescape_plain: "list_all query_plain s \<Longrightarrow> query_unescape s = Some (map (\<lambda>ch. if ch = CHR ''+'' then CHR '' '' else ch) s)"
  by (induction s) (auto simp: query_plain_def)

lemma query_values_addr:
  assumes "list_all query_plain addr"
  shows "query_values (''addr='' @ addr) = [(''addr'', map (\<lambda>ch. if ch = CHR ''+'' then CHR '' '' else ch) addr)]"
proof -
  have n: "CHR ''&'' \<notin> set (''addr='' @ addr)" "CHR '';'' \<notin> set (''addr='' @ addr)"
    using assms by (auto simp: query_plain_def list_all_iff)
  have "cut_at (CHR ''='') (''addr='' @ addr) = Some (''addr'', addr)"
    using cut_at_append[of "CHR ''=''" "''addr''" addr] by simp
  moreover have "query_unescape ''addr'' = Some ''addr''" by code_simp
  ultimately have "query_pair (''addr='' @ addr) = Some (''addr'', map (\<lambda>ch. if ch = CHR ''+'' then CHR '' '' else ch) addr)"
    using unescape_plain[OF assms] by (simp add: query_pair_def)
  with n show ?thesis
    by (simp add: query_values_def split_on_none contains_chr_def List.map_filter_def del: append.simps)
qed

lemma otp_request_parts:
  assumes "CHR ''?'' \<notin> set (oc_mail_url c)" "CHR ''#'' \<notin> set (oc_mail_url c)" "list_all query_plain addr"
  shows "ou_url (otp_request c addr) = oc_mail_url c @ ''/otp''" "ou_query (otp_request c addr) = ''addr='' @ addr"
    "ou_method (otp_request c addr) = ''GET''" "ou_body (otp_request c addr) = []"
proof -
  have t: "takeWhile (\<lambda>ch. ch \<noteq> CHR ''#'') (oc_mail_url c @ ''/otp?addr='' @ addr) = oc_mail_url c @ ''/otp?addr='' @ addr"
    using assms by (auto simp: takeWhile_eq_all_conv query_plain_def list_all_iff)
  have "cut_at (CHR ''?'') ((oc_mail_url c @ ''/otp'') @ CHR ''?'' # ''addr='' @ addr) = Some (oc_mail_url c @ ''/otp'', ''addr='' @ addr)"
    using assms by (intro cut_at_append) auto
  with t have "new_out_request ''GET'' (oc_mail_url c @ ''/otp?addr='' @ addr) [] =
      \<lparr>ou_method = ''GET'', ou_url = oc_mail_url c @ ''/otp'', ou_query = ''addr='' @ addr, ou_headers = [], ou_body = []\<rparr>"
    unfolding new_out_request_def t by simp
  then show "ou_url (otp_request c addr) = oc_mail_url c @ ''/otp''" "ou_query (otp_request c addr) = ''addr='' @ addr"
    "ou_method (otp_request c addr) = ''GET''" "ou_body (otp_request c addr) = []"
    by (simp_all add: otp_request_def json_request_def set_out_header_def Let_def)
qed

lemma otp_request_auth:
  assumes "oc_mail_token c \<noteq> []"
  shows "rq_header (arrives base (otp_request c addr)) ''Authorization'' = ''Bearer '' @ oc_mail_token c"
  using assms by (simp add: arrives_def otp_request_def json_request_def set_out_header_def Let_def)

lemma otp_request_addr:
  assumes "CHR ''?'' \<notin> set (oc_mail_url c)" "CHR ''#'' \<notin> set (oc_mail_url c)" "list_all query_plain addr" "addr \<noteq> []"
  shows "addr_from_req (arrives base (otp_request c addr)) = map (\<lambda>ch. if ch = CHR ''+'' then CHR '' '' else ch) addr"
  using assms otp_request_parts[OF assms(1-3)] query_values_addr[OF assms(3)]
  by (simp add: addr_from_req_def arrives_def)

text \<open>The two configurations belong together: the same token and domain, a base URL without query.\<close>

definition paired :: "otp_config \<Rightarrow> mail_config \<Rightarrow> bool" where
  "paired c mc \<longleftrightarrow> oc_mail_token c = mc_token mc \<and> mc_token mc \<noteq> [] \<and> to_lower (oc_mail_domain c) = mc_domain mc
     \<and> CHR ''?'' \<notin> set (oc_mail_url c) \<and> CHR ''#'' \<notin> set (oc_mail_url c)"

lemma otp_call:
  assumes "paired c mc" "list_all query_plain addr"
  shows "mail_api mc (arrives (oc_mail_url c) (otp_request c addr)) now io s = h_otp mc (arrives (oc_mail_url c) (otp_request c addr)) io s"
proof -
  have "rq_path (arrives (oc_mail_url c) (otp_request c addr)) = ''/otp''"
    using assms otp_request_parts(1)[of c addr] by (simp add: arrives_def paired_def)
  moreover have "mail_authorized mc (arrives (oc_mail_url c) (otp_request c addr))"
    using assms otp_request_auth[of c] by (simp add: mail_authorized_def paired_def)
  ultimately show ?thesis by (simp add: mail_api_def)
qed

section \<open>The minted address\<close>

lemma lower_local: "local_chr ch \<Longrightarrow> chr_lower ch = ch"
  by (auto simp: local_chr_def chr_lower_def is_upper_chr_def is_lower_chr_def is_digit_def byte_def)

lemma to_lower_local: "list_all local_chr s \<Longrightarrow> to_lower s = s"
  by (induction s) (auto simp: to_lower_def lower_local)

lemma to_lower_append [simp]: "to_lower (s @ t) = to_lower s @ to_lower t"
  by (simp add: to_lower_def)

lemma rand_token_local: "list_all local_chr (rand_token bs)"
  using rand_token_chars by (auto simp: list_all_iff local_chr_def)

text \<open>Observation: Every address the signup broker makes up is one the mail server provisions, whatever the random
  bytes, when the prefix has only mailbox characters and leaves room for them.\<close>

theorem minted_address_valid:
  assumes "paired c mc" "list_all local_chr (oc_addr_prefix c)" "length (oc_addr_prefix c) + length (mr_addr r) \<le> 64"
    and "mr_addr r \<noteq> []"
  shows "valid_addr mc (mint_addr c r)"
proof -
  have "to_lower (CHR ''@'' # oc_mail_domain c) = CHR ''@'' # mc_domain mc"
    using assms(1) by (simp add: paired_def to_lower_def chr_lower_def is_upper_chr_def byte_def)
  then have "to_lower (mint_addr c r) = (oc_addr_prefix c @ rand_token (mr_addr r)) @ at_domain mc"
    using assms(2) rand_token_local by (simp add: mint_addr_def to_lower_local at_domain_def)
  then show ?thesis
    unfolding valid_addr_iff using assms(2,3,4) rand_token_local
    by (intro exI[of _ "oc_addr_prefix c @ rand_token (mr_addr r)"]) (auto simp: rand_token_def)
qed

section \<open>The code's way back\<close>

lemma otp_ready_reply: "otp_ready (rs_body (otp_reply code)) = (if code = [] then None else Some code)"
proof -
  have "get_bool ''ready'' [(''code'', JStr code), (''ok'', JBool True), (''ready'', JBool b)] = (b, True)" for b
    by (simp add: get_bool_def same_field_def to_lower_def chr_lower_def is_upper_chr_def byte_def)
  moreover have "get_str ''code'' [(''code'', JStr code), (''ok'', JBool True), (''ready'', JBool b)] = (code, True)" for b
    by (simp add: get_str_def same_field_def to_lower_def chr_lower_def is_upper_chr_def byte_def)
  ultimately show ?thesis by (simp add: otp_ready_def otp_reply_doc struct_members_def)
qed


text \<open>Observation: With a plus sign in the address the polls never succeed: the mail server takes the address from the
  query, where the broker put it unescaped, reads a space and refuses it, although it was provisioned
  under it.\<close>

theorem plus_address_refused:
  assumes "paired c mc" "list_all query_plain (loc @ at_domain mc)" "CHR ''+'' \<in> set loc"
  shows "rs_status (fst (mail_api mc (arrives (oc_mail_url c) (otp_request c (loc @ at_domain mc))) now io s)) = 400"
proof -
  let ?f = "\<lambda>ch. if ch = CHR ''+'' then CHR '' '' else ch"
  let ?q = "arrives (oc_mail_url c) (otp_request c (loc @ at_domain mc))"
  have a: "addr_from_req ?q = map ?f (loc @ at_domain mc)"
    using assms otp_request_addr[OF _ _ assms(2)] by (auto simp: paired_def at_domain_def)
  have "\<not> valid_addr mc (map ?f (loc @ at_domain mc))"
  proof
    assume "valid_addr mc (map ?f (loc @ at_domain mc))"
    then obtain l where l: "to_lower (map ?f loc) @ to_lower (map ?f (at_domain mc)) = l @ at_domain mc" "list_all local_chr l"
      unfolding valid_addr_iff by (auto simp: to_lower_def)
    then have "l = to_lower (map ?f loc)" by (simp add: to_lower_def append_eq_append_conv)
    moreover have "chr_lower (CHR '' '') = CHR '' ''" "\<not> local_chr (CHR '' '')" by code_simp+
    then have "CHR '' '' \<in> set (to_lower (map ?f loc))" using assms(3) by (force simp: to_lower_def)
    ultimately show False using l(2) \<open>\<not> local_chr (CHR '' '')\<close> by (auto simp: list_all_iff)
  qed
  then show ?thesis
    unfolding otp_call[OF assms(1,2)] by (simp add: h_otp_def a http_error_def)
qed

section \<open>A signup through the mail server\<close>

definition paired_mail :: mail_config where
  "paired_mail = sample_mail_config"

definition paired_otp :: otp_config where
  "paired_otp = sample_otp_config\<lparr>oc_mail_url := ''http://m''\<rparr>"

lemma pair_ok: "paired paired_otp paired_mail"
  by code_simp

theorem minted_address_valid_witness: "valid_addr paired_mail (mint_addr paired_otp sample_rand)"
proof -
  have "list_all local_chr (oc_addr_prefix paired_otp)" "length (oc_addr_prefix paired_otp) + length (mr_addr sample_rand) \<le> 64"
    "mr_addr sample_rand \<noteq> []"
    by code_simp+
  from minted_address_valid[OF pair_ok this] show ?thesis .
qed

definition mail_net :: signup_net where
  "mail_net sent =
     (let resp = fst (mail_api paired_mail (arrives (oc_mail_url paired_otp) (last sent)) 9 io_fine (mail_state 2))
      in (rs_status resp, rs_body resp))"


theorem plus_address_refused_witness:
  "rs_status (fst (mail_api paired_mail (arrives (oc_mail_url paired_otp) (otp_request paired_otp (''a+b'' @ at_domain paired_mail))) 9 io_fine
     (mail_provision ''a+b@x.net'' 0 (new_mail_server [])))) = 400"
proof -
  have "list_all query_plain (''a+b'' @ at_domain paired_mail)" "CHR ''+'' \<in> set ''a+b''" by code_simp+
  from plus_address_refused[OF pair_ok this] show ?thesis .
qed

end
