(* ===== verification/Insforge.thy ===== *)
theory Insforge
  imports Signup_Ledger Json_Print Identity
begin

text \<open>
  internal/insforgesignup: a broker that provisions one project per caller under a master account. The
  state is the projects table with its cipher, the gate of the source addresses and the cached master
  token; the platform is a transport that sees the requests sent so far. Random bytes, times and
  whether the row could be written are inputs of a signup.
\<close>

section \<open>Configuration and ledger\<close>

record ins_config =
  ic_listen :: string
  ic_token_url :: string
  ic_client_id :: string
  ic_refresh_token :: string
  ic_platform_api :: string
  ic_org :: string
  ic_region :: string
  ic_backend_domain :: string
  ic_prefix :: string
  ic_max_per_ip :: int
  ic_cooldown :: duration
  ic_signup_path :: string

definition ins_default :: "string \<Rightarrow> string \<Rightarrow> string" where
  "ins_default d s = (if s = [] then d else s)"

definition new_ins_config :: "ins_config \<Rightarrow> ins_config option" where
  "new_ins_config c =
     (let c1 = c\<lparr>ic_listen := ins_default ''127.0.0.1:8092'' (ic_listen c),
                 ic_region := ins_default ''us-east'' (ic_region c),
                 ic_backend_domain := ins_default ''insforge.app'' (ic_backend_domain c),
                 ic_prefix := ins_default ''pilot-'' (ic_prefix c),
                 ic_signup_path := ins_default ''/signup'' (ic_signup_path c)\<rparr>
      in if list_ex (\<lambda>v. trim_space v = [])
              [ic_token_url c1, ic_client_id c1, ic_refresh_token c1, ic_platform_api c1, ic_org c1]
         then None else Some c1)"

record project_row =
  pj_id :: string
  pj_key_enc :: string
  pj_url :: string
  pj_org :: string
  pj_created :: int

record project =
  pr_id :: string
  pr_key :: string
  pr_url :: string
  pr_org :: string
  pr_created :: int

record ins_store =
  il_rows :: "project_row gmap"
  il_sealer :: sealer

text \<open>A project to file with the nonce its key is sealed under.\<close>

type_synonym ins_entry = "project \<times> string"

definition ins_put :: "string \<Rightarrow> ins_entry \<Rightarrow> ins_store \<Rightarrow> ins_store" where
  "ins_put caller e s =
     (case e of (r, n) \<Rightarrow>
        if map_of (il_rows s) caller \<noteq> None then s
        else s\<lparr>il_rows := AList.update caller
                 \<lparr>pj_id = pr_id r, pj_key_enc = seal_text (il_sealer s) n (pr_key r), pj_url = pr_url r,
                  pj_org = pr_org r, pj_created = pr_created r\<rparr> (il_rows s)\<rparr>)"

definition ins_get :: "ins_store \<Rightarrow> string \<Rightarrow> project option" where
  "ins_get s caller =
     Option.bind (map_of (il_rows s) caller) (\<lambda>row.
     Option.bind (open_text (il_sealer s) (pj_key_enc row)) (\<lambda>ak.
       Some \<lparr>pr_id = pj_id row, pr_key = ak, pr_url = pj_url row, pr_org = pj_org row, pr_created = pj_created row\<rparr>))"

definition ins_has :: "ins_store \<Rightarrow> string \<Rightarrow> bool" where
  "ins_has s c \<longleftrightarrow> map_of (il_rows s) c \<noteq> None"

definition ins_good :: "ins_store \<Rightarrow> bool" where
  "ins_good s \<longleftrightarrow> sealer_ok (il_sealer s) \<and> (\<forall>c. ins_has s c \<longrightarrow> ins_get s c \<noteq> None)"

definition ins_fit :: "ins_entry \<Rightarrow> bool" where
  "ins_fit e \<longleftrightarrow> length (snd e) = nonce_size"

lemma ins_get_put:
  assumes "ins_good s" "ins_fit e" "\<not> ins_has s c"
  shows "ins_get (ins_put c e s) c = Some (fst e)"
  using assms by (cases e) (auto simp: ins_put_def ins_get_def ins_good_def ins_fit_def ins_has_def open_seal)

lemma ins_get_other: "d \<noteq> c \<Longrightarrow> ins_get (ins_put c e s) d = ins_get s d"
  by (cases e) (auto simp: ins_put_def ins_get_def)

lemma ins_put_same: "ins_has s c \<Longrightarrow> ins_put c e s = s"
  by (cases e) (auto simp: ins_put_def ins_has_def)

lemma ins_put_rows [simp]: "ins_has (ins_put c e s) d \<longleftrightarrow> d = c \<or> ins_has s d" "il_sealer (ins_put c e s) = il_sealer s"
  by (cases e; auto simp: ins_put_def ins_has_def)+

lemma ins_get_row: "ins_get s c = Some r \<Longrightarrow> ins_has s c"
  by (cases "map_of (il_rows s) c") (auto simp: ins_get_def ins_has_def)

lemma ins_good_row: "ins_good s \<Longrightarrow> ins_has s c \<Longrightarrow> ins_get s c \<noteq> None"
  unfolding ins_good_def by blast

interpretation ins_ledger: account_ledger ins_get ins_put fst ins_good ins_fit
proof
  show "ins_good (ins_put c i s)" if s: "ins_good s" "ins_fit i" for s i c
  proof (cases "ins_has s c")
    case False
    have "ins_get (ins_put c i s) d \<noteq> None" if "ins_has (ins_put c i s) d" for d
      using ins_get_put[OF s False] ins_get_other[of d c i s] ins_good_row[OF s(1), of d] that by (cases "d = c") auto
    then show ?thesis using s(1) unfolding ins_good_def by simp
  qed (simp add: ins_put_same s(1))
  show "ins_good s \<Longrightarrow> ins_fit i \<Longrightarrow> ins_get s c = None \<Longrightarrow> ins_get (ins_put c i s) c = Some (fst i)" for s i c
    using ins_get_put[of s i c] ins_good_row[of s c] by blast
  show "ins_good s \<Longrightarrow> ins_get s d = Some a \<Longrightarrow> ins_get (ins_put c i s) d = Some a" for s d a c i
    using ins_get_other[of d c i s] ins_put_same[of s c i] ins_get_row[of s d a] by (cases "d = c") auto
qed

section \<open>The platform\<close>

datatype ins_err =
    InsRateLimited | RefreshStatus int | NoAccessToken | ProjectLimit | CreateStatus int string
  | CreateUnexpected | KeyStatus int | NoProjectKey | PersistFailed

record ins_rand =
  ir_gate_time :: gotime
  ir_check_time :: gotime
  ir_token_time :: gotime
  ir_name :: string
  ir_put_time :: gotime
  ir_nonce :: string
  ir_put_ok :: bool
  ir_mark_time :: gotime

record token_cache =
  tc_token :: string
  tc_expires :: gotime

definition token_margin :: duration where "token_margin = 120 * second"

definition token_cached :: "gotime \<Rightarrow> token_cache \<Rightarrow> bool" where
  "token_cached now tc \<longleftrightarrow> tc_token tc \<noteq> [] \<and> time_sub (tc_expires tc) now > token_margin"

text \<open>The fields of the token answer; a lifetime that is not positive counts as an hour, and the
  product with a second wraps at 64 bits.\<close>

definition token_answer :: "string \<Rightarrow> (string \<times> int) option" where
  "token_answer body =
     (case Option.bind (raw_doc body) struct_members of
        None \<Rightarrow> None
      | Some m \<Rightarrow> let (t, ok1) = get_str ''access_token'' m; (e, ok2) = get_int ''expires_in'' m
                  in if ok1 \<and> ok2 \<and> t \<noteq> [] then Some (t, e) else None)"

definition token_lifetime :: "int \<Rightarrow> duration" where
  "token_lifetime e = wrap64 ((if e \<le> 0 then 3600 else e) * second)"

definition access_token :: "ins_config \<Rightarrow> signup_net \<Rightarrow> ins_rand \<Rightarrow> token_cache
    \<Rightarrow> (ins_err + string) \<times> out_request list \<times> token_cache" where
  "access_token c net r tc =
     (if token_cached (ir_check_time r) tc then (Inr (tc_token tc), [], tc)
      else case post_json net [] (ic_token_url c)
             [(''grant_type'', ''refresh_token''), (''refresh_token'', ic_refresh_token c), (''client_id'', ic_client_id c)] [] of
        ((st, body), sent) \<Rightarrow>
          if st \<noteq> 200 then (Inl (RefreshStatus st), sent, tc)
          else (case token_answer body of
                  None \<Rightarrow> (Inl NoAccessToken, sent, tc)
                | Some (t, e) \<Rightarrow> (Inr t, sent, \<lparr>tc_token = t, tc_expires = ir_token_time r + token_lifetime e\<rparr>)))"

definition snippet :: "string \<Rightarrow> string" where
  "snippet raw = take 300 (trim_space raw)"

definition project_answer :: "string \<Rightarrow> (string \<times> string \<times> string) option" where
  "project_answer body =
     (case Option.bind (raw_doc body) struct_members of
        None \<Rightarrow> None
      | Some m \<Rightarrow> let (p, ok0) = get_struct ''project'' m; (i, ok1) = get_str ''id'' p;
                     (a, ok2) = get_str ''appkey'' p; (g, ok3) = get_str ''region'' p
                  in if ok0 \<and> ok1 \<and> ok2 \<and> ok3 \<and> i \<noteq> [] \<and> a \<noteq> [] then Some (i, a, g) else None)"

definition create_project :: "ins_config \<Rightarrow> signup_net \<Rightarrow> ins_rand \<Rightarrow> out_request list \<Rightarrow> string
    \<Rightarrow> (ins_err + string \<times> string \<times> string) \<times> out_request list" where
  "create_project c net r sent token =
     (case post_json net sent (ic_platform_api c @ ''/organizations/v1/'' @ ic_org c @ ''/projects'')
             [(''name'', ic_prefix c @ rand_token (ir_name r)), (''region'', ic_region c)] token of
        ((st, body), sent') \<Rightarrow>
          (if st = 400 \<and> sublist ''limit'' (to_lower body) then Inl ProjectLimit
           else if st \<noteq> 200 \<and> st \<noteq> 201 then Inl (CreateStatus st (snippet body))
           else (case project_answer body of
                   None \<Rightarrow> Inl CreateUnexpected
                 | Some (i, a, g) \<Rightarrow> Inr (i, a, if g = [] then ic_region c else g)), sent'))"

definition project_key :: "ins_config \<Rightarrow> signup_net \<Rightarrow> out_request list \<Rightarrow> string \<Rightarrow> string \<Rightarrow> (ins_err + string) \<times> out_request list" where
  "project_key c net sent token i =
     (case get_json net sent (ic_platform_api c @ ''/projects/v1/'' @ i @ ''/access-api-key'') token of
        ((st, body), sent') \<Rightarrow>
          (if st \<noteq> 200 then Inl (KeyStatus st)
           else (case doc_str ''access_api_key'' body of
                   (k, okay) \<Rightarrow> if \<not> okay \<or> k = [] then Inl NoProjectKey else Inr k), sent'))"

section \<open>Signup\<close>

record ins_account =
  ia_api_key :: string
  ia_backend_url :: string
  ia_project_id :: string
  ia_cached :: bool

record ins_state =
  is_store :: ins_store
  is_gate :: ip_gate
  is_tokens :: token_cache

definition project_account :: "project \<Rightarrow> bool \<Rightarrow> ins_account" where
  "project_account p cached = \<lparr>ia_api_key = pr_key p, ia_backend_url = pr_url p, ia_project_id = pr_id p, ia_cached = cached\<rparr>"

definition make_project :: "ins_config \<Rightarrow> signup_net \<Rightarrow> ins_rand \<Rightarrow> out_request list \<Rightarrow> string
    \<Rightarrow> (ins_err + project) \<times> out_request list" where
  "make_project c net r sent token =
     (case create_project c net r sent token of
        (Inl e, s1) \<Rightarrow> (Inl e, s1)
      | (Inr (i, appkey, region), s1) \<Rightarrow>
          (case project_key c net s1 token i of
             (Inl e, s2) \<Rightarrow> (Inl e, s2)
           | (Inr key, s2) \<Rightarrow>
               (Inr \<lparr>pr_id = i, pr_key = key,
                     pr_url = ''https://'' @ appkey @ ''.'' @ region @ ''.'' @ ic_backend_domain c,
                     pr_org = ic_org c, pr_created = unix_sec (ir_put_time r)\<rparr>, s2)))"

definition ins_signup :: "ins_config \<Rightarrow> signup_net \<Rightarrow> ins_rand \<Rightarrow> string \<Rightarrow> string \<Rightarrow> ins_state
    \<Rightarrow> (ins_err + ins_account) \<times> out_request list \<times> ins_state" where
  "ins_signup c net r caller ip st =
     (case ins_get (is_store st) caller of
        Some p \<Rightarrow> (Inr (project_account p True), [], st)
      | None \<Rightarrow>
        if \<not> gate_open (ic_cooldown c) (ic_max_per_ip c) caller ip (ir_gate_time r) (is_gate st) then (Inl InsRateLimited, [], st)
        else case access_token c net r (is_tokens st) of
          (Inl e, sent, tc) \<Rightarrow> (Inl e, sent, st\<lparr>is_tokens := tc\<rparr>)
        | (Inr token, sent, tc) \<Rightarrow>
            (case make_project c net r sent token of
               (Inl e, s2) \<Rightarrow> (Inl e, s2, st\<lparr>is_tokens := tc\<rparr>)
             | (Inr p, s2) \<Rightarrow>
                 if \<not> ir_put_ok r then (Inl PersistFailed, s2, st\<lparr>is_tokens := tc\<rparr>)
                 else (Inr (project_account p False), s2,
                       \<lparr>is_store = ins_put caller (p, ir_nonce r) (is_store st),
                        is_gate = mark_minted caller ip (ir_mark_time r) (is_gate st), is_tokens = tc\<rparr>)))"

definition ins_err_text :: "ins_err \<Rightarrow> string" where
  "ins_err_text e = (case e of
      InsRateLimited \<Rightarrow> ''per-IP identity cap reached (anti-abuse)''
    | RefreshStatus n \<Rightarrow> ''master auth: refresh HTTP '' @ itoa n
    | NoAccessToken \<Rightarrow> ''master auth: refresh returned no access_token''
    | ProjectLimit \<Rightarrow> ''the managed InsForge org has reached its project limit '' @ em_dash @ '' the operator must upgrade the plan''
    | CreateStatus n s \<Rightarrow> ''create project HTTP '' @ itoa n @ '': '' @ s
    | CreateUnexpected \<Rightarrow> ''create project: unexpected response''
    | KeyStatus n \<Rightarrow> ''access-api-key HTTP '' @ itoa n
    | NoProjectKey \<Rightarrow> ''access-api-key returned no key''
    | PersistFailed \<Rightarrow> ''persist: database error'')"

definition ins_err_code :: "ins_err \<Rightarrow> int" where
  "ins_err_code e = (case e of InsRateLimited \<Rightarrow> 429 | ProjectLimit \<Rightarrow> 402 | _ \<Rightarrow> 502)"

definition ins_account_json :: "ins_account \<Rightarrow> string" where
  "ins_account_json a =
     ''{'' @ json_quote ''api_key'' @ '':'' @ json_quote (ia_api_key a) @ '','' @ json_quote ''backend_url'' @ '':'' @ json_quote (ia_backend_url a)
     @ '','' @ json_quote ''project_id'' @ '':'' @ json_quote (ia_project_id a)
     @ '','' @ json_quote ''cached'' @ '':'' @ (if ia_cached a then ''true'' else ''false'') @ ''}'' @ [CHR 0x0A]"

definition ins_handle :: "ins_config \<Rightarrow> crypto \<Rightarrow> (id_err \<Rightarrow> string) \<Rightarrow> gotime \<Rightarrow> signup_net \<Rightarrow> ins_rand \<Rightarrow> request \<Rightarrow> ins_state
    \<Rightarrow> response \<times> out_request list \<times> ins_state" where
  "ins_handle c cy errText now net r req st =
     (let body = (case rq_body req of Inr b \<Rightarrow> take 65536 b | Inl _ \<Rightarrow> []) in
      case verify cy 0 now (rq_header req) (rq_method req) (rq_path req) body of
        Inl e \<Rightarrow> (http_error 401 (''identity: '' @ errText e), [], st)
      | Inr caller \<Rightarrow>
          (case ins_signup c net r caller (signup_ip req) st of
             (Inl e, sent, st') \<Rightarrow> (http_error (ins_err_code e) (ins_err_text e), sent, st')
           | (Inr a, sent, st') \<Rightarrow>
               (\<lparr>rs_status = 200, rs_headers = [(''Content-Type'', json_type)], rs_body = ins_account_json a\<rparr>, sent, st')))"

section \<open>Runs of signups\<close>

record ins_call =
  nc_caller :: string
  nc_ip :: string
  nc_net :: signup_net
  nc_rand :: ins_rand

definition ins_step :: "ins_config \<Rightarrow> ins_call \<Rightarrow> ins_state \<Rightarrow> (ins_err + ins_account) \<times> out_request list \<times> ins_state" where
  "ins_step c k st = ins_signup c (nc_net k) (nc_rand k) (nc_caller k) (nc_ip k) st"

definition ins_run :: "ins_config \<Rightarrow> ins_call list \<Rightarrow> ins_state \<Rightarrow> ins_state" where
  "ins_run c ks st = serve_all (ins_step c) ks st"

definition ins_fits :: "ins_call \<Rightarrow> bool" where
  "ins_fits k \<longleftrightarrow> length (ir_nonce (nc_rand k)) = nonce_size"

definition ins_mints :: "ins_config \<Rightarrow> string \<Rightarrow> ins_call list \<Rightarrow> ins_state \<Rightarrow> nat" where
  "ins_mints c ip ks st = count_new (ins_step c) (\<lambda>a. \<not> ia_cached a) (\<lambda>k. nc_ip k = ip) ks st"

definition fresh_ins :: "sealer \<Rightarrow> ins_state" where
  "fresh_ins sl = \<lparr>is_store = \<lparr>il_rows = [], il_sealer = sl\<rparr>, is_gate = no_mints, is_tokens = \<lparr>tc_token = [], tc_expires = 0\<rparr>\<rparr>"

text \<open>A signup of a caller without a project either fails, leaving the table and the gate, or was let in and files one.\<close>

lemma ins_signup_cases:
  assumes "ins_signup c net r caller ip st = (res, sent, st')" "ins_get (is_store st) caller = None"
  obtains
    (failed) e where "res = Inl e" "is_store st' = is_store st" "is_gate st' = is_gate st"
  | (made) p where "gate_open (ic_cooldown c) (ic_max_per_ip c) caller ip (ir_gate_time r) (is_gate st)"
      "res = Inr (project_account p False)" "is_store st' = ins_put caller (p, ir_nonce r) (is_store st)"
      "is_gate st' = mark_minted caller ip (ir_mark_time r) (is_gate st)"
proof (cases "gate_open (ic_cooldown c) (ic_max_per_ip c) caller ip (ir_gate_time r) (is_gate st)")
  case False
  with assms show ?thesis by (intro failed[of InsRateLimited]) (simp_all add: ins_signup_def)
next
  case let_in: True
  obtain t s1 tc where a: "access_token c net r (is_tokens st) = (t, s1, tc)" by (cases "access_token c net r (is_tokens st)")
  show ?thesis
  proof (cases t)
    case (Inl e)
    with assms let_in a show ?thesis by (intro failed[of e]) (auto simp: ins_signup_def)
  next
    case (Inr token)
    obtain m s2 where m: "make_project c net r s1 token = (m, s2)" by fastforce
    show ?thesis
    proof (cases m)
      case (Inl e)
      with assms let_in a Inr m show ?thesis by (intro failed[of e]) (auto simp: ins_signup_def)
    next
      case made': (Inr p)
      show ?thesis
      proof (cases "ir_put_ok r")
        case False
        with assms let_in a Inr m made' show ?thesis by (intro failed[of PersistFailed]) (auto simp: ins_signup_def)
      next
        case True
        with assms let_in a Inr m made' show ?thesis by (intro made[of p]) (auto simp: ins_signup_def)
      qed
    qed
  qed
qed

interpretation ins_broker:
  signup_broker ins_get ins_put fst ins_good ins_fit is_store is_gate nc_caller nc_ip ins_fits
    "ic_max_per_ip c" "ins_step c" project_account "\<lambda>a. \<not> ia_cached a" for c
proof
  show "ins_get (is_store st) (nc_caller k) = Some a \<Longrightarrow> ins_step c k st = (Inr (project_account a True), [], st)" for st k a
    by (simp add: ins_step_def ins_signup_def)
  show "(\<exists>e. res = Inl e \<and> is_store st' = is_store st \<and> is_gate st' = is_gate st) \<or>
      (\<exists>i cd t t'. ins_fit i \<and> res = Inr (project_account (fst i) False) \<and>
         gate_open cd (ic_max_per_ip c) (nc_caller k) (nc_ip k) t (is_gate st) \<and>
         is_store st' = ins_put (nc_caller k) i (is_store st) \<and> is_gate st' = mark_minted (nc_caller k) (nc_ip k) t' (is_gate st))"
    if "ins_get (is_store st) (nc_caller k) = None" "ins_fits k" "ins_step c k st = (res, sent, st')" for st k res sent st'
    using that(3)[unfolded ins_step_def] that(1)
  proof (cases rule: ins_signup_cases)
    case (made p)
    have "ins_fit (p, ir_nonce (nc_rand k))" using that(2) by (simp add: ins_fit_def ins_fits_def)
    with made show ?thesis
      by (intro disjI2 exI[of _ "(p, ir_nonce (nc_rand k))"] exI[of _ "ic_cooldown c"]
          exI[of _ "ir_gate_time (nc_rand k)"] exI[of _ "ir_mark_time (nc_rand k)"]) simp
  qed auto
  show "(\<not> ia_cached (project_account a b)) = (\<not> b)" for a b by (simp add: project_account_def)
qed

lemma fresh_ins_inv: "sealer_ok sl \<Longrightarrow> ins_broker.inv c (fresh_ins sl)"
  using no_mints_inv
  by (simp add: ins_broker.inv_def fresh_ins_def ins_good_def ins_has_def) (simp add: seen_at_def no_mints_def)


section \<open>The master token\<close>

lemma get_json_sends: "get_json net sent url tok = (res, sent') \<Longrightarrow> length sent' = Suc (length sent)"
  by (auto simp: get_json_def Let_def)

lemma post_json_sends: "post_json net sent url flds tok = (res, sent') \<Longrightarrow> length sent' = Suc (length sent)"
  by (auto simp: post_json_def Let_def)

lemma wrap64_small: "0 \<le> n \<Longrightarrow> n < 2 ^ 63 \<Longrightarrow> wrap64 n = n"
  by (simp add: wrap64_id)

text \<open>Observation: A refreshed master token serves every signup until two minutes before it expires, without another
  request, and none at or after that moment.\<close>

theorem token_reused_until_margin:
  assumes "access_token c net r tc = (Inr t, [q], tc')" "token_answer (snd (net [q])) = Some (t, e)"
    and "0 < e" "e * second < 2 ^ 63"
  shows "access_token c net' r' tc' = (Inr t, [], tc') \<longleftrightarrow> ir_check_time r' + token_margin < ir_token_time r + e * second"
proof -
  have t: "t \<noteq> []" using assms(2) by (auto simp: token_answer_def Let_def split: option.splits prod.splits if_splits)
  have "tc' = \<lparr>tc_token = t, tc_expires = ir_token_time r + token_lifetime e\<rparr>"
    using assms(1,2)
    by (auto simp: access_token_def post_json_def Let_def split: if_splits prod.splits option.splits)
  moreover have "token_lifetime e = e * second"
    using assms(3,4) wrap64_small[of "e * second"] by (simp add: token_lifetime_def)
  ultimately have c: "token_cached (ir_check_time r') tc' \<longleftrightarrow> ir_check_time r' + token_margin < ir_token_time r + e * second"
    using t by (auto simp: token_cached_def time_sub_def)
  have "tc_token tc' = t" using \<open>tc' = _\<close> by simp
  moreover have "fst (snd (access_token c net' r' tc')) \<noteq> []" if "\<not> token_cached (ir_check_time r') tc'"
    using that by (auto simp: access_token_def post_json_def Let_def split: prod.splits option.splits)
  ultimately show ?thesis using c by (auto simp: access_token_def)
qed

section \<open>Projects the cap does not see\<close>

text \<open>The requests that create a project.\<close>

definition creations :: "out_request list \<Rightarrow> nat" where
  "creations sent = length (filter (\<lambda>q. ou_method q = ''POST'' \<and> has_prefix ''/organizations'' (drop 1 (ou_url q))) sent)"

fun creations_in :: "ins_config \<Rightarrow> ins_call list \<Rightarrow> ins_state \<Rightarrow> nat" where
  "creations_in c [] st = 0"
| "creations_in c (k # ks) st = (case ins_step c k st of (_, sent, st') \<Rightarrow> creations sent + creations_in c ks st')"

definition sample_ins_config :: ins_config where
  "sample_ins_config =
     \<lparr>ic_listen = ''l'', ic_token_url = ''t'', ic_client_id = ''c'', ic_refresh_token = ''r'', ic_platform_api = ''p'', ic_org = ''o'',
      ic_region = ''us'', ic_backend_domain = ''x.net'', ic_prefix = ''pilot-'', ic_max_per_ip = 1, ic_cooldown = 0, ic_signup_path = ''/s''\<rparr>"

definition sample_ins_rand :: ins_rand where
  "sample_ins_rand =
     \<lparr>ir_gate_time = 0, ir_check_time = 0, ir_token_time = 1, ir_name = ''ab'', ir_put_time = 2, ir_nonce = ''0123456789ab'',
      ir_put_ok = True, ir_mark_time = 3\<rparr>"

text \<open>A platform that answers everything but the key.\<close>

definition platform :: "int \<Rightarrow> signup_net" where
  "platform key_status sent =
     (if ou_url (last sent) = ''t'' then (200, ''{\"access_token\":\"tok\",\"expires_in\":600}'')
      else if ou_method (last sent) = ''POST'' then (201, ''{\"project\":{\"id\":\"i\",\"appkey\":\"a\",\"region\":\"\"}}'')
      else (key_status, ''{\"access_api_key\":\"ik_1\"}''))"

definition platform_call :: "int \<Rightarrow> ins_call" where
  "platform_call key_status = \<lparr>nc_caller = ''c'', nc_ip = ''1.1.1.1'', nc_net = platform key_status, nc_rand = sample_ins_rand\<rparr>"

lemma platform_answers:
  "token_answer ''{\"access_token\":\"tok\",\"expires_in\":600}'' = Some (''tok'', 600)"
  "project_answer ''{\"project\":{\"id\":\"i\",\"appkey\":\"a\",\"region\":\"\"}}'' = Some (''i'', ''a'', [])"
  "doc_str ''access_api_key'' ''{\"access_api_key\":\"ik_1\"}'' = (''ik_1'', True)"
  by code_simp+

lemma request_urls:
  "ou_url (json_request ''POST'' ''t'' tok b) = ''t''"
  "ou_url (json_request ''POST'' ''p/organizations/v1/o/projects'' tok b) = ''p/organizations/v1/o/projects''"
  "ou_url (json_request ''GET'' ''p/projects/v1/i/access-api-key'' tok b) = ''p/projects/v1/i/access-api-key''"
  "ou_method (json_request m u tok b) = m"
  by (simp_all add: json_request_def new_out_request_def set_out_header_def Let_def split: option.splits prod.splits)

lemma platform_last: "platform k (sent @ [q]) =
   (if ou_url q = ''t'' then (200, ''{\"access_token\":\"tok\",\"expires_in\":600}'')
    else if ou_method q = ''POST'' then (201, ''{\"project\":{\"id\":\"i\",\"appkey\":\"a\",\"region\":\"\"}}'')
    else (k, ''{\"access_api_key\":\"ik_1\"}''))"
  by (simp add: platform_def)

lemma creations_snoc: "creations (sent @ [q]) = creations sent + (if ou_method q = ''POST'' \<and> has_prefix ''/organizations'' (drop 1 (ou_url q)) then 1 else 0)"
  by (simp add: creations_def)

lemma platform_token:
  "\<exists>tok sent tc'. access_token sample_ins_config (platform k) sample_ins_rand tc = (Inr tok, sent, tc') \<and> creations sent = 0"
proof (cases "token_cached (ir_check_time sample_ins_rand) tc")
  case True
  then show ?thesis by (simp add: access_token_def creations_def)
next
  case False
  have "\<exists>q. post_json (platform k) [] (ic_token_url sample_ins_config) flds [] =
      ((200, ''{\"access_token\":\"tok\",\"expires_in\":600}''), [q]) \<and> ou_url q = ''t''" for flds
    using platform_last[of k "[]"] by (simp add: post_json_def Let_def sample_ins_config_def request_urls)
  then obtain q where "post_json (platform k) [] (ic_token_url sample_ins_config)
      [(''grant_type'', ''refresh_token''), (''refresh_token'', ic_refresh_token sample_ins_config), (''client_id'', ic_client_id sample_ins_config)] [] =
      ((200, ''{\"access_token\":\"tok\",\"expires_in\":600}''), [q])" "ou_url q = ''t''" by blast
  with False show ?thesis
    by (simp add: access_token_def platform_answers creations_def has_prefix_def)
qed

lemma platform_post:
  "\<exists>q. post_json (platform k) sent ''p/organizations/v1/o/projects'' flds tok =
     ((201, ''{\"project\":{\"id\":\"i\",\"appkey\":\"a\",\"region\":\"\"}}''), sent @ [q])
     \<and> ou_url q = ''p/organizations/v1/o/projects'' \<and> ou_method q = ''POST''"
  by (simp add: post_json_def Let_def platform_last request_urls)

lemma platform_get:
  "\<exists>q. get_json (platform k) sent ''p/projects/v1/i/access-api-key'' tok = ((k, ''{\"access_api_key\":\"ik_1\"}''), sent @ [q])
     \<and> ou_method q = ''GET''"
  by (simp add: get_json_def Let_def platform_last request_urls)

lemma platform_project:
  "\<exists>sent'. make_project sample_ins_config (platform k) sample_ins_rand sent tok =
     (if k = 200 then Inr \<lparr>pr_id = ''i'', pr_key = ''ik_1'', pr_url = ''https://a.us.x.net'', pr_org = ''o'', pr_created = 0\<rparr>
      else Inl (KeyStatus k), sent') \<and> creations sent' = creations sent + 1"
proof -
  have urls: "ic_platform_api sample_ins_config @ ''/organizations/v1/'' @ ic_org sample_ins_config @ ''/projects'' = ''p/organizations/v1/o/projects''"
    "ic_platform_api sample_ins_config @ ''/projects/v1/'' @ ''i'' @ ''/access-api-key'' = ''p/projects/v1/i/access-api-key''"
    "ic_region sample_ins_config = ''us''"
    by (simp_all add: sample_ins_config_def)
  obtain q1 where q1: "post_json (platform k) sent ''p/organizations/v1/o/projects''
      [(''name'', ic_prefix sample_ins_config @ rand_token (ir_name sample_ins_rand)), (''region'', ''us'')] tok =
     ((201, ''{\"project\":{\"id\":\"i\",\"appkey\":\"a\",\"region\":\"\"}}''), sent @ [q1])"
     "ou_url q1 = ''p/organizations/v1/o/projects''" "ou_method q1 = ''POST''"
    using platform_post by blast
  obtain q2 where q2: "get_json (platform k) (sent @ [q1]) ''p/projects/v1/i/access-api-key'' tok =
      ((k, ''{\"access_api_key\":\"ik_1\"}''), (sent @ [q1]) @ [q2])" "ou_method q2 = ''GET''"
    using platform_get by blast
  have c1: "create_project sample_ins_config (platform k) sample_ins_rand sent tok = (Inr (''i'', ''a'', ''us''), sent @ [q1])"
    unfolding create_project_def urls q1(1) by (simp add: platform_answers)
  have c2: "project_key sample_ins_config (platform k) (sent @ [q1]) tok ''i'' =
     (if k = 200 then Inr ''ik_1'' else Inl (KeyStatus k), (sent @ [q1]) @ [q2])"
    unfolding project_key_def urls q2(1) by (simp add: platform_answers)
  have "creations ((sent @ [q1]) @ [q2]) = creations sent + 1"
    unfolding creations_snoc using q1(2,3) q2(2) by (simp add: has_prefix_def)
  then show ?thesis
    using c1 c2 by (simp add: make_project_def sample_ins_config_def sample_ins_rand_def unix_sec_def)
qed

lemma platform_signup:
  assumes "is_store st = is_store (fresh_ins sl)" "is_gate st = no_mints"
  obtains sent st' where
    "ins_step sample_ins_config (platform_call 500) st = (Inl (KeyStatus 500), sent, st')"
    "creations sent = 1" "is_store st' = is_store st" "is_gate st' = is_gate st"
proof -
  obtain tok s1 tc where a: "access_token sample_ins_config (platform 500) sample_ins_rand (is_tokens st) = (Inr tok, s1, tc)" "creations s1 = 0"
    using platform_token by blast
  obtain s2 where m: "make_project sample_ins_config (platform 500) sample_ins_rand s1 tok = (Inl (KeyStatus 500), s2)" "creations s2 = 1"
    using platform_project[of 500 s1 tok] a(2) by auto
  have "ins_get (is_store st) ''c'' = None" using assms(1) by (simp add: fresh_ins_def ins_get_def)
  moreover have "gate_open 0 1 ''c'' ''1.1.1.1'' 0 no_mints" by (simp add: gate_open_def no_mints_def)
  moreover have "ic_cooldown sample_ins_config = 0" "ic_max_per_ip sample_ins_config = 1" "ir_gate_time sample_ins_rand = 0"
    by (simp_all add: sample_ins_config_def sample_ins_rand_def)
  ultimately have "ins_step sample_ins_config (platform_call 500) st = (Inl (KeyStatus 500), s2, st\<lparr>is_tokens := tc\<rparr>)"
    using a(1) m(1) assms(2) by (simp add: ins_step_def platform_call_def ins_signup_def)
  with m(2) show ?thesis by (intro that[of s2 "st\<lparr>is_tokens := tc\<rparr>"]) simp_all
qed

text \<open>Observation: When the platform creates the project and then fails to give its key, nothing is recorded: the same
  caller passes the gate again, and any number of projects is created under a cap of one.\<close>

theorem orphan_projects_uncounted:
  "is_store st = is_store (fresh_ins sl) \<Longrightarrow> is_gate st = no_mints \<Longrightarrow>
   creations_in sample_ins_config (replicate n (platform_call 500)) st = n"
proof (induction n arbitrary: st)
  case (Suc n)
  obtain sent st' where s: "ins_step sample_ins_config (platform_call 500) st = (Inl (KeyStatus 500), sent, st')"
    "creations sent = 1" "is_store st' = is_store st" "is_gate st' = is_gate st"
    using platform_signup[OF Suc.prems] by metis
  with Suc show ?case by simp
qed simp

theorem orphan_projects_uncounted_witness:
  "creations_in sample_ins_config (replicate 3 (platform_call 500)) (fresh_ins \<lparr>sl_seal = (\<lambda>n p. p), sl_open = (\<lambda>n p. Some p)\<rparr>) = 3"
  by (rule orphan_projects_uncounted[OF refl]) (simp add: fresh_ins_def)

definition clear_sealer :: sealer where "clear_sealer = \<lparr>sl_seal = (\<lambda>n p. p), sl_open = (\<lambda>n p. Some p)\<rparr>"


theorem token_reused_until_margin_witness:
  "access_token sample_ins_config (platform 0) (sample_ins_rand\<lparr>ir_check_time := 480 * second\<rparr>) \<lparr>tc_token = ''tok'', tc_expires = 1 + 600 * second\<rparr> =
     (Inr ''tok'', [], \<lparr>tc_token = ''tok'', tc_expires = 1 + 600 * second\<rparr>)"
proof -
  let ?tc = "\<lparr>tc_token = [], tc_expires = 0\<rparr>"
  obtain q where q: "access_token sample_ins_config (platform 0) sample_ins_rand ?tc =
      (Inr ''tok'', [q], \<lparr>tc_token = ''tok'', tc_expires = 1 + token_lifetime 600\<rparr>)" "ou_url q = ''t''"
    using platform_last[of 0 "[]"]
    by (auto simp: access_token_def token_cached_def post_json_def Let_def sample_ins_config_def sample_ins_rand_def request_urls platform_answers)
  have l: "token_lifetime 600 = 600 * second" using wrap64_small[of "600 * second"] by (simp add: token_lifetime_def)
  have "token_answer (snd (platform 0 [q])) = Some (''tok'', 600)" using q(2) platform_last[of 0 "[]" q] platform_answers(1) by simp
  from token_reused_until_margin[OF q(1) this, of "platform 0" "sample_ins_rand\<lparr>ir_check_time := 480 * second\<rparr>"]
  show ?thesis by (simp add: l token_margin_def sample_ins_rand_def)
qed

end
