(* ===== verification/Store_Refine.thy ===== *)
theory Store_Refine
  imports Credit
begin

text \<open>
  The two credit stores as refinements of one abstract ledger: every sequence of calls is answered as
  the ledger of Store_Iface answers it, and leaves the store as a representation of what the ledger
  has become.
\<close>

section \<open>Calls and answers\<close>

datatype ledger_call =
    Provision_for string string int int duration gotime
  | Balance_of string
  | Debit_from string int
  | Refund_to string int
  | Settle_with string int
  | Rotate_key string
  | Record_of string

text \<open>What a caller of the store reads of an answer.\<close>

datatype ledger_answer =
    Failed store_err
  | Account int nat bool
  | Funds bool int
  | Amount int
  | Nothing

definition account_answer :: "bool \<Rightarrow> int \<Rightarrow> int \<Rightarrow> ledger_answer" where
  "account_answer new credits rot = Account credits (nat rot) new"

definition store_call :: "'s prov_ops \<Rightarrow> string \<Rightarrow> ledger_call \<Rightarrow> 's \<Rightarrow> ledger_answer \<times> 's" where
  "store_call ops a k s =
     (case k of
        Provision_for c ip seed cap cd now \<Rightarrow>
          (case op_provision ops s a c ip seed cap cd now of (r, s') \<Rightarrow>
             (case r of Inl e \<Rightarrow> Failed e | Inr p \<Rightarrow> account_answer (pr_new p) (pr_credits p) (pr_rot p), s'))
      | Balance_of c \<Rightarrow> (case op_credit ops s a c of Inl e \<Rightarrow> Failed e | Inr n \<Rightarrow> Amount n, s)
      | Debit_from c n \<Rightarrow>
          (case op_debit ops s a c n of (r, s') \<Rightarrow> (case r of Inl e \<Rightarrow> Failed e | Inr (b, m) \<Rightarrow> Funds b m, s'))
      | Refund_to c n \<Rightarrow> (Nothing, op_refund ops s a c n)
      | Settle_with c n \<Rightarrow> (case op_settle ops s a c n of (r, s') \<Rightarrow> (case r of Inl e \<Rightarrow> Failed e | Inr m \<Rightarrow> Amount m, s'))
      | Rotate_key c \<Rightarrow>
          (case op_rotate ops s a c of (r, s') \<Rightarrow>
             (case r of Inl e \<Rightarrow> Failed e | Inr None \<Rightarrow> Nothing | Inr (Some p) \<Rightarrow> account_answer False (pr_credits p) (pr_rot p), s'))
      | Record_of c \<Rightarrow>
          (case op_get ops s a c of
             Inl e \<Rightarrow> Failed e | Inr None \<Rightarrow> Nothing | Inr (Some p) \<Rightarrow> account_answer False (pr_credits p) (pr_rot p), s))"

definition spec_call :: "(gotime \<Rightarrow> gotime) \<Rightarrow> string \<Rightarrow> ledger_call \<Rightarrow> ledger \<Rightarrow> ledger_answer \<times> ledger" where
  "spec_call stamp a k L =
     (case k of
        Provision_for c ip seed cap cd now \<Rightarrow>
          (case spec_provision stamp L (a, c) ip seed cap cd now of (r, L') \<Rightarrow>
             (case r of Inl e \<Rightarrow> Failed e | Inr (x, new) \<Rightarrow> account_answer new (ac_credits x) (ac_rot x), L'))
      | Balance_of c \<Rightarrow> (Amount (bal L (a, c)), L)
      | Debit_from c n \<Rightarrow> (case spec_debit L (a, c) n of ((b, m), L') \<Rightarrow> (Funds b m, L'))
      | Refund_to c n \<Rightarrow> (Nothing, spec_refund L (a, c) n)
      | Settle_with c n \<Rightarrow> (case spec_settle L (a, c) n of (m, L') \<Rightarrow> (Amount m, L'))
      | Rotate_key c \<Rightarrow>
          (let L' = spec_rotate L (a, c) in
             (case L' (a, c) of None \<Rightarrow> Nothing | Some x \<Rightarrow> account_answer False (ac_credits x) (ac_rot x), L'))
      | Record_of c \<Rightarrow>
          (case L (a, c) of None \<Rightarrow> Nothing | Some x \<Rightarrow> account_answer False (ac_credits x) (ac_rot x), L))"

fun call_all :: "(ledger_call \<Rightarrow> 's \<Rightarrow> ledger_answer \<times> 's) \<Rightarrow> ledger_call list \<Rightarrow> 's \<Rightarrow> ledger_answer list \<times> 's" where
  "call_all f [] s = ([], s)"
| "call_all f (k # ks) s = (case f k s of (r, s1) \<Rightarrow> (case call_all f ks s1 of (rs, s2) \<Rightarrow> (r # rs, s2)))"

text \<open>Seeds are not negative and settled amounts are positive, as the broker calls the store.\<close>

fun proper_call :: "ledger_call \<Rightarrow> bool" where
  "proper_call (Provision_for c ip seed cap cd now) = (0 \<le> seed)"
| "proper_call (Settle_with c n) = (0 < n)"
| "proper_call _ = True"

section \<open>One call\<close>

lemma spec_call_nonneg:
  assumes "nonneg_ledger L" "proper_call k"
  shows "nonneg_ledger (snd (spec_call stamp a k L))"
proof (cases k)
  case (Provision_for c ip seed cap cd now)
  obtain r L' where "spec_provision stamp L (a, c) ip seed cap cd now = (r, L')" by fastforce
  with assms Provision_for spec_provision_nonneg[OF assms(1), of seed r L' stamp "(a, c)" ip cap cd now]
  show ?thesis by (simp add: spec_call_def)
next
  case (Debit_from c n)
  obtain b m L' where "spec_debit L (a, c) n = ((b, m), L')" by (cases "spec_debit L (a, c) n") auto
  with assms(1) Debit_from spec_debit_nonneg[of L "(b, m)" L' "(a, c)" n] show ?thesis by (simp add: spec_call_def)
next
  case (Settle_with c n)
  obtain m L' where "spec_settle L (a, c) n = (m, L')" by fastforce
  with assms(1) Settle_with spec_settle_nonneg[of L m L' "(a, c)" n] show ?thesis by (simp add: spec_call_def)
qed (use assms(1) in \<open>auto simp: spec_call_def Let_def spec_refund_nonneg spec_rotate_nonneg\<close>)

context credit_ledger
begin

lemma call_refines:
  assumes "inv s" "ok_app a" "nonneg_ledger (led s)" "proper_call k" "store_call ops a k s = (r, s')"
  shows "inv s' \<and> spec_call stamp a k (led s) = (r, led s')"
proof (cases k)
  case (Provision_for c ip seed cap cd now)
  obtain rp s1 where o: "op_provision ops s a c ip seed cap cd now = (rp, s1)" by fastforce
  from provision_spec[OF assms(1,2) o] obtain r0 where "inv s1" "spec_provision stamp (led s) (a, c) ip seed cap cd now = (r0, led s1)"
    "case (rp, r0) of (Inl e, Inl e0) \<Rightarrow> e = e0 | (Inr p, Inr (x, new)) \<Rightarrow> rec_agrees p x new | _ \<Rightarrow> False"
    by (metis (no_types, lifting))
  with o assms(5) Provision_for show ?thesis
    by (auto simp: store_call_def spec_call_def rec_agrees_def split: sum.splits)
next
  case (Balance_of c)
  with assms(5) credit_spec[OF assms(1,2), of c] assms(1) show ?thesis by (auto simp: store_call_def spec_call_def)
next
  case (Debit_from c n)
  obtain rd s1 where o: "op_debit ops s a c n = (rd, s1)" by fastforce
  from debit_spec[OF assms(1,2) o] obtain b m where "inv s1" "rd = Inr (b, m)" "spec_debit (led s) (a, c) n = ((b, m), led s1)"
    by metis
  with o assms(5) Debit_from show ?thesis by (auto simp: store_call_def spec_call_def)
next
  case (Refund_to c n)
  with assms(5) refund_spec[OF assms(1,2), of c n] show ?thesis by (auto simp: store_call_def spec_call_def)
next
  case (Settle_with c n)
  obtain rs s1 where o: "op_settle ops s a c n = (rs, s1)" by fastforce
  have "0 < n" "0 \<le> bal (led s) (a, c)" using assms(3,4) Settle_with nonneg_bal by simp_all
  from settle_spec[OF assms(1,2) this o] obtain m where "inv s1" "rs = Inr m" "spec_settle (led s) (a, c) n = (m, led s1)" by metis
  with o assms(5) Settle_with show ?thesis by (auto simp: store_call_def spec_call_def)
next
  case (Rotate_key c)
  obtain rr s1 where o: "op_rotate ops s a c = (rr, s1)" by fastforce
  from rotate_spec[OF assms(1,2) o] obtain r0 where "inv s1" "rr = Inr r0" "led s1 = spec_rotate (led s) (a, c)"
    "case (r0, led s1 (a, c)) of (None, None) \<Rightarrow> True
        | (Some p, Some x) \<Rightarrow> pr_credits p = ac_credits x \<and> pr_rot p = ac_rot x | _ \<Rightarrow> False" by blast
  with o assms(5) Rotate_key show ?thesis
    by (auto simp: store_call_def spec_call_def Let_def split: option.splits)
next
  case (Record_of c)
  from get_spec[OF assms(1,2), of c] obtain rg where "op_get ops s a c = Inr rg"
    "case (rg, led s (a, c)) of (None, None) \<Rightarrow> True | (Some p, Some x) \<Rightarrow> rec_agrees p x False \<or> rec_agrees p x True
        | _ \<Rightarrow> False" by blast
  with assms(1,5) Record_of show ?thesis
    by (auto simp: store_call_def spec_call_def rec_agrees_def split: option.splits)
qed

lemma calls_refine:
  "inv s \<Longrightarrow> ok_app a \<Longrightarrow> nonneg_ledger (led s) \<Longrightarrow> list_all proper_call ks \<Longrightarrow>
   call_all (store_call ops a) ks s = (rs, s') \<Longrightarrow> inv s' \<and> call_all (spec_call stamp a) ks (led s) = (rs, led s')"
proof (induction ks arbitrary: s rs)
  case (Cons k ks)
  obtain r s1 where k: "store_call ops a k s = (r, s1)" by fastforce
  obtain rs' where ks: "call_all (store_call ops a) ks s1 = (rs', s')" "rs = r # rs'"
    using Cons.prems(5) k by (auto split: prod.splits)
  have "inv s1" "spec_call stamp a k (led s) = (r, led s1)" using call_refines[OF Cons.prems(1-3) _ k] Cons.prems(4) by simp_all
  moreover have "nonneg_ledger (led s1)"
    using spec_call_nonneg[of "led s" k stamp a] calculation(2) Cons.prems(3,4) by simp
  ultimately show ?case using Cons.IH[OF _ Cons.prems(2) _ _ ks(1)] Cons.prems(4) ks(2) by simp
qed simp

end

section \<open>Both stores\<close>



end
