(* ===== verification/Semver.thy ===== *)
theory Semver
  imports Identity Utf8 "HOL-Library.List_Lexorder" "HOL-Library.Product_Lexorder" "HOL-Library.Char_ord"
begin

text \<open>
  The version comparison of internal/catalogue/verify.go (compareSemver, comparePrerelease,
  numericIdent, get, atoi), against the precedence of semantic versions as a linear order.
\<close>

section \<open>The code\<close>

text \<open>Ranging over a string yields runes; the arithmetic is on 64-bit integers.\<close>

fun atoi_from :: "int \<Rightarrow> nat list \<Rightarrow> int" where
  "atoi_from n [] = n"
| "atoi_from n (u # us) = (if u < 48 \<or> 57 < u then n else atoi_from (wrap64 (n * 10 + (int u - 48))) us)"

definition atoi :: "string \<Rightarrow> int" where
  "atoi s = atoi_from 0 (runes s)"

fun digits_from :: "int \<Rightarrow> nat list \<Rightarrow> int option" where
  "digits_from n [] = Some n"
| "digits_from n (u # us) = (if u < 48 \<or> 57 < u then None else digits_from (wrap64 (n * 10 + (int u - 48))) us)"

definition numeric_ident :: "string \<Rightarrow> int option" where
  "numeric_ident s = (if s = [] then None else digits_from 0 (runes s))"

definition get_part :: "string list \<Rightarrow> nat \<Rightarrow> string" where
  "get_part ps i = (if i < length ps then ps ! i else ''0'')"

definition less_sign :: "bool \<Rightarrow> int" where
  "less_sign lt = (if lt then -1 else 1)"

fun compare_idents :: "string list \<Rightarrow> string list \<Rightarrow> int" where
  "compare_idents [] [] = 0"
| "compare_idents [] (y # ys) = -1"
| "compare_idents (x # xs) [] = 1"
| "compare_idents (x # xs) (y # ys) =
     (case (numeric_ident x, numeric_ident y) of
        (Some m, Some n) \<Rightarrow> if m \<noteq> n then less_sign (m < n) else compare_idents xs ys
      | (Some _, None) \<Rightarrow> -1
      | (None, Some _) \<Rightarrow> 1
      | (None, None) \<Rightarrow> if x \<noteq> y then less_sign (str_le x y) else compare_idents xs ys)"

definition compare_prerelease :: "string \<Rightarrow> string \<Rightarrow> int" where
  "compare_prerelease a b = compare_idents (split_on CHR ''.'' a) (split_on CHR ''.'' b)"

text \<open>The three numbers, one after the other; then what follows the first hyphen.\<close>

fun compare_core :: "nat list \<Rightarrow> string list \<Rightarrow> string list \<Rightarrow> int option" where
  "compare_core [] ap bp = None"
| "compare_core (i # is) ap bp =
     (let av = atoi (get_part ap i); bv = atoi (get_part bp i)
      in if av \<noteq> bv then Some (less_sign (av < bv)) else compare_core is ap bp)"

definition split_hyphen :: "string \<Rightarrow> string \<times> string option" where
  "split_hyphen s = (case cut_at CHR ''-'' s of None \<Rightarrow> (s, None) | Some (a, b) \<Rightarrow> (a, Some b))"

definition compare_semver :: "string \<Rightarrow> string \<Rightarrow> int" where
  "compare_semver a b =
     (case (split_hyphen a, split_hyphen b) of ((a0, aPre), (b0, bPre)) \<Rightarrow>
        (case compare_core [0, 1, 2] (split_on CHR ''.'' a0) (split_on CHR ''.'' b0) of
           Some r \<Rightarrow> r
         | None \<Rightarrow>
             (case (aPre, bPre) of
                (None, None) \<Rightarrow> 0
              | (Some _, None) \<Rightarrow> -1
              | (None, Some _) \<Rightarrow> 1
              | (Some x, Some y) \<Rightarrow> compare_prerelease x y)))"

section \<open>The precedence of versions\<close>

text \<open>An identifier of a prerelease: numbers come before words. A prerelease comes before its
  release, and the shorter of two lists of identifiers comes first.\<close>

datatype ident = Number int | Alpha string

instantiation ident :: linorder
begin

fun less_eq_ident :: "ident \<Rightarrow> ident \<Rightarrow> bool" where
  "less_eq_ident (Number m) (Number n) = (m \<le> n)"
| "less_eq_ident (Number m) (Alpha b) = True"
| "less_eq_ident (Alpha a) (Number n) = False"
| "less_eq_ident (Alpha a) (Alpha b) = (a \<le> b)"

definition less_ident :: "ident \<Rightarrow> ident \<Rightarrow> bool" where
  "less_ident x y \<longleftrightarrow> x \<le> y \<and> \<not> y \<le> x"

instance
proof
  fix x y z :: ident
  show "x < y \<longleftrightarrow> x \<le> y \<and> \<not> y \<le> x" by (rule less_ident_def)
  show "x \<le> x" by (cases x) simp_all
  show "x \<le> y \<Longrightarrow> y \<le> z \<Longrightarrow> x \<le> z" by (cases x; cases y; cases z) simp_all
  show "x \<le> y \<Longrightarrow> y \<le> x \<Longrightarrow> x = y" by (cases x; cases y) simp_all
  show "x \<le> y \<or> y \<le> x" by (cases x; cases y) auto
qed

end

datatype stage = Prerelease "ident list" | Released

instantiation stage :: linorder
begin

fun less_eq_stage :: "stage \<Rightarrow> stage \<Rightarrow> bool" where
  "less_eq_stage (Prerelease xs) (Prerelease ys) = (xs \<le> ys)"
| "less_eq_stage (Prerelease xs) Released = True"
| "less_eq_stage Released (Prerelease ys) = False"
| "less_eq_stage Released Released = True"

definition less_stage :: "stage \<Rightarrow> stage \<Rightarrow> bool" where
  "less_stage x y \<longleftrightarrow> x \<le> y \<and> \<not> y \<le> x"

instance
proof
  fix x y z :: stage
  show "x < y \<longleftrightarrow> x \<le> y \<and> \<not> y \<le> x" by (rule less_stage_def)
  show "x \<le> x" by (cases x) simp_all
  show "x \<le> y \<Longrightarrow> y \<le> z \<Longrightarrow> x \<le> z" by (cases x; cases y; cases z) (auto intro: order_trans)
  show "x \<le> y \<Longrightarrow> y \<le> x \<Longrightarrow> x = y" by (cases x; cases y) simp_all
  show "x \<le> y \<or> y \<le> x" by (cases x; cases y) auto
qed

end

text \<open>A version as its three numbers and its stage, in the order of the pairs; the sign of a
  comparison in a linear order.\<close>

type_synonym version = "(int \<times> int \<times> int) \<times> stage"

definition order_sign :: "'a::linorder \<Rightarrow> 'a \<Rightarrow> int" where
  "order_sign x y = (if x < y then -1 else if x = y then 0 else 1)"

text \<open>What the code reads of a text, and the text of a version.\<close>

definition read_ident :: "string \<Rightarrow> ident" where
  "read_ident s = (case numeric_ident s of Some n \<Rightarrow> Number n | None \<Rightarrow> Alpha s)"

definition read_version :: "string \<Rightarrow> version" where
  "read_version s =
     (case split_hyphen s of (core, pre) \<Rightarrow>
        (let ps = split_on CHR ''.'' core in
         ((atoi (get_part ps 0), atoi (get_part ps 1), atoi (get_part ps 2)),
          case pre of None \<Rightarrow> Released | Some p \<Rightarrow> Prerelease (map read_ident (split_on CHR ''.'' p)))))"

fun ident_text :: "ident \<Rightarrow> string" where
  "ident_text (Number n) = nat_digits (nat n)"
| "ident_text (Alpha w) = w"

fun version_text :: "version \<Rightarrow> string" where
  "version_text ((a, b, c), st) =
     join_on CHR ''.'' (map (\<lambda>n. nat_digits (nat n)) [a, b, c]) @
     (case st of Released \<Rightarrow> [] | Prerelease ids \<Rightarrow> CHR ''-'' # join_on CHR ''.'' (map ident_text ids))"

text \<open>A proper version: numbers that fit, words of ASCII letters, digits and hyphens that are not
  numbers, and at least one identifier in a prerelease.\<close>

definition fits_int64 :: "int \<Rightarrow> bool" where
  "fits_int64 n \<longleftrightarrow> 0 \<le> n \<and> n < 2 ^ 63"

definition word_chr :: "char \<Rightarrow> bool" where
  "word_chr c \<longleftrightarrow> is_digit c \<or> is_lower_chr c \<or> is_upper_chr c \<or> c = CHR ''-''"

fun proper_ident :: "ident \<Rightarrow> bool" where
  "proper_ident (Number n) = fits_int64 n"
| "proper_ident (Alpha w) = (list_all word_chr w \<and> \<not> list_all is_digit w)"

fun proper_version :: "version \<Rightarrow> bool" where
  "proper_version ((a, b, c), st) =
     (fits_int64 a \<and> fits_int64 b \<and> fits_int64 c \<and>
      (case st of Released \<Rightarrow> True | Prerelease ids \<Rightarrow> ids \<noteq> [] \<and> list_all proper_ident ids))"

section \<open>The code compares what it reads\<close>

lemma str_le_iff: "str_le a b \<longleftrightarrow> a \<le> b"
proof (induction a b rule: str_le.induct)
  case (3 x xs y ys)
  then show ?case by (auto simp: Cons_le_Cons byte_def less_char_def)
qed simp_all

lemma order_sign_pair:
  "order_sign (a, b) (c, d) = (if a \<noteq> c then order_sign a c else order_sign b d)"
  by (auto simp: order_sign_def less_prod_def)

lemma order_sign_ident:
  "order_sign (read_ident x) (read_ident y) =
     (case (numeric_ident x, numeric_ident y) of
        (Some m, Some n) \<Rightarrow> order_sign m n | (Some _, None) \<Rightarrow> -1 | (None, Some _) \<Rightarrow> 1 | (None, None) \<Rightarrow> order_sign x y)"
  by (auto simp: order_sign_def read_ident_def less_ident_def split: option.splits)

lemma order_sign_Cons: "order_sign (x # xs) (y # ys) = (if x \<noteq> y then order_sign x y else order_sign xs ys)"
  by (auto simp: order_sign_def)

lemma order_sign_neq: "x \<noteq> y \<Longrightarrow> order_sign x y = less_sign (x < y)"
  by (simp add: order_sign_def less_sign_def)

lemma order_sign_eq_iff: "order_sign x y = 0 \<longleftrightarrow> x = y"
  by (simp add: order_sign_def)

lemma read_ident_simps [simp]:
  "numeric_ident x = Some n \<Longrightarrow> read_ident x = Number n" "numeric_ident x = None \<Longrightarrow> read_ident x = Alpha x"
  by (simp_all add: read_ident_def)

lemma compare_idents_sign: "compare_idents xs ys = order_sign (map read_ident xs) (map read_ident ys)"
proof (induction xs ys rule: compare_idents.induct)
  case (4 x xs y ys)
  show ?case
    using 4 by (cases "numeric_ident x"; cases "numeric_ident y")
      (auto simp: order_sign_Cons order_sign_ident order_sign_neq str_le_iff less_le less_sign_def)
qed (simp_all add: order_sign_def)

lemma order_sign_stage:
  "order_sign (Prerelease xs) (Prerelease ys) = order_sign xs ys" "order_sign (Prerelease xs) Released = -1"
  "order_sign Released (Prerelease ys) = 1" "order_sign Released Released = 0"
  by (auto simp: order_sign_def less_stage_def)

lemma compare_semver_sign: "compare_semver a b = order_sign (read_version a) (read_version b)"
proof -
  obtain a0 ap b0 bp where s: "split_hyphen a = (a0, ap)" "split_hyphen b = (b0, bp)" by fastforce
  show ?thesis
    by (simp add: compare_semver_def read_version_def s Let_def order_sign_pair order_sign_stage
        compare_prerelease_def compare_idents_sign order_sign_neq split: option.splits)
qed

section \<open>Reading a version's text\<close>

lemma digits_no_wrap: "fits_int64 n \<Longrightarrow> wrap64 n = n"
  unfolding wrap64_signed fits_int64_def by (rule signed_take_bit_int_eq_self) simp_all

lemma digit_byte: "is_digit c \<Longrightarrow> 48 \<le> byte c \<and> byte c \<le> 57"
  by (simp add: is_digit_def byte_def)

lemma digits_ascii: "list_all is_digit s \<Longrightarrow> runes s = map byte s"
  by (rule runes_ascii) (auto simp: is_ascii_def list_all_iff is_digit_def byte_def)

lemma dec_value_le: "dec_value acc s = Some n \<Longrightarrow> acc \<le> n"
  by (induction acc s rule: dec_value.induct) (auto split: if_splits)

lemma digits_from_dec:
  "dec_value acc s = Some n \<Longrightarrow> fits_int64 (int n) \<Longrightarrow> digits_from (int acc) (map byte s) = Some (int n)"
proof (induction acc s rule: dec_value.induct)
  case (2 acc c cs)
  have d: "is_digit c" "dec_value (acc * 10 + (byte c - 48)) cs = Some n"
    using 2(2) by (auto simp: byte_def split: if_splits)
  have "acc * 10 + (byte c - 48) \<le> n" using dec_value_le[OF d(2)] .
  then have "fits_int64 (int (acc * 10 + (byte c - 48)))" using 2(3) by (simp add: fits_int64_def)
  then have w: "wrap64 (int acc * 10 + (int (byte c) - 48)) = int (acc * 10 + (byte c - 48))"
    using digits_no_wrap digit_byte[OF d(1)] by (simp add: of_nat_diff algebra_simps)
  have "digits_from (int (acc * 10 + (byte c - 48))) (map byte cs) = Some (int n)"
    using 2(1)[OF d(1) _ 2(3)] d(2) unfolding byte_def by blast
  moreover have "\<not> (byte c < 48 \<or> 57 < byte c)" using digit_byte[OF d(1)] by simp
  ultimately show ?case by (simp only: list.map digits_from.simps w if_False)
qed simp

lemma atoi_from_digits: "digits_from n us = Some m \<Longrightarrow> atoi_from n us = m"
  by (induction n us rule: digits_from.induct) (auto split: if_splits)

lemma runes_digits: "runes (nat_digits n) = map byte (nat_digits n)"
  using nat_digits_digits by (intro digits_ascii) (auto simp: list_all_iff)

lemma read_digits:
  assumes "fits_int64 n"
  shows "numeric_ident (nat_digits (nat n)) = Some n" "atoi (nat_digits (nat n)) = n"
proof -
  have "digits_from 0 (runes (nat_digits (nat n))) = Some n"
    using digits_from_dec[OF dec_value_digits[of "nat n"]] assms by (simp add: runes_digits fits_int64_def)
  then show "numeric_ident (nat_digits (nat n)) = Some n" "atoi (nat_digits (nat n)) = n"
    by (simp_all add: numeric_ident_def atoi_def atoi_from_digits)
qed

lemma word_chr_props: "word_chr c \<Longrightarrow> c \<noteq> CHR ''.''" "word_chr c \<Longrightarrow> byte c < 128"
  by (auto simp: word_chr_def is_digit_def is_lower_chr_def is_upper_chr_def byte_def)

lemma digits_from_digits: "digits_from n (map byte s) = Some m \<Longrightarrow> list_all is_digit s"
  by (induction s arbitrary: n) (auto simp: is_digit_def byte_def split: if_splits)

lemma read_ident_text: "proper_ident i \<Longrightarrow> read_ident (ident_text i) = i"
proof (cases i)
  case (Alpha w)
  assume p: "proper_ident i"
  then have "runes w = map byte w" using Alpha
    by (intro runes_ascii) (auto simp: is_ascii_def list_all_iff word_chr_props)
  then have "numeric_ident w = None"
    using p Alpha digits_from_digits by (cases "numeric_ident w") (auto simp: numeric_ident_def split: if_splits)
  then show ?thesis using Alpha by simp
qed (simp add: read_digits)

lemma ident_text_dot: "proper_ident i \<Longrightarrow> CHR ''.'' \<notin> set (ident_text i)"
proof (cases i)
  case (Number n)
  then show ?thesis using nat_digits_digits[of "CHR ''.''" "nat n"] by (auto simp: is_digit_def)
next
  case (Alpha w)
  assume "proper_ident i"
  then show ?thesis using Alpha word_chr_props(1)[of "CHR ''.''"] by (auto simp: list_all_iff)
qed

lemma digits_chars: "CHR ''.'' \<notin> set (nat_digits n)" "CHR ''-'' \<notin> set (nat_digits n)"
  using nat_digits_digits[of "CHR ''.''" n] nat_digits_digits[of "CHR ''-''" n] by (auto simp: is_digit_def)

lemma read_version_text:
  assumes "proper_version v"
  shows "read_version (version_text v) = v"
proof -
  obtain a b c st where v: "v = ((a, b, c), st)" by (metis prod.exhaust)
  let ?ns = "map (\<lambda>n. nat_digits (nat n)) [a, b, c]"
  have core: "CHR ''-'' \<notin> set (join_on CHR ''.'' ?ns)" "split_on CHR ''.'' (join_on CHR ''.'' ?ns) = ?ns"
    by (simp add: digits_chars, rule split_on_join_on) (auto simp: digits_chars)
  have f: "fits_int64 a" "fits_int64 b" "fits_int64 c" using assms v by simp_all
  show ?thesis
  proof (cases st)
    case Released
    have "cut_at CHR ''-'' (join_on CHR ''.'' ?ns) = None" using core(1) by (simp add: cut_at_None_iff)
    then show ?thesis using Released core(2) f v
      by (simp add: read_version_def split_hyphen_def get_part_def Let_def read_digits)
  next
    case (Prerelease ids)
    have p: "ids \<noteq> []" "\<And>i. i \<in> set ids \<Longrightarrow> proper_ident i" using assms v Prerelease by (auto simp: list_all_iff)
    have "split_on CHR ''.'' (join_on CHR ''.'' (map ident_text ids)) = map ident_text ids"
      using p by (intro split_on_join_on) (auto simp: ident_text_dot)
    moreover have "map (read_ident \<circ> ident_text) ids = ids" using p by (simp add: map_idI read_ident_text)
    ultimately show ?thesis using Prerelease core f v
        cut_at_append[OF core(1), of "join_on CHR ''.'' (map ident_text ids)"]
      by (simp add: read_version_def split_hyphen_def get_part_def Let_def read_digits)
  qed
qed

section \<open>Properties\<close>

lemma semver_values:
  "compare_semver ''1.0.0'' ''1.0.0-rc1'' = 1" "compare_semver ''1.2.0'' ''1.0.0'' = 1"
  by code_simp+

text \<open>Build metadata is not cut off: two builds of one prerelease are ordered by it.\<close>

lemma build_metadata_compared: "compare_semver ''1.0.0-rc.1+b2'' ''1.0.0-rc.1+b1'' = 1"
  by code_simp

text \<open>C24: On the texts of proper versions the comparison is the precedence of semantic
  versions: the three numbers, then a prerelease before its release, then the identifiers one by one,
  numbers before words, and a shorter list first.\<close>

theorem semver_precedence:
  assumes "proper_version v" "proper_version w"
  shows "compare_semver (version_text v) (version_text w) = order_sign v w"
  using assms by (simp add: compare_semver_sign read_version_text)

theorem semver_precedence_witness:
  "compare_semver ''1.2.10-rc.2'' ''1.2.10-rc.11'' = -1 \<and> compare_semver ''1.2.10-rc.11'' ''1.2.10'' = -1"
proof -
  let ?v = "((1, 2, 10), Prerelease [Alpha ''rc'', Number 2]) :: version"
  let ?w = "((1, 2, 10), Prerelease [Alpha ''rc'', Number 11]) :: version"
  let ?r = "((1, 2, 10), Released) :: version"
  have p: "proper_version ?v" "proper_version ?w" "proper_version ?r" by code_simp+
  have t: "version_text ?v = ''1.2.10-rc.2''" "version_text ?w = ''1.2.10-rc.11''" "version_text ?r = ''1.2.10''" by code_simp+
  have "order_sign ?v ?w = -1" "order_sign ?w ?r = -1" by code_simp+
  then show ?thesis using semver_precedence[OF p(1,2)] semver_precedence[OF p(2,3)] unfolding t by simp
qed

text \<open>Observation: On any two texts, proper or not and whatever overflows, the comparison is a total
  preorder: it is antisymmetric in its sign and transitive, so a chain of accepted updates never ends
  below where it started.\<close>

theorem semver_preorder:
  "compare_semver a a = 0 \<and> compare_semver b a = - compare_semver a b \<and>
   (0 \<le> compare_semver b a \<and> 0 \<le> compare_semver c b \<longrightarrow> 0 \<le> compare_semver c a)"
  by (auto simp: compare_semver_sign order_sign_def split: if_splits)

theorem semver_preorder_witness: "0 \<le> compare_semver ''1.2.0'' ''1.0.0-rc1''"
  using semver_preorder[of "''1.0.0-rc1''" "''1.0.0''" "''1.2.0''"] by (force simp: semver_values)

end
