(* ===== verification/Catalogue.thy ===== *)
theory Catalogue
  imports Semver Json_Struct
begin

text \<open>
  The review gate of internal/catalogue/verify.go: reading a bundle within bounds, the checks of one
  catalogue entry and of every platform's bundle, and the comparison of a catalogue with the one it
  replaces. Files, the network, gzip and tar decoding, SHA-256 and the manifest package are
  parameters. A check is its name and its verdict; its message is left out.
\<close>

section \<open>Data\<close>

record variant =
  va_url :: string
  va_sha :: string

record entry =
  en_id :: string
  en_version :: string
  en_description :: string
  en_url :: string
  en_sha :: string
  en_renamed :: string
  en_hidden :: bool
  en_bundles :: "variant gmap"

record catalogue =
  ca_version :: int
  ca_updated :: string
  ca_apps :: "entry list"

record manifest =
  mf_id :: string
  mf_app_version :: string
  mf_binary_sha :: string
  mf_exposes :: "string list"

text \<open>What tar.Reader.Next yields: a regular file with the bytes that can be read of it and whether
  they end without an error, an entry of another type, or an error.\<close>

datatype tar_item = TarFile string string bool | TarOther | TarBad

record gate_env =
  ge_read :: "string \<Rightarrow> string option"
  ge_get :: "string \<Rightarrow> (int \<times> string \<times> bool) option"
  ge_unpack :: "string \<Rightarrow> tar_item list option"
  ge_sha256 :: "string \<Rightarrow> string"
  ge_parse :: "string \<Rightarrow> manifest option"
  ge_valid :: "manifest \<Rightarrow> bool"
  ge_signed :: "manifest \<Rightarrow> bool"

datatype bundle_err =
    BadGzip | BadTar | TooManyFiles | ReadFailed | TooLarge | NoManifest | BadBinaryPath | NoBinary string

type_synonym report = "(string \<times> bool) list"

definition report_ok :: "report \<Rightarrow> bool" where
  "report_ok r \<longleftrightarrow> list_all snd r"

definition is_tombstone :: "entry \<Rightarrow> bool" where
  "is_tombstone e \<longleftrightarrow> en_renamed e \<noteq> [] \<or> (en_hidden e \<and> en_url e = [])"

section \<open>Reading a bundle\<close>

definition max_bundle_entries :: nat where "max_bundle_entries = 64"
definition max_bundle_file_bytes :: nat where "max_bundle_file_bytes = 268435456"
definition max_bundle_total_bytes :: nat where "max_bundle_total_bytes = 536870912"

text \<open>io.ReadAll of an io.LimitReader: at most the limit; an error past the limit is not met.\<close>

definition read_limited :: "nat \<Rightarrow> string \<Rightarrow> bool \<Rightarrow> string option" where
  "read_limited cap d okay = (if cap \<le> length d then Some (take cap d) else if okay then Some d else None)"

text \<open>path.Clean: the components on a stack.\<close>

fun path_comps :: "bool \<Rightarrow> string list \<Rightarrow> string list \<Rightarrow> string list" where
  "path_comps rooted st [] = rev st"
| "path_comps rooted st (c # cs) =
     (if c = [] \<or> c = ''.'' then path_comps rooted st cs
      else if c = ''..'' then
        (case st of
           [] \<Rightarrow> path_comps rooted (if rooted then [] else [c]) cs
         | t # st' \<Rightarrow> path_comps rooted (if t = ''..'' then c # st else st') cs)
      else path_comps rooted (c # st) cs)"

definition clean_path :: "string \<Rightarrow> string" where
  "clean_path p =
     (let rooted = has_prefix ''/'' p; cs = path_comps rooted [] (split_on CHR ''/'' p)
      in if rooted then CHR ''/'' # join_on CHR ''/'' cs
         else if cs = [] then ''.'' else join_on CHR ''/'' cs)"

fun read_entries :: "nat \<Rightarrow> nat \<Rightarrow> string gmap \<Rightarrow> tar_item list \<Rightarrow> bundle_err + string gmap" where
  "read_entries n sz fs [] = Inr fs"
| "read_entries n sz fs (TarBad # ts) = Inl BadTar"
| "read_entries n sz fs (TarOther # ts) = read_entries n sz fs ts"
| "read_entries n sz fs (TarFile name d okay # ts) =
     (if max_bundle_entries < n + 1 then Inl TooManyFiles
      else case read_limited max_bundle_file_bytes d okay of
             None \<Rightarrow> Inl ReadFailed
           | Some b \<Rightarrow>
               if max_bundle_total_bytes < sz + length b then Inl TooLarge
               else read_entries (n + 1) (sz + length b)
                      (AList.update (clean_path (trim_prefix ''./'' name)) b fs) ts)"

text \<open>The field binary.path of a manifest, None for a document the decoder refuses.\<close>

definition binary_path :: "string \<Rightarrow> string option" where
  "binary_path mf =
     (case Option.bind (raw_doc mf) struct_members of
        None \<Rightarrow> None
      | Some m \<Rightarrow> let (b, ok1) = get_struct ''binary'' m; (p, ok2) = get_str ''path'' b
                 in if ok1 \<and> ok2 then Some p else None)"

definition extract_bundle :: "gate_env \<Rightarrow> string \<Rightarrow> bundle_err + string \<times> string" where
  "extract_bundle env raw =
     (case ge_unpack env raw of
        None \<Rightarrow> Inl BadGzip
      | Some items \<Rightarrow>
          (case read_entries 0 0 [] items of
             Inl e \<Rightarrow> Inl e
           | Inr fs \<Rightarrow>
               (case map_of fs ''manifest.json'' of
                  None \<Rightarrow> Inl NoManifest
                | Some mf \<Rightarrow>
                    (case binary_path mf of
                       None \<Rightarrow> Inl BadBinaryPath
                     | Some p \<Rightarrow>
                         (case map_of fs (clean_path p) of None \<Rightarrow> Inl (NoBinary p) | Some b \<Rightarrow> Inr (mf, b))))))"

definition fetch :: "gate_env \<Rightarrow> string \<Rightarrow> string option" where
  "fetch env url =
     (case cut_prefix ''file://'' url of
        Some p \<Rightarrow> ge_read env p
      | None \<Rightarrow>
          (case ge_get env url of
             None \<Rightarrow> None
           | Some (st, d, okay) \<Rightarrow> if st \<noteq> 200 then None else read_limited max_bundle_file_bytes d okay))"

section \<open>The platform of a binary\<close>

definition exec_format :: "string \<Rightarrow> string" where
  "exec_format s =
     (case map byte s of
        b0 # b1 # b2 # b3 # _ \<Rightarrow>
          if b0 = 127 \<and> b1 = 69 \<and> b2 = 76 \<and> b3 = 70 then ''elf''
          else if ((b0 = 207 \<or> b0 = 206) \<and> b1 = 250 \<and> b2 = 237 \<and> b3 = 254)
               \<or> (b0 = 254 \<and> b1 = 237 \<and> b2 = 250 \<and> (b3 = 206 \<or> b3 = 207))
               \<or> (b0 = 202 \<and> b1 = 254 \<and> b2 = 186 \<and> b3 = 190)
               \<or> (b0 = 190 \<and> b1 = 186 \<and> b2 = 254 \<and> b3 = 202) then ''macho''
          else if b0 = 77 \<and> b1 = 90 then ''pe''
          else if b0 = 35 \<and> b1 = 33 then ''script''
          else ''unknown''
      | _ \<Rightarrow> ''unknown'')"

definition format_for_os :: "string \<Rightarrow> string" where
  "format_for_os os =
     (if os = ''linux'' then ''elf'' else if os = ''darwin'' then ''macho'' else if os = ''windows'' then ''pe'' else [])"

definition check_platform_binary :: "string \<Rightarrow> string \<Rightarrow> report" where
  "check_platform_binary plat bin =
     (case cut_at CHR ''/'' plat of
        None \<Rightarrow> []
      | Some (os, _) \<Rightarrow>
          (let want = format_for_os os; got = exec_format bin
           in if want = [] then []
              else if got = ''script'' then [(''binary matches '' @ plat, False)]
              else [(''binary matches '' @ plat, got = want)]))"

definition has_suffix :: "string \<Rightarrow> string \<Rightarrow> bool" where
  "has_suffix q s \<longleftrightarrow> length q \<le> length s \<and> drop (length s - length q) s = q"

definition has_help :: "string list \<Rightarrow> bool" where
  "has_help xs \<longleftrightarrow> list_ex (has_suffix ''.help'') xs"

section \<open>The checks of an entry\<close>

definition sha_hex :: "gate_env \<Rightarrow> string \<Rightarrow> string" where
  "sha_hex env d = hex_encode (ge_sha256 env d)"

definition verify_variant :: "gate_env \<Rightarrow> entry \<Rightarrow> string \<Rightarrow> variant \<Rightarrow> report" where
  "verify_variant env e plat v =
     (if va_url v = [] then [(''bundle for '' @ plat, False)]
      else case fetch env (va_url v) of
        None \<Rightarrow> [(''bundle for '' @ plat @ '' resolves'', False)]
      | Some raw \<Rightarrow> (''bundle for '' @ plat @ '' resolves'', True) #
          (if \<not> equal_fold (sha_hex env raw) (va_sha v) then [(''bundle_sha256 for '' @ plat, False)]
           else (''bundle_sha256 for '' @ plat, True) #
             (case extract_bundle env raw of
                Inl _ \<Rightarrow> [(''bundle for '' @ plat @ '' contains manifest.json + bin/<binary>'', False)]
              | Inr (mf, bin) \<Rightarrow> (''bundle for '' @ plat @ '' contains manifest.json + bin/<binary>'', True) #
                  (case ge_parse env mf of
                     None \<Rightarrow> [(''manifest parses for '' @ plat, False)]
                   | Some m \<Rightarrow>
                       [(''manifest parses for '' @ plat, True),
                        (''binary.sha256 pin for '' @ plat, equal_fold (sha_hex env bin) (mf_binary_sha m)),
                        (''signature verifies for '' @ plat, ge_signed env m),
                        (''id/version match for '' @ plat, en_id e = mf_id m \<and> en_version e = mf_app_version m)]
                       @ check_platform_binary plat bin))))"

text \<open>The platforms in sorted order.\<close>

definition verify_variants :: "gate_env \<Rightarrow> entry \<Rightarrow> report" where
  "verify_variants env e =
     concat (map (\<lambda>plat. case map_of (en_bundles e) plat of None \<Rightarrow> [] | Some v \<Rightarrow> verify_variant env e plat v)
       (sort (map fst (en_bundles e))))"

definition verify_entry :: "gate_env \<Rightarrow> entry \<Rightarrow> entry option \<Rightarrow> bool \<Rightarrow> report" where
  "verify_entry env e prev in_catalogue =
     (if is_tombstone e then [(''tombstone entry'', True)]
      else case fetch env (en_url e) of
        None \<Rightarrow> [(''bundle_url resolves'', False)]
      | Some raw \<Rightarrow>
          (''bundle_url resolves'', True) #
          (''bundle_sha256 matches'', equal_fold (sha_hex env raw) (en_sha e)) #
          (case extract_bundle env raw of
             Inl _ \<Rightarrow> [(''bundle contains manifest.json + bin/<binary>'', False)]
           | Inr (mf, bin) \<Rightarrow> (''bundle contains manifest.json + bin/<binary>'', True) #
               (case ge_parse env mf of
                  None \<Rightarrow> [(''manifest parses'', False)]
                | Some m \<Rightarrow>
                    [(''manifest parses'', True),
                     (''binary.sha256 pin matches binary'', equal_fold (sha_hex env bin) (mf_binary_sha m)),
                     (''manifest Validate()'', ge_valid env m),
                     (''signature verifies'', ge_signed env m),
                     (''exposes a <ns>.help method'', has_help (mf_exposes m))]
                    @ (if en_bundles e \<noteq> [] then verify_variants env e
                       else if in_catalogue then [(''declares per-platform bundles'', False)] else [])
                    @ [(''catalogue.id == manifest.id'', en_id e = mf_id m),
                       (''catalogue.version == manifest.app_version'', en_version e = mf_app_version m)]
                    @ (case prev of
                         None \<Rightarrow> []
                       | Some p \<Rightarrow> [(''not a version downgrade'', 0 \<le> compare_semver (en_version e) (en_version p))]))))"

section \<open>Catalogues and local bundles\<close>

definition decode_variant :: "json \<Rightarrow> variant \<times> bool" where
  "decode_variant v =
     (case struct_members v of
        None \<Rightarrow> (\<lparr>va_url = [], va_sha = []\<rparr>, False)
      | Some m \<Rightarrow> let (u, ok1) = get_str ''bundle_url'' m; (s, ok2) = get_str ''bundle_sha256'' m
                 in (\<lparr>va_url = u, va_sha = s\<rparr>, ok1 \<and> ok2))"

definition decode_entry :: "json \<Rightarrow> entry \<times> bool" where
  "decode_entry v =
     (let (m, ok0) = (case struct_members v of None \<Rightarrow> ([], False) | Some m \<Rightarrow> (m, True));
          (i, ok1) = get_str ''id'' m; (ver, ok2) = get_str ''version'' m; (d, ok3) = get_str ''description'' m;
          (u, ok4) = get_str ''bundle_url'' m; (s, ok5) = get_str ''bundle_sha256'' m;
          (rn, ok6) = get_str ''renamed_to'' m; (h, ok7) = get_bool ''hidden'' m;
          (bs, ok8) = get_map ''bundles'' decode_variant m
      in (\<lparr>en_id = i, en_version = ver, en_description = d, en_url = u, en_sha = s, en_renamed = rn,
           en_hidden = h, en_bundles = bs\<rparr>,
          ok0 \<and> ok1 \<and> ok2 \<and> ok3 \<and> ok4 \<and> ok5 \<and> ok6 \<and> ok7 \<and> ok8))"

definition load_catalogue :: "gate_env \<Rightarrow> string \<Rightarrow> catalogue option" where
  "load_catalogue env p =
     (case Option.bind (Option.bind (ge_read env p) raw_doc) struct_members of
        None \<Rightarrow> None
      | Some m \<Rightarrow> let (n, ok1) = get_int ''version'' m; (u, ok2) = get_str ''updated_at'' m;
                     (es, ok3) = get_list ''apps'' decode_entry m
                 in if ok1 \<and> ok2 \<and> ok3 then Some \<lparr>ca_version = n, ca_updated = u, ca_apps = es\<rparr> else None)"

text \<open>The entries of the replaced catalogue by id, the last of an id winning.\<close>

definition entries_by_id :: "entry list \<Rightarrow> entry gmap" where
  "entries_by_id es = fold (\<lambda>e m. AList.update (en_id e) e m) es []"

definition verify_catalogue :: "gate_env \<Rightarrow> string \<Rightarrow> string \<Rightarrow> (string \<times> report) list option" where
  "verify_catalogue env new_path old_path =
     (case load_catalogue env new_path of
        None \<Rightarrow> None
      | Some c \<Rightarrow>
          (let prev = (if old_path = [] then []
                       else case load_catalogue env old_path of None \<Rightarrow> [] | Some o0 \<Rightarrow> entries_by_id (ca_apps o0))
           in Some (map (\<lambda>e. (en_id e, verify_entry env e (map_of prev (en_id e)) True)) (ca_apps c))))"

record bundle_facts =
  fa_id :: string
  fa_version :: string
  fa_description :: string
  fa_publisher :: string
  fa_sha256 :: string
  fa_bundle_bytes :: nat
  fa_installed_bytes :: nat

text \<open>Id, version and description of a manifest, and its store.publisher.\<close>

definition manifest_head :: "string \<Rightarrow> (string \<times> string \<times> string) option" where
  "manifest_head mf =
     (case Option.bind (raw_doc mf) struct_members of
        None \<Rightarrow> None
      | Some m \<Rightarrow> let (i, ok1) = get_str ''id'' m; (v, ok2) = get_str ''app_version'' m;
                     (d, ok3) = get_str ''description'' m
                 in if ok1 \<and> ok2 \<and> ok3 then Some (i, v, d) else None)"

definition manifest_publisher :: "string \<Rightarrow> string option" where
  "manifest_publisher mf =
     (case Option.bind (raw_doc mf) struct_members of
        None \<Rightarrow> None
      | Some m \<Rightarrow> let (s, ok1) = get_struct ''store'' m; (p, ok2) = get_str ''publisher'' s
                 in if ok1 \<and> ok2 then Some p else None)"

definition trim_slash :: "string \<Rightarrow> string" where
  "trim_slash s = (if has_suffix ''/'' s then butlast s else s)"

definition entry_for_bundle :: "gate_env \<Rightarrow> string \<Rightarrow> string \<Rightarrow> entry option" where
  "entry_for_bundle env cwd p =
     (case ge_read env p of
        None \<Rightarrow> None
      | Some raw \<Rightarrow>
          (case extract_bundle env raw of
             Inl _ \<Rightarrow> None
           | Inr (mf, _) \<Rightarrow>
               (case manifest_head mf of
                  None \<Rightarrow> None
                | Some (i, v, d) \<Rightarrow>
                    (let dir = (if has_prefix ''/'' p then [] else cwd);
                         url = (if dir = [] then ''file://'' @ p else ''file://'' @ trim_slash dir @ ''/'' @ p)
                     in Some \<lparr>en_id = i, en_version = v, en_description = d, en_url = url, en_sha = sha_hex env raw,
                             en_renamed = [], en_hidden = False, en_bundles = []\<rparr>))))"

definition read_bundle_facts :: "gate_env \<Rightarrow> string \<Rightarrow> bundle_facts option" where
  "read_bundle_facts env p =
     (case ge_read env p of
        None \<Rightarrow> None
      | Some raw \<Rightarrow>
          (case extract_bundle env raw of
             Inl _ \<Rightarrow> None
           | Inr (mf, bin) \<Rightarrow>
               (case (manifest_head mf, manifest_publisher mf) of
                  (Some (i, v, d), Some pub) \<Rightarrow>
                    Some \<lparr>fa_id = i, fa_version = v, fa_description = d, fa_publisher = pub,
                          fa_sha256 = sha_hex env raw, fa_bundle_bytes = length raw, fa_installed_bytes = length bin\<rparr>
                | _ \<Rightarrow> None)))"

section \<open>Bounded reading\<close>

text \<open>The regular files of an archive, and what remains of them once each is cut at the limit.\<close>

fun regular :: "tar_item list \<Rightarrow> (string \<times> string \<times> bool) list" where
  "regular [] = []"
| "regular (TarFile n d okay # ts) = (n, d, okay) # regular ts"
| "regular (_ # ts) = regular ts"

definition kept :: "string \<times> string \<times> bool \<Rightarrow> string" where
  "kept x = take max_bundle_file_bytes (fst (snd x))"

definition readable :: "string \<times> string \<times> bool \<Rightarrow> bool" where
  "readable x \<longleftrightarrow> max_bundle_file_bytes \<le> length (fst (snd x)) \<or> snd (snd x)"

definition put_file :: "string \<times> string \<times> bool \<Rightarrow> string gmap \<Rightarrow> string gmap" where
  "put_file x fs = AList.update (clean_path (trim_prefix ''./'' (fst x))) (kept x) fs"

lemma read_limited_kept:
  "read_limited max_bundle_file_bytes d okay = (if readable (n, d, okay) then Some (kept (n, d, okay)) else None)"
  by (simp add: read_limited_def readable_def kept_def)

lemma read_entries_iff:
  "n \<le> max_bundle_entries \<Longrightarrow> sz \<le> max_bundle_total_bytes \<Longrightarrow>
   read_entries n sz fs items = Inr gs \<longleftrightarrow>
     TarBad \<notin> set items \<and> n + length (regular items) \<le> max_bundle_entries \<and> list_all readable (regular items) \<and>
     sz + sum_list (map (length \<circ> kept) (regular items)) \<le> max_bundle_total_bytes \<and>
     gs = fold put_file (regular items) fs"
proof (induction n sz fs items rule: read_entries.induct)
  case (4 n sz fs name d okay ts)
  let ?x = "(name, d, okay)"
  show ?case
  proof (cases "max_bundle_entries < n + 1 \<or> \<not> readable ?x \<or> max_bundle_total_bytes < sz + length (kept ?x)")
    case True
    then show ?thesis by (auto simp: read_limited_kept[where n = name])
  next
    case False
    then have "n + 1 \<le> max_bundle_entries" "read_limited max_bundle_file_bytes d okay = Some (kept ?x)"
      "sz + length (kept ?x) \<le> max_bundle_total_bytes" by (simp_all add: read_limited_kept[where n = name])
    with 4 False show ?thesis by (simp add: put_file_def add.assoc)
  qed
qed auto

section \<open>What a passing entry is\<close>

lemma report_ok_simps [simp]:
  "report_ok []" "report_ok ((nm, b) # r) \<longleftrightarrow> b \<and> report_ok r" "report_ok (r @ r') \<longleftrightarrow> report_ok r \<and> report_ok r'"
  by (simp_all add: report_ok_def)

lemma report_ok_concat: "report_ok (concat rs) \<longleftrightarrow> (\<forall>r \<in> set rs. report_ok r)"
  by (induction rs) auto

definition runs_on :: "string \<Rightarrow> string \<Rightarrow> bool" where
  "runs_on plat bin \<longleftrightarrow>
     (\<forall>os arch. cut_at CHR ''/'' plat = Some (os, arch) \<longrightarrow> format_for_os os \<noteq> [] \<longrightarrow> exec_format bin = format_for_os os)"

definition variant_sound :: "gate_env \<Rightarrow> entry \<Rightarrow> string \<Rightarrow> variant \<Rightarrow> bool" where
  "variant_sound env e plat v \<longleftrightarrow> va_url v \<noteq> [] \<and>
     (\<exists>raw mf bin m. fetch env (va_url v) = Some raw \<and> equal_fold (sha_hex env raw) (va_sha v) \<and>
        extract_bundle env raw = Inr (mf, bin) \<and> ge_parse env mf = Some m \<and>
        equal_fold (sha_hex env bin) (mf_binary_sha m) \<and> ge_signed env m \<and>
        en_id e = mf_id m \<and> en_version e = mf_app_version m \<and> runs_on plat bin)"

lemma format_values: "format_for_os os \<noteq> ''script''"
  by (simp add: format_for_os_def)

lemma platform_ok: "report_ok (check_platform_binary plat bin) \<longleftrightarrow> runs_on plat bin"
  using format_values[THEN not_sym]
  by (auto simp: check_platform_binary_def runs_on_def Let_def split: option.splits)

lemma variant_ok: "report_ok (verify_variant env e plat v) \<longleftrightarrow> variant_sound env e plat v"
  by (auto simp: verify_variant_def variant_sound_def platform_ok split: option.splits sum.splits)

lemma variants_ok:
  "report_ok (verify_variants env e) \<longleftrightarrow> (\<forall>plat v. map_of (en_bundles e) plat = Some v \<longrightarrow> variant_sound env e plat v)"
  by (auto simp: verify_variants_def report_ok_concat variant_ok split: option.splits dest: map_of_SomeD)
     (metis fst_conv image_eqI map_of_SomeD variant_ok option.simps(5))

lemma prev_ok:
  "report_ok (case prev of None \<Rightarrow> [] | Some p \<Rightarrow> [(nm, f p)]) \<longleftrightarrow> (\<forall>p. prev = Some p \<longrightarrow> f p)"
  by (cases prev) simp_all

text \<open>Observation: an entry that only redirects passes with nothing checked, so its version is not compared either, and
  with an unreadable old catalogue no version is compared.\<close>

lemma tombstone_passes: "is_tombstone e \<Longrightarrow> report_ok (verify_entry env e prev in_cat)"
  by (simp add: verify_entry_def)

lemma unreadable_old_catalogue:
  "load_catalogue env old = None \<Longrightarrow> verify_catalogue env new old = verify_catalogue env new []"
  by (simp add: verify_catalogue_def split: option.splits)

section \<open>Replacing catalogues\<close>

definition listed :: "gate_env \<Rightarrow> string \<Rightarrow> string \<Rightarrow> entry option" where
  "listed env i p = Option.bind (load_catalogue env p) (\<lambda>c. map_of (entries_by_id (ca_apps c)) i)"

definition accepted :: "gate_env \<Rightarrow> string \<Rightarrow> string \<Rightarrow> bool" where
  "accepted env new_path old_path =
     (case verify_catalogue env new_path old_path of None \<Rightarrow> False | Some rs \<Rightarrow> list_all (report_ok \<circ> snd) rs)"

text \<open>The id is in the catalogue and its entry is an installable app.\<close>

definition live :: "gate_env \<Rightarrow> string \<Rightarrow> string \<Rightarrow> bool" where
  "live env i p \<longleftrightarrow> p \<noteq> [] \<and> (case listed env i p of None \<Rightarrow> False | Some e \<Rightarrow> \<not> is_tombstone e)"

definition live_version :: "gate_env \<Rightarrow> string \<Rightarrow> string \<Rightarrow> string" where
  "live_version env i p = (case listed env i p of None \<Rightarrow> [] | Some e \<Rightarrow> en_version e)"

lemma entries_by_id_in:
  "map_of (fold (\<lambda>e m. AList.update (en_id e) e m) es m) i = Some e \<Longrightarrow>
   (e \<in> set es \<and> en_id e = i) \<or> map_of m i = Some e"
  by (induction es arbitrary: m) (fastforce split: if_splits)+

lemma listedE:
  assumes "listed env i p = Some e"
  obtains c where "load_catalogue env p = Some c" "map_of (entries_by_id (ca_apps c)) i = Some e" "e \<in> set (ca_apps c)" "en_id e = i"
  using assms entries_by_id_in[of _ "[]" i e]
  by (auto simp: listed_def entries_by_id_def bind_eq_Some_conv)

lemma read_only_file: "load_catalogue (env\<lparr>ge_get := net\<rparr>) p = load_catalogue env p"
  by (simp add: load_catalogue_def)

text \<open>The network of a check does not matter to what a catalogue lists.\<close>

lemma listed_net [simp]: "listed (env\<lparr>ge_get := net\<rparr>) i p = listed env i p"
  by (simp add: listed_def read_only_file)

lemma entry_not_downgraded:
  assumes "\<not> is_tombstone e" "report_ok (verify_entry env e (Some p) in_cat)"
  shows "0 \<le> compare_semver (en_version e) (en_version p)"
  using assms by (auto simp: verify_entry_def prev_ok split: option.splits sum.splits)

lemma accepted_step:
  assumes "accepted env new_path old_path" "live env i old_path" "live env i new_path"
  shows "0 \<le> compare_semver (live_version env i new_path) (live_version env i old_path)"
proof -
  obtain e o0 where e: "listed env i new_path = Some e" "\<not> is_tombstone e" and o0: "listed env i old_path = Some o0" "old_path \<noteq> []"
    using assms(2,3) by (auto simp: live_def split: option.splits)
  obtain c c0 where c: "load_catalogue env new_path = Some c" "e \<in> set (ca_apps c)" "en_id e = i"
    and c0: "load_catalogue env old_path = Some c0" "map_of (entries_by_id (ca_apps c0)) i = Some o0"
    using listedE[OF e(1)] listedE[OF o0(1)] by metis
  have "report_ok (verify_entry env e (Some o0) True)"
    using assms(1) c c0 o0(2) by (auto simp: accepted_def verify_catalogue_def list_all_iff)
  then show ?thesis using entry_not_downgraded[OF e(2)] e(1) o0(1) by (simp add: live_version_def)
qed

section \<open>Properties\<close>


text \<open>Observation: Reading an archive succeeds exactly when it decodes, has at most 64 regular files, each is
  readable up to 256 MiB, and what is kept of them is at most 512 MiB; the result holds each file
  under its cleaned name, the last of a name winning and each cut at 256 MiB without a word.\<close>

theorem bundle_read_exact:
  "read_entries 0 0 [] items = Inr fs \<longleftrightarrow>
     TarBad \<notin> set items \<and> length (regular items) \<le> max_bundle_entries \<and> list_all readable (regular items) \<and>
     sum_list (map (length \<circ> kept) (regular items)) \<le> max_bundle_total_bytes \<and>
     fs = fold put_file (regular items) []"
  by (simp add: read_entries_iff)


section \<open>Witnesses\<close>

definition sample_binary :: string where
  "sample_binary = [char_of (127::nat), CHR ''E'', CHR ''L'', CHR ''F'', CHR ''x'']"

text \<open>A sample digest: the first two bytes.\<close>

definition sample_gate_env :: gate_env where
  "sample_gate_env =
     \<lparr>ge_read = map_of
        [(''b'', ''raw''),
         (''one'', ''{\"version\":2,\"apps\":[{\"id\":\"io.p.x\",\"version\":\"1.0.0-rc1\",\"bundle_url\":\"file://b\"}]}''),
         (''two'', ''{\"version\":2,\"apps\":[{\"id\":\"io.p.x\",\"version\":\"1.0.0\",\"bundle_url\":\"file://b\",\"bundle_sha256\":\"7261\",\"bundles\":{\"linux/amd64\":{\"bundle_url\":\"file://b\",\"bundle_sha256\":\"7261\"}}}]}'')],
      ge_get = (\<lambda>_. None),
      ge_unpack = (\<lambda>_. Some [TarFile ''./manifest.json'' ''{\"binary\":{\"path\":\"bin/x\"}}'' True, TarOther, TarFile ''bin/x'' sample_binary True]),
      ge_sha256 = take 2,
      ge_parse = (\<lambda>_. Some \<lparr>mf_id = ''io.p.x'', mf_app_version = ''1.0.0'', mf_binary_sha = ''7f45'', mf_exposes = [''x.help'']\<rparr>),
      ge_valid = (\<lambda>_. True), ge_signed = (\<lambda>_. True)\<rparr>"

definition sample_entry :: entry where
  "sample_entry = \<lparr>en_id = ''io.p.x'', en_version = ''1.0.0'', en_description = [], en_url = ''file://b'', en_sha = ''7261'',
     en_renamed = [], en_hidden = False, en_bundles = [(''linux/amd64'', \<lparr>va_url = ''file://b'', va_sha = ''7261''\<rparr>)]\<rparr>"

lemma sample_parts:
  "binary_path ''{\"binary\":{\"path\":\"bin/x\"}}'' = Some ''bin/x''"
  "clean_path (trim_prefix ''./'' ''./manifest.json'') = ''manifest.json''" "clean_path ''bin/x'' = ''bin/x''"
  "trim_prefix ''./'' ''bin/x'' = ''bin/x''"
  by code_simp+

lemma sample_unpacked: "extract_bundle sample_gate_env raw = Inr (''{\"binary\":{\"path\":\"bin/x\"}}'', sample_binary)"
proof -
  let ?items = "[TarFile ''./manifest.json'' ''{\"binary\":{\"path\":\"bin/x\"}}'' True, TarOther, TarFile ''bin/x'' sample_binary True]"
  have "read_entries 0 0 [] ?items = Inr [(''manifest.json'', ''{\"binary\":{\"path\":\"bin/x\"}}''), (''bin/x'', sample_binary)]"
    by (subst read_entries_iff)
      (simp_all add: put_file_def kept_def readable_def sample_parts max_bundle_file_bytes_def max_bundle_entries_def
        max_bundle_total_bytes_def sample_binary_def)
  then show ?thesis by (simp add: extract_bundle_def sample_gate_env_def sample_parts)
qed

lemma sample_fetched: "fetch sample_gate_env ''file://b'' = Some ''raw''"
  by code_simp

lemma sample_digests:
  "equal_fold (sha_hex sample_gate_env ''raw'') ''7261''" "equal_fold (sha_hex sample_gate_env sample_binary) ''7f45''"
  "runs_on ''linux/amd64'' sample_binary" "has_help [''x.help'']" "\<not> is_tombstone sample_entry"
proof -
  have "report_ok (check_platform_binary ''linux/amd64'' sample_binary)" by code_simp
  then show "runs_on ''linux/amd64'' sample_binary" by (simp add: platform_ok)
qed code_simp+

lemma sample_variant: "variant_sound sample_gate_env sample_entry ''linux/amd64'' \<lparr>va_url = ''file://b'', va_sha = ''7261''\<rparr>"
    using sample_digests by (simp add: variant_sound_def sample_fetched sample_unpacked) (simp add: sample_gate_env_def sample_entry_def)


lemma sample_accepted:
  "report_ok (verify_entry sample_gate_env sample_entry (Some p) True) \<longleftrightarrow> 0 \<le> compare_semver ''1.0.0'' (en_version p)"
proof -
  have "en_url sample_entry = ''file://b''" "en_sha sample_entry = ''7261''" "en_version sample_entry = ''1.0.0''" "en_id sample_entry = ''io.p.x''"
    "report_ok (verify_variants sample_gate_env sample_entry)" "en_bundles sample_entry \<noteq> []"
    using sample_variant unfolding variants_ok by (auto simp: sample_entry_def)
  then show ?thesis
    using sample_digests
    by (simp add: verify_entry_def sample_fetched sample_unpacked) (simp add: sample_gate_env_def)
qed

lemma sample_catalogues:
  "load_catalogue sample_gate_env ''two'' = Some \<lparr>ca_version = 2, ca_updated = [], ca_apps = [sample_entry]\<rparr>"
  "load_catalogue sample_gate_env ''one'' = Some \<lparr>ca_version = 2, ca_updated = [],
     ca_apps = [sample_entry\<lparr>en_version := ''1.0.0-rc1'', en_sha := [], en_bundles := []\<rparr>]\<rparr>"
  by code_simp+


end
