(* ===== verification/Go_Url.thy ===== *)
theory Go_Url
  imports Http
begin

text \<open>
  What the generator and the publisher use of net/url (Parse, Hostname), of time.ParseDuration (only
  whether it fails), of net.ParseIP on loopback addresses, and the regular expressions of their validation
  as recognisers.
\<close>

section \<open>net/url\<close>

record url =
  ur_scheme :: string
  ur_host :: string

datatype escape_mode = PathMode | HostMode | ZoneMode | UserMode

definition is_alnum :: "char \<Rightarrow> bool" where
  "is_alnum c \<longleftrightarrow> is_digit c \<or> is_lower_chr c \<or> is_upper_chr c"

text \<open>shouldEscape in a host: the bytes that may not stand there as they are.\<close>

definition host_escapes :: "char \<Rightarrow> bool" where
  "host_escapes c \<longleftrightarrow> \<not> is_alnum c \<and> c \<notin> set ''!$&()*+,;=:[]<>\"'' \<and> c \<noteq> CHR 0x27 \<and> c \<notin> set ''-_.~''"

text \<open>unescape: a percent sign takes two hexadecimal digits; a host may escape only bytes past ASCII, a zone only what
  may stand in a host, a space or a percent sign.\<close>

fun unescape :: "escape_mode \<Rightarrow> string \<Rightarrow> string option" where
  "unescape m [] = Some []"
| "unescape m (c # s) =
     (if c = CHR ''%'' then
        (case s of
           h # l # r \<Rightarrow>
             (case (hex_val h, hex_val l) of
                (Some a, Some b) \<Rightarrow>
                  (let v = char_of (16 * a + b); pct = (h = CHR ''2'' \<and> l = CHR ''5'') in
                   if m = HostMode \<and> a < 8 \<and> \<not> pct then None
                   else if m = ZoneMode \<and> \<not> pct \<and> v \<noteq> CHR '' '' \<and> host_escapes v then None
                   else map_option ((#) v) (unescape m r))
              | _ \<Rightarrow> None)
         | _ \<Rightarrow> None)
      else if (m = HostMode \<or> m = ZoneMode) \<and> byte c < 128 \<and> host_escapes c then None
      else map_option ((#) c) (unescape m s))"

fun scheme_from :: "nat \<Rightarrow> string \<Rightarrow> string \<Rightarrow> string \<Rightarrow> (string \<times> string) option" where
  "scheme_from i acc whole [] = Some ([], whole)"
| "scheme_from i acc whole (c # s) =
     (if is_lower_chr c \<or> is_upper_chr c then scheme_from (i + 1) (acc @ [c]) whole s
      else if is_digit c \<or> c \<in> set ''+-.'' then
        (if i = 0 then Some ([], whole) else scheme_from (i + 1) (acc @ [c]) whole s)
      else if c = CHR '':'' then (if i = 0 then None else Some (acc, s))
      else Some ([], whole))"

definition get_scheme :: "string \<Rightarrow> (string \<times> string) option" where
  "get_scheme s = scheme_from 0 [] s s"

definition valid_optional_port :: "string \<Rightarrow> bool" where
  "valid_optional_port p \<longleftrightarrow> (case p of [] \<Rightarrow> True | c # ds \<Rightarrow> c = CHR '':'' \<and> list_all is_digit ds)"

text \<open>The first ''%25'' of a text.\<close>

fun zone_index :: "string \<Rightarrow> nat option" where
  "zone_index [] = None"
| "zone_index (c # s) = (if has_prefix ''%25'' (c # s) then Some 0 else map_option Suc (zone_index s))"

text \<open>net/netip.ParseAddr on IPv6: fields of one to four hexadecimal digits, an IPv4 address in the place of the last two, one
  pair of colons for at least one field, a zone that is not empty.\<close>

definition dec_octet :: "string \<Rightarrow> bool" where
  "dec_octet s \<longleftrightarrow> (case dec_nat s of Some n \<Rightarrow> n < 256 \<and> s = nat_digits n | None \<Rightarrow> False)"

definition is_ipv4 :: "string \<Rightarrow> bool" where
  "is_ipv4 s \<longleftrightarrow> (let ps = split_on CHR ''.'' s in length ps = 4 \<and> list_all dec_octet ps)"

definition ipv6_field :: "string \<Rightarrow> bool" where
  "ipv6_field s \<longleftrightarrow> 0 < length s \<and> length s \<le> 4 \<and> list_all (\<lambda>c. hex_val c \<noteq> None) s"

definition ipv6_fields :: "bool \<Rightarrow> string \<Rightarrow> nat option" where
  "ipv6_fields v4 s =
     (if s = [] then Some 0
      else let ps = split_on CHR '':'' s in
        if \<not> list_all ipv6_field (butlast ps) then None
        else if ipv6_field (last ps) then Some (length ps)
        else if v4 \<and> is_ipv4 (last ps) then Some (length ps + 1) else None)"

fun cut_colons :: "string \<Rightarrow> (string \<times> string) option" where
  "cut_colons [] = None"
| "cut_colons (c # s) =
     (if has_prefix ''::'' (c # s) then Some ([], tl s) else map_option (\<lambda>(a, b). (c # a, b)) (cut_colons s))"

definition is_ipv6 :: "string \<Rightarrow> bool" where
  "is_ipv6 s \<longleftrightarrow>
     (let (a, zone) = (case cut_at CHR ''%'' s of None \<Rightarrow> (s, None) | Some (a, z) \<Rightarrow> (a, Some z))
      in contains_chr CHR '':'' a \<and> zone \<noteq> Some [] \<and>
         (case cut_colons a of
            None \<Rightarrow> ipv6_fields True a = Some 8
          | Some (l, r) \<Rightarrow>
              (case (ipv6_fields False l, ipv6_fields True r) of (Some m, Some n) \<Rightarrow> m + n \<le> 7 | _ \<Rightarrow> False)))"

definition unescape_zoned :: "string \<Rightarrow> string option" where
  "unescape_zoned h =
     (case zone_index h of
        None \<Rightarrow> unescape HostMode h
      | Some z \<Rightarrow>
          (case (unescape HostMode (take z h), unescape ZoneMode (drop z h)) of
             (Some a, Some b) \<Rightarrow> Some (a @ b)
           | _ \<Rightarrow> None))"

text \<open>parseHost of Go 1.25: an address in brackets stands at the start and is an IPv6 address.\<close>

definition parse_host :: "string \<Rightarrow> string option" where
  "parse_host h =
     (case last_index_of CHR ''['' h of
        Some i \<Rightarrow>
          if i \<noteq> 0 then None
          else (case last_index_of CHR '']'' h of
                  None \<Rightarrow> None
                | Some j \<Rightarrow>
                    if \<not> valid_optional_port (drop (j + 1) h) then None
                    else (case unescape_zoned (drop 1 (take j h)) of
                            None \<Rightarrow> None
                          | Some a \<Rightarrow> if is_ipv6 a then Some (CHR ''['' # a @ CHR '']'' # drop (j + 1) h) else None))
      | None \<Rightarrow>
          (case last_index_of CHR '':'' h of
             Some i \<Rightarrow> if \<not> valid_optional_port (drop i h) then None else unescape HostMode h
           | None \<Rightarrow> unescape HostMode h))"

definition valid_userinfo :: "string \<Rightarrow> bool" where
  "valid_userinfo s \<longleftrightarrow> list_all (\<lambda>c. is_alnum c \<or> c \<in> set ''-._:~!$&()*+,;=%@'' \<or> c = CHR 0x27) s"

definition parse_authority :: "string \<Rightarrow> string option" where
  "parse_authority a =
     (case last_index_of CHR ''@'' a of
        None \<Rightarrow> parse_host a
      | Some i \<Rightarrow>
          (case parse_host (drop (i + 1) a) of
             None \<Rightarrow> None
           | Some h \<Rightarrow>
               (let user = take i a in
                if \<not> valid_userinfo user then None
                else (case cut_at CHR '':'' user of
                        None \<Rightarrow> (case unescape UserMode user of None \<Rightarrow> None | Some _ \<Rightarrow> Some h)
                      | Some (u, p) \<Rightarrow>
                          (case (unescape UserMode u, unescape UserMode p) of (Some _, Some _) \<Rightarrow> Some h | _ \<Rightarrow> None)))))"

text \<open>The part before a question mark.\<close>

definition before_query :: "string \<Rightarrow> string" where
  "before_query s = (case cut_at CHR ''?'' s of None \<Rightarrow> s | Some (a, _) \<Rightarrow> a)"

definition parse_main :: "string \<Rightarrow> url option" where
  "parse_main s =
     (if list_ex (\<lambda>c. byte c < 32 \<or> byte c = 127) s then None
      else if s = ''*'' then Some \<lparr>ur_scheme = [], ur_host = []\<rparr>
      else case get_scheme s of
        None \<Rightarrow> None
      | Some (sch0, rest0) \<Rightarrow>
          (let sch = to_lower sch0; rest = before_query rest0 in
           if \<not> has_prefix ''/'' rest \<and> sch \<noteq> [] then Some \<lparr>ur_scheme = sch, ur_host = []\<rparr>
           else if \<not> has_prefix ''/'' rest \<and> contains_chr CHR '':'' (case cut_at CHR ''/'' rest of None \<Rightarrow> rest | Some (a, _) \<Rightarrow> a)
           then None
           else if (sch \<noteq> [] \<or> \<not> has_prefix ''///'' rest) \<and> has_prefix ''//'' rest then
             (let (auth, path) = (case cut_at CHR ''/'' (drop 2 rest) of None \<Rightarrow> (drop 2 rest, []) | Some (a, p) \<Rightarrow> (a, CHR ''/'' # p)) in
              case (parse_authority auth, unescape PathMode path) of
                (Some h, Some _) \<Rightarrow> Some \<lparr>ur_scheme = sch, ur_host = h\<rparr>
              | _ \<Rightarrow> None)
           else (case unescape PathMode rest of None \<Rightarrow> None | Some _ \<Rightarrow> Some \<lparr>ur_scheme = sch, ur_host = []\<rparr>)))"

definition url_parse :: "string \<Rightarrow> url option" where
  "url_parse s =
     (case cut_at CHR ''#'' s of
        None \<Rightarrow> parse_main s
      | Some (u, frag) \<Rightarrow>
          (case parse_main u of
             None \<Rightarrow> None
           | Some r \<Rightarrow> (case unescape PathMode frag of None \<Rightarrow> None | Some _ \<Rightarrow> Some r)))"

text \<open>URL.Hostname: the host without its port and brackets.\<close>

definition hostname :: "url \<Rightarrow> string" where
  "hostname u =
     (let hp = ur_host u;
          h = (case last_index_of CHR '':'' hp of
                 Some i \<Rightarrow> if valid_optional_port (drop i hp) then take i hp else hp
               | None \<Rightarrow> hp)
      in if has_prefix ''['' h \<and> h \<noteq> [] \<and> last h = CHR '']'' then butlast (tl h) else h)"

text \<open>net.ParseIP and IsLoopback on the textual forms of loopback addresses: 127.x.y.z in decimal without leading
  zeros, and ::1; other spellings of ::1 are left out.\<close>

definition is_loopback_host :: "string \<Rightarrow> bool" where
  "is_loopback_host h \<longleftrightarrow> h = ''localhost'' \<or> h = ''::1'' \<or> (is_ipv4 h \<and> has_prefix ''127.'' h)"

section \<open>time.ParseDuration\<close>

definition time_units :: "(string \<times> int) list" where
  "time_units = [(''ns'', 1), (''us'', 1000), ([char_of (194::nat), char_of (181::nat), CHR ''s''], 1000),
     ([char_of (206::nat), char_of (188::nat), CHR ''s''], 1000), (''ms'', 1000000), (''s'', 1000000000),
     (''m'', 60000000000), (''h'', 3600000000000)]"

text \<open>One step: digits, a fraction, a unit; the amount so far must stay within 63 bits. The fraction is exact
  here, a float64 in the code.\<close>

definition span :: "(char \<Rightarrow> bool) \<Rightarrow> string \<Rightarrow> string \<times> string" where
  "span P s = (takeWhile P s, dropWhile P s)"

definition digits_value :: "string \<Rightarrow> int" where
  "digits_value ds = foldl (\<lambda>n c. n * 10 + (int (byte c) - 48)) 0 ds"

definition duration_part :: "int \<Rightarrow> string \<Rightarrow> (int \<times> string) option" where
  "duration_part d s =
     (let (ip, r1) = span is_digit s;
          (fp, r2) = (if has_prefix ''.'' r1 then span is_digit (tl r1) else ([], r1));
          (u, r3) = span (\<lambda>c. c \<noteq> CHR ''.'' \<and> \<not> is_digit c) r2
      in if ip = [] \<and> fp = [] \<or> u = [] then None
         else case map_of time_units u of
                None \<Rightarrow> None
              | Some k \<Rightarrow>
                  (let v = digits_value ip; total_ns = d + v * k + digits_value fp * k div 10 ^ length fp
                   in if 2 ^ 63 < v \<or> 2 ^ 63 div k < v \<or> 2 ^ 63 < total_ns then None else Some (total_ns, r3)))"

fun duration_parts :: "nat \<Rightarrow> int \<Rightarrow> string \<Rightarrow> int option" where
  "duration_parts 0 d s = None"
| "duration_parts (Suc n) d s =
     (if s = [] then Some d
      else case duration_part d s of None \<Rightarrow> None | Some (d', r) \<Rightarrow> duration_parts n d' r)"

definition parses_duration :: "string \<Rightarrow> bool" where
  "parses_duration s =
     (let neg = has_prefix ''-'' s; r = (if neg \<or> has_prefix ''+'' s then tl s else s)
      in if r = ''0'' then True
         else if r = [] then False
         else case duration_parts (Suc (length r)) 0 r of
                None \<Rightarrow> False
              | Some d \<Rightarrow> neg \<or> d < 2 ^ 63)"

section \<open>The patterns of the validation\<close>

definition hex_lower_chr :: "char \<Rightarrow> bool" where
  "hex_lower_chr c \<longleftrightarrow> is_digit c \<or> (97 \<le> byte c \<and> byte c \<le> 102)"

text \<open>\<open>^[0-9a-f]{64}$\<close>\<close>

definition sha_pattern :: "string \<Rightarrow> bool" where
  "sha_pattern s \<longleftrightarrow> length s = 64 \<and> list_all hex_lower_chr s"

text \<open>\<open>^\d+\.\d+\.\d+(?:-[0-9A-Za-z.-]+)?$\<close>\<close>

definition semver_pattern :: "string \<Rightarrow> bool" where
  "semver_pattern s \<longleftrightarrow>
     (case cut_at CHR ''-'' s of
        None \<Rightarrow> (let ps = split_on CHR ''.'' s in length ps = 3 \<and> list_all (\<lambda>p. p \<noteq> [] \<and> list_all is_digit p) ps)
      | Some (a, b) \<Rightarrow>
          (let ps = split_on CHR ''.'' a in length ps = 3 \<and> list_all (\<lambda>p. p \<noteq> [] \<and> list_all is_digit p) ps)
          \<and> b \<noteq> [] \<and> list_all (\<lambda>c. is_alnum c \<or> c = CHR ''.'' \<or> c = CHR ''-'') b)"

text \<open>\<open>[a-z0-9]([a-z0-9_-]*[a-z0-9])?\<close>, with or without the underscore.\<close>

definition label_end :: "char \<Rightarrow> bool" where
  "label_end c \<longleftrightarrow> is_lower_chr c \<or> is_digit c"

definition id_label :: "bool \<Rightarrow> string \<Rightarrow> bool" where
  "id_label uscore s \<longleftrightarrow> s \<noteq> [] \<and> label_end (hd s) \<and> label_end (last s) \<and>
     list_all (\<lambda>c. label_end c \<or> c = CHR ''-'' \<or> (uscore \<and> c = CHR ''_'')) s"

definition id_pattern :: "string \<Rightarrow> bool" where
  "id_pattern s \<longleftrightarrow> (let ps = split_on CHR ''.'' s in 2 \<le> length ps \<and> list_all (id_label True) ps)"

text \<open>\<open>^io\.pilot\.[a-z0-9]([a-z0-9-]*[a-z0-9])?$\<close>\<close>

definition sub_id_pattern :: "string \<Rightarrow> bool" where
  "sub_id_pattern s \<longleftrightarrow> (case cut_prefix ''io.pilot.'' s of None \<Rightarrow> False | Some r \<Rightarrow> id_label False r)"

text \<open>\<open>^https?://[^\s/]+\<close>: the class \<open>\s\<close> is tab, newline, form feed, return and space.\<close>

definition re_space :: "char \<Rightarrow> bool" where
  "re_space c \<longleftrightarrow> byte c \<in> {9, 10, 12, 13, 32}"

definition url_pattern :: "string \<Rightarrow> bool" where
  "url_pattern s \<longleftrightarrow>
     (let ok = (\<lambda>r. r \<noteq> [] \<and> \<not> re_space (hd r) \<and> hd r \<noteq> CHR ''/'') in
      (case cut_prefix ''https://'' s of Some r \<Rightarrow> ok r | None \<Rightarrow> False) \<or>
      (case cut_prefix ''http://'' s of Some r \<Rightarrow> ok r | None \<Rightarrow> False))"

text \<open>\<open>^[^@\s]+@[^@\s]+\.[^@\s]+$\<close>: one at sign, no space, a dot of the domain that is neither its first nor last byte.\<close>

definition email_pattern :: "string \<Rightarrow> bool" where
  "email_pattern s \<longleftrightarrow> \<not> list_ex re_space s \<and>
     (case cut_at CHR ''@'' s of
        None \<Rightarrow> False
      | Some (a, b) \<Rightarrow> a \<noteq> [] \<and> CHR ''@'' \<notin> set b \<and> CHR ''.'' \<in> set (butlast (tl b)))"

text \<open>The names of \<open>\{([a-zA-Z_][a-zA-Z0-9_]*)\}\<close> in a path, in order.\<close>

definition name_chr :: "char \<Rightarrow> bool" where
  "name_chr c \<longleftrightarrow> is_alnum c \<or> c = CHR ''_''"

definition place_at :: "string \<Rightarrow> (string \<times> string) option" where
  "place_at s =
     (case span name_chr s of (nm, r) \<Rightarrow>
        if nm \<noteq> [] \<and> \<not> is_digit (hd nm) \<and> has_prefix ''}'' r then Some (nm, tl r) else None)"

lemma place_at_length: "place_at s = Some (nm, r) \<Longrightarrow> length r < length s"
proof (cases "dropWhile name_chr s")
  case (Cons c cs)
  assume "place_at s = Some (nm, r)"
  then have "r = cs" using Cons by (auto simp: place_at_def span_def split: if_splits)
  then show ?thesis using length_dropWhile_le[of name_chr s] Cons by simp
qed (auto simp: place_at_def span_def has_prefix_def split: if_splits)

function path_param_names :: "string \<Rightarrow> string list" where
  "path_param_names [] = []"
| "path_param_names (c # s) =
     (if c = CHR ''{'' then (case place_at s of Some (nm, r) \<Rightarrow> nm # path_param_names r | None \<Rightarrow> path_param_names s)
      else path_param_names s)"
  by pat_completeness auto
termination by (relation "measure length") (auto dest: place_at_length)

end
