(* ===== verification/Demo.thy ===== *)
theory Demo
  imports Go_Url "HOL-Library.Sublist"
begin

text \<open>
  internal/demo: the product demo of an app, its validation (demo.go) and its three renderings
  (render.go). A float64 is an exact rational here. An error is a value that names the rule and the
  place, not its text.
\<close>

section \<open>The demo\<close>

record demo_step =
  ds_title :: string
  ds_goal :: string
  ds_command :: string
  ds_expect :: string
  ds_cost :: string
  ds_note :: string

record cost_op =
  op_name :: string
  op_price :: string
  op_note :: string

record demo_cost =
  dc_unit :: string
  dc_free_budget :: string
  dc_hard_cap :: rat
  dc_operations :: "cost_op list"
  dc_worked_total :: string
  dc_check_balance :: string

record demo =
  de_skill :: string
  de_title :: string
  de_when :: string
  de_metered :: bool
  de_quickstart :: demo_step
  de_examples :: "demo_step list"
  de_cost :: "demo_cost option"
  de_gotchas :: "string list"
  de_next :: "string list"

definition call_prefix :: string where "call_prefix = ''pilotctl appstore call ''"
definition max_when :: nat where "max_when = 240"
definition max_gotcha :: nat where "max_gotcha = 240"
definition min_examples :: nat where "min_examples = 2"
definition max_examples :: nat where "max_examples = 6"
definition max_gotchas :: nat where "max_gotchas = 6"
definition max_next :: nat where "max_next = 4"
definition max_note :: nat where "max_note = 400"

datatype step_place = Quickstart | Example nat

datatype demo_err =
    SkillNotApp | WhenMissing | WhenLong | FewExamples | ManyExamples | ManyGotchas | GotchaLong nat | ManyNext
  | CommandMissing step_place | CommandForeign step_place | CommandNamespace step_place | NoteLong step_place
  | CostUnmetered | CostMissing | CostNoOperations | CostNoUnit | CostNoBudget | OverBudget | StepCostMissing nat

section \<open>Costs\<close>

text \<open>The first match of \<open>\$([0-9]+(?:\.[0-9]+)?)\<close> as a number.\<close>

definition digits_rat :: "string \<Rightarrow> rat" where
  "digits_rat ds = of_int (digits_value ds)"

definition price_at :: "string \<Rightarrow> rat option" where
  "price_at s =
     (case span is_digit s of (ip, r) \<Rightarrow>
        if ip = [] then None
        else (case r of
                c # r' \<Rightarrow> (case span is_digit r' of (fp, _) \<Rightarrow>
                   if c = CHR ''.'' \<and> fp \<noteq> [] then Some (digits_rat ip + digits_rat fp / 10 ^ length fp) else Some (digits_rat ip))
              | [] \<Rightarrow> Some (digits_rat ip)))"

fun first_price :: "string \<Rightarrow> rat option" where
  "first_price [] = None"
| "first_price (c # s) =
     (case (if c = CHR ''$'' then price_at s else None) of Some v \<Rightarrow> Some v | None \<Rightarrow> first_price s)"

definition step_price :: "demo_step \<Rightarrow> rat" where
  "step_price s = (case first_price (ds_cost s) of Some v \<Rightarrow> v | None \<Rightarrow> 0)"

definition is_dynamic :: "demo_step \<Rightarrow> bool" where
  "is_dynamic s \<longleftrightarrow> sublist ''dynamic'' (to_lower (ds_cost s))"

definition worked_cost :: "demo \<Rightarrow> rat \<times> bool" where
  "worked_cost d =
     fold (\<lambda>s (sum, dyn). (sum + step_price s, dyn \<or> is_dynamic s)) (de_quickstart d # de_examples d) (0, False)"

section \<open>Validation\<close>

definition step_problems :: "string \<Rightarrow> step_place \<Rightarrow> demo_step \<Rightarrow> demo_err list" where
  "step_problems ns p s =
     (let cmd = trim_space (ds_command s) in
      if cmd = [] then [CommandMissing p]
      else (if has_prefix call_prefix cmd then [] else [CommandForeign p])
           @ (if ns \<noteq> [] \<and> \<not> sublist (CHR '' '' # ns @ ''.'') cmd then [CommandNamespace p] else [])
           @ (if max_note < length (ds_note s) then [NoteLong p] else []))"

definition missing_costs :: "demo_step list \<Rightarrow> demo_err list" where
  "missing_costs es = concat (map (\<lambda>(i, s). if trim_space (ds_cost s) = [] then [StepCostMissing i] else []) (enumerate 0 es))"

definition cost_problems :: "demo \<Rightarrow> demo_err list" where
  "cost_problems d =
     (if \<not> de_metered d then (if de_cost d \<noteq> None then [CostUnmetered] else [])
      else case de_cost d of
        None \<Rightarrow> [CostMissing]
      | Some c \<Rightarrow>
          (if dc_operations c = [] then [CostNoOperations] else [])
          @ (if trim_space (dc_unit c) = [] then [CostNoUnit] else [])
          @ (if trim_space (dc_free_budget c) = [] then [CostNoBudget] else [])
          @ (if 0 < dc_hard_cap c
             then (let (spent, dyn) = worked_cost d in
                   (if dc_hard_cap c + 1 / 10 ^ 9 < spent then [OverBudget] else [])
                   @ (if dyn then [] else missing_costs (de_examples d)))
             else []))"

definition validate_demo :: "string \<Rightarrow> string \<Rightarrow> demo \<Rightarrow> demo_err list" where
  "validate_demo app ns d =
     (if de_skill d \<noteq> app then [SkillNotApp] else [])
     @ (let s = trim_space (de_when d) in if s = [] then [WhenMissing] else if max_when < length s then [WhenLong] else [])
     @ step_problems ns Quickstart (de_quickstart d)
     @ (if length (de_examples d) < min_examples then [FewExamples]
        else if max_examples < length (de_examples d) then [ManyExamples] else [])
     @ concat (map (\<lambda>(i, s). step_problems ns (Example i) s) (enumerate 0 (de_examples d)))
     @ (if max_gotchas < length (de_gotchas d) then [ManyGotchas] else [])
     @ concat (map (\<lambda>(i, g). if max_gotcha < length g then [GotchaLong i] else []) (enumerate 0 (de_gotchas d)))
     @ (if max_next < length (de_next d) then [ManyNext] else [])
     @ cost_problems d"

section \<open>Rendering\<close>

definition nl :: string where "nl = [CHR 0x0A]"
definition arrow :: string where "arrow = [char_of (226::nat), char_of (134::nat), char_of (146::nat)]"
definition triangle :: string where "triangle = [char_of (226::nat), char_of (150::nat), char_of (182::nat)]"
definition rule_chr :: string where "rule_chr = [char_of (226::nat), char_of (148::nat), char_of (128::nat)]"
definition middle_dot :: string where "middle_dot = [char_of (194::nat), char_of (183::nat)]"

definition title_or :: "demo \<Rightarrow> string" where
  "title_or d = (if trim_space (de_title d) \<noteq> [] then de_title d else ''Full usage demo'')"

definition cost_suffix :: "bool \<Rightarrow> string \<Rightarrow> string" where
  "cost_suffix metered c = (if \<not> metered \<or> trim_space c = [] then [] else ''  ('' @ trim_space c @ '')'')"

definition flatten :: "string \<Rightarrow> string" where
  "flatten s = trim_space (map (\<lambda>c. if c = CHR 0x0D \<or> c = CHR 0x0A then CHR '' '' else c) s)"

definition write_step :: "bool \<Rightarrow> demo_step \<Rightarrow> string" where
  "write_step metered s =
     (let head = (if ds_title s = [] then ds_goal s else ds_title s) in
      (if head \<noteq> [] then ''*'' @ head @ cost_suffix metered (ds_cost s) @ ''*'' @ nl @ nl else [])
      @ ''```bash'' @ nl @ ds_command s @ nl @ ''```'' @ nl
      @ (if ds_expect s \<noteq> [] then arrow @ '' `'' @ flatten (ds_expect s) @ ''`'' @ nl else [])
      @ (if ds_note s \<noteq> [] then nl @ ds_note s @ nl else []) @ nl)"

definition write_cost :: "demo_cost \<Rightarrow> string" where
  "write_cost c =
     ''## Cost'' @ nl @ nl @ ''Free budget: **'' @ trim_space (dc_free_budget c) @ ''**. Unit: '' @ dc_unit c @ ''.'' @ nl @ nl
     @ (if dc_operations c \<noteq> [] then
          ''| Operation | Price | Notes |'' @ nl @ ''|---|---|---|'' @ nl
          @ concat (map (\<lambda>p. ''| `'' @ op_name p @ ''` | '' @ op_price p @ '' | '' @ op_note p @ '' |'' @ nl) (dc_operations c)) @ nl
        else [])
     @ (if dc_worked_total c \<noteq> [] then dc_worked_total c @ nl @ nl else [])
     @ (if dc_check_balance c \<noteq> [] then ''Check your balance: `'' @ dc_check_balance c @ ''`'' @ nl @ nl else [])"

definition write_bullets :: "string \<Rightarrow> string list \<Rightarrow> string" where
  "write_bullets head xs =
     (if xs = [] then [] else head @ nl @ nl @ concat (map (\<lambda>x. ''- '' @ x @ nl) xs) @ nl)"

definition write_budget :: "demo \<Rightarrow> string" where
  "write_budget d = (if de_metered d then (case de_cost d of None \<Rightarrow> [] | Some c \<Rightarrow> write_cost c) else [])"

definition frontmatter :: "string \<Rightarrow> demo \<Rightarrow> string" where
  "frontmatter app d =
     ''---'' @ nl @ ''name: '' @ app @ nl
     @ ''description: '' @ flatten (title_or d @ '' '' @ em_dash @ '' '' @ de_when d) @ nl
     @ ''when_to_use: '' @ flatten (de_when d) @ nl @ ''---'' @ nl @ nl"

definition render_skill :: "string \<Rightarrow> demo \<Rightarrow> string" where
  "render_skill app d =
     frontmatter app d
     @ ''# '' @ app @ '' '' @ em_dash @ '' '' @ title_or d @ nl @ nl
     @ ''**When to use:** '' @ de_when d @ nl @ nl
     @ ''## Run this first'' @ nl @ nl @ write_step (de_metered d) (de_quickstart d)
     @ ''## Worked examples'' @ nl @ nl @ concat (map (write_step (de_metered d)) (de_examples d))
     @ write_budget d
     @ write_bullets ''## Gotchas'' (de_gotchas d) @ write_bullets ''## Go deeper'' (de_next d)"

definition render_markdown :: "string \<Rightarrow> demo \<Rightarrow> string" where
  "render_markdown app d =
     ''## '' @ title_or d @ nl @ nl @ ''*When to use:* '' @ de_when d @ nl @ nl
     @ ''**Run this first**'' @ nl @ nl @ write_step (de_metered d) (de_quickstart d)
     @ ''**Examples**'' @ nl @ nl @ concat (map (write_step (de_metered d)) (de_examples d))
     @ write_budget d @ write_bullets ''**Gotchas**'' (de_gotchas d)"

definition install_example :: "bool \<Rightarrow> demo_step \<Rightarrow> string" where
  "install_example metered s =
     (if ds_title s \<noteq> [] then ''    # '' @ ds_title s @ cost_suffix metered (ds_cost s) @ nl else [])
     @ ''    '' @ ds_command s @ nl"

definition install_budget :: "demo_cost \<Rightarrow> string" where
  "install_budget c =
     ''  '' @ triangle @ '' Budget: '' @ trim_space (dc_free_budget c) @ ''. ''
     @ (if dc_worked_total c \<noteq> [] then dc_worked_total c @ nl else ''Reads are free; see the price table above.'' @ nl)
     @ (if dc_check_balance c \<noteq> [] then ''    balance: '' @ dc_check_balance c @ nl else []) @ nl"

fun join_str :: "string \<Rightarrow> string list \<Rightarrow> string" where
  "join_str sep [] = []"
| "join_str sep [w] = w"
| "join_str sep (w # ws) = w @ sep @ join_str sep ws"

definition render_install :: "string \<Rightarrow> demo \<Rightarrow> string" where
  "render_install app d =
     (let bar = concat (replicate 64 rule_chr) @ nl in
      bar @ ''  '' @ app @ '' installed '' @ em_dash @ '' '' @ title_or d @ nl @ bar @ nl
      @ ''  When to use: '' @ de_when d @ nl @ nl
      @ ''  '' @ triangle @ '' Run this first:'' @ nl @ ''    '' @ ds_command (de_quickstart d) @ nl
      @ (if ds_expect (de_quickstart d) \<noteq> [] then ''    '' @ arrow @ '' '' @ ds_expect (de_quickstart d) @ nl else []) @ nl
      @ ''  '' @ triangle @ '' More examples:'' @ nl @ concat (map (install_example (de_metered d)) (de_examples d)) @ nl
      @ (if de_metered d then (case de_cost d of None \<Rightarrow> [] | Some c \<Rightarrow> install_budget c) else [])
      @ (if de_next d \<noteq> [] then ''  Full reference: '' @ join_str ('' '' @ middle_dot @ '' '') (de_next d) @ nl else [])
      @ bar)"

section \<open>What a valid demo is\<close>

lemma concat_Nil_iff: "concat (map f xs) = [] \<longleftrightarrow> (\<forall>x \<in> set xs. f x = [])"
  by (induction xs) auto

lemma enumerate_all: "(\<forall>x \<in> set (enumerate n xs). P (snd x)) \<longleftrightarrow> (\<forall>x \<in> set xs. P x)"
proof -
  have "set xs = snd ` set (enumerate n xs)" by (metis map_snd_enumerate set_map)
  then show ?thesis by simp
qed

definition step_valid :: "string \<Rightarrow> demo_step \<Rightarrow> bool" where
  "step_valid ns s \<longleftrightarrow> (let cmd = trim_space (ds_command s) in
     has_prefix call_prefix cmd \<and> (ns \<noteq> [] \<longrightarrow> sublist (CHR '' '' # ns @ ''.'') cmd) \<and> length (ds_note s) \<le> max_note)"

lemma step_problems_Nil: "step_problems ns p s = [] \<longleftrightarrow> step_valid ns s"
proof (cases "trim_space (ds_command s) = []")
  case True
  then show ?thesis by (simp add: step_problems_def step_valid_def Let_def has_prefix_def call_prefix_def)
qed (simp add: step_problems_def step_valid_def Let_def linorder_not_less)

lemma missing_costs_Nil: "missing_costs es = [] \<longleftrightarrow> (\<forall>s \<in> set es. trim_space (ds_cost s) \<noteq> [])"
  using enumerate_all[of 0 es "\<lambda>s. trim_space (ds_cost s) \<noteq> []"]
  by (auto simp: missing_costs_def concat_Nil_iff split: if_splits)

lemma worked_cost_sum:
  "worked_cost d = (sum_list (map step_price (de_quickstart d # de_examples d)),
     list_ex is_dynamic (de_quickstart d # de_examples d))"
proof -
  have "fold (\<lambda>s (sum, dyn). (sum + step_price s, dyn \<or> is_dynamic s)) xs (a, b) =
      (a + sum_list (map step_price xs), b \<or> list_ex is_dynamic xs)" for xs a b
    by (induction xs arbitrary: a b) auto
  then show ?thesis by (simp add: worked_cost_def)
qed

text \<open>Every command of the demo can be copied and run.\<close>

definition demo_steps :: "demo \<Rightarrow> demo_step list" where
  "demo_steps d = de_quickstart d # de_examples d"

text \<open>The budget of a demo whose broker meters in dollars: the flow fits, and every example names its cost, unless some
  step is dynamically priced.\<close>

definition budget_valid :: "demo \<Rightarrow> bool" where
  "budget_valid d \<longleftrightarrow>
     (case de_cost d of
        None \<Rightarrow> \<not> de_metered d
      | Some c \<Rightarrow> de_metered d \<and> dc_operations c \<noteq> [] \<and> trim_space (dc_unit c) \<noteq> [] \<and> trim_space (dc_free_budget c) \<noteq> [] \<and>
          (0 < dc_hard_cap c \<longrightarrow>
             sum_list (map step_price (demo_steps d)) \<le> dc_hard_cap c + 1 / 10 ^ 9 \<and>
             (list_ex is_dynamic (demo_steps d) \<or> list_all (\<lambda>s. trim_space (ds_cost s) \<noteq> []) (de_examples d))))"

lemma cost_problems_Nil: "cost_problems d = [] \<longleftrightarrow> budget_valid d"
  by (cases "de_cost d")
    (simp_all add: cost_problems_def budget_valid_def worked_cost_sum missing_costs_Nil demo_steps_def linorder_not_less list_all_iff)

lemma examples_Nil:
  "concat (map (\<lambda>(i, s). step_problems ns (Example i) s) (enumerate 0 es)) = [] \<longleftrightarrow> (\<forall>s \<in> set es. step_valid ns s)"
  using enumerate_all[of 0 es "step_valid ns"] by (simp add: concat_Nil_iff case_prod_beta step_problems_Nil)

lemma gotchas_Nil:
  "concat (map (\<lambda>(i, g). if max_gotcha < length g then [GotchaLong i] else []) (enumerate 0 gs)) = [] \<longleftrightarrow>
     (\<forall>g \<in> set gs. length g \<le> max_gotcha)"
  using enumerate_all[of 0 gs "\<lambda>g. length g \<le> max_gotcha"] unfolding concat_Nil_iff
  by (simp add: case_prod_beta linorder_not_less)

text \<open>Observation: A demo is accepted exactly when it is the app's, says in one short sentence when to use it,
  has two to six examples, every command starts with the call prefix and names a method of the app's
  namespace, the texts stay within their lengths, and its costs are consistent: none when it is not
  metered, otherwise a price table and a flow that fits the cap.\<close>

theorem demo_valid_iff:
  "validate_demo app ns d = [] \<longleftrightarrow>
     de_skill d = app \<and> trim_space (de_when d) \<noteq> [] \<and> length (trim_space (de_when d)) \<le> max_when \<and>
     min_examples \<le> length (de_examples d) \<and> length (de_examples d) \<le> max_examples \<and>
     list_all (step_valid ns) (demo_steps d) \<and>
     length (de_gotchas d) \<le> max_gotchas \<and> list_all (\<lambda>g. length g \<le> max_gotcha) (de_gotchas d) \<and>
     length (de_next d) \<le> max_next \<and> budget_valid d"
  unfolding validate_demo_def append_is_Nil_conv examples_Nil gotchas_Nil cost_problems_Nil step_problems_Nil
  by (auto simp: Let_def demo_steps_def list_all_iff linorder_not_less split: if_splits)

text \<open>Observation: one dynamically priced step lifts the duty to name a cost from every other.\<close>

lemma one_dynamic_step_frees_all:
  "list_ex is_dynamic (demo_steps d) \<Longrightarrow> de_metered d \<Longrightarrow> de_cost d = Some c \<Longrightarrow> StepCostMissing i \<notin> set (cost_problems d)"
  by (simp add: cost_problems_def worked_cost_sum demo_steps_def Let_def)

section \<open>The frontmatter of a skill\<close>

lemma flatten_flat: "CHR 0x0A \<notin> set (flatten s)" "CHR 0x0D \<notin> set (flatten s)"
proof -
  have sub: "set (trim_space t) \<subseteq> set t" for t
    by (force simp: trim_space_def dest: set_dropWhileD)
  show "CHR 0x0A \<notin> set (flatten s)" "CHR 0x0D \<notin> set (flatten s)"
    using sub[of "map (\<lambda>c. if c = CHR 0x0D \<or> c = CHR 0x0A then CHR '' '' else c) s"] by (auto simp: flatten_def split: if_splits)
qed

text \<open>Observation: Whatever an author writes as title and when-to-use, the skill file's frontmatter has just its
  five lines: a name, a description and a when-to-use entry between two rules (for an app id on one line).\<close>

theorem skill_frontmatter_lines:
  assumes "CHR 0x0A \<notin> set app"
  shows "\<exists>desc use rest. render_skill app d = frontmatter app d @ rest \<and>
     split_on CHR 0x0A (frontmatter app d) = [''---'', ''name: '' @ app, ''description: '' @ desc, ''when_to_use: '' @ use, ''---'', [], []]"
proof -
  let ?desc = "flatten (title_or d @ '' '' @ em_dash @ '' '' @ de_when d)"
  let ?use = "flatten (de_when d)"
  let ?ls = "[''---'', ''name: '' @ app, ''description: '' @ ?desc, ''when_to_use: '' @ ?use, ''---'', [], []]"
  have "frontmatter app d = join_on CHR 0x0A ?ls" by (simp add: frontmatter_def nl_def)
  moreover have "CHR 0x0A \<notin> set w" if "w \<in> set ?ls" for w using that assms flatten_flat(1) by auto
  ultimately have "split_on CHR 0x0A (frontmatter app d) = ?ls" using split_on_join_on[of ?ls "CHR 0x0A"] by simp
  then show ?thesis unfolding render_skill_def by blast
qed

definition sample_demo :: demo where
  "sample_demo = \<lparr>de_skill = ''io.pilot.x'', de_title = ''Two'' @ nl @ ''lines'', de_when = ''now'', de_metered = False,
     de_quickstart = \<lparr>ds_title = [], ds_goal = [], ds_command = ''pilotctl appstore call io.pilot.x x.go'', ds_expect = [], ds_cost = [], ds_note = []\<rparr>,
     de_examples = [], de_cost = None, de_gotchas = [], de_next = []\<rparr>"

theorem skill_frontmatter_lines_witness:
  "\<exists>desc use rest. render_skill ''io.pilot.x'' sample_demo = frontmatter ''io.pilot.x'' sample_demo @ rest \<and>
     split_on CHR 0x0A (frontmatter ''io.pilot.x'' sample_demo) =
       [''---'', ''name: '' @ ''io.pilot.x'', ''description: '' @ desc, ''when_to_use: '' @ use, ''---'', [], []]"
  by (rule skill_frontmatter_lines) simp

end
