(* ===== verification/Scaffold.thy ===== *)
theory Scaffold
  imports Demo Next_Steps Json_Struct "HOL-Library.List_Lexorder" "HOL-Library.Char_ord"
begin

text \<open>
  internal/scaffold/config.go: the spec of an app (pilot.app.yaml) as data, what is derived from it
  (Resolve, the hosts and files an adapter is granted, the signup hints), and the conversion of a cap in
  USDC. A pointer that may be nil is an option; an error is a value in Scaffold_Valid.
\<close>

section \<open>The spec\<close>

record asset =
  ba_role :: string
  ba_name :: string
  ba_os :: string
  ba_arch :: string
  ba_file :: string
  ba_url :: string
  ba_sha256 :: string
  ba_unpack :: string
  ba_exec_path :: string
  ba_deps :: "string list"
  ba_order :: int
  ba_args :: "string list"

record save_key =
  sk_path :: string
  sk_secret_key :: string
  sk_start :: string

record multipart_route =
  mu_file_field :: string
  mu_blob_param :: string
  mu_max_bytes :: int

record http_route =
  hr_verb :: string
  hr_path :: string
  hr_capture_to :: string
  hr_public :: bool
  hr_save_key :: "save_key option"
  hr_multipart :: "multipart_route option"
  hr_param_in :: "string gmap"
  hr_path_params :: "string list"
  hr_raw_path_params :: "string list"
  hr_header_params :: "string list"
  hr_query_params :: "string list"
  hr_body_params :: "string list"
  hr_body_raw :: string

record cli_route =
  cl_args :: "string list"
  cl_params_as_flags :: bool
  cl_passthrough :: bool

record signup_route =
  su_step :: string
  su_url :: string
  su_broker_url :: string
  su_key_path :: string
  su_address_path :: string
  su_body :: "(string \<times> json) list"
  su_secret_key :: string
  su_email_key :: string
  su_password_key :: string

record mcp_route =
  mc_tool :: string
  mc_wrap :: string
  mc_keep :: "string list"

record app_method =
  am_name :: string
  am_summary :: string
  am_kind :: string
  am_duration :: string
  am_timeout :: string
  am_http :: "http_route option"
  am_cli :: "cli_route option"
  am_local :: "string option"
  am_signup :: "signup_route option"
  am_upload :: "string option"
  am_mcp :: "mcp_route option"
  am_params :: "string gmap"
  am_roundtrip :: string
  am_gated :: string
  am_billable :: string

record mcp_backend =
  mb_url :: string
  mb_auth :: string

record x402_spec =
  xs_payer :: string
  xs_method :: string
  xs_grant :: string
  xs_networks :: "string list"
  xs_asset :: string
  xs_max_usdc :: string

record app_backend =
  ab_type :: string
  ab_base_url :: string
  ab_command :: "string list"
  ab_env_prefix :: string
  ab_env_passthrough :: "string list"
  ab_headers :: "string gmap"
  ab_broker_url :: string
  ab_url_secret :: string
  ab_auth :: string
  ab_mcp :: "mcp_backend option"
  ab_x402 :: "x402_spec option"

record vendor =
  ve_name :: string
  ve_url :: string
  ve_contact :: string

record changelog_rel =
  ch_version :: string
  ch_date :: string
  ch_notes :: "string list"

record listing =
  li_display_name :: string
  li_tagline :: string
  li_app_description :: string
  li_homepage :: string
  li_source_url :: string
  li_license :: string
  li_categories :: "string list"
  li_keywords :: "string list"
  li_vendor :: vendor
  li_changelog :: "changelog_rel list"

record pricing =
  pg_model :: string
  pg_credit_unit :: string
  pg_free_credits :: int
  pg_credit_cost :: "int gmap"
  pg_rate_card :: "string gmap"

record config =
  co_id :: string
  co_app_version :: string
  co_manifest_version :: int
  co_description :: string
  co_namespace :: string
  co_binary_name :: string
  co_go_module :: string
  co_app_store_module :: string
  co_key_file :: string
  co_backend :: app_backend
  co_methods :: "app_method list"
  co_rate_per_min :: int
  co_extra_grants :: "(string \<times> string) list"
  co_listing :: listing
  co_pricing :: "pricing option"
  co_product_demo :: "demo option"
  co_next_steps :: "graph option"
  co_assets :: "asset list"
  co_artifact_base :: string

definition default_app_store_module :: string where
  "default_app_store_module = ''github.com/pilot-protocol/app-store v1.0.1-beta.1.0.20260622180016-07b4170265dc''"

definition default_artifact_base :: string where "default_artifact_base = ''https://artifacts.pilotprotocol.network''"
definition broker_base_url :: string where "broker_base_url = ''https://broker.pilotprotocol.network''"
definition default_provision_path :: string where "default_provision_path = ''/_provision''"
definition balance_meta_path :: string where "balance_meta_path = ''/_pilot/balance''"
definition default_file_field :: string where "default_file_field = ''file''"
definition default_blob_param :: string where "default_blob_param = ''blob_id''"
definition default_max_blob :: int where "default_max_blob = 25165824"

section \<open>Names\<close>

text \<open>The part after the last byte of its kind, the whole when there is none.\<close>

definition after_last :: "char \<Rightarrow> string \<Rightarrow> string" where
  "after_last c s = rev (takeWhile (\<lambda>x. x \<noteq> c) (rev s))"

definition trim_right_of :: "char \<Rightarrow> string \<Rightarrow> string" where
  "trim_right_of c s = rev (dropWhile (\<lambda>x. x = c) (rev s))"

definition asset_name :: "asset \<Rightarrow> string" where
  "asset_name a = (if ba_name a \<noteq> [] then ba_name a else after_last CHR ''/'' (ba_exec_path a))"

definition primary_exec_path :: "config \<Rightarrow> string" where
  "primary_exec_path c =
     (case ab_command (co_backend c) of
        [] \<Rightarrow> []
      | cmd # _ \<Rightarrow>
          (case find (\<lambda>a. ba_role a \<noteq> ''data'' \<and> (after_last CHR ''/'' (ba_exec_path a) = cmd \<or> ba_exec_path a = cmd)) (co_assets c) of
             None \<Rightarrow> []
           | Some a \<Rightarrow> ba_exec_path a))"

definition derived_asset_url :: "config \<Rightarrow> string \<Rightarrow> string \<Rightarrow> string \<Rightarrow> string" where
  "derived_asset_url c file os arch =
     trim_right_of CHR ''/'' (co_artifact_base c) @ ''/'' @ co_id c @ ''/'' @ co_app_version c @ ''/'' @ os @ ''-'' @ arch @ ''/'' @ file"

section \<open>Hosts\<close>

definition host_of :: "string \<Rightarrow> string" where
  "host_of raw = (case url_parse raw of None \<Rightarrow> [] | Some u \<Rightarrow> hostname u)"

text \<open>The hosts of some URLs, without repetition and without those already seen, in sorted order.\<close>

definition collect_hosts :: "string list \<Rightarrow> string list \<Rightarrow> string list" where
  "collect_hosts seen raws =
     sort (snd (fold (\<lambda>raw (seen, out). let h = host_of raw in
                  if h \<noteq> [] \<and> h \<notin> set seen then (h # seen, out @ [h]) else (seen, out)) raws (seen, [])))"

definition asset_hosts :: "config \<Rightarrow> string list" where
  "asset_hosts c = collect_hosts [] (map ba_url (co_assets c))"

definition managed :: "config \<Rightarrow> bool" where
  "managed c \<longleftrightarrow> ab_auth (co_backend c) = ''managed'' \<or> ab_auth (co_backend c) = ''provisioned''"

definition provisioned :: "config \<Rightarrow> bool" where
  "provisioned c \<longleftrightarrow> ab_auth (co_backend c) = ''provisioned''"

definition broker_base :: "config \<Rightarrow> string" where
  "broker_base c = (if ab_broker_url (co_backend c) \<noteq> [] then ab_broker_url (co_backend c) else broker_base_url)"

definition adapter_backend_url :: "config \<Rightarrow> string" where
  "adapter_backend_url c =
     (if managed c then trim_right_of CHR ''/'' (broker_base c) @ ''/'' @ co_id c else ab_base_url (co_backend c))"

definition adapter_backend_host :: "config \<Rightarrow> string" where
  "adapter_backend_host c = host_of (if managed c then broker_base c else ab_base_url (co_backend c))"

definition backend_host :: "config \<Rightarrow> string" where
  "backend_host c = host_of (ab_base_url (co_backend c))"

definition signup_hosts :: "config \<Rightarrow> string list" where
  "signup_hosts c =
     collect_hosts [adapter_backend_host c]
       (concat (map (\<lambda>m. case am_signup m of None \<Rightarrow> [] | Some s \<Rightarrow> [su_url s, su_broker_url s]) (co_methods c)))"

definition mcp_host :: "config \<Rightarrow> string" where
  "mcp_host c = (case ab_mcp (co_backend c) of None \<Rightarrow> [] | Some m \<Rightarrow> host_of (mb_url m))"

section \<open>What the methods need\<close>

definition has_cli_methods :: "config \<Rightarrow> bool" where
  "has_cli_methods c \<longleftrightarrow> list_ex (\<lambda>m. am_cli m \<noteq> None) (co_methods c)"

definition has_http_methods :: "config \<Rightarrow> bool" where
  "has_http_methods c \<longleftrightarrow> list_ex (\<lambda>m. am_http m \<noteq> None) (co_methods c)"

definition has_local_methods :: "config \<Rightarrow> bool" where
  "has_local_methods c \<longleftrightarrow> list_ex (\<lambda>m. am_local m \<noteq> None) (co_methods c)"

definition has_mcp :: "config \<Rightarrow> bool" where
  "has_mcp c \<longleftrightarrow> list_ex (\<lambda>m. am_mcp m \<noteq> None) (co_methods c)"

definition has_billable :: "config \<Rightarrow> bool" where
  "has_billable c \<longleftrightarrow> list_ex (\<lambda>m. trim_space (am_billable m) \<noteq> []) (co_methods c)"

definition route_multipart :: "app_method \<Rightarrow> multipart_route option" where
  "route_multipart m = Option.bind (am_http m) hr_multipart"

definition has_multipart :: "config \<Rightarrow> bool" where
  "has_multipart c \<longleftrightarrow> list_ex (\<lambda>m. route_multipart m \<noteq> None) (co_methods c)"

definition max_blob_bytes :: "config \<Rightarrow> int" where
  "max_blob_bytes c =
     (let mx = fold (\<lambda>m n. case route_multipart m of None \<Rightarrow> n | Some p \<Rightarrow> max n (mu_max_bytes p)) (co_methods c) 0
      in if mx = 0 then default_max_blob else mx)"

definition is_hybrid :: "config \<Rightarrow> bool" where
  "is_hybrid c \<longleftrightarrow> ab_type (co_backend c) = ''hybrid''"

definition needs_secrets :: "app_backend \<Rightarrow> bool" where
  "needs_secrets b \<longleftrightarrow> ab_auth b \<noteq> ''managed'' \<and> list_ex (\<lambda>(_, v). sublist ''${'' v) (ab_headers b)"

definition timeout_for :: "app_method \<Rightarrow> string" where
  "timeout_for m = (if am_timeout m \<noteq> [] then am_timeout m else if am_duration m = ''slow'' then ''180s'' else ''60s'')"

definition method_plane :: "app_method \<Rightarrow> string" where
  "method_plane m = (if am_http m \<noteq> None then ''cloud'' else ''local'')"

definition sorted_keys :: "'v gmap \<Rightarrow> string list" where
  "sorted_keys m = sort (map fst m)"

definition body_verb :: "http_route \<Rightarrow> bool" where
  "body_verb h \<longleftrightarrow> hr_verb h \<in> {''POST'', ''PATCH'', ''PUT''}"

text \<open>The local files an adapter touches: the path, the grant, and whether it writes. Paths come sorted.\<close>

definition store_grant :: "string \<Rightarrow> string" where
  "store_grant p = (if has_prefix ''~/'' p then ''$HOME/'' @ drop 2 p else p)"

definition local_reads :: "app_method \<Rightarrow> string list" where
  "local_reads m = (case am_local m of Some p \<Rightarrow> if p \<noteq> [] then [p] else [] | None \<Rightarrow> [])"

definition local_writes :: "app_method \<Rightarrow> string list" where
  "local_writes m = (case am_http m of Some h \<Rightarrow> if hr_capture_to h \<noteq> [] then [hr_capture_to h] else [] | None \<Rightarrow> [])"

definition local_stores :: "config \<Rightarrow> (string \<times> string \<times> bool) list" where
  "local_stores c =
     (let ws = concat (map local_writes (co_methods c)); rs = concat (map local_reads (co_methods c))
      in map (\<lambda>p. (p, store_grant p, p \<in> set ws)) (sort (remdups (rs @ ws))))"

section \<open>Signup routes\<close>

definition is_create :: "signup_route \<Rightarrow> bool" where "is_create s \<longleftrightarrow> equal_fold (su_step s) ''create''"
definition is_verify :: "signup_route \<Rightarrow> bool" where "is_verify s \<longleftrightarrow> equal_fold (su_step s) ''verify''"
definition is_broker :: "signup_route \<Rightarrow> bool" where "is_broker s \<longleftrightarrow> equal_fold (su_step s) ''broker''"
definition is_set_key :: "signup_route \<Rightarrow> bool" where "is_set_key s \<longleftrightarrow> equal_fold (su_step s) ''set_key''"

definition mints_key :: "signup_route \<Rightarrow> bool" where
  "mints_key s \<longleftrightarrow> is_create s \<or> is_verify s \<or> is_broker s \<or> is_set_key s"

definition body_json :: "signup_route \<Rightarrow> string" where
  "body_json s = (if su_body s = [] then ''{}'' else json_text (JObj (su_body s)))"

definition method_save_key :: "app_method \<Rightarrow> save_key option" where
  "method_save_key m = Option.bind (am_http m) hr_save_key"

text \<open>Whether a method's signup route is of a kind.\<close>

definition signs_up :: "(signup_route \<Rightarrow> bool) \<Rightarrow> app_method \<Rightarrow> bool" where
  "signs_up P m \<longleftrightarrow> (case am_signup m of None \<Rightarrow> False | Some s \<Rightarrow> P s)"

definition has_signup :: "config \<Rightarrow> bool" where
  "has_signup c \<longleftrightarrow> list_ex (\<lambda>m. am_signup m \<noteq> None \<or> method_save_key m \<noteq> None) (co_methods c)"

definition has_key_mint_signup :: "config \<Rightarrow> bool" where
  "has_key_mint_signup c \<longleftrightarrow> list_ex (\<lambda>m. signs_up mints_key m \<or> method_save_key m \<noteq> None) (co_methods c)"

definition has_broker_signup :: "config \<Rightarrow> bool" where
  "has_broker_signup c \<longleftrightarrow> list_ex (signs_up is_broker) (co_methods c)"

fun auth_key_of :: "app_method list \<Rightarrow> string" where
  "auth_key_of [] = []"
| "auth_key_of (m # ms) =
     (case am_signup m of
        Some s \<Rightarrow> if mints_key s then su_secret_key s
                  else (case method_save_key m of Some sk \<Rightarrow> sk_secret_key sk | None \<Rightarrow> auth_key_of ms)
      | None \<Rightarrow> (case method_save_key m of Some sk \<Rightarrow> sk_secret_key sk | None \<Rightarrow> auth_key_of ms))"

definition auth_secret_key :: "config \<Rightarrow> string" where
  "auth_secret_key c = auth_key_of (co_methods c)"

definition signup_method_name :: "config \<Rightarrow> string" where
  "signup_method_name c =
     (case find (signs_up is_create) (co_methods c) of
        Some m \<Rightarrow> am_name m
      | None \<Rightarrow>
          (case find (signs_up (\<lambda>s. is_broker s \<or> equal_fold (su_step s) ''register'')) (co_methods c) of
             Some m \<Rightarrow> am_name m
           | None \<Rightarrow>
               (case find (\<lambda>m. method_save_key m \<noteq> None) (co_methods c) of
                  Some m \<Rightarrow> (case method_save_key m of
                      Some sk \<Rightarrow> if sk_start sk \<noteq> [] then sk_start sk else am_name m | None \<Rightarrow> [])
                | None \<Rightarrow> (case find (signs_up is_set_key) (co_methods c) of Some m \<Rightarrow> am_name m | None \<Rightarrow> []))))"

text \<open>The hint an adapter gives in place of a call that cannot succeed yet.\<close>

definition no_key :: string where "no_key = ''No API key on this host yet. ''"

definition quote_mark :: string where "quote_mark = [CHR 0x22]"

definition save_key_hint :: "config \<Rightarrow> string \<Rightarrow> app_method \<Rightarrow> string" where
  "save_key_hint c name m =
     (let issuers = length (filter (\<lambda>o1. method_save_key o1 \<noteq> None) (co_methods c));
          issuer = (if 1 < issuers then ''the provider'' else am_name m)
      in no_key @ ''Call '' @ name @ '' to start signup; the key is stored on this host as soon as '' @ issuer
         @ '' issues it, and injected on every call automatically.''
         @ concat (map (\<lambda>o1. if signs_up is_set_key o1 then '' Already have a key? Save it with '' @ am_name o1 @ ''.'' else []) (co_methods c)))"

definition set_key_hint :: "string \<Rightarrow> signup_route \<Rightarrow> string" where
  "set_key_hint name s =
     no_key @ ''Create one '' @ (if su_url s \<noteq> [] then ''at '' @ su_url s else ''from your account with the provider'')
     @ '', then call '' @ name @ '' once with {'' @ quote_mark @ ''api_key'' @ quote_mark @ '':'' @ quote_mark @ ''...'' @ quote_mark @ ''} '' @ em_dash
     @ '' it is stored locally under ~/.pilot and injected on every call automatically.''"

definition register_hint :: "string \<Rightarrow> string" where
  "register_hint name =
     no_key @ ''Call '' @ name @ '' to start signup, then finish with the verify method '' @ em_dash
     @ '' the key is then stored locally under ~/.pilot and injected on every call automatically.''"

definition default_hint :: "string \<Rightarrow> string" where
  "default_hint name =
     no_key @ ''Call '' @ name @ '' once (no arguments required) to provision a free account and managed inbox '' @ em_dash
     @ '' the key is then stored locally under ~/.pilot and injected on every call automatically; you never pass it.''"

definition starts_here :: "string \<Rightarrow> app_method \<Rightarrow> bool" where
  "starts_here name m \<longleftrightarrow> (case method_save_key m of None \<Rightarrow> False | Some sk \<Rightarrow> name = sk_start sk \<or> name = am_name m)"

fun signup_route_hint :: "string \<Rightarrow> app_method list \<Rightarrow> string" where
  "signup_route_hint name [] = default_hint name"
| "signup_route_hint name (m # ms) =
     (case am_signup m of
        None \<Rightarrow> signup_route_hint name ms
      | Some s \<Rightarrow>
          if am_name m \<noteq> name then signup_route_hint name ms
          else if is_set_key s then set_key_hint name s
          else if equal_fold (su_step s) ''register'' then register_hint name
          else signup_route_hint name ms)"

definition signup_hint :: "config \<Rightarrow> string" where
  "signup_hint c =
     (let name = signup_method_name c in
      case find (starts_here name) (co_methods c) of
        Some m \<Rightarrow> save_key_hint c name m
      | None \<Rightarrow> signup_route_hint name (co_methods c))"

section \<open>The cap of a payment\<close>

text \<open>MaxAtomic: a decimal text in units of 10^-6, cut after six places.\<close>

definition max_atomic :: "string \<Rightarrow> string" where
  "max_atomic raw =
     (let s = trim_space raw in
      if s = [] then []
      else let (whole, frac) = (case cut_at CHR ''.'' s of None \<Rightarrow> (s, []) | Some (a, b) \<Rightarrow> (a, b));
               out = dropWhile (\<lambda>c. c = CHR ''0'') (whole @ take 6 (frac @ replicate (6 - length frac) CHR ''0''))
           in if out = [] then ''0'' else out)"

section \<open>Where a parameter goes\<close>

text \<open>resolveParamLocs: the names of the path first, then the explicit locations in sorted order.\<close>

definition located :: "http_route \<Rightarrow> string \<Rightarrow> string list" where
  "located h l =
     filter (\<lambda>n. n \<notin> set (path_param_names (hr_path h)) \<and> map_of (hr_param_in h) n = Some l) (sorted_keys (hr_param_in h))"

definition is_raw :: "http_route \<Rightarrow> string \<Rightarrow> bool" where
  "is_raw h n \<longleftrightarrow> map_of (hr_param_in h) n = Some ''path_raw''"

definition resolve_param_locs :: "http_route \<Rightarrow> http_route" where
  "resolve_param_locs h =
     h\<lparr>hr_path_params := filter (\<lambda>n. \<not> is_raw h n) (path_param_names (hr_path h)),
       hr_raw_path_params := filter (is_raw h) (path_param_names (hr_path h)),
       hr_query_params := located h ''query'', hr_body_params := located h ''body'', hr_header_params := located h ''header'',
       hr_body_raw := (case located h ''body_raw'' of [] \<Rightarrow> [] | ns \<Rightarrow> last ns)\<rparr>"

section \<open>Resolve\<close>

definition or_else :: "string \<Rightarrow> string \<Rightarrow> string" where
  "or_else s d = (if s = [] then d else s)"

text \<open>The last segment of an id.\<close>

definition id_tail :: "string \<Rightarrow> string" where
  "id_tail i = after_last CHR ''.'' i"

definition env_name :: "string \<Rightarrow> string" where
  "env_name ns = to_upper (map (\<lambda>c. if c = CHR ''-'' \<or> c = CHR ''.'' then CHR ''_'' else c) ns)"

definition titled :: "string \<Rightarrow> string" where
  "titled s = to_upper (take 1 s) @ drop 1 s"

definition resolve_asset :: "config \<Rightarrow> asset \<Rightarrow> asset" where
  "resolve_asset c a =
     (if ba_url a = [] \<and> ba_file a \<noteq> [] then a\<lparr>ba_url := derived_asset_url c (ba_file a) (ba_os a) (ba_arch a)\<rparr> else a)"

definition resolve_x402 :: "x402_spec \<Rightarrow> x402_spec" where
  "resolve_x402 x =
     x\<lparr>xs_payer := or_else (xs_payer x) ''io.pilot.wallet'', xs_method := or_else (xs_method x) ''wallet.evm.satisfy'',
       xs_grant := or_else (xs_grant x) ''io.pilot.wallet.evm.satisfy'',
       xs_networks := (if xs_networks x = [] then [''base''] else xs_networks x), xs_asset := or_else (xs_asset x) ''USDC''\<rparr>"

text \<open>The defaults of the spec's own fields, in the code's order: the later ones use the earlier.\<close>

definition resolve_names :: "config \<Rightarrow> config" where
  "resolve_names c =
     (let ns = (if co_namespace c = [] then id_tail (co_id c) else co_namespace c);
          bin = or_else (co_binary_name c) (ns @ ''-app'');
          b = co_backend c; l = co_listing c
      in c\<lparr>co_manifest_version := (if co_manifest_version c = 0 then 1 else co_manifest_version c),
           co_namespace := ns, co_binary_name := bin,
           co_go_module := or_else (co_go_module c) (''github.com/pilot-protocol/'' @ bin),
           co_app_store_module := or_else (co_app_store_module c) default_app_store_module,
           co_key_file := or_else (co_key_file c) (ns @ ''-publisher.key''),
           co_backend := b\<lparr>ab_type := or_else (ab_type b) ''http'', ab_env_prefix := or_else (ab_env_prefix b) (env_name ns),
              ab_x402 := map_option resolve_x402 (ab_x402 b)\<rparr>,
           co_listing := (if li_display_name l = [] \<and> ns \<noteq> [] then l\<lparr>li_display_name := titled ns\<rparr> else l),
           co_rate_per_min := (if co_rate_per_min c = 0 then 120 else co_rate_per_min c),
           co_artifact_base := or_else (co_artifact_base c) default_artifact_base\<rparr>)"

definition resolve_assets :: "config \<Rightarrow> config" where
  "resolve_assets c = c\<lparr>co_assets := map (resolve_asset c) (co_assets c)\<rparr>"

definition resolve_multipart :: "multipart_route \<Rightarrow> multipart_route" where
  "resolve_multipart p =
     p\<lparr>mu_file_field := or_else (mu_file_field p) default_file_field, mu_blob_param := or_else (mu_blob_param p) default_blob_param,
       mu_max_bytes := (if mu_max_bytes p = 0 then default_max_blob else mu_max_bytes p)\<rparr>"

definition multipart_defaults :: "app_method \<Rightarrow> app_method" where
  "multipart_defaults m = m\<lparr>am_http := map_option (\<lambda>h. h\<lparr>hr_multipart := map_option resolve_multipart (hr_multipart h)\<rparr>) (am_http m)\<rparr>"

definition blank_method :: app_method where
  "blank_method = \<lparr>am_name = [], am_summary = [], am_kind = [], am_duration = [], am_timeout = [], am_http = None, am_cli = None,
     am_local = None, am_signup = None, am_upload = None, am_mcp = None, am_params = [], am_roundtrip = [], am_gated = [], am_billable = []\<rparr>"

definition blank_route :: http_route where
  "blank_route = \<lparr>hr_verb = [], hr_path = [], hr_capture_to = [], hr_public = False, hr_save_key = None, hr_multipart = None,
     hr_param_in = [], hr_path_params = [], hr_raw_path_params = [], hr_header_params = [], hr_query_params = [],
     hr_body_params = [], hr_body_raw = []\<rparr>"

text \<open>A method is appended unless one has its name.\<close>

definition add_method :: "app_method \<Rightarrow> app_method list \<Rightarrow> app_method list" where
  "add_method m ms = (if list_ex (\<lambda>x. am_name x = am_name m) ms then ms else ms @ [m])"

text \<open>The three staging methods of an app with uploads; their long help texts are the argument \<open>txt\<close>.\<close>

definition upload_method :: "(string \<Rightarrow> string) \<Rightarrow> string \<Rightarrow> string \<Rightarrow> app_method" where
  "upload_method txt ns step =
     blank_method\<lparr>am_name := ns @ ''.upload_'' @ step, am_summary := txt step, am_kind := ''utility'', am_duration := ''fast'',
       am_upload := Some step\<rparr>"

definition balance_method :: "(string \<Rightarrow> string) \<Rightarrow> string \<Rightarrow> app_method" where
  "balance_method txt ns =
     blank_method\<lparr>am_name := ns @ ''.balance'', am_summary := txt ''balance'', am_kind := ''meta'', am_duration := ''fast'',
       am_http := Some (blank_route\<lparr>hr_verb := ''GET'', hr_path := balance_meta_path\<rparr>)\<rparr>"

definition resolve_signup :: "signup_route \<Rightarrow> signup_route" where
  "resolve_signup s =
     (let step = to_lower (or_else (su_step s) ''register'');
          s1 = s\<lparr>su_step := step\<rparr>
      in s1\<lparr>su_key_path := or_else (su_key_path s) (if is_create s1 then ''data.api_key'' else ''application.api_key''),
            su_address_path := (if is_create s1 \<and> su_address_path s = [] then ''data.address'' else su_address_path s),
            su_email_key := or_else (su_email_key s) ''ACCOUNT_EMAIL'', su_password_key := or_else (su_password_key s) ''ACCOUNT_PASSWORD''\<rparr>)"

definition resolve_route :: "http_route \<Rightarrow> http_route" where
  "resolve_route h = resolve_param_locs (h\<lparr>hr_verb := to_upper (or_else (hr_verb h) ''GET'')\<rparr>)"

definition resolve_method :: "app_method \<Rightarrow> app_method" where
  "resolve_method m =
     m\<lparr>am_kind := or_else (am_kind m) ''utility'', am_duration := or_else (am_duration m) ''fast'',
       am_http := map_option resolve_route (am_http m), am_signup := map_option resolve_signup (am_signup m)\<rparr>"

definition inject_methods :: "(string \<Rightarrow> string) \<Rightarrow> config \<Rightarrow> config" where
  "inject_methods txt c =
     (let c1 = c\<lparr>co_methods := map multipart_defaults (co_methods c)\<rparr>; ns = co_namespace c;
          ms1 = (if has_multipart c1
                 then add_method (upload_method txt ns ''abort'') (add_method (upload_method txt ns ''chunk'')
                        (add_method (upload_method txt ns ''begin'') (co_methods c1)))
                 else co_methods c1);
          ms2 = (if managed c \<and> \<not> provisioned c then add_method (balance_method txt ns) ms1 else ms1)
      in c\<lparr>co_methods := ms2\<rparr>)"

definition resolve_config :: "(string \<Rightarrow> string) \<Rightarrow> config \<Rightarrow> config" where
  "resolve_config txt c0 =
     (let c = inject_methods txt (resolve_assets (resolve_names c0)) in c\<lparr>co_methods := map resolve_method (co_methods c)\<rparr>)"

end
