(* ===== verification/Scaffold_Assets.thy ===== *)
theory Scaffold_Assets
  imports Scaffold "HOL-Library.Product_Lexorder" "HOL-Library.Multiset"
begin

text \<open>
  The install order of an app's assets on one platform (ResolveAssets of internal/scaffold/config.go):
  Kahn's algorithm over the dependency names, the least order and name first among what is ready. It
  yields an order exactly when the names are distinct, every dependency is known and there is no
  cycle, and then a permutation in which every asset follows what it depends on.
\<close>

section \<open>The code\<close>

datatype asset_err = UnknownDep string string | DepCycle

definition asset_platforms :: "asset list \<Rightarrow> (string \<times> string) list" where
  "asset_platforms as =
     fold (\<lambda>a out. if list_ex (\<lambda>p. fst p @ ''/'' @ snd p = ba_os a @ ''/'' @ ba_arch a) out then out else out @ [(ba_os a, ba_arch a)]) as []"

definition on_platform :: "string \<Rightarrow> string \<Rightarrow> asset list \<Rightarrow> asset list" where
  "on_platform os arch as = filter (\<lambda>a. ba_os a = os \<and> ba_arch a = arch) as"

text \<open>The number of dependencies by name, zero where the map has no entry; the first unknown one is an error.\<close>

fun count_deps :: "string list \<Rightarrow> (string \<Rightarrow> int) \<Rightarrow> string \<Rightarrow> string list \<Rightarrow> asset_err + (string \<Rightarrow> int)" where
  "count_deps names f n [] = Inr f"
| "count_deps names f n (d # ds) =
     (if d \<notin> set names then Inl (UnknownDep n d) else count_deps names (f(n := f n + 1)) n ds)"

fun count_all :: "string list \<Rightarrow> (string \<Rightarrow> int) \<Rightarrow> asset list \<Rightarrow> asset_err + (string \<Rightarrow> int)" where
  "count_all names f [] = Inr f"
| "count_all names f (a # as) =
     (case count_deps names f (asset_name a) (ba_deps a) of Inl e \<Rightarrow> Inl e | Inr g \<Rightarrow> count_all names g as)"

definition ready_assets :: "(string \<Rightarrow> int) \<Rightarrow> asset list \<Rightarrow> asset list" where
  "ready_assets f plat = sort_key (\<lambda>a. (ba_order a, asset_name a)) (filter (\<lambda>a. f (asset_name a) = 0) plat)"

definition free_dependents :: "string \<Rightarrow> asset list \<Rightarrow> (string \<Rightarrow> int) \<Rightarrow> (string \<Rightarrow> int)" where
  "free_dependents n plat f =
     fold (\<lambda>a f. fold (\<lambda>d f. if d = n then f(asset_name a := f (asset_name a) - 1) else f) (ba_deps a) f) plat f"

function install_loop :: "asset list \<Rightarrow> (string \<Rightarrow> int) \<Rightarrow> asset list \<Rightarrow> asset_err + asset list" where
  "install_loop plat f out =
     (if length plat \<le> length out then Inr out
      else case ready_assets f plat of
             [] \<Rightarrow> Inl DepCycle
           | a # _ \<Rightarrow> install_loop plat (free_dependents (asset_name a) plat (f(asset_name a := -1))) (out @ [a]))"
  by pat_completeness auto
termination by (relation "measure (\<lambda>(plat, f, out). length plat - length out)") auto

declare install_loop.simps [simp del]

definition resolve_order :: "asset list \<Rightarrow> string \<Rightarrow> string \<Rightarrow> asset_err + asset list" where
  "resolve_order as os arch =
     (let plat = on_platform os arch as in
      case count_all (map asset_name plat) (\<lambda>_. 0) plat of Inl e \<Rightarrow> Inl e | Inr f \<Rightarrow> install_loop plat f [])"

section \<open>Counting what is unmet\<close>

fun uses_of :: "(string \<Rightarrow> bool) \<Rightarrow> string \<Rightarrow> asset list \<Rightarrow> int" where
  "uses_of P n [] = 0"
| "uses_of P n (a # as) = (if asset_name a = n then int (count_if P (ba_deps a)) else 0) + uses_of P n as"

lemma uses_of_pos: "0 \<le> uses_of P n as"
  by (induction as) simp_all

lemma count_if_zero: "count_if P xs = 0 \<longleftrightarrow> (\<forall>x \<in> set xs. \<not> P x)"
  by (induction xs) auto

lemma uses_zero_iff:
  "uses_of P n as = 0 \<longleftrightarrow> (\<forall>a \<in> set as. asset_name a = n \<longrightarrow> (\<forall>d \<in> set (ba_deps a). \<not> P d))"
proof (induction as)
  case (Cons a as)
  then show ?case using uses_of_pos[of P n as] count_if_zero[of P "ba_deps a"] by (auto simp: add_nonneg_eq_0_iff)
qed simp

lemma uses_of_split: "uses_of P n as = uses_of (\<lambda>d. P d \<and> d \<noteq> m) n as + (if P m then uses_of (\<lambda>d. d = m) n as else 0)"
proof -
  have "count_if P ds = count_if (\<lambda>d. P d \<and> d \<noteq> m) ds + (if P m then count_if (\<lambda>d. d = m) ds else 0)" for ds
    by (induction ds) auto
  then show ?thesis by (induction as) auto
qed

lemma count_deps_result:
  "count_deps names f n ds = Inr g \<longleftrightarrow> set ds \<subseteq> set names \<and> g = f(n := f n + int (length ds))"
proof (induction names f n ds rule: count_deps.induct)
  case (2 names f n d ds)
  have e: "(f(n := f n + 1))(n := (f(n := f n + 1)) n + int (length ds)) = f(n := f n + int (length (d # ds)))"
    by (simp add: fun_eq_iff)
  show ?case
  proof (cases "d \<in> set names")
    case True
    then have "(count_deps names (f(n := f n + 1)) n ds = Inr g) = (set ds \<subseteq> set names \<and> g = f(n := f n + int (length (d # ds))))"
      using 2 unfolding e by blast
    then show ?thesis using True by (simp del: fun_upd_apply)
  qed simp
qed auto

definition deps_known :: "asset list \<Rightarrow> bool" where
  "deps_known plat \<longleftrightarrow> (\<forall>a \<in> set plat. set (ba_deps a) \<subseteq> set (map asset_name plat))"

lemma count_all_result:
  "count_all names f as = Inr g \<longleftrightarrow>
     (\<forall>a \<in> set as. set (ba_deps a) \<subseteq> set names) \<and> g = (\<lambda>n. f n + uses_of (\<lambda>_. True) n as)"
proof (induction names f as rule: count_all.induct)
  case (2 names f a as)
  have [simp]: "count_if (\<lambda>_. True) ds = length ds" for ds :: "string list" by (simp add: count_if_def)
  show ?case
  proof (cases "set (ba_deps a) \<subseteq> set names")
    case True
    then have c: "count_deps names f (asset_name a) (ba_deps a) = Inr (f(asset_name a := f (asset_name a) + int (length (ba_deps a))))"
      by (simp add: count_deps_result)
    show ?thesis using True by (simp add: c 2[OF c]) (auto simp: fun_eq_iff)
  next
    case False
    then have "\<not> (\<exists>h. count_deps names f (asset_name a) (ba_deps a) = Inr h)" by (simp add: count_deps_result)
    then show ?thesis using False by (auto split: sum.splits)
  qed
qed auto

lemma free_dependents_result: "free_dependents n plat f = (\<lambda>k. f k - uses_of (\<lambda>d. d = n) k plat)"
proof -
  have one: "fold (\<lambda>d f. if d = n then f(k := f k - 1) else f) ds f = f(k := f k - int (count_if (\<lambda>d. d = n) ds))"
    for k ds and f :: "string \<Rightarrow> int"
    by (induction ds arbitrary: f) (auto simp: fun_eq_iff)
  show ?thesis unfolding free_dependents_def one by (induction plat arbitrary: f) (auto simp: fun_eq_iff)
qed

section \<open>The loop\<close>

text \<open>What holds before each round: the installed names are distinct and below zero, and every other name counts its
  dependencies that are not installed.\<close>

definition loop_inv :: "asset list \<Rightarrow> (string \<Rightarrow> int) \<Rightarrow> asset list \<Rightarrow> bool" where
  "loop_inv plat f out \<longleftrightarrow>
     distinct (map asset_name out) \<and> set out \<subseteq> set plat \<and>
     (\<forall>n. if n \<in> set (map asset_name out) then f n < 0 else f n = uses_of (\<lambda>d. d \<notin> set (map asset_name out)) n plat)"

text \<open>Every asset follows its dependencies, and is the least that was ready when it was chosen.\<close>

definition ready_after :: "asset list \<Rightarrow> asset list \<Rightarrow> asset \<Rightarrow> bool" where
  "ready_after plat out a \<longleftrightarrow> a \<in> set plat \<and> asset_name a \<notin> set (map asset_name out) \<and>
     (\<forall>b \<in> set plat. asset_name b = asset_name a \<longrightarrow> set (ba_deps b) \<subseteq> set (map asset_name out))"

definition install_key :: "asset \<Rightarrow> int \<times> string" where
  "install_key a = (ba_order a, asset_name a)"

definition chosen_next :: "asset list \<Rightarrow> asset list \<Rightarrow> asset \<Rightarrow> bool" where
  "chosen_next plat out a \<longleftrightarrow> ready_after plat out a \<and> (\<forall>b. ready_after plat out b \<longrightarrow> install_key a \<le> install_key b)"

fun ordered_from :: "asset list \<Rightarrow> asset list \<Rightarrow> asset list \<Rightarrow> bool" where
  "ordered_from plat out [] = True"
| "ordered_from plat out (a # as) = (chosen_next plat out a \<and> ordered_from plat (out @ [a]) as)"

lemma ready_iff:
  assumes "loop_inv plat f out"
  shows "a \<in> set plat \<and> f (asset_name a) = 0 \<longleftrightarrow> ready_after plat out a"
proof (cases "asset_name a \<in> set (map asset_name out)")
  case True
  then have "f (asset_name a) < 0" using assms by (auto simp: loop_inv_def)
  then show ?thesis using True by (auto simp: ready_after_def)
next
  case False
  then have "f (asset_name a) = uses_of (\<lambda>d. d \<notin> set (map asset_name out)) (asset_name a) plat"
    using assms unfolding loop_inv_def by metis
  then show ?thesis using False by (auto simp: ready_after_def uses_zero_iff)
qed

lemma loop_step:
  assumes inv: "loop_inv plat f out" and r: "ready_after plat out a"
  shows "loop_inv plat (free_dependents (asset_name a) plat (f(asset_name a := -1))) (out @ [a])"
proof -
  let ?n = "asset_name a" and ?done = "set (map asset_name out)"
  have fresh: "?n \<notin> ?done" "a \<in> set plat" using r by (auto simp: ready_after_def)
  have split_off: "uses_of (\<lambda>d. d \<notin> ?done) k plat = uses_of (\<lambda>d. d \<notin> ?done \<and> d \<noteq> ?n) k plat + uses_of (\<lambda>d. d = ?n) k plat" for k
    using uses_of_split[of "\<lambda>d. d \<notin> ?done" k plat ?n] fresh(1) by simp
  have rest: "(\<lambda>d. d \<notin> ?done \<and> d \<noteq> ?n) = (\<lambda>d. d \<notin> set (map asset_name (out @ [a])))" by auto
  have "uses_of (\<lambda>d. d \<notin> set (map asset_name (out @ [a]))) k plat =
      uses_of (\<lambda>d. d \<notin> ?done) k plat - uses_of (\<lambda>d. d = ?n) k plat" for k
    using split_off[of k] unfolding rest by linarith
  then have u: "uses_of (\<lambda>d. d = ?n) k plat = uses_of (\<lambda>d. d \<notin> ?done) k plat - uses_of (\<lambda>d. d \<notin> set (map asset_name (out @ [a]))) k plat"
    for k by (simp add: algebra_simps)
  have "if k \<in> set (map asset_name (out @ [a])) then (f(?n := -1)) k - uses_of (\<lambda>d. d = ?n) k plat < 0
      else (f(?n := -1)) k - uses_of (\<lambda>d. d = ?n) k plat = uses_of (\<lambda>d. d \<notin> set (map asset_name (out @ [a]))) k plat" for k
  proof (cases "k \<in> set (map asset_name (out @ [a]))")
    case True
    then have "(f(?n := -1)) k < 0" using inv by (auto simp: loop_inv_def)
    then show ?thesis using True uses_of_pos[of "\<lambda>d. d = ?n" k plat] by simp
  next
    case False
    then have "f k = uses_of (\<lambda>d. d \<notin> ?done) k plat" "k \<noteq> ?n" using inv by (auto simp: loop_inv_def)
    then show ?thesis using False u[of k] by simp
  qed
  moreover have "distinct (map asset_name (out @ [a]))" "set (out @ [a]) \<subseteq> set plat"
    using inv fresh by (auto simp: loop_inv_def)
  ultimately show ?thesis unfolding loop_inv_def free_dependents_result by blast
qed

lemma ready_set: "set (ready_assets f plat) = {b. b \<in> set plat \<and> f (asset_name b) = 0}"
  by (auto simp: ready_assets_def)

lemma ready_sorted: "sorted (map install_key (ready_assets f plat))"
  using sorted_sort_key[of install_key] by (simp add: ready_assets_def install_key_def[abs_def])

lemma ready_none: "loop_inv plat f out \<Longrightarrow> ready_assets f plat = [] \<longleftrightarrow> (\<nexists>a. ready_after plat out a)"
  using ready_iff[of plat f out] ready_set[of f plat] by (metis (mono_tags, lifting) empty_iff list.set(1) list.set_intros(1) mem_Collect_eq neq_Nil_conv)

text \<open>The least of the ready assets is what the sorted list begins with.\<close>

lemma ready_hd:
  assumes "loop_inv plat f out" "ready_assets f plat = a # as"
  shows "chosen_next plat out a"
proof -
  note i = ready_iff[OF assms(1)]
  have "a \<in> set plat \<and> f (asset_name a) = 0" using ready_set[of f plat] assms(2) by auto
  then have "ready_after plat out a" unfolding i .
  moreover have "install_key a \<le> install_key b" if "ready_after plat out b" for b
  proof -
    have "b \<in> set (a # as)" using that i ready_set[of f plat] assms(2) by auto
    then show ?thesis using ready_sorted[of f plat] assms(2) by auto
  qed
  ultimately show ?thesis by (simp add: chosen_next_def)
qed

lemma install_loop_ordered:
  "loop_inv plat f out \<Longrightarrow> install_loop plat f out = Inr res \<Longrightarrow>
   \<exists>rest. res = out @ rest \<and> ordered_from plat out rest \<and> distinct (map asset_name res) \<and> set res \<subseteq> set plat \<and> length plat \<le> length res"
proof (induction plat f out rule: install_loop.induct)
  case (1 plat f out)
  show ?case
  proof (cases "length plat \<le> length out")
    case True
    then show ?thesis using 1(2,3) by (simp add: install_loop.simps[of plat f out] loop_inv_def)
  next
    case False
    then obtain a as where r: "ready_assets f plat = a # as"
      "install_loop plat (free_dependents (asset_name a) plat (f(asset_name a := -1))) (out @ [a]) = Inr res"
      using 1(3) by (auto simp: install_loop.simps[of plat f out] split: list.splits)
    note c = ready_hd[OF 1(2) r(1)]
    then have "loop_inv plat (free_dependents (asset_name a) plat (f(asset_name a := -1))) (out @ [a])"
      using loop_step[OF 1(2)] by (simp add: chosen_next_def)
    from 1(1)[OF False r(1) this r(2)] c show ?thesis by fastforce
  qed
qed

section \<open>When there is an order\<close>

definition dep_rel :: "asset list \<Rightarrow> (string \<times> string) set" where
  "dep_rel plat = {(d, asset_name a) | a d. a \<in> set plat \<and> d \<in> set (ba_deps a)}"

definition orderable :: "asset list \<Rightarrow> bool" where
  "orderable plat \<longleftrightarrow> distinct (map asset_name plat) \<and> deps_known plat \<and> acyclic (dep_rel plat)"

lemma dep_rel_finite: "finite (dep_rel plat)"
proof -
  have "dep_rel plat = (\<Union>a \<in> set plat. (\<lambda>d. (d, asset_name a)) ` set (ba_deps a))" by (auto simp: dep_rel_def)
  then show ?thesis by simp
qed

lemma some_missing:
  assumes "distinct (map asset_name plat)" "length out < length plat"
  shows "\<exists>a \<in> set plat. asset_name a \<notin> set (map asset_name out)"
proof (rule ccontr)
  assume "\<not> ?thesis"
  then have "set (map asset_name plat) \<subseteq> set (map asset_name out)" by auto
  then have "card (set (map asset_name plat)) \<le> length out" using card_mono card_length le_trans length_map finite_set by metis
  then show False using assms distinct_card[OF assms(1)] by simp
qed

lemma some_ready:
  assumes "orderable plat" "length out < length plat"
  shows "\<exists>a. ready_after plat out a"
proof -
  let ?Q = "set (map asset_name plat) - set (map asset_name out)"
  have "wf (dep_rel plat)" using assms(1) finite_acyclic_wf[OF dep_rel_finite] by (simp add: orderable_def)
  moreover obtain x where "x \<in> ?Q" using some_missing[of plat out] assms by (auto simp: orderable_def)
  ultimately obtain n where n: "n \<in> ?Q" "\<And>d. (d, n) \<in> dep_rel plat \<Longrightarrow> d \<notin> ?Q" using wfE_min by metis
  have "set (ba_deps b) \<subseteq> set (map asset_name out)" if "b \<in> set plat" "asset_name b = n" for b
  proof
    fix d assume "d \<in> set (ba_deps b)"
    then have "(d, n) \<in> dep_rel plat" "d \<in> set (map asset_name plat)"
      using that assms(1) by (auto simp: dep_rel_def orderable_def deps_known_def)
    then show "d \<in> set (map asset_name out)" using n(2) by blast
  qed
  moreover obtain a where "a \<in> set plat" "asset_name a = n" using n(1) by auto
  ultimately show ?thesis using n(1) by (auto simp: ready_after_def)
qed

lemma install_loop_total: "loop_inv plat f out \<Longrightarrow> orderable plat \<Longrightarrow> \<exists>res. install_loop plat f out = Inr res"
proof (induction plat f out rule: install_loop.induct)
  case (1 plat f out)
  show ?case
  proof (cases "length plat \<le> length out")
    case False
    then obtain a as where r: "ready_assets f plat = a # as"
      using some_ready[OF 1(3)] ready_none[OF 1(2)] by (cases "ready_assets f plat") auto
    have "loop_inv plat (free_dependents (asset_name a) plat (f(asset_name a := -1))) (out @ [a])"
      using loop_step[OF 1(2)] ready_hd[OF 1(2) r] by (simp add: chosen_next_def)
    from 1(1)[OF False r this 1(3)] False r show ?thesis by (simp add: install_loop.simps[of plat f out])
  qed (simp add: install_loop.simps[of plat f out])
qed

lemma ordered_split:
  "ordered_from plat out rest \<Longrightarrow> a \<in> set rest \<Longrightarrow> \<exists>pre post. rest = pre @ a # post \<and> ready_after plat (out @ pre) a"
proof (induction rest arbitrary: out)
  case (Cons b bs)
  show ?case
  proof (cases "a = b")
    case True
    then show ?thesis using Cons.prems(1) by (intro exI[of _ "[]"] exI[of _ bs]) (simp add: chosen_next_def)
  next
    case False
    then obtain pre post where "bs = pre @ a # post" "ready_after plat ((out @ [b]) @ pre) a"
      using Cons.IH[of "out @ [b]"] Cons.prems by auto
    then show ?thesis by (intro exI[of _ "b # pre"] exI[of _ post]) simp
  qed
qed simp

definition name_pos :: "asset list \<Rightarrow> string \<Rightarrow> nat" where
  "name_pos as n = length (takeWhile (\<lambda>x. x \<noteq> n) (map asset_name as))"

lemma takeWhile_before: "x \<in> set xs \<Longrightarrow> length (takeWhile (\<lambda>y. y \<noteq> x) (xs @ ys)) < length xs"
  by (induction xs) auto

lemma ordered_positions:
  assumes "ordered_from plat [] res" "a \<in> set res" "d \<in> set (ba_deps a)"
  shows "name_pos res d < name_pos res (asset_name a)"
proof -
  obtain pre post where s: "res = pre @ a # post" "ready_after plat pre a" using ordered_split[OF assms(1,2)] by auto
  then have "d \<in> set (map asset_name pre)" "asset_name a \<notin> set (map asset_name pre)"
    using assms(3) by (auto simp: ready_after_def)
  moreover have names: "map asset_name res = map asset_name pre @ asset_name a # map asset_name post" using s(1) by simp
  ultimately have "name_pos res d < length (map asset_name pre)"
    unfolding name_pos_def names by (intro takeWhile_before)
  moreover have "takeWhile (\<lambda>x. x \<noteq> asset_name a) (map asset_name res) = map asset_name pre"
    unfolding names using \<open>asset_name a \<notin> set (map asset_name pre)\<close> by (subst takeWhile_append2) (auto simp: image_iff)
  ultimately show ?thesis unfolding name_pos_def by simp
qed

lemma ordered_orderable:
  assumes "ordered_from plat [] res" "set res = set plat" "distinct (map asset_name plat)"
  shows "orderable plat"
proof -
  have "deps_known plat"
    unfolding deps_known_def
  proof (intro ballI subsetI)
    fix a d assume "a \<in> set plat" "d \<in> set (ba_deps a)"
    then obtain pre post where "res = pre @ a # post" "ready_after plat pre a"
      using ordered_split[OF assms(1), of a] assms(2) by auto
    then have "d \<in> set (map asset_name pre)" "set pre \<subseteq> set plat"
      using \<open>d \<in> set (ba_deps a)\<close> \<open>a \<in> set plat\<close> assms(2) by (auto simp: ready_after_def)
    then show "d \<in> set (map asset_name plat)" by auto
  qed
  moreover have "dep_rel plat \<subseteq> measure (name_pos res)"
    using ordered_positions[OF assms(1)] assms(2) by (auto simp: dep_rel_def)
  then have "acyclic (dep_rel plat)" using wf_acyclic[OF wf_subset[OF wf_measure]] by blast
  ultimately show ?thesis using assms(3) by (simp add: orderable_def)
qed

lemma resolve_order_exact:
  "case resolve_order as os arch of
     Inl e \<Rightarrow> \<not> orderable (on_platform os arch as)
   | Inr out \<Rightarrow> orderable (on_platform os arch as) \<and> mset out = mset (on_platform os arch as) \<and>
       ordered_from (on_platform os arch as) [] out"
proof -
  define plat where "plat = on_platform os arch as"
  let ?f = "\<lambda>n. 0 + uses_of (\<lambda>_. True) n plat"
  have start: "loop_inv plat ?f []" by (simp add: loop_inv_def)
  have count: "count_all (map asset_name plat) (\<lambda>_. 0) plat = Inr g \<longleftrightarrow> deps_known plat \<and> g = ?f" for g
    by (simp only: count_all_result deps_known_def)
  show ?thesis
  proof (cases "resolve_order as os arch")
    case (Inl e)
    have "\<not> orderable plat"
    proof
      assume o1: "orderable plat"
      then have "count_all (map asset_name plat) (\<lambda>_. 0) plat = Inr ?f" using count by (simp add: orderable_def)
      moreover obtain res where "install_loop plat ?f [] = Inr res" using install_loop_total[OF start o1] by blast
      ultimately show False using Inl by (simp add: resolve_order_def plat_def[symmetric])
    qed
    then show ?thesis using Inl by (simp add: plat_def)
  next
    case (Inr out)
    then obtain g where g: "count_all (map asset_name plat) (\<lambda>_. 0) plat = Inr g" "install_loop plat g [] = Inr out"
      by (auto simp: resolve_order_def plat_def[symmetric] split: sum.splits)
    then have "g = ?f" using count[of g] by blast
    with g have "install_loop plat ?f [] = Inr out" by simp
    from install_loop_ordered[OF start this]
    have res: "ordered_from plat [] out" "distinct (map asset_name out)" "set out \<subseteq> set plat" "length plat \<le> length out" by auto
    have "length out = card (set (map asset_name out))" using distinct_card[OF res(2)] by simp
    also have "\<dots> \<le> card (set (map asset_name plat))" using res(3) by (intro card_mono) auto
    finally have le: "length out \<le> card (set (map asset_name plat))" .
    then have c: "card (set (map asset_name plat)) = length (map asset_name plat)"
      using res(4) card_length[of "map asset_name plat"] by simp
    then have d: "distinct (map asset_name plat)" by (rule card_distinct)
    have m: "mset out = mset plat"
    proof (rule multiset_eqI)
      have "distinct out" "distinct plat" using res(2) d by (simp_all add: distinct_map)
      moreover from this have "set out = set plat"
        using res(3,4) le c card_subset_eq[of "set plat" "set out"] by (simp add: distinct_card)
      ultimately show "count (mset out) x = count (mset plat) x" for x using set_eq_iff_mset_eq_distinct by metis
    qed
    moreover have "orderable plat" using ordered_orderable[OF res(1) _ d] m mset_eq_setD by blast
    ultimately show ?thesis using Inr res(1) by (simp add: plat_def)
  qed
qed

section \<open>Properties\<close>

text \<open>C22: The assets of a platform get an install order exactly when their names are distinct, each dependency names
  one of them and there is no cycle; the order is then a permutation of them in which each asset comes
  after all it depends on and is, among what could be installed at that point, the first by order
  number and name. The loop always ends.\<close>

theorem asset_order_exact:
  "case resolve_order as os arch of
     Inl e \<Rightarrow> \<not> orderable (on_platform os arch as)
   | Inr out \<Rightarrow> orderable (on_platform os arch as) \<and> mset out = mset (on_platform os arch as) \<and>
       ordered_from (on_platform os arch as) [] out"
  by (rule resolve_order_exact)

end
