(* ===== verification/Scaffold_Resolve.thy ===== *)
theory Scaffold_Resolve
  imports Scaffold X402 Identity
begin

text \<open>
  What Resolve of internal/scaffold/config.go leaves: resolving again changes nothing, every parameter has
  one place, the injected methods are there, and a cap in USDC has its value.
\<close>

section \<open>Resolving twice\<close>

lemma or_else_idem [simp]: "or_else (or_else s d) d = or_else s d"
  by (simp add: or_else_def)

lemma chr_case_idem [simp]: "chr_upper (chr_upper c) = chr_upper c" "chr_lower (chr_lower c) = chr_lower c"
  by (auto simp: chr_upper_def chr_lower_def is_lower_chr_def is_upper_chr_def)

lemma case_idem [simp]: "to_upper (to_upper s) = to_upper s" "to_lower (to_lower s) = to_lower s"
  by (simp_all add: to_upper_def to_lower_def)

lemma to_lower_Nil [simp]: "to_lower s = [] \<longleftrightarrow> s = []"
  by (simp add: to_lower_def)

lemma or_else_Nil [simp]: "or_else s d = [] \<longleftrightarrow> s = [] \<and> d = []" "d \<noteq> [] \<Longrightarrow> or_else (or_else s d) e = or_else s d"
  by (simp_all add: or_else_def)

lemma or_else_filled: "s \<noteq> [] \<Longrightarrow> or_else s d = s"
  by (simp add: or_else_def)

lemma or_else_upper [simp]: "or_else (to_upper (or_else s ''GET'')) ''GET'' = to_upper (or_else s ''GET'')"
  by (simp add: or_else_def)

lemma or_else_lower [simp]: "or_else (to_lower (or_else s ''register'')) ''register'' = to_lower (or_else s ''register'')"
  by (simp add: or_else_def)

lemma resolve_names_idem: "resolve_names (resolve_names c) = resolve_names c"
proof -
  have t: "titled s = [] \<longleftrightarrow> s = []" for s by (cases s) (simp_all add: titled_def)
  have x: "resolve_x402 (resolve_x402 x) = resolve_x402 x" for x by (simp add: resolve_x402_def)
  have i: "default_app_store_module \<noteq> []" "default_artifact_base \<noteq> []"
    by (simp_all add: default_app_store_module_def default_artifact_base_def)
  show ?thesis by (simp add: resolve_names_def Let_def t x i option.map_comp comp_def)
qed

lemma resolve_names_frame:
  "resolve_names (c\<lparr>co_assets := bs, co_methods := ms\<rparr>) = (resolve_names c)\<lparr>co_assets := bs, co_methods := ms\<rparr>"
  by (simp add: resolve_names_def Let_def)

lemma resolve_asset_idem [simp]: "resolve_asset c (resolve_asset c a) = resolve_asset c a"
  by (simp add: resolve_asset_def derived_asset_url_def)

lemma resolve_asset_frame [simp]: "resolve_asset (c\<lparr>co_assets := as\<rparr>) a = resolve_asset c a" "resolve_asset (c\<lparr>co_methods := ms\<rparr>) a = resolve_asset c a"
  by (simp_all add: resolve_asset_def derived_asset_url_def)

lemma located_update [simp]: "located (h\<lparr>hr_path_params := x1, hr_raw_path_params := x2, hr_query_params := x3, hr_body_params := x4,
    hr_header_params := x5, hr_body_raw := x6\<rparr>) = located h"
  "is_raw (h\<lparr>hr_path_params := x1, hr_raw_path_params := x2, hr_query_params := x3, hr_body_params := x4,
    hr_header_params := x5, hr_body_raw := x6\<rparr>) = is_raw h"
  "located (h\<lparr>hr_verb := v\<rparr>) = located h" "is_raw (h\<lparr>hr_verb := v\<rparr>) = is_raw h"
  "located (h\<lparr>hr_multipart := p\<rparr>) = located h" "is_raw (h\<lparr>hr_multipart := p\<rparr>) = is_raw h"
  by (simp_all add: located_def is_raw_def fun_eq_iff)

lemma param_locs_idem: "resolve_param_locs (resolve_param_locs h) = resolve_param_locs h"
  by (simp add: resolve_param_locs_def)

lemma param_locs_frame:
  "resolve_param_locs (h\<lparr>hr_verb := v\<rparr>) = (resolve_param_locs h)\<lparr>hr_verb := v\<rparr>"
  "resolve_param_locs (h\<lparr>hr_multipart := p\<rparr>) = (resolve_param_locs h)\<lparr>hr_multipart := p\<rparr>"
  "hr_verb (resolve_param_locs h) = hr_verb h" "hr_multipart (resolve_param_locs h) = hr_multipart h"
  by (simp_all add: resolve_param_locs_def)

lemma resolve_route_idem: "resolve_route (resolve_route h) = resolve_route h"
  by (simp add: resolve_route_def param_locs_frame param_locs_idem)

lemma resolve_signup_idem: "resolve_signup (resolve_signup s) = resolve_signup s"
  by (simp add: resolve_signup_def Let_def is_create_def)

lemma resolve_method_idem: "resolve_method (resolve_method m) = resolve_method m"
  by (simp add: resolve_method_def option.map_comp comp_def resolve_route_idem resolve_signup_idem)

lemma resolve_multipart_idem: "resolve_multipart (resolve_multipart p) = resolve_multipart p"
  by (simp add: resolve_multipart_def default_max_blob_def)

lemma multipart_defaults_idem: "multipart_defaults (multipart_defaults m) = multipart_defaults m"
  by (simp add: multipart_defaults_def option.map_comp comp_def resolve_multipart_idem)

lemma route_multipart_resolve:
  "(resolve_route h)\<lparr>hr_multipart := p\<rparr> = resolve_route (h\<lparr>hr_multipart := p\<rparr>)" "hr_multipart (resolve_route h) = hr_multipart h"
  by (rule http_route.equality) (simp_all add: resolve_route_def param_locs_frame)

lemma multipart_resolve: "multipart_defaults (resolve_method m) = resolve_method (multipart_defaults m)"
  by (rule app_method.equality)
    (simp_all add: multipart_defaults_def resolve_method_def option.map_comp comp_def route_multipart_resolve)

lemma names_kept [simp]: "am_name (resolve_method m) = am_name m" "am_name (multipart_defaults m) = am_name m"
  by (simp_all add: resolve_method_def multipart_defaults_def)

lemma route_multipart_kept: "route_multipart (resolve_method m) = route_multipart m"
  by (cases "am_http m") (simp_all add: route_multipart_def resolve_method_def resolve_route_def param_locs_frame)

lemma injected_plain [simp]:
  "multipart_defaults (upload_method txt ns st) = upload_method txt ns st" "route_multipart (upload_method txt ns st) = None"
  "multipart_defaults (balance_method txt ns) = balance_method txt ns" "route_multipart (balance_method txt ns) = None"
  by (simp_all add: multipart_defaults_def upload_method_def balance_method_def blank_method_def blank_route_def route_multipart_def)

lemma add_method_set: "x \<in> set (add_method m ms) \<Longrightarrow> x = m \<or> x \<in> set ms"
  by (auto simp: add_method_def split: if_splits)

lemma add_method_name: "am_name m \<in> am_name ` set (add_method m ms)" "am_name ` set ms \<subseteq> am_name ` set (add_method m ms)"
  by (auto simp: add_method_def list_ex_iff) (metis imageI)

lemma add_method_present: "am_name m \<in> am_name ` set ms \<Longrightarrow> add_method m ms = ms"
  by (auto simp: add_method_def list_ex_iff)

text \<open>The methods after the injection.\<close>

abbreviation injected :: "(string \<Rightarrow> string) \<Rightarrow> config \<Rightarrow> app_method list" where
  "injected txt c \<equiv> co_methods (inject_methods txt c)"

lemma injected_defaulted: "m \<in> set (injected txt c) \<Longrightarrow> multipart_defaults m = m"
  by (auto simp: inject_methods_def Let_def multipart_defaults_idem split: if_splits dest!: add_method_set)

lemma add_method_ex: "\<not> P m \<Longrightarrow> list_ex P (add_method m ms) = list_ex P ms"
  by (simp add: add_method_def)

lemma injected_multipart: "list_ex (\<lambda>m. route_multipart m \<noteq> None) (injected txt c) \<Longrightarrow>
    list_ex (\<lambda>m. route_multipart m \<noteq> None) (map multipart_defaults (co_methods c))"
  by (simp add: inject_methods_def Let_def add_method_ex split: if_splits)

lemma injected_present:
  assumes "ns = co_namespace c"
  shows "managed c \<Longrightarrow> \<not> provisioned c \<Longrightarrow> am_name (balance_method txt ns) \<in> am_name ` set (injected txt c)"
    and "list_ex (\<lambda>m. route_multipart m \<noteq> None) (injected txt c) \<Longrightarrow> st \<in> {''begin'', ''chunk'', ''abort''} \<Longrightarrow>
      am_name (upload_method txt ns st) \<in> am_name ` set (injected txt c)"
proof -
  show "managed c \<Longrightarrow> \<not> provisioned c \<Longrightarrow> am_name (balance_method txt ns) \<in> am_name ` set (injected txt c)"
    using assms add_method_name(1)[of "balance_method txt ns"] by (simp add: inject_methods_def Let_def)
  assume m: "list_ex (\<lambda>m. route_multipart m \<noteq> None) (injected txt c)" and st: "st \<in> {''begin'', ''chunk'', ''abort''}"
  let ?u = "upload_method txt ns" and ?ms = "map multipart_defaults (co_methods c)"
  let ?all = "add_method (?u ''abort'') (add_method (?u ''chunk'') (add_method (?u ''begin'') ?ms))"
  have "am_name (?u st) \<in> am_name ` set ?all"
    using st add_method_name(1)[of "?u ''abort''" "add_method (?u ''chunk'') (add_method (?u ''begin'') ?ms)"]
      add_method_name(1)[of "?u ''chunk''" "add_method (?u ''begin'') ?ms"] add_method_name(1)[of "?u ''begin''" ?ms]
      add_method_name(2)[of "add_method (?u ''chunk'') (add_method (?u ''begin'') ?ms)" "?u ''abort''"]
      add_method_name(2)[of "add_method (?u ''begin'') ?ms" "?u ''chunk''"] by blast
  moreover have "has_multipart (c\<lparr>co_methods := ?ms\<rparr>)" using injected_multipart[OF m] by (simp add: has_multipart_def)
  ultimately show "am_name (?u st) \<in> am_name ` set (injected txt c)"
    using assms add_method_name(2) by (auto simp: inject_methods_def Let_def subset_iff)
qed

lemma inject_again:
  assumes "co_methods r = map resolve_method (injected txt c)" "co_namespace r = co_namespace c" "co_backend r = co_backend c"
  shows "inject_methods txt r = r"
proof -
  let ?ms = "co_methods r"
  have d: "map multipart_defaults ?ms = ?ms"
    using injected_defaulted[of _ "txt" c] by (simp add: assms(1) multipart_resolve)
  have names: "am_name ` set ?ms = am_name ` set (injected txt c)" by (simp add: assms(1) image_image)
  have mu: "has_multipart r \<longleftrightarrow> list_ex (\<lambda>m. route_multipart m \<noteq> None) (injected txt c)"
    by (simp add: has_multipart_def assms(1) list_ex_iff route_multipart_kept)
  have u: "has_multipart r \<Longrightarrow> st \<in> {''begin'', ''chunk'', ''abort''} \<Longrightarrow> add_method (upload_method txt (co_namespace r) st) ?ms = ?ms" for st
    using injected_present(2)[OF assms(2)] mu names by (intro add_method_present) blast
  have b: "managed r \<Longrightarrow> \<not> provisioned r \<Longrightarrow> add_method (balance_method txt (co_namespace r)) ?ms = ?ms"
    using injected_present(1)[OF assms(2)] names by (intro add_method_present) (simp add: managed_def provisioned_def assms(3))
  have "r\<lparr>co_methods := ?ms\<rparr> = r" by simp
  then show ?thesis using u b by (simp add: inject_methods_def d Let_def)
qed

section \<open>A cap in USDC\<close>

text \<open>What the generated adapter makes of the cap (templates/x402.go.tmpl): big.Int.SetString, whose failure leaves
  no cap.\<close>

definition generated_cap :: "x402_spec \<Rightarrow> int option" where
  "generated_cap x = (if max_atomic (xs_max_usdc x) = [] then None else big_int (max_atomic (xs_max_usdc x)))"

lemma digits_value_acc: "foldl (\<lambda>n c. n * 10 + (int (byte c) - 48)) n s = n * 10 ^ length s + digits_value s"
proof (induction s arbitrary: n)
  case (Cons c s)
  show ?case using Cons[of "n * 10 + (int (byte c) - 48)"] Cons[of "int (byte c) - 48"]
    by (simp add: digits_value_def algebra_simps)
qed (simp add: digits_value_def)

lemma digits_value_append: "digits_value (a @ b) = digits_value a * 10 ^ length b + digits_value b"
  using digits_value_acc[of "digits_value a" b] by (simp add: digits_value_def)

lemma digits_value_bounds: "list_all is_digit s \<Longrightarrow> 0 \<le> digits_value s \<and> digits_value s < 10 ^ length s"
proof (induction s rule: rev_induct)
  case (snoc c s)
  have "digits_value [c] = int (byte c) - 48" by (simp add: digits_value_def)
  moreover have "48 \<le> byte c" "byte c \<le> 57" using snoc.prems by (simp_all add: is_digit_def byte_def)
  ultimately show ?case using snoc by (simp add: digits_value_append)
qed (simp add: digits_value_def)

lemma digits_value_zeros: "digits_value (replicate n CHR ''0'') = 0"
  by (induction n) (simp_all add: digits_value_def byte_def)

lemma digits_value_strip: "digits_value (dropWhile (\<lambda>c. c = CHR ''0'') s) = digits_value s"
  by (induction s) (auto simp: digits_value_def byte_def)

lemma dec_value_digits_value: "list_all is_digit s \<Longrightarrow> dec_value acc s = Some (nat (int acc * 10 ^ length s + digits_value s))"
proof (induction s arbitrary: acc)
  case (Cons c s)
  have "digits_value (c # s) = (int (byte c) - 48) * 10 ^ length s + digits_value s"
    using digits_value_append[of "[c]" s] by (simp add: digits_value_def)
  moreover have "48 \<le> byte c" using Cons.prems by (simp add: is_digit_def byte_def)
  ultimately show ?case using Cons by (simp add: byte_def of_nat_diff algebra_simps)
qed (simp add: digits_value_def)

lemma big_int_digits: "s \<noteq> [] \<Longrightarrow> list_all is_digit s \<Longrightarrow> big_int s = Some (digits_value s)"
  using digits_value_bounds[of s] dec_value_digits_value[of s 0]
  by (cases s) (auto simp: big_int_def dec_nat_def is_digit_def)

lemma six_places:
  assumes "list_all is_digit f"
  shows "digits_value (take 6 (f @ replicate (6 - length f) CHR ''0'')) = digits_value f * 10 ^ 6 div 10 ^ length f"
proof (cases "length f \<le> 6")
  case True
  then have e: "(10::int) ^ 6 = 10 ^ (6 - length f) * 10 ^ length f" by (simp flip: power_add)
  have "digits_value f * 10 ^ 6 div 10 ^ length f = digits_value f * 10 ^ (6 - length f)"
    unfolding e by (simp flip: mult.assoc)
  moreover have "take 6 (f @ replicate (6 - length f) CHR ''0'') = f @ replicate (6 - length f) CHR ''0''" using True by simp
  ultimately show ?thesis by (simp only: digits_value_append digits_value_zeros length_replicate add_0_right)
next
  case False
  let ?k = "length f - 6"
  have "digits_value f = digits_value (take 6 f) * 10 ^ ?k + digits_value (drop 6 f)"
    using digits_value_append[of "take 6 f" "drop 6 f"] False by simp
  moreover have "list_all is_digit (drop 6 f)" using assms by (auto simp: list_all_iff dest: in_set_dropD)
  then have "0 \<le> digits_value (drop 6 f)" "digits_value (drop 6 f) < 10 ^ ?k" using digits_value_bounds[of "drop 6 f"] by simp_all
  ultimately have "digits_value f div 10 ^ ?k = digits_value (take 6 f)" by simp
  moreover have e: "(10::int) ^ length f = 10 ^ ?k * 10 ^ 6" unfolding power_add[symmetric] using False by (intro arg_cong[where f = "(^) 10"]) simp
  have "digits_value f * 10 ^ 6 div 10 ^ length f = digits_value f div 10 ^ ?k"
    unfolding e by (subst (2) mult.commute, subst mult.commute) (rule div_mult_mult1, simp)
  ultimately show ?thesis using False by simp
qed

lemma trim_no_space: "list_all (\<lambda>c. \<not> is_space c) s \<Longrightarrow> trim_space s = s"
proof -
  have d: "list_all (\<lambda>c. \<not> is_space c) t \<Longrightarrow> dropWhile is_space t = t" for t by (cases t) simp_all
  assume "list_all (\<lambda>c. \<not> is_space c) s"
  then show ?thesis by (simp add: trim_space_def d)
qed

section \<open>Properties\<close>

text \<open>C33: Resolve may be called again without effect: it fills what is missing, and the methods
  it injects are found, not injected twice.\<close>

theorem resolve_idempotent: "resolve_config txt (resolve_config txt c) = resolve_config txt c"
proof -
  define a where "a = resolve_assets (resolve_names c)"
  define r where "r = resolve_config txt c"
  have r: "r = (inject_methods txt a)\<lparr>co_methods := map resolve_method (injected txt a)\<rparr>"
    by (simp add: r_def a_def resolve_config_def Let_def)
  have fr: "r = a\<lparr>co_methods := map resolve_method (injected txt a)\<rparr>" by (simp add: r inject_methods_def Let_def)
  have "resolve_names r = r"
    using resolve_names_frame[where c = "resolve_names c" and bs = "co_assets r" and ms = "co_methods r"] resolve_names_idem[of c]
    by (simp add: fr a_def resolve_assets_def)
  moreover have "resolve_assets r = r" by (simp add: fr a_def resolve_assets_def comp_def)
  moreover have "inject_methods txt r = r" by (rule inject_again[of _ "txt" a]) (simp_all add: fr)
  ultimately have "resolve_config txt r = r\<lparr>co_methods := map resolve_method (co_methods r)\<rparr>"
    by (simp add: resolve_config_def Let_def)
  also have "\<dots> = r" by (simp add: fr resolve_method_idem)
  finally show ?thesis by (simp add: r_def)
qed

text \<open>Observation: A cap written as a decimal number reaches the payer as that number of millionths, cut after six
  places.\<close>

theorem usdc_cap_value:
  assumes "w \<noteq> []" "list_all is_digit w" "list_all is_digit f"
  shows "generated_cap (x\<lparr>xs_max_usdc := w @ (if f = [] then [] else CHR ''.'' # f)\<rparr>) =
    Some ((digits_value w * 10 ^ length f + digits_value f) * 10 ^ 6 div 10 ^ length f)"
proof -
  let ?s = "w @ (if f = [] then [] else CHR ''.'' # f)"
  let ?t = "w @ take 6 (f @ replicate (6 - length f) CHR ''0'')"
  let ?out = "dropWhile (\<lambda>c. c = CHR ''0'') ?t"
  have dig: "is_digit c \<Longrightarrow> \<not> is_space c \<and> c \<noteq> CHR ''.''" for c by (auto simp: is_digit_def is_space_def)
  have dot: "CHR ''.'' \<notin> set w" "\<not> is_space CHR ''.''" using assms(2) dig by (auto simp: list_all_iff is_space_def)
  have "list_all (\<lambda>c. \<not> is_space c) ?s" using assms(2,3) dig dot by (auto simp: list_all_iff)
  then have trim: "trim_space ?s = ?s" by (rule trim_no_space)
  have "(case cut_at CHR ''.'' ?s of None \<Rightarrow> (?s, []) | Some (a, b) \<Rightarrow> (a, b)) = (w, f)"
    using dot(1) by (cases "f = []") (simp_all add: cut_at_append cut_at_None_iff[THEN iffD2])
  then have m: "max_atomic ?s = (if ?out = [] then ''0'' else ?out)"
    using assms(1) by (simp add: max_atomic_def trim Let_def)
  have d: "list_all is_digit ?t" using assms(2,3) by (auto simp: list_all_iff is_digit_def dest!: in_set_takeD)
  then have "list_all is_digit ?out" by (auto simp: list_all_iff dest: set_dropWhileD)
  then have "big_int (max_atomic ?s) = Some (digits_value ?out)"
    using big_int_digits[of ?out] big_int_digits[of "''0''"] by (simp add: m is_digit_def digits_value_def byte_def)
  moreover have "length (take 6 (f @ replicate (6 - length f) CHR ''0'')) = 6" by simp
  then have "digits_value ?out = digits_value w * 10 ^ 6 + digits_value f * 10 ^ 6 div 10 ^ length f"
    unfolding digits_value_strip digits_value_append[of w] six_places[OF assms(3)] by (simp only:)
  moreover have "max_atomic ?s \<noteq> []" using m by simp
  moreover have "(digits_value w * 10 ^ length f + digits_value f) * 10 ^ 6 div 10 ^ length f =
      digits_value w * 10 ^ 6 + digits_value f * 10 ^ 6 div 10 ^ length f"
    using div_mult_self1[of "10 ^ length f" "digits_value f * 10 ^ 6" "digits_value w * 10 ^ 6"]
    by (simp add: algebra_simps)
  ultimately show ?thesis by (simp add: generated_cap_def)
qed

theorem usdc_cap_value_witness: "generated_cap \<lparr>xs_payer = [], xs_method = [], xs_grant = [], xs_networks = [], xs_asset = [], xs_max_usdc = ''1.25''\<rparr> = Some 1250000"
proof -
  have "digits_value ''1'' = 1" "digits_value ''25'' = 25" by code_simp+
  then show ?thesis
    using usdc_cap_value[of "''1''" "''25''" "\<lparr>xs_payer = [], xs_method = [], xs_grant = [], xs_networks = [], xs_asset = [], xs_max_usdc = []\<rparr>"]
    by (simp add: is_digit_def)
qed

lemma in_dropWhile: "x \<in> set xs \<Longrightarrow> \<not> P x \<Longrightarrow> x \<in> set (dropWhile P xs)"
  by (induction xs) auto

text \<open>Observation: A cap with any other character before its point passes the validation's test on its amount, and leaves the payer
  without a cap: every price is then within it.\<close>

theorem mistyped_cap_is_no_cap:
  assumes "c \<in> set s" "\<not> is_digit c" "c \<notin> {CHR ''.'', CHR ''+'', CHR ''-''}" "trim_space s = s" "CHR ''.'' \<notin> set s"
  shows "max_atomic s \<notin> {[], ''0''} \<and> generated_cap (x\<lparr>xs_max_usdc := s\<rparr>) = None \<and>
    (pc_max_atomic pc = generated_cap (x\<lparr>xs_max_usdc := s\<rparr>) \<longrightarrow> price_ok pc a)"
proof -
  have cut: "cut_at CHR ''.'' s = None" using assms(5) by (simp add: cut_at_None_iff)
  define out where "out = dropWhile (\<lambda>c. c = CHR ''0'') (s @ take 6 ([] @ replicate (6 - length ([] :: string)) CHR ''0''))"
  have zero: "c \<noteq> CHR ''0''" using assms(2) by (auto simp: is_digit_def)
  have c: "c \<in> set out" unfolding out_def using assms(1) zero by (intro in_dropWhile) simp_all
  have "s \<noteq> []" using assms(1) by force
  have ne: "out \<noteq> []" "out \<noteq> ''0''" using c zero by force+
  have "max_atomic s = (if out = [] then ''0'' else out)"
    unfolding max_atomic_def assms(4) cut Let_def out_def option.case prod.case using \<open>s \<noteq> []\<close> by (simp only: if_False)
  then have m: "max_atomic s = out" using ne by simp
  have none: "dec_nat body = None" if "c \<in> set body" for body
    using that assms(2) dec_value_digit_chars by (cases "dec_nat body") (auto simp: dec_nat_def split: if_splits)
  have "big_int out = None"
  proof (cases out)
    case (Cons h t)
    have "c \<in> set t" if "h = CHR ''-'' \<or> h = CHR ''+''" using that c Cons assms(3) by force
    then show ?thesis using none[of out] none[of t] c Cons by (simp add: big_int_def)
  qed (use c in simp)
  then show ?thesis using ne by (simp add: generated_cap_def m price_ok_def)
qed

theorem mistyped_cap_is_no_cap_witness:
  "max_atomic ''1,000'' \<noteq> ''0'' \<and>
   generated_cap \<lparr>xs_payer = [], xs_method = [], xs_grant = [], xs_networks = [], xs_asset = [], xs_max_usdc = ''1,000''\<rparr> = None"
proof -
  have "CHR '','' \<in> set ''1,000''" "\<not> is_digit CHR '',''" "CHR '','' \<notin> {CHR ''.'', CHR ''+'', CHR ''-''}" "trim_space ''1,000'' = ''1,000''"
    "CHR ''.'' \<notin> set ''1,000''" by code_simp+
  from mistyped_cap_is_no_cap[OF this, of "\<lparr>xs_payer = [], xs_method = [], xs_grant = [], xs_networks = [], xs_asset = [], xs_max_usdc = []\<rparr>"]
  show ?thesis by simp
qed

section \<open>Where a parameter ends up\<close>

lemma located_iff:
  "n \<in> set (located h l) \<longleftrightarrow> n \<notin> set (path_param_names (hr_path h)) \<and> map_of (hr_param_in h) n = Some l"
  by (auto simp: located_def sorted_keys_def dest: map_of_SomeD) (metis fst_conv image_eqI map_of_SomeD)

text \<open>Observation: After Resolve a name in the path is filled there and nowhere else, escaped unless it is asked for raw;
  any other parameter with a location is in the list of that location alone, and the raw body is the
  last of the parameters that ask to be it.\<close>

theorem params_placed:
  "let r = resolve_route h; ph = path_param_names (hr_path h) in
     set (hr_path_params r) \<union> set (hr_raw_path_params r) = set ph \<and> set (hr_path_params r) \<inter> set (hr_raw_path_params r) = {} \<and>
     (\<forall>n. (n \<in> set (hr_query_params r) \<longleftrightarrow> n \<notin> set ph \<and> map_of (hr_param_in h) n = Some ''query'') \<and>
          (n \<in> set (hr_body_params r) \<longleftrightarrow> n \<notin> set ph \<and> map_of (hr_param_in h) n = Some ''body'') \<and>
          (n \<in> set (hr_header_params r) \<longleftrightarrow> n \<notin> set ph \<and> map_of (hr_param_in h) n = Some ''header'')) \<and>
     hr_body_raw r = (case located h ''body_raw'' of [] \<Rightarrow> [] | ns \<Rightarrow> Max (set ns))"
proof -
  have split: "(case xs of [] \<Rightarrow> [] | y # ys \<Rightarrow> f (y # ys)) = (if xs = [] then [] else f xs)" for xs :: "string list" and f
    by (cases xs) simp_all
  have m: "last ns = Max (set ns)" if "ns \<noteq> []" "sorted ns" for ns :: "string list"
  proof (rule Max_eqI[symmetric])
    fix y assume y: "y \<in> set ns"
    have e: "ns = butlast ns @ [last ns]" using that(1) by simp
    then have "sorted (butlast ns @ [last ns])" using that(2) by simp
    moreover have "y \<in> set (butlast ns) \<or> y = last ns" using y e by (metis Un_iff empty_iff list.set(1) set_ConsD set_append)
    ultimately show "y \<le> last ns" by (auto simp: sorted_append)
  qed (use that in simp_all)
  have "sorted (located h l)" for l by (simp add: located_def sorted_keys_def sorted_filter[where f = "\<lambda>x. x", simplified])
  then have "(case located h ''body_raw'' of [] \<Rightarrow> [] | ns \<Rightarrow> last ns) = (case located h ''body_raw'' of [] \<Rightarrow> [] | ns \<Rightarrow> Max (set ns))"
    using m[of "located h ''body_raw''"] split[of last] split[of "\<lambda>xs. Max (set xs)"] by (simp only: split: if_split) metis
  moreover have "hr_path_params (resolve_route h) = filter (\<lambda>n. \<not> is_raw h n) (path_param_names (hr_path h))"
    "hr_raw_path_params (resolve_route h) = filter (is_raw h) (path_param_names (hr_path h))"
    "hr_query_params (resolve_route h) = located h ''query''" "hr_body_params (resolve_route h) = located h ''body''"
    "hr_header_params (resolve_route h) = located h ''header''"
    "hr_body_raw (resolve_route h) = (case located h ''body_raw'' of [] \<Rightarrow> [] | ns \<Rightarrow> last ns)"
    by (simp_all add: resolve_route_def param_locs_frame resolve_param_locs_def)
  ultimately show ?thesis unfolding Let_def by (simp only: located_iff) auto
qed

text \<open>Observation: of two parameters that ask to be the whole body the first in order is in no list.\<close>

lemma second_raw_body_wins:
  "hr_body_raw (resolve_route (blank_route\<lparr>hr_path := ''/x'', hr_param_in := [(''a'', ''body_raw''), (''b'', ''body_raw'')]\<rparr>)) = ''b''"
  by code_simp

end
