(* ===== verification/Scaffold_Valid.thy ===== *)
theory Scaffold_Valid
  imports Scaffold_Resolve Scaffold_Assets
begin

text \<open>
  Validate of internal/scaffold/config.go: every problem of a spec, as a value that names the place and the
  rule.
\<close>

section \<open>Problems\<close>

datatype asset_problem =
    AssetRole | AssetUnpack | AssetOs | AssetArch | AssetUrl | AssetSha | AssetPath | AssetOrderTwice | AssetPathTwice

datatype method_problem =
    NameMissing | NamePrefix | NameReserved | NameTwice | BadKind | BadDuration | BadTimeout
  | LocalAndHttp | SignupAndRoute | HttpAndCli | NoRoute
  | McpNoUrl | McpBadUrl | McpKeepAlone | McpNoTool | McpAndRoute | McpAuth
  | FormBackend | FormVerb | FormNoField | FormNoBlob | FormSameField | FormBlobPlace | FormNoMax | FormRawBody
  | LocalNoStore | LocalAndRoute
  | SignupNoUrl | SignupBadUrl | SignupNoSecret | SignupNoBroker | SignupBadBroker | SignupBadStep | SignupManaged
  | HttpMissing | HttpPath | KeyIncomplete | KeyManaged | KeyStart | HttpVerb | PlaceholderUndeclared string
  | BadPlace string | PlaceUndeclared string | PlaceNotInPath string
  | CliMissing | CliPassArgs | CliPassFlags | CliEmpty

datatype spec_problem =
    BadId | BadVersion | NoDescription | NoBaseUrl | BadBaseUrl | NoCommand | HybridUnmanaged | BadBackendType
  | PayBackend | PayNoGrant | PayBadCap
  | AssetsNeedCli | BadAsset nat asset_problem | BadAssetOrder string string asset_err
  | NoMethods | BadMethod nat method_problem

definition demand :: "bool \<Rightarrow> 'e \<Rightarrow> 'e list" where
  "demand ok e = (if ok then [] else [e])"

lemma demand_Nil [simp]: "demand ok e = [] \<longleftrightarrow> ok"
  by (simp add: demand_def)

section \<open>Assets\<close>

definition https_url :: "string \<Rightarrow> bool" where
  "https_url raw \<longleftrightarrow> (case url_parse raw of None \<Rightarrow> False | Some u \<Rightarrow> ur_scheme u = ''https'' \<and> ur_host u \<noteq> [])"

definition known_os :: "string \<Rightarrow> bool" where "known_os s \<longleftrightarrow> s = ''linux'' \<or> s = ''darwin''"
definition known_arch :: "string \<Rightarrow> bool" where "known_arch s \<longleftrightarrow> s = ''amd64'' \<or> s = ''arm64''"

definition order_key :: "asset \<Rightarrow> string" where
  "order_key a = ba_os a @ ''/'' @ ba_arch a @ ''#'' @ itoa (ba_order a)"

definition path_key :: "asset \<Rightarrow> string" where
  "path_key a = ba_os a @ ''/'' @ ba_arch a @ ''/'' @ ba_exec_path a"

definition inner_path :: "string \<Rightarrow> bool" where
  "inner_path p \<longleftrightarrow> p \<noteq> [] \<and> \<not> has_prefix ''/'' p \<and> \<not> sublist ''..'' p"

definition asset_problems :: "string list \<Rightarrow> string list \<Rightarrow> asset \<Rightarrow> asset_problem list" where
  "asset_problems orders paths a =
     demand (ba_role a \<in> {[], ''binary'', ''data''}) AssetRole
     @ demand (ba_unpack a = [] \<or> ba_unpack a = ''tar.gz'') AssetUnpack
     @ demand (known_os (ba_os a)) AssetOs @ demand (known_arch (ba_arch a)) AssetArch
     @ demand (https_url (ba_url a)) AssetUrl @ demand (sha_pattern (ba_sha256 a)) AssetSha
     @ demand (inner_path (ba_exec_path a)) AssetPath
     @ demand (order_key a \<notin> set orders) AssetOrderTwice @ demand (path_key a \<notin> set paths) AssetPathTwice"

fun assets_problems :: "nat \<Rightarrow> string list \<Rightarrow> string list \<Rightarrow> asset list \<Rightarrow> spec_problem list" where
  "assets_problems i orders paths [] = []"
| "assets_problems i orders paths (a # as) =
     map (BadAsset i) (asset_problems orders paths a)
     @ assets_problems (i + 1) (order_key a # orders) (path_key a # paths) as"

definition order_problems :: "asset list \<Rightarrow> spec_problem list" where
  "order_problems as =
     concat (map (\<lambda>(os, arch). case resolve_order as os arch of Inl e \<Rightarrow> [BadAssetOrder os arch e] | Inr _ \<Rightarrow> []) (asset_platforms as))"

definition validate_assets :: "config \<Rightarrow> spec_problem list" where
  "validate_assets c =
     (if co_assets c = [] then []
      else demand (ab_type (co_backend c) = ''cli'' \<or> ab_type (co_backend c) = ''hybrid'') AssetsNeedCli
           @ assets_problems 0 [] [] (co_assets c) @ order_problems (co_assets c))"

section \<open>Methods\<close>

definition blank :: "string \<Rightarrow> bool" where
  "blank s \<longleftrightarrow> trim_space s = []"

definition mcp_problems :: "config \<Rightarrow> app_method \<Rightarrow> mcp_route \<Rightarrow> method_problem list" where
  "mcp_problems c m r =
     (case ab_mcp (co_backend c) of
        None \<Rightarrow> [McpNoUrl]
      | Some b \<Rightarrow>
          if blank (mb_url b) then [McpNoUrl]
          else (case url_parse (mb_url b) of
                  None \<Rightarrow> [McpBadUrl]
                | Some u \<Rightarrow> demand (hostname u \<noteq> [] \<and> (ur_scheme u = ''https'' \<or> is_loopback_host (hostname u))) McpBadUrl))
     @ demand (mc_keep r = [] \<or> \<not> blank (mc_wrap r)) McpKeepAlone
     @ demand (\<not> blank (mc_tool r)) McpNoTool
     @ demand (am_http m = None \<and> am_cli m = None \<and> am_local m = None \<and> am_signup m = None) McpAndRoute
     @ (case ab_mcp (co_backend c) of None \<Rightarrow> [] | Some b \<Rightarrow> demand (blank (mb_auth b)) McpAuth)"

definition place_of :: "http_route \<Rightarrow> string \<Rightarrow> string" where
  "place_of h n = (case map_of (hr_param_in h) n of None \<Rightarrow> [] | Some l \<Rightarrow> l)"

definition form_problems :: "config \<Rightarrow> http_route \<Rightarrow> multipart_route \<Rightarrow> method_problem list" where
  "form_problems c h p =
     demand (ab_type (co_backend c) = ''http'') FormBackend @ demand (body_verb h) FormVerb
     @ demand (\<not> blank (mu_file_field p)) FormNoField @ demand (\<not> blank (mu_blob_param p)) FormNoBlob
     @ demand (mu_blob_param p = [] \<or> mu_blob_param p \<noteq> mu_file_field p) FormSameField
     @ demand (place_of h (mu_blob_param p) \<in> {[], ''body''}) FormBlobPlace
     @ demand (0 < mu_max_bytes p) FormNoMax @ demand (hr_body_raw h = []) FormRawBody"

definition local_problems :: "app_method \<Rightarrow> method_problem list" where
  "local_problems m =
     demand (case am_local m of None \<Rightarrow> False | Some p \<Rightarrow> \<not> blank p) LocalNoStore
     @ demand (am_http m = None \<and> am_cli m = None) LocalAndRoute"

definition need_url :: "string \<Rightarrow> method_problem \<Rightarrow> method_problem \<Rightarrow> method_problem list" where
  "need_url raw missing bad = (if blank raw then [missing] else demand (https_url raw) bad)"

definition signup_step_problems :: "signup_route \<Rightarrow> method_problem list" where
  "signup_step_problems s =
     (let step = su_step s; secret = demand (\<not> blank (su_secret_key s)) SignupNoSecret in
      if step = ''create'' then need_url (su_url s) SignupNoUrl SignupBadUrl @ secret
      else if step = ''register'' \<or> step = ''verify'' then
        need_url (su_url s) SignupNoUrl SignupBadUrl @ (if is_verify s then secret else [])
      else if step = ''broker'' then need_url (su_broker_url s) SignupNoBroker SignupBadBroker @ secret
      else if step = ''set_key'' then secret @ (if blank (su_url s) then [] else demand (https_url (su_url s)) SignupBadUrl)
      else if step = ''account'' then secret
      else [SignupBadStep])"

definition signup_problems :: "config \<Rightarrow> signup_route \<Rightarrow> method_problem list" where
  "signup_problems c s = signup_step_problems s @ demand (\<not> managed c) SignupManaged"

definition key_problems :: "config \<Rightarrow> save_key \<Rightarrow> method_problem list" where
  "key_problems c k =
     demand (\<not> blank (sk_path k) \<and> \<not> blank (sk_secret_key k)) KeyIncomplete @ demand (\<not> managed c) KeyManaged
     @ demand (sk_start k = [] \<or> list_ex (\<lambda>m. am_name m = sk_start k) (co_methods c)) KeyStart"

definition valid_place :: "string \<Rightarrow> bool" where
  "valid_place l \<longleftrightarrow> l \<in> {''query'', ''path'', ''path_raw'', ''body'', ''body_raw'', ''header''}"

definition place_problems :: "app_method \<Rightarrow> http_route \<Rightarrow> method_problem list" where
  "place_problems m h =
     concat (map (\<lambda>n. demand (map_of (am_params m) n \<noteq> None) (PlaceholderUndeclared n)) (path_param_names (hr_path h)))
     @ concat (map (\<lambda>n. demand (valid_place (place_of h n)) (BadPlace n)
         @ demand (map_of (am_params m) n \<noteq> None) (PlaceUndeclared n)
         @ demand (place_of h n \<notin> {''path'', ''path_raw''} \<or> n \<in> set (path_param_names (hr_path h))) (PlaceNotInPath n))
        (sorted_keys (hr_param_in h)))"

definition route_problems :: "config \<Rightarrow> app_method \<Rightarrow> http_route \<Rightarrow> method_problem list" where
  "route_problems c m h =
     (case hr_multipart h of None \<Rightarrow> [] | Some p \<Rightarrow> form_problems c h p)
     @ demand (has_prefix ''/'' (hr_path h)) HttpPath
     @ (case hr_save_key h of None \<Rightarrow> [] | Some k \<Rightarrow> key_problems c k)
     @ demand (hr_verb h \<in> {''GET'', ''POST'', ''PATCH'', ''PUT'', ''DELETE''}) HttpVerb
     @ place_problems m h"

definition http_problems :: "config \<Rightarrow> app_method \<Rightarrow> method_problem list" where
  "http_problems c m = (case am_http m of None \<Rightarrow> [HttpMissing] | Some h \<Rightarrow> route_problems c m h)"

definition cli_problems :: "app_method \<Rightarrow> method_problem list" where
  "cli_problems m =
     (case am_cli m of
        None \<Rightarrow> [CliMissing]
      | Some r \<Rightarrow>
          if cl_passthrough r then demand (cl_args r = []) CliPassArgs @ demand (\<not> cl_params_as_flags r) CliPassFlags
          else demand (cl_args r \<noteq> [] \<or> cl_params_as_flags r) CliEmpty)"

text \<open>The routes of a method, by the backend's type.\<close>

definition http_backend_problems :: "config \<Rightarrow> app_method \<Rightarrow> method_problem list" where
  "http_backend_problems c m =
     (if am_local m \<noteq> None \<and> am_http m \<noteq> None then [LocalAndHttp]
      else if am_signup m \<noteq> None \<and> (am_http m \<noteq> None \<or> am_local m \<noteq> None \<or> am_cli m \<noteq> None) then [SignupAndRoute]
      else if am_upload m \<noteq> None then []
      else case am_mcp m of
        Some r \<Rightarrow> mcp_problems c m r
      | None \<Rightarrow>
          (case am_signup m of
             Some s \<Rightarrow> signup_problems c s
           | None \<Rightarrow> if am_local m \<noteq> None then local_problems m else http_problems c m))"

definition hybrid_problems :: "config \<Rightarrow> app_method \<Rightarrow> method_problem list" where
  "hybrid_problems c m =
     (if am_http m \<noteq> None \<and> am_cli m \<noteq> None then [HttpAndCli]
      else if am_http m \<noteq> None then http_problems c m
      else if am_cli m \<noteq> None then cli_problems m
      else [NoRoute])"

definition routing_problems :: "config \<Rightarrow> app_method \<Rightarrow> method_problem list" where
  "routing_problems c m =
     (let t = ab_type (co_backend c) in
      if t = ''http'' then http_backend_problems c m
      else if t = ''cli'' then cli_problems m
      else if t = ''hybrid'' then hybrid_problems c m
      else [])"

definition method_problems :: "config \<Rightarrow> string list \<Rightarrow> app_method \<Rightarrow> method_problem list" where
  "method_problems c seen m =
     demand (has_prefix (co_namespace c @ ''.'') (am_name m)) NamePrefix
     @ demand (am_name m \<noteq> co_namespace c @ ''.help'') NameReserved
     @ demand (am_name m \<notin> set seen) NameTwice
     @ demand (am_kind m \<in> {''utility'', ''status'', ''meta''}) BadKind
     @ demand (am_duration m \<in> {''fast'', ''med'', ''slow''}) BadDuration
     @ demand (am_timeout m = [] \<or> parses_duration (am_timeout m)) BadTimeout
     @ routing_problems c m"

fun methods_problems :: "config \<Rightarrow> nat \<Rightarrow> string list \<Rightarrow> app_method list \<Rightarrow> spec_problem list" where
  "methods_problems c i seen [] = []"
| "methods_problems c i seen (m # ms) =
     (if blank (am_name m) then BadMethod i NameMissing # methods_problems c (i + 1) seen ms
      else map (BadMethod i) (method_problems c seen m) @ methods_problems c (i + 1) (am_name m # seen) ms)"

section \<open>The spec\<close>

definition backend_problems :: "config \<Rightarrow> spec_problem list" where
  "backend_problems c =
     (let b = co_backend c in
      if ab_type b = ''http'' then
        (if ab_base_url b = [] then [NoBaseUrl]
         else demand (case url_parse (ab_base_url b) of None \<Rightarrow> False | Some u \<Rightarrow> ur_host u \<noteq> []) BadBaseUrl)
      else if ab_type b = ''cli'' then demand (ab_command b \<noteq> []) NoCommand
      else if ab_type b = ''hybrid'' then
        demand (\<not> has_cli_methods c \<or> ab_command b \<noteq> []) NoCommand @ demand (managed c) HybridUnmanaged
      else [BadBackendType])"

definition pay_problems :: "config \<Rightarrow> spec_problem list" where
  "pay_problems c =
     (case ab_x402 (co_backend c) of
        None \<Rightarrow> []
      | Some x \<Rightarrow>
          demand (ab_type (co_backend c) = ''http'') PayBackend @ demand (\<not> blank (xs_grant x)) PayNoGrant
          @ demand (xs_max_usdc x = [] \<or> max_atomic (xs_max_usdc x) \<notin> {[], ''0''}) PayBadCap)"

definition validate_config :: "config \<Rightarrow> spec_problem list" where
  "validate_config c =
     demand (id_pattern (co_id c)) BadId @ demand (semver_pattern (co_app_version c)) BadVersion
     @ demand (\<not> blank (co_description c)) NoDescription
     @ backend_problems c @ pay_problems c @ validate_assets c
     @ demand (co_methods c \<noteq> []) NoMethods
     @ methods_problems c 0 [] (co_methods c)"

section \<open>What passing means\<close>

lemma concat_map_Nil: "concat (map f xs) = [] \<longleftrightarrow> (\<forall>x \<in> set xs. f x = [])"
  by (induction xs) auto

definition method_sound :: "config \<Rightarrow> app_method \<Rightarrow> bool" where
  "method_sound c m \<longleftrightarrow> \<not> blank (am_name m) \<and> method_problems c [] m = []"

lemma method_problems_seen: "method_problems c seen m = [] \<longleftrightarrow> method_problems c [] m = [] \<and> am_name m \<notin> set seen"
  by (auto simp: method_problems_def)

lemma methods_problems_Nil:
  "methods_problems c i seen ms = [] \<longleftrightarrow>
     list_all (method_sound c) ms \<and> distinct (map am_name ms) \<and> set (map am_name ms) \<inter> set seen = {}"
proof (induction c i seen ms rule: methods_problems.induct)
  case (2 c i seen m ms)
  then show ?case using method_problems_seen[of c seen m] by (auto simp: method_sound_def)
qed simp

lemma asset_problems_seen:
  "asset_problems os ps a = [] \<longleftrightarrow> asset_problems [] [] a = [] \<and> order_key a \<notin> set os \<and> path_key a \<notin> set ps"
  by (auto simp: asset_problems_def)

lemma assets_problems_Nil:
  "assets_problems i os ps as = [] \<longleftrightarrow>
     list_all (\<lambda>a. asset_problems [] [] a = []) as \<and> distinct (map order_key as) \<and> distinct (map path_key as) \<and>
     set (map order_key as) \<inter> set os = {} \<and> set (map path_key as) \<inter> set ps = {}"
proof (induction i os ps as rule: assets_problems.induct)
  case (2 i os ps a as)
  then show ?case using asset_problems_seen[of os ps a] by auto
qed simp

lemma asset_platforms_set:
  assumes "\<forall>a \<in> set as. known_os (ba_os a)"
  shows "(os, arch) \<in> set (asset_platforms as) \<longleftrightarrow> (\<exists>a \<in> set as. ba_os a = os \<and> ba_arch a = arch)"
proof -
  let ?f = "\<lambda>a out. if list_ex (\<lambda>p. fst p @ ''/'' @ snd p = ba_os a @ ''/'' @ ba_arch a) out then out else out @ [(ba_os a, ba_arch a)]"
  have slash: "known_os n \<Longrightarrow> CHR ''/'' \<notin> set n" for n by (auto simp: known_os_def)
  have key: "known_os m \<Longrightarrow> known_os n \<Longrightarrow> m @ ''/'' @ x = n @ ''/'' @ y \<longleftrightarrow> m = n \<and> x = y" for m n x y
    using sep_inject[of "CHR ''/''" m n x y] slash by auto
  have one: "known_os (ba_os a) \<Longrightarrow> \<forall>p \<in> set out. known_os (fst p) \<Longrightarrow>
      set (?f a out) = insert (ba_os a, ba_arch a) (set out)" for a out
    using key by (auto simp: list_ex_iff)
  have "\<forall>a \<in> set as. known_os (ba_os a) \<Longrightarrow> \<forall>p \<in> set out. known_os (fst p) \<Longrightarrow>
      set (fold ?f as out) = (\<lambda>a. (ba_os a, ba_arch a)) ` set as \<union> set out" for as out
  proof (induction as arbitrary: out)
    case (Cons a as)
    have "\<forall>p \<in> set (?f a out). known_os (fst p)" using one[of a out] Cons.prems by auto
    then show ?case using Cons.IH[of "?f a out"] Cons.prems one[of a out] by auto
  qed simp
  from this[OF assms, of "[]"] show ?thesis by (auto simp: asset_platforms_def image_iff)
qed

lemma order_problems_Nil:
  assumes "\<forall>a \<in> set as. known_os (ba_os a)"
  shows "order_problems as = [] \<longleftrightarrow> (\<forall>os arch. orderable (on_platform os arch as))"
proof -
  have r: "(case resolve_order as os arch of Inl e \<Rightarrow> [BadAssetOrder os arch e] | Inr _ \<Rightarrow> []) = [] \<longleftrightarrow> orderable (on_platform os arch as)"
    for os arch using resolve_order_exact[where ?as = "as" and os = os and arch = arch] by (auto split: sum.splits)
  have e: "orderable (on_platform os arch as)" if "(os, arch) \<notin> set (asset_platforms as)" for os arch
  proof -
    have "on_platform os arch as = []" using that asset_platforms_set[OF assms] by (auto simp: on_platform_def filter_empty_conv)
    then show ?thesis by (simp add: orderable_def deps_known_def dep_rel_def acyclic_def)
  qed
  have "order_problems as = [] \<longleftrightarrow> (\<forall>p \<in> set (asset_platforms as). orderable (on_platform (fst p) (snd p) as))"
    unfolding order_problems_def concat_map_Nil by (simp add: case_prod_beta' r)
  then show ?thesis using e by (metis fst_conv snd_conv)
qed

definition assets_sound :: "asset list \<Rightarrow> bool" where
  "assets_sound as \<longleftrightarrow> list_all (\<lambda>a. asset_problems [] [] a = []) as \<and> distinct (map order_key as) \<and> distinct (map path_key as) \<and>
     (\<forall>os arch. orderable (on_platform os arch as))"

lemma assets_known: "asset_problems [] [] a = [] \<Longrightarrow> known_os (ba_os a)"
  by (simp add: asset_problems_def)

lemma validate_assets_Nil:
  "validate_assets c = [] \<longleftrightarrow>
     co_assets c = [] \<or> ((ab_type (co_backend c) = ''cli'' \<or> ab_type (co_backend c) = ''hybrid'') \<and> assets_sound (co_assets c))"
proof (cases "list_all (\<lambda>a. asset_problems [] [] a = []) (co_assets c)")
  case True
  then have "\<forall>a \<in> set (co_assets c). known_os (ba_os a)" using assets_known by (auto simp: list_all_iff)
  then show ?thesis using True by (simp add: validate_assets_def assets_problems_Nil order_problems_Nil assets_sound_def)
next
  case False
  then show ?thesis by (auto simp: validate_assets_def assets_problems_Nil assets_sound_def)
qed

lemma validate_config_Nil:
  "validate_config c = [] \<longleftrightarrow>
     id_pattern (co_id c) \<and> semver_pattern (co_app_version c) \<and> \<not> blank (co_description c) \<and>
     backend_problems c = [] \<and> pay_problems c = [] \<and> validate_assets c = [] \<and> co_methods c \<noteq> [] \<and>
     list_all (method_sound c) (co_methods c) \<and> distinct (map am_name (co_methods c))"
  by (auto simp: validate_config_def methods_problems_Nil)

section \<open>Properties\<close>

lemma assets_in_order:
  assumes "validate_assets c = []"
  shows "\<exists>out. resolve_order (co_assets c) os arch = Inr out \<and> mset out = mset (on_platform os arch (co_assets c))"
proof -
  have "orderable (on_platform os arch (co_assets c))"
  proof (cases "co_assets c = []")
    case False
    then show ?thesis using assms validate_assets_Nil[of c] by (simp add: assets_sound_def)
  qed (simp add: on_platform_def orderable_def deps_known_def dep_rel_def acyclic_def)
  then show ?thesis
    using resolve_order_exact[where ?as = "co_assets c" and os = os and arch = arch] by (auto split: sum.splits)
qed


text \<open>A spec with one method of an http app.\<close>

definition sample_spec :: config where
  "sample_spec =
     \<lparr>co_id = ''io.acme.geo'', co_app_version = ''1.0.0'', co_manifest_version = 1, co_description = ''Places'',
      co_namespace = ''geo'', co_binary_name = ''geo-app'', co_go_module = ''m'', co_app_store_module = ''s'', co_key_file = ''k'',
      co_backend = \<lparr>ab_type = ''http'', ab_base_url = ''https://api.acme.io'', ab_command = [], ab_env_prefix = ''GEO'',
        ab_env_passthrough = [], ab_headers = [], ab_broker_url = [], ab_url_secret = [], ab_auth = [], ab_mcp = None, ab_x402 = None\<rparr>,
      co_methods =
        [blank_method\<lparr>am_name := ''geo.find'', am_kind := ''utility'', am_duration := ''fast'', am_params := [(''place'', ''string'')],
          am_http := Some (blank_route\<lparr>hr_verb := ''GET'', hr_path := ''/places/{place}'', hr_path_params := [''place'']\<rparr>)\<rparr>],
      co_rate_per_min = 120, co_extra_grants = [],
      co_listing = \<lparr>li_display_name = ''Geo'', li_tagline = [], li_app_description = [], li_homepage = [], li_source_url = [],
        li_license = [], li_categories = [], li_keywords = [], li_vendor = \<lparr>ve_name = [], ve_url = [], ve_contact = []\<rparr>,
        li_changelog = []\<rparr>,
      co_pricing = None, co_product_demo = None, co_next_steps = None, co_assets = [], co_artifact_base = []\<rparr>"

lemma sample_spec_valid: "validate_config sample_spec = []"
  by code_simp


end
