(* ===== verification/Submission.thy ===== *)
theory Submission
  imports Scaffold_Valid
begin

text \<open>
  internal/publish/submission.go: the structured publish request, its validation at the server, the
  derivation of the buildable spec (ToConfig) and the help preview. The errors of the product demo and
  of the next-steps graph are those of their packages.
\<close>

section \<open>The submission\<close>

record sub_header =
  sh_name :: string
  sh_value :: string

record sub_backend =
  sb_type :: string
  sb_base_url :: string
  sb_headers :: "sub_header list"
  sb_auth :: string
  sb_quota :: int
  sb_url_secret :: string
  sb_command :: "string list"
  sb_env_passthrough :: "string list"
  sb_provider :: string
  sb_cloud_base_url :: string
  sb_broker_url :: string
  sb_seed_credits :: int
  sb_cost_credits :: "int gmap"
  sb_max_identities_per_ip :: int
  sb_mint_cooldown_ms :: int
  sb_push_path :: string
  sb_balance_path :: string
  sb_artifact_max_bytes :: int
  sb_owner_env_key :: string
  sb_admin_key_env :: string

record sub_param =
  sp_name :: string
  sp_type :: string
  sp_required :: bool
  sp_description :: string
  sp_in :: string

record sub_route =
  sr_verb :: string
  sr_path :: string
  sr_capture_to :: string
  sr_public :: bool
  sr_save_key :: "save_key option"

record sub_method =
  sm_name :: string
  sm_description :: string
  sm_latency :: string
  sm_timeout :: string
  sm_http :: sub_route
  sm_cli :: cli_route
  sm_local :: "string option"
  sm_signup :: "signup_route option"
  sm_params :: "sub_param list"
  sm_gated :: string

record sub_listing =
  sl_display_name :: string
  sl_tagline :: string
  sl_app_description :: string
  sl_license :: string
  sl_homepage :: string
  sl_source_url :: string
  sl_categories :: "string list"
  sl_keywords :: "string list"
  sl_requires_binary :: bool
  sl_binary_url :: string

record sub_vendor =
  sv_name :: string
  sv_url :: string
  sv_contact :: string
  sv_agent_usage :: string
  sv_capabilities :: string

record submission =
  ss_id :: string
  ss_version :: string
  ss_description :: string
  ss_email :: string
  ss_backend :: sub_backend
  ss_methods :: "sub_method list"
  ss_listing :: sub_listing
  ss_vendor :: sub_vendor
  ss_pricing :: "pricing option"
  ss_product_demo :: "demo option"
  ss_next_steps :: "graph option"
  ss_artifacts :: "asset list"

definition sub_is_cli :: "sub_backend \<Rightarrow> bool" where "sub_is_cli b \<longleftrightarrow> sb_type b = ''cli''"
definition sub_is_hybrid :: "sub_backend \<Rightarrow> bool" where "sub_is_hybrid b \<longleftrightarrow> sb_type b = ''hybrid''"
definition sub_provisioned :: "sub_backend \<Rightarrow> bool" where "sub_provisioned b \<longleftrightarrow> sb_auth b = ''provisioned''"

definition sub_managed :: "sub_backend \<Rightarrow> bool" where
  "sub_managed b \<longleftrightarrow> \<not> sub_is_cli b \<and> (sb_auth b = ''managed'' \<or> sb_auth b = ''provisioned'')"

definition sub_cloud_base :: "sub_backend \<Rightarrow> string" where
  "sub_cloud_base b = (if sb_cloud_base_url b \<noteq> [] then sb_cloud_base_url b else sb_base_url b)"

definition sm_has_signup :: "sub_method \<Rightarrow> bool" where
  "sm_has_signup m \<longleftrightarrow> (case sm_signup m of None \<Rightarrow> False | Some s \<Rightarrow> \<not> blank (su_step s))"

definition sm_has_local :: "sub_method \<Rightarrow> bool" where
  "sm_has_local m \<longleftrightarrow> (case sm_local m of None \<Rightarrow> False | Some p \<Rightarrow> \<not> blank p)"

definition sm_has_http :: "sub_method \<Rightarrow> bool" where
  "sm_has_http m \<longleftrightarrow> \<not> blank (sr_path (sm_http m))"

definition sm_has_cli :: "sub_method \<Rightarrow> bool" where
  "sm_has_cli m \<longleftrightarrow> cl_passthrough (sm_cli m) \<or> cl_args (sm_cli m) \<noteq> [] \<or> cl_params_as_flags (sm_cli m)"

definition sub_namespace :: "submission \<Rightarrow> string" where
  "sub_namespace s = id_tail (ss_id s)"

section \<open>Validation\<close>

datatype sub_method_problem =
    SubNameMissing | SubPrefix | SubTwice | SubLatency | SubNoDescription
  | SubHttpAndCli | SubNoRoute | SubPassArgs | SubCliEmpty
  | SubLocalNoStore | SubLocalAndRoute
  | SubSignupNoUrl | SubSignupBadUrl | SubSignupNoSecret | SubSignupNoBroker | SubSignupBadBroker | SubSignupStep | SubSignupAndRoute
  | SubPath | SubBadPlace string | SubPlaceNotInPath string

datatype sub_artifact_problem =
    ArtRole | ArtUnpack | ArtOs | ArtArch | ArtNoFile | ArtUrl | ArtSha | ArtPath | ArtOrderTwice

datatype sub_problem =
    SubId | SubVersion | SubDescription | SubEmail | SubCommand | SubHybridAuth | SubCloudBase | SubBaseUrl
  | ArtifactsNeedCli | BadArtifact nat sub_artifact_problem
  | SubNoMethods | BadSubMethod nat sub_method_problem
  | DemoProblem demo_err | GraphProblem graph_err

definition sub_cli_problems :: "sub_method \<Rightarrow> sub_method_problem list" where
  "sub_cli_problems m =
     (let r = sm_cli m in
      if cl_passthrough r then demand (cl_args r = [] \<and> \<not> cl_params_as_flags r) SubPassArgs
      else demand (cl_args r \<noteq> [] \<or> cl_params_as_flags r) SubCliEmpty)"

definition sub_param_problems :: "sub_method \<Rightarrow> sub_param \<Rightarrow> sub_method_problem list" where
  "sub_param_problems m p =
     (let n = trim_space (sp_name p) in
      if n = [] \<or> sp_in p = [] then []
      else if \<not> valid_place (sp_in p) then [SubBadPlace n]
      else demand (sp_in p \<notin> {''path'', ''path_raw''} \<or> n \<in> set (path_param_names (sr_path (sm_http m)))) (SubPlaceNotInPath n))"

definition sub_http_problems :: "sub_method \<Rightarrow> sub_method_problem list" where
  "sub_http_problems m =
     (if \<not> has_prefix ''/'' (sr_path (sm_http m)) then [SubPath]
      else concat (map (sub_param_problems m) (sm_params m)))"

definition sub_local_problems :: "sub_method \<Rightarrow> sub_method_problem list" where
  "sub_local_problems m =
     demand (sm_has_local m) SubLocalNoStore @ demand (\<not> sm_has_http m \<and> \<not> sm_has_cli m) SubLocalAndRoute"

definition sub_need_url :: "string \<Rightarrow> sub_method_problem \<Rightarrow> sub_method_problem \<Rightarrow> sub_method_problem list" where
  "sub_need_url raw missing bad = (if blank raw then [missing] else demand (https_url raw) bad)"

definition sub_signup_step :: "signup_route \<Rightarrow> sub_method_problem list" where
  "sub_signup_step s =
     (let step = su_step s; secret = demand (\<not> blank (su_secret_key s)) SubSignupNoSecret in
      if step = ''create'' then sub_need_url (su_url s) SubSignupNoUrl SubSignupBadUrl @ secret
      else if step = ''register'' \<or> step = ''verify'' then
        sub_need_url (su_url s) SubSignupNoUrl SubSignupBadUrl @ (if step = ''verify'' then secret else [])
      else if step = ''broker'' then sub_need_url (su_broker_url s) SubSignupNoBroker SubSignupBadBroker @ secret
      else if step = ''set_key'' then secret @ (if blank (su_url s) then [] else demand (https_url (su_url s)) SubSignupBadUrl)
      else if step = ''account'' then secret
      else [SubSignupStep])"

definition sub_signup_problems :: "sub_method \<Rightarrow> signup_route \<Rightarrow> sub_method_problem list" where
  "sub_signup_problems m s =
     sub_signup_step s @ demand (\<not> sm_has_http m \<and> \<not> sm_has_cli m \<and> \<not> sm_has_local m) SubSignupAndRoute"

definition sub_routing_problems :: "sub_backend \<Rightarrow> sub_method \<Rightarrow> sub_method_problem list" where
  "sub_routing_problems b m =
     (if sub_is_hybrid b then
        (if sm_has_http m \<and> sm_has_cli m then [SubHttpAndCli]
         else if sm_has_cli m then sub_cli_problems m
         else if sm_has_http m then sub_http_problems m
         else [SubNoRoute])
      else if sub_is_cli b then sub_cli_problems m
      else if sm_has_signup m then (case sm_signup m of None \<Rightarrow> [] | Some s \<Rightarrow> sub_signup_problems m s)
      else if sm_has_local m then sub_local_problems m
      else sub_http_problems m)"

definition sub_method_problems :: "submission \<Rightarrow> string list \<Rightarrow> sub_method \<Rightarrow> sub_method_problem list" where
  "sub_method_problems s seen m =
     (let n = trim_space (sm_name m) in
      demand (has_prefix (sub_namespace s @ ''.'') n) SubPrefix @ demand (n \<notin> set seen) SubTwice
      @ demand (sm_latency m \<in> {''fast'', ''med'', ''slow''}) SubLatency
      @ demand (\<not> blank (sm_description m)) SubNoDescription
      @ sub_routing_problems (ss_backend s) m)"

fun sub_methods_problems :: "submission \<Rightarrow> nat \<Rightarrow> string list \<Rightarrow> sub_method list \<Rightarrow> sub_problem list" where
  "sub_methods_problems s i seen [] = []"
| "sub_methods_problems s i seen (m # ms) =
     (if blank (sm_name m) then BadSubMethod i SubNameMissing # sub_methods_problems s (i + 1) seen ms
      else map (BadSubMethod i) (sub_method_problems s seen m)
           @ sub_methods_problems s (i + 1) (trim_space (sm_name m) # seen) ms)"

definition artifact_problems :: "string list \<Rightarrow> asset \<Rightarrow> sub_artifact_problem list" where
  "artifact_problems orders a =
     demand (ba_role a \<in> {[], ''binary'', ''data''}) ArtRole
     @ demand (ba_unpack a = [] \<or> ba_unpack a = ''tar.gz'') ArtUnpack
     @ demand (known_os (ba_os a)) ArtOs @ demand (known_arch (ba_arch a)) ArtArch
     @ (if blank (ba_url a) then demand (\<not> blank (ba_file a)) ArtNoFile else demand (https_url (trim_space (ba_url a))) ArtUrl)
     @ demand (sha_pattern (ba_sha256 a)) ArtSha @ demand (inner_path (ba_exec_path a)) ArtPath
     @ demand (order_key a \<notin> set orders) ArtOrderTwice"

fun artifacts_problems :: "nat \<Rightarrow> string list \<Rightarrow> asset list \<Rightarrow> sub_problem list" where
  "artifacts_problems i orders [] = []"
| "artifacts_problems i orders (a # as) =
     map (BadArtifact i) (artifact_problems orders a) @ artifacts_problems (i + 1) (order_key a # orders) as"

definition validate_artifacts :: "submission \<Rightarrow> sub_problem list" where
  "validate_artifacts s =
     (if ss_artifacts s = [] then []
      else demand (sub_is_cli (ss_backend s) \<or> sub_is_hybrid (ss_backend s)) ArtifactsNeedCli
           @ artifacts_problems 0 [] (ss_artifacts s))"

definition has_command :: "sub_backend \<Rightarrow> bool" where
  "has_command b \<longleftrightarrow> (case sb_command b of [] \<Rightarrow> False | c # _ \<Rightarrow> \<not> blank c)"

definition sub_has_cli_methods :: "submission \<Rightarrow> bool" where
  "sub_has_cli_methods s \<longleftrightarrow> list_ex sm_has_cli (ss_methods s)"

definition sub_backend_problems :: "submission \<Rightarrow> sub_problem list" where
  "sub_backend_problems s =
     (let b = ss_backend s in
      if sub_is_cli b then demand (has_command b) SubCommand
      else if sub_is_hybrid b then
        demand (sub_managed b) SubHybridAuth
        @ demand (\<not> sub_has_cli_methods s \<or> has_command b) SubCommand
        @ demand (\<not> sub_provisioned b \<or> url_pattern (trim_space (sub_cloud_base b))) SubCloudBase
      else demand (url_pattern (trim_space (sb_base_url b))) SubBaseUrl)"

definition method_names :: "submission \<Rightarrow> string list" where
  "method_names s = filter (\<lambda>n. n \<noteq> []) (map (trim_space \<circ> sm_name) (ss_methods s))"

definition validate_submission :: "regex \<Rightarrow> submission \<Rightarrow> sub_problem list" where
  "validate_submission regex s =
     demand (sub_id_pattern (ss_id s)) SubId @ demand (semver_pattern (ss_version s)) SubVersion
     @ demand (\<not> blank (ss_description s)) SubDescription
     @ demand (email_pattern (trim_space (ss_email s))) SubEmail
     @ sub_backend_problems s @ validate_artifacts s
     @ demand (ss_methods s \<noteq> []) SubNoMethods
     @ sub_methods_problems s 0 [] (ss_methods s)
     @ (case ss_product_demo s of None \<Rightarrow> [] | Some d \<Rightarrow> map DemoProblem (validate_demo (ss_id s) (sub_namespace s) d))
     @ (case ss_next_steps s of None \<Rightarrow> [] | Some g \<Rightarrow> map GraphProblem (validate_graph regex (ss_id s) (method_names s) g))"

section \<open>The buildable spec\<close>

definition blank_backend :: app_backend where
  "blank_backend = \<lparr>ab_type = [], ab_base_url = [], ab_command = [], ab_env_prefix = [], ab_env_passthrough = [], ab_headers = [],
     ab_broker_url = [], ab_url_secret = [], ab_auth = [], ab_mcp = None, ab_x402 = None\<rparr>"

definition header_map :: "sub_header list \<Rightarrow> string gmap" where
  "header_map hs = fold (\<lambda>h m. if blank (sh_name h) then m else AList.update (sh_name h) (sh_value h) m) hs []"

definition config_backend :: "sub_backend \<Rightarrow> app_backend" where
  "config_backend b =
     (let b0 = (if sub_is_hybrid b then
                  blank_backend\<lparr>ab_type := ''hybrid'', ab_command := sb_command b, ab_env_passthrough := sb_env_passthrough b,
                    ab_auth := sb_auth b, ab_broker_url := sb_broker_url b\<rparr>
                else if sub_is_cli b then
                  blank_backend\<lparr>ab_type := ''cli'', ab_command := sb_command b, ab_env_passthrough := sb_env_passthrough b\<rparr>
                else blank_backend\<lparr>ab_type := ''http'', ab_base_url := sb_base_url b, ab_auth := sb_auth b, ab_url_secret := sb_url_secret b\<rparr>)
      in if \<not> sub_is_cli b \<and> \<not> sub_managed b then b0\<lparr>ab_headers := header_map (sb_headers b)\<rparr> else b0)"

definition param_text :: "sub_param \<Rightarrow> string" where
  "param_text p =
     sp_type p @ (if sp_required p then '' (required)'' else [])
     @ (if sp_description p \<noteq> [] then '' '' @ em_dash @ '' '' @ sp_description p else [])"

definition param_map :: "(sub_param \<Rightarrow> bool) \<Rightarrow> (sub_param \<Rightarrow> string) \<Rightarrow> sub_param list \<Rightarrow> string gmap" where
  "param_map keep f ps = fold (\<lambda>p m. if keep p then AList.update (sp_name p) (f p) m else m) ps []"

definition config_route :: "sub_method \<Rightarrow> http_route" where
  "config_route m =
     (let h = sm_http m in
      blank_route\<lparr>hr_verb := or_else (sr_verb h) ''GET'', hr_path := sr_path h, hr_capture_to := sr_capture_to h,
        hr_public := sr_public h, hr_save_key := sr_save_key h,
        hr_param_in := param_map (\<lambda>p. sp_name p \<noteq> [] \<and> sp_in p \<noteq> []) sp_in (sm_params m)\<rparr>)"

definition config_method :: "sub_backend \<Rightarrow> sub_method \<Rightarrow> app_method" where
  "config_method b m =
     (let m0 = blank_method\<lparr>am_name := sm_name m, am_summary := sm_description m, am_duration := sm_latency m,
                 am_timeout := sm_timeout m, am_params := param_map (\<lambda>p. sp_name p \<noteq> []) param_text (sm_params m), am_gated := sm_gated m\<rparr>
      in if sm_has_signup m then m0\<lparr>am_signup := sm_signup m\<rparr>
         else if sm_has_local m then m0\<lparr>am_local := sm_local m\<rparr>
         else if sub_is_cli b \<or> (sub_is_hybrid b \<and> sm_has_cli m) then m0\<lparr>am_cli := Some (sm_cli m)\<rparr>
         else m0\<lparr>am_http := Some (config_route m)\<rparr>)"

definition config_listing :: "submission \<Rightarrow> listing" where
  "config_listing s =
     (let l = ss_listing s; v = ss_vendor s in
      \<lparr>li_display_name = sl_display_name l, li_tagline = sl_tagline l, li_app_description = sl_app_description l,
       li_homepage = sl_homepage l, li_source_url = sl_source_url l, li_license = sl_license l, li_categories = sl_categories l,
       li_keywords = sl_keywords l, li_vendor = \<lparr>ve_name = sv_name v, ve_url = sv_url v, ve_contact = sv_contact v\<rparr>, li_changelog = []\<rparr>)"

definition raw_config :: "submission \<Rightarrow> config" where
  "raw_config s =
     \<lparr>co_id = ss_id s, co_app_version = ss_version s, co_manifest_version = 0, co_description = ss_description s,
      co_namespace = [], co_binary_name = [], co_go_module = [], co_app_store_module = [], co_key_file = [],
      co_backend = config_backend (ss_backend s), co_methods = map (config_method (ss_backend s)) (ss_methods s),
      co_rate_per_min = 0, co_extra_grants = [], co_listing = config_listing s, co_pricing = ss_pricing s,
      co_product_demo = ss_product_demo s, co_next_steps = ss_next_steps s, co_assets = ss_artifacts s, co_artifact_base = []\<rparr>"

definition to_config :: "(string \<Rightarrow> string) \<Rightarrow> submission \<Rightarrow> config" where
  "to_config txt s = resolve_config txt (raw_config s)"

end
