(* ===== verification/Submission_Build.thy ===== *)
theory Submission_Build
  imports Submission
begin

text \<open>
  What the validation of a submission leaves unchecked about the spec derived from it. The publish
  server validates the submission only and builds ToConfig's spec; here are the conditions under which
  that spec also passes the generator's own validation, and a submission that is accepted while its
  spec does not pass.
\<close>

section \<open>What the derived spec is\<close>

lemma or_else_simps [simp]: "or_else [] d = d" "s \<noteq> [] \<Longrightarrow> or_else s d = s"
  by (simp_all add: or_else_def)

lemma backend_fields [simp]:
  "ab_type (config_backend b) = (if sub_is_hybrid b then ''hybrid'' else if sub_is_cli b then ''cli'' else ''http'')"
  "ab_auth (config_backend b) = (if sub_is_cli b then [] else sb_auth b)"
  "ab_command (config_backend b) = (if sub_is_hybrid b \<or> sub_is_cli b then sb_command b else [])"
  "ab_base_url (config_backend b) = (if sub_is_hybrid b \<or> sub_is_cli b then [] else sb_base_url b)"
  "ab_mcp (config_backend b) = None" "ab_x402 (config_backend b) = None"
  by (auto simp: config_backend_def blank_backend_def sub_is_hybrid_def sub_is_cli_def Let_def)

lemma multipart_config_method: "route_multipart (config_method b m) = None" "multipart_defaults (config_method b m) = config_method b m"
  by (simp_all add: route_multipart_def multipart_defaults_def config_method_def config_route_def blank_method_def blank_route_def Let_def)

definition resolved_names :: "submission \<Rightarrow> config" where
  "resolved_names s = resolve_names (raw_config s)"

definition built_assets :: "submission \<Rightarrow> asset list" where
  "built_assets s = map (resolve_asset (resolved_names s)) (ss_artifacts s)"

lemma resolved_names_fields [simp]:
  "co_id (resolved_names s) = ss_id s" "co_app_version (resolved_names s) = ss_version s"
  "co_description (resolved_names s) = ss_description s" "co_namespace (resolved_names s) = sub_namespace s"
  "ab_type (co_backend (resolved_names s)) = ab_type (config_backend (ss_backend s))"
  "ab_auth (co_backend (resolved_names s)) = ab_auth (config_backend (ss_backend s))"
  "ab_command (co_backend (resolved_names s)) = ab_command (config_backend (ss_backend s))"
  "ab_base_url (co_backend (resolved_names s)) = ab_base_url (config_backend (ss_backend s))"
  "ab_mcp (co_backend (resolved_names s)) = None" "ab_x402 (co_backend (resolved_names s)) = None"
  "co_methods (resolved_names s) = map (config_method (ss_backend s)) (ss_methods s)" "co_assets (resolved_names s) = ss_artifacts s"
  by (simp_all add: resolved_names_def resolve_names_def raw_config_def sub_namespace_def Let_def)

lemma managed_resolved [simp]: "managed (resolved_names s) \<longleftrightarrow> sub_managed (ss_backend s)"
  by (simp add: managed_def sub_managed_def)

definition listed_methods :: "(string \<Rightarrow> string) \<Rightarrow> submission \<Rightarrow> app_method list" where
  "listed_methods txt s =
     (let ms = map (config_method (ss_backend s)) (ss_methods s) in
      if sub_managed (ss_backend s) \<and> \<not> sub_provisioned (ss_backend s) then add_method (balance_method txt (sub_namespace s)) ms else ms)"

lemma provisioned_resolved: "sub_managed (ss_backend s) \<Longrightarrow> provisioned (resolved_names s) \<longleftrightarrow> sub_provisioned (ss_backend s)"
  by (simp add: provisioned_def sub_provisioned_def sub_managed_def)

lemma inject_resolved:
  "inject_methods txt (resolve_assets (resolved_names s)) =
     (resolved_names s)\<lparr>co_assets := built_assets s, co_methods := listed_methods txt s\<rparr>"
proof -
  let ?c = "resolve_assets (resolved_names s)"
  have m: "map multipart_defaults (co_methods ?c) = map (config_method (ss_backend s)) (ss_methods s)"
    by (simp add: resolve_assets_def multipart_config_method)
  have "\<not> has_multipart (?c\<lparr>co_methods := map multipart_defaults (co_methods ?c)\<rparr>)"
    unfolding m by (simp add: has_multipart_def list_ex_iff multipart_config_method)
  moreover have "managed ?c \<longleftrightarrow> sub_managed (ss_backend s)" "sub_managed (ss_backend s) \<Longrightarrow> provisioned ?c \<longleftrightarrow> sub_provisioned (ss_backend s)"
    using provisioned_resolved[of s] managed_resolved[of s] by (simp_all add: resolve_assets_def managed_def provisioned_def)
  ultimately show ?thesis
    unfolding inject_methods_def Let_def m
    by (auto simp: listed_methods_def resolve_assets_def built_assets_def)
qed

lemma to_config_fields [simp]:
  "co_id (to_config txt s) = ss_id s" "co_app_version (to_config txt s) = ss_version s"
  "co_description (to_config txt s) = ss_description s" "co_namespace (to_config txt s) = sub_namespace s"
  "co_backend (to_config txt s) = co_backend (resolved_names s)"
  "co_methods (to_config txt s) = map resolve_method (listed_methods txt s)" "co_assets (to_config txt s) = built_assets s"
  by (simp_all add: to_config_def resolve_config_def resolved_names_def[symmetric] inject_resolved Let_def)

lemma managed_to_config [simp]: "managed (to_config txt s) \<longleftrightarrow> sub_managed (ss_backend s)"
  using managed_resolved[of s] by (simp add: managed_def)

section \<open>What is left to check\<close>

definition save_key_ready :: "submission \<Rightarrow> save_key \<Rightarrow> bool" where
  "save_key_ready s k \<longleftrightarrow> \<not> blank (sk_path k) \<and> \<not> blank (sk_secret_key k) \<and> \<not> sub_managed (ss_backend s) \<and>
     (sk_start k = [] \<or> sk_start k \<in> set (map sm_name (ss_methods s)))"

definition route_ready :: "submission \<Rightarrow> sub_method \<Rightarrow> bool" where
  "route_ready s m \<longleftrightarrow>
     to_upper (or_else (sr_verb (sm_http m)) ''GET'') \<in> {''GET'', ''POST'', ''PATCH'', ''PUT'', ''DELETE''} \<and>
     set (path_param_names (sr_path (sm_http m))) \<subseteq> set (map sp_name (sm_params m)) \<and>
     list_all (\<lambda>p. trim_space (sp_name p) = sp_name p) (sm_params m) \<and>
     (case sr_save_key (sm_http m) of None \<Rightarrow> True | Some k \<Rightarrow> save_key_ready s k)"

text \<open>The route the spec gives a method.\<close>

definition goes_http :: "sub_backend \<Rightarrow> sub_method \<Rightarrow> bool" where
  "goes_http b m \<longleftrightarrow> \<not> sm_has_signup m \<and> \<not> sm_has_local m \<and> \<not> (sub_is_cli b \<or> (sub_is_hybrid b \<and> sm_has_cli m))"

definition method_ready :: "submission \<Rightarrow> sub_method \<Rightarrow> bool" where
  "method_ready s m \<longleftrightarrow> (let b = ss_backend s; ns = sub_namespace s in
     has_prefix (ns @ ''.'') (sm_name m) \<and> sm_name m \<noteq> ns @ ''.help'' \<and> (sm_timeout m = [] \<or> parses_duration (sm_timeout m)) \<and>
     (sm_has_signup m \<or> sm_has_local m \<longrightarrow> \<not> sub_is_cli b \<and> \<not> sub_is_hybrid b) \<and> (sm_has_signup m \<longrightarrow> \<not> sub_managed b) \<and>
     (goes_http b m \<longrightarrow> route_ready s m))"

definition assets_ready :: "submission \<Rightarrow> bool" where
  "assets_ready s \<longleftrightarrow> list_all (\<lambda>a. https_url (ba_url a)) (built_assets s) \<and> distinct (map path_key (built_assets s)) \<and>
     order_problems (built_assets s) = []"

definition base_ready :: "sub_backend \<Rightarrow> bool" where
  "base_ready b \<longleftrightarrow> sub_is_cli b \<or> sub_is_hybrid b \<or> (case url_parse (sb_base_url b) of None \<Rightarrow> False | Some u \<Rightarrow> ur_host u \<noteq> [])"

definition build_ready :: "submission \<Rightarrow> bool" where
  "build_ready s \<longleftrightarrow> base_ready (ss_backend s) \<and> assets_ready s \<and> list_all (method_ready s) (ss_methods s)"

section \<open>The pieces\<close>

lemma id_label_weak: "id_label False r \<Longrightarrow> id_label True r"
  by (auto simp: id_label_def list_all_iff)

lemma id_label_no_dot: "id_label u r \<Longrightarrow> CHR ''.'' \<notin> set r"
proof
  assume "id_label u r" "CHR ''.'' \<in> set r"
  then have "label_end CHR ''.''" by (auto simp: id_label_def list_all_iff)
  moreover have "\<not> label_end CHR ''.''" by code_simp
  ultimately show False by blast
qed

lemma sub_id_pattern_id: assumes "sub_id_pattern s" shows "id_pattern s"
proof -
  obtain r where r: "s = ''io.pilot.'' @ r" "id_label False r"
    using assms by (auto simp: sub_id_pattern_def cut_prefix_def has_prefix_iff split: option.splits if_splits)
  have "split_on CHR ''.'' s = [''io'', ''pilot'', r]"
    using split_on_append[of "CHR ''.''" "''io''" "''pilot.'' @ r"] split_on_append[of "CHR ''.''" "''pilot''" r]
      split_on_no_sep[OF id_label_no_dot[OF r(2)]] r(1) by simp
  moreover have "id_label True ''io''" "id_label True ''pilot''" by code_simp+
  ultimately show ?thesis using id_label_weak[OF r(2)] by (simp add: id_pattern_def)
qed

lemma param_map_lookup:
  "map_of (param_map keep f ps) n =
     (case filter (\<lambda>p. keep p \<and> sp_name p = n) ps of [] \<Rightarrow> None | qs \<Rightarrow> Some (f (last qs)))"
proof -
  have "map_of (fold (\<lambda>p m. if keep p then AList.update (sp_name p) (f p) m else m) ps m) n =
     (case filter (\<lambda>p. keep p \<and> sp_name p = n) ps of [] \<Rightarrow> map_of m n | qs \<Rightarrow> Some (f (last qs)))" for m
    by (induction ps arbitrary: m) (auto split: list.splits)
  from this[of "[]"] show ?thesis by (simp add: param_map_def split: list.split)
qed

lemma param_map_Some: "map_of (param_map keep f ps) n = Some v \<Longrightarrow> \<exists>p \<in> set ps. keep p \<and> sp_name p = n \<and> v = f p"
proof -
  assume a: "map_of (param_map keep f ps) n = Some v"
  then obtain q qs where q: "filter (\<lambda>p. keep p \<and> sp_name p = n) ps = q # qs" "v = f (last (q # qs))"
    by (auto simp: param_map_lookup split: list.splits)
  then have "last (q # qs) \<in> set (filter (\<lambda>p. keep p \<and> sp_name p = n) ps)" by (metis last_in_set list.distinct(1))
  then show ?thesis using q(2) by auto
qed

lemma param_map_has: "p \<in> set ps \<Longrightarrow> keep p \<Longrightarrow> map_of (param_map keep f ps) (sp_name p) \<noteq> None"
  by (auto simp: param_map_lookup filter_empty_conv split: list.splits)

lemma path_param_names_ne: "n \<in> set (path_param_names s) \<Longrightarrow> n \<noteq> []"
  by (induction s rule: path_param_names.induct)
     (auto simp: place_at_def Let_def split: option.splits if_splits prod.splits)

section \<open>One method\<close>

lemma resolve_route_fields [simp]:
  "hr_path (resolve_route h) = hr_path h" "hr_param_in (resolve_route h) = hr_param_in h"
  "hr_verb (resolve_route h) = to_upper (or_else (hr_verb h) ''GET'')" "hr_multipart (resolve_route h) = hr_multipart h"
  "hr_save_key (resolve_route h) = hr_save_key h"
  by (simp_all add: resolve_route_def resolve_param_locs_def)

lemma config_route_fields [simp]:
  "hr_path (config_route m) = sr_path (sm_http m)" "hr_verb (config_route m) = or_else (sr_verb (sm_http m)) ''GET''"
  "hr_multipart (config_route m) = None" "hr_save_key (config_route m) = sr_save_key (sm_http m)"
  "hr_param_in (config_route m) = param_map (\<lambda>p. sp_name p \<noteq> [] \<and> sp_in p \<noteq> []) sp_in (sm_params m)"
  by (simp_all add: config_route_def blank_route_def Let_def)

lemma resolve_method_fields [simp]:
  "am_name (resolve_method m) = am_name m" "am_kind (resolve_method m) = or_else (am_kind m) ''utility''"
  "am_duration (resolve_method m) = or_else (am_duration m) ''fast''" "am_timeout (resolve_method m) = am_timeout m"
  "am_params (resolve_method m) = am_params m" "am_http (resolve_method m) = map_option resolve_route (am_http m)"
  "am_signup (resolve_method m) = map_option resolve_signup (am_signup m)" "am_cli (resolve_method m) = am_cli m"
  "am_local (resolve_method m) = am_local m" "am_upload (resolve_method m) = am_upload m" "am_mcp (resolve_method m) = am_mcp m"
  by (simp_all add: resolve_method_def)

lemma config_method_fields [simp]:
  "am_name (config_method b m) = sm_name m" "am_kind (config_method b m) = []" "am_duration (config_method b m) = sm_latency m"
  "am_timeout (config_method b m) = sm_timeout m" "am_upload (config_method b m) = None" "am_mcp (config_method b m) = None"
  "am_params (config_method b m) = param_map (\<lambda>p. sp_name p \<noteq> []) param_text (sm_params m)"
  "am_http (config_method b m) = (if goes_http b m then Some (config_route m) else None)"
  "am_signup (config_method b m) = (if sm_has_signup m then sm_signup m else None)"
  "am_local (config_method b m) = (if \<not> sm_has_signup m \<and> sm_has_local m then sm_local m else None)"
  "am_cli (config_method b m) =
     (if \<not> sm_has_signup m \<and> \<not> sm_has_local m \<and> (sub_is_cli b \<or> (sub_is_hybrid b \<and> sm_has_cli m)) then Some (sm_cli m) else None)"
  by (auto simp: config_method_def goes_http_def blank_method_def Let_def)

lemma places_ready:
  assumes "route_ready s m" "sub_http_problems m = []"
    and "am_params a = param_map (\<lambda>p. sp_name p \<noteq> []) param_text (sm_params m)"
  shows "place_problems a (resolve_route (config_route m)) = []"
proof -
  let ?h = "resolve_route (config_route m)"
  have sub: "sub_param_problems m p = []" if "p \<in> set (sm_params m)" for p
    using assms(2) that by (auto simp: sub_http_problems_def concat_map_Nil split: if_splits)
  have declared: "map_of (am_params a) n \<noteq> None" if "n \<noteq> []" "n \<in> set (map sp_name (sm_params m))" for n
    using that param_map_has[of _ "sm_params m" "\<lambda>p. sp_name p \<noteq> []" param_text] unfolding assms(3) by auto
  have "map_of (am_params a) n \<noteq> None" if "n \<in> set (path_param_names (sr_path (sm_http m)))" for n
    using declared[of n] that path_param_names_ne assms(1) by (auto simp: route_ready_def)
  moreover have "valid_place (place_of ?h n) \<and> map_of (am_params a) n \<noteq> None \<and>
      (place_of ?h n \<notin> {''path'', ''path_raw''} \<or> n \<in> set (path_param_names (sr_path (sm_http m))))"
    if n: "n \<in> set (sorted_keys (hr_param_in ?h))" for n
  proof -
    obtain v where v: "map_of (hr_param_in ?h) n = Some v" using n by (auto simp: sorted_keys_def dest: weak_map_of_SomeI)
    then obtain p where p: "p \<in> set (sm_params m)" "sp_name p \<noteq> []" "sp_in p \<noteq> []" "sp_name p = n" "v = sp_in p"
      using param_map_Some[of "\<lambda>p. sp_name p \<noteq> [] \<and> sp_in p \<noteq> []" sp_in "sm_params m" n v] by auto
    moreover have "trim_space n = n" using assms(1) p by (auto simp: route_ready_def list_all_iff)
    moreover have "place_of ?h n = sp_in p" using v p(5) by (simp add: place_of_def)
    ultimately show ?thesis using sub[OF p(1)] declared[of n]
      by (auto simp: sub_param_problems_def Let_def split: if_splits)
  qed
  ultimately show ?thesis by (simp add: place_problems_def concat_map_Nil del: resolve_route_fields(2))
qed


lemma need_url_sub: "sub_need_url raw e1 e2 = [] \<Longrightarrow> need_url raw d1 d2 = []"
  by (auto simp: sub_need_url_def need_url_def split: if_splits)

lemma signup_ready:
  assumes "sub_signup_step r = []" shows "signup_step_problems (resolve_signup r) = []"
proof -
  have low: "to_lower ''create'' = ''create''" "to_lower ''register'' = ''register''" "to_lower ''verify'' = ''verify''"
    "to_lower ''broker'' = ''broker''" "to_lower ''set_key'' = ''set_key''" "to_lower ''account'' = ''account''" by code_simp+
  have fold: "\<not> equal_fold ''register'' ''verify''" "equal_fold ''verify'' ''verify''" by code_simp+
  have step: "su_step r \<in> {''create'', ''register'', ''verify'', ''broker'', ''set_key'', ''account''}"
    using assms by (auto simp: sub_signup_step_def Let_def split: if_splits)
  then have ne: "su_step r \<noteq> []" "to_lower (su_step r) = su_step r" using low by auto
  have fields: "su_step (resolve_signup r) = su_step r" "su_url (resolve_signup r) = su_url r"
    "su_broker_url (resolve_signup r) = su_broker_url r" "su_secret_key (resolve_signup r) = su_secret_key r"
    using ne by (simp_all add: resolve_signup_def Let_def)
  have v: "is_verify (resolve_signup r) \<longleftrightarrow> su_step r = ''verify''" if "su_step r = ''register'' \<or> su_step r = ''verify''"
    using that fold by (auto simp: is_verify_def fields)
  show ?thesis
    using assms v step need_url_sub
    unfolding signup_step_problems_def sub_signup_step_def fields Let_def
    by (auto split: if_splits)
qed

lemma not_blank_in: "c \<in> set s \<Longrightarrow> \<not> is_space c \<Longrightarrow> \<not> blank s"
  using in_dropWhile[of c s is_space] in_dropWhile[of c "rev (dropWhile is_space s)" is_space]
  by (auto simp: blank_def trim_space_def)

section \<open>Every method\<close>

text \<open>What the methods' checks read of the spec.\<close>

definition built_from :: "config \<Rightarrow> submission \<Rightarrow> bool" where
  "built_from c s \<longleftrightarrow> co_namespace c = sub_namespace s \<and> ab_type (co_backend c) = ab_type (config_backend (ss_backend s)) \<and>
     (managed c \<longleftrightarrow> sub_managed (ss_backend s)) \<and> set (map sm_name (ss_methods s)) \<subseteq> set (map am_name (co_methods c))"

lemma route_built:
  assumes "built_from c s" "route_ready s m" "sub_http_problems m = []" "am_http a = Some (resolve_route (config_route m))"
    "am_params a = param_map (\<lambda>p. sp_name p \<noteq> []) param_text (sm_params m)"
  shows "http_problems c a = []"
proof -
  have "key_problems c k = []" if "sr_save_key (sm_http m) = Some k" for k
    using assms(1,2) that by (auto simp: route_ready_def save_key_ready_def key_problems_def built_from_def list_ex_iff image_iff subset_iff)
  moreover have "has_prefix ''/'' (sr_path (sm_http m))" using assms(3) by (auto simp: sub_http_problems_def split: if_splits)
  moreover have "to_upper (or_else (or_else (sr_verb (sm_http m)) ''GET'') ''GET'') = to_upper (or_else (sr_verb (sm_http m)) ''GET'')"
    by (simp add: or_else_def)
  ultimately show ?thesis
    using assms(2) places_ready[OF assms(2,3,5)]
    by (auto simp: http_problems_def route_problems_def assms(4) route_ready_def split: option.splits)
qed

lemma cli_built: "sub_cli_problems m = [] \<Longrightarrow> am_cli a = Some (sm_cli m) \<Longrightarrow> cli_problems a = []"
  by (auto simp: sub_cli_problems_def cli_problems_def Let_def split: if_splits)

lemma routing_built:
  assumes c: "built_from c s" and m: "method_ready s m" and p: "sub_routing_problems (ss_backend s) m = []"
  shows "routing_problems c (resolve_method (config_method (ss_backend s) m)) = []"
proof -
  let ?b = "ss_backend s" and ?a = "resolve_method (config_method (ss_backend s) m)"
  have t: "ab_type (co_backend c) = (if sub_is_hybrid ?b then ''hybrid'' else if sub_is_cli ?b then ''cli'' else ''http'')"
    using c by (simp add: built_from_def)
  have ready: "goes_http ?b m \<Longrightarrow> route_ready s m" "sm_has_signup m \<or> sm_has_local m \<Longrightarrow> \<not> sub_is_cli ?b \<and> \<not> sub_is_hybrid ?b"
    "sm_has_signup m \<Longrightarrow> \<not> managed c" using m c by (auto simp: method_ready_def built_from_def Let_def)
  have http: "http_problems c ?a = []" if "goes_http ?b m" "sub_http_problems m = []"
    by (rule route_built[OF c ready(1)[OF that(1)] that(2)]) (simp_all add: that(1))
  consider (signup) "sm_has_signup m" | (store) "\<not> sm_has_signup m" "sm_has_local m"
    | (none) "\<not> sm_has_signup m" "\<not> sm_has_local m" by blast
  then show ?thesis
  proof cases
    case signup
    then obtain r where r: "sm_signup m = Some r" by (auto simp: sm_has_signup_def split: option.splits)
    have "sub_signup_step r = []" using p ready(2) signup r by (simp add: sub_routing_problems_def sub_signup_problems_def)
    then have "signup_problems c (resolve_signup r) = []" using signup_ready ready(3)[OF signup] by (simp add: signup_problems_def)
    then show ?thesis using signup r ready(2) t
      by (simp add: routing_problems_def http_backend_problems_def goes_http_def)
  next
    case store
    then have "sub_local_problems m = []" using p ready(2) by (simp add: sub_routing_problems_def)
    then show ?thesis using store ready(2) t
      by (auto simp: routing_problems_def http_backend_problems_def local_problems_def goes_http_def sm_has_local_def split: option.splits)
  next
    case none
    show ?thesis
      using p none t http cli_built[of m ?a]
      by (auto simp: routing_problems_def http_backend_problems_def hybrid_problems_def sub_routing_problems_def goes_http_def
            sub_is_cli_def sub_is_hybrid_def split: if_splits)
  qed
qed

lemma method_built:
  assumes "built_from c s" "method_ready s m" "sub_method_problems s seen m = []"
  shows "method_sound c (resolve_method (config_method (ss_backend s) m))"
proof -
  have r: "sub_routing_problems (ss_backend s) m = []" "sm_latency m \<in> {''fast'', ''med'', ''slow''}"
    using assms(3) by (auto simp: sub_method_problems_def Let_def)
  have n: "has_prefix (sub_namespace s @ ''.'') (sm_name m)" "sm_name m \<noteq> sub_namespace s @ ''.help''"
    "sm_timeout m = [] \<or> parses_duration (sm_timeout m)"
    using assms(2) by (auto simp: method_ready_def Let_def)
  have "CHR ''.'' \<in> set (sm_name m)" using n(1) by (auto simp: has_prefix_iff)
  then have "\<not> blank (sm_name m)" by (rule not_blank_in) (simp add: is_space_def)
  then show ?thesis using n r routing_built[OF assms(1,2) r(1)] assms(1)
    by (auto simp: method_sound_def method_problems_def built_from_def or_else_def)
qed

lemma balance_built:
  assumes "built_from c s" "\<not> sub_is_cli (ss_backend s)"
  shows "method_sound c (resolve_method (balance_method txt (sub_namespace s)))"
proof -
  let ?a = "resolve_method (balance_method txt (sub_namespace s))"
  have n: "path_param_names balance_meta_path = []" "has_prefix ''/'' balance_meta_path" "to_upper ''GET'' = ''GET''" by code_simp+
  have "http_problems c ?a = []"
    by (simp add: http_problems_def route_problems_def place_problems_def balance_method_def blank_method_def blank_route_def
          resolve_method_def resolve_route_def resolve_param_locs_def sorted_keys_def n or_else_def)
  then have "routing_problems c ?a = []" using assms
    by (simp add: routing_problems_def http_backend_problems_def hybrid_problems_def built_from_def balance_method_def blank_method_def)
  moreover have "CHR ''.'' \<in> set (am_name ?a)" by (simp add: balance_method_def)
  then have "\<not> blank (am_name ?a)" by (rule not_blank_in) (simp add: is_space_def)
  ultimately show ?thesis using assms(1)
    by (simp add: method_sound_def method_problems_def built_from_def balance_method_def blank_method_def or_else_def has_prefix_iff)
qed


section \<open>Assets and backend\<close>

lemma artifact_problems_seen:
  "artifact_problems seen a = [] \<longleftrightarrow> artifact_problems [] a = [] \<and> order_key a \<notin> set seen"
  by (auto simp: artifact_problems_def)

lemma artifacts_problems_Nil:
  "artifacts_problems i seen xs = [] \<longleftrightarrow>
     list_all (\<lambda>a. artifact_problems [] a = []) xs \<and> distinct (map order_key xs) \<and> set (map order_key xs) \<inter> set seen = {}"
proof (induction i seen xs rule: artifacts_problems.induct)
  case (2 i seen a xs)
  then show ?case using artifact_problems_seen[of seen a] by auto
qed simp

lemma resolve_asset_fields [simp]:
  "ba_role (resolve_asset c a) = ba_role a" "ba_os (resolve_asset c a) = ba_os a" "ba_arch (resolve_asset c a) = ba_arch a"
  "ba_sha256 (resolve_asset c a) = ba_sha256 a" "ba_unpack (resolve_asset c a) = ba_unpack a"
  "ba_exec_path (resolve_asset c a) = ba_exec_path a" "order_key (resolve_asset c a) = order_key a"
  by (simp_all add: resolve_asset_def order_key_def)

lemma asset_built:
  "artifact_problems [] a = [] \<Longrightarrow> https_url (ba_url (resolve_asset c a)) \<Longrightarrow> asset_problems [] [] (resolve_asset c a) = []"
  by (simp add: artifact_problems_def asset_problems_def)

lemma assets_built:
  assumes "validate_artifacts s = []" "assets_ready s"
  shows "validate_assets (to_config txt s) = []"
proof (cases "ss_artifacts s = []")
  case True
  then show ?thesis by (simp add: validate_assets_def built_assets_def)
next
  case False
  have sub: "sub_is_cli (ss_backend s) \<or> sub_is_hybrid (ss_backend s)" "list_all (\<lambda>a. artifact_problems [] a = []) (ss_artifacts s)"
    "distinct (map order_key (ss_artifacts s))"
    using assms(1) False by (auto simp: validate_artifacts_def artifacts_problems_Nil)
  have keys: "map order_key (built_assets s) = map order_key (ss_artifacts s)" by (simp add: built_assets_def)
  have "list_all (\<lambda>a. asset_problems [] [] a = []) (built_assets s)"
    using sub(2) assms(2) asset_built by (auto simp: assets_ready_def built_assets_def list_all_iff)
  then have "assets_problems 0 [] [] (built_assets s) = []"
    using sub(3) assms(2) unfolding assets_problems_Nil keys assets_ready_def by simp
  then show ?thesis using sub(1) assms(2) by (auto simp: validate_assets_def assets_ready_def)
qed

lemma backend_built:
  assumes "sub_backend_problems s = []" "base_ready (ss_backend s)"
  shows "backend_problems (to_config txt s) = []"
proof -
  let ?b = "ss_backend s"
  have cmd: "has_command ?b \<Longrightarrow> sb_command ?b \<noteq> []" by (auto simp: has_command_def)
  have nocli: "am_cli (balance_method txt n) = None" for n by (simp add: balance_method_def blank_method_def)
  have cli: "has_cli_methods (to_config txt s) \<Longrightarrow> sub_is_hybrid ?b \<Longrightarrow> sub_has_cli_methods s"
    using nocli by (auto simp: has_cli_methods_def sub_has_cli_methods_def listed_methods_def add_method_def Let_def list_ex_iff
        sub_is_cli_def sub_is_hybrid_def split: if_splits)
  have url: "\<not> url_pattern (trim_space [])" by code_simp
  consider "sub_is_cli ?b" "\<not> sub_is_hybrid ?b" | "sub_is_hybrid ?b" "\<not> sub_is_cli ?b" | "\<not> sub_is_cli ?b" "\<not> sub_is_hybrid ?b"
    by (auto simp: sub_is_cli_def sub_is_hybrid_def)
  then show ?thesis
  proof cases
    case 1
    then show ?thesis using assms cmd by (auto simp: backend_problems_def sub_backend_problems_def)
  next
    case 2
    then show ?thesis using assms cmd cli by (auto simp: backend_problems_def sub_backend_problems_def Let_def)
  next
    case 3
    then have "sb_base_url ?b \<noteq> []" using assms(1) url by (auto simp: sub_backend_problems_def Let_def)
    then show ?thesis using 3 assms(2) by (auto simp: backend_problems_def base_ready_def)
  qed
qed

section \<open>The derived spec\<close>

lemma sub_methods_Nil:
  "sub_methods_problems s i seen ms = [] \<longleftrightarrow>
     list_all (\<lambda>m. \<not> blank (sm_name m) \<and> sub_method_problems s [] m = []) ms \<and>
     distinct (map (trim_space \<circ> sm_name) ms) \<and> set (map (trim_space \<circ> sm_name) ms) \<inter> set seen = {}"
proof (induction s i seen ms rule: sub_methods_problems.induct)
  case (2 s i seen m ms)
  have "sub_method_problems s seen m = [] \<longleftrightarrow> sub_method_problems s [] m = [] \<and> trim_space (sm_name m) \<notin> set seen"
    by (auto simp: sub_method_problems_def Let_def)
  then show ?case using 2 by auto
qed simp

lemma add_method_names: "distinct (map am_name ms) \<Longrightarrow> distinct (map am_name (add_method m ms))"
  by (auto simp: add_method_def list_ex_iff)

lemma set_add_method: "set (add_method m ms) \<subseteq> insert m (set ms)" "set ms \<subseteq> set (add_method m ms)"
  by (auto simp: add_method_def)


lemma listed_own: "m \<in> set (ss_methods s) \<Longrightarrow> config_method (ss_backend s) m \<in> set (listed_methods txt s)"
  by (auto simp: listed_methods_def add_method_def Let_def)

lemma built_from_spec: "built_from (to_config txt s) s"
proof -
  have "sm_name m \<in> am_name ` set (listed_methods txt s)" if "m \<in> set (ss_methods s)" for m
    using imageI[OF listed_own[OF that], of am_name "txt"] by simp
  then show ?thesis by (auto simp: built_from_def image_image)
qed

lemma methods_built:
  assumes "sub_methods_problems s 0 [] (ss_methods s) = []" "list_all (method_ready s) (ss_methods s)"
  shows "list_all (method_sound (to_config txt s)) (co_methods (to_config txt s)) \<and> distinct (map am_name (co_methods (to_config txt s)))"
proof -
  let ?c = "to_config txt s" and ?ms = "map (config_method (ss_backend s)) (ss_methods s)"
  have sub: "list_all (\<lambda>m. sub_method_problems s [] m = []) (ss_methods s)" "distinct (map (trim_space \<circ> sm_name) (ss_methods s))"
    using assms(1) by (auto simp: sub_methods_Nil list_all_iff)
  have own: "list_all (\<lambda>m. method_sound ?c (resolve_method m)) ?ms"
    using sub(1) assms(2) method_built[OF built_from_spec] by (auto simp: list_all_iff)
  have bal: "sub_managed (ss_backend s) \<Longrightarrow> method_sound ?c (resolve_method (balance_method txt (sub_namespace s)))"
    using balance_built[OF built_from_spec] by (simp add: sub_managed_def)
  have "list_all (\<lambda>m. method_sound ?c (resolve_method m)) (listed_methods txt s)"
    using own bal set_add_method(1)[of "balance_method txt (sub_namespace s)" ?ms]
    by (auto simp: listed_methods_def Let_def list_all_iff)
  moreover have "distinct (map sm_name (ss_methods s))" using distinct_map[of trim_space "map sm_name (ss_methods s)"] sub(2) by simp
  then have "distinct (map am_name (listed_methods txt s))"
    using add_method_names[of ?ms] by (simp add: listed_methods_def comp_def Let_def)
  ultimately show ?thesis by (simp add: list_all_iff comp_def)
qed

section \<open>Properties\<close>

text \<open>C8: An accepted submission derives a spec without problems when it also meets the conditions of
  build_ready: its backend URL parses to a host, every derived asset URL is https and the assets
  have distinct paths and an install order, every method name starts with the namespace as written
  and is not the generated help, timeouts parse, sign-up and local methods are on an http backend,
  and every http route has a known verb, declared placeholders and complete key storage.\<close>

theorem submission_builds:
  assumes "validate_submission regex s = []" "build_ready s"
  shows "validate_config (to_config txt s) = []"
proof -
  have sub: "sub_id_pattern (ss_id s)" "semver_pattern (ss_version s)" "\<not> blank (ss_description s)" "sub_backend_problems s = []"
    "validate_artifacts s = []" "ss_methods s \<noteq> []" "sub_methods_problems s 0 [] (ss_methods s) = []"
    using assms(1) by (simp_all add: validate_submission_def)
  have ready: "base_ready (ss_backend s)" "assets_ready s" "list_all (method_ready s) (ss_methods s)"
    using assms(2) by (simp_all add: build_ready_def)
  have "co_methods (to_config txt s) \<noteq> []"
    using sub(6) listed_own[of "hd (ss_methods s)" s "txt"] by auto
  moreover have "pay_problems (to_config txt s) = []" by (simp add: pay_problems_def)
  ultimately show ?thesis
    using sub_id_pattern_id[OF sub(1)] sub(2,3) backend_built[OF sub(4) ready(1)] assets_built[OF sub(5) ready(2)]
      methods_built[OF sub(7) ready(3)]
    unfolding validate_config_Nil by simp
qed

text \<open>A submission of one http method, and one whose only method takes the name of the generated help and does not
  declare the placeholder of its path.\<close>

definition one_route :: "string \<Rightarrow> string \<Rightarrow> sub_param list \<Rightarrow> submission" where
  "one_route name path ps =
     \<lparr>ss_id = ''io.pilot.geo'', ss_version = ''1.0.0'', ss_description = ''Places'', ss_email = ''dev@acme.io'',
      ss_backend = \<lparr>sb_type = ''http'', sb_base_url = ''https://api.acme.io'', sb_headers = [], sb_auth = [], sb_quota = 0,
        sb_url_secret = [], sb_command = [], sb_env_passthrough = [], sb_provider = [], sb_cloud_base_url = [], sb_broker_url = [],
        sb_seed_credits = 0, sb_cost_credits = [], sb_max_identities_per_ip = 0, sb_mint_cooldown_ms = 0, sb_push_path = [],
        sb_balance_path = [], sb_artifact_max_bytes = 0, sb_owner_env_key = [], sb_admin_key_env = []\<rparr>,
      ss_methods =
        [\<lparr>sm_name = name, sm_description = ''Find'', sm_latency = ''fast'', sm_timeout = [],
          sm_http = \<lparr>sr_verb = [], sr_path = path, sr_capture_to = [], sr_public = False, sr_save_key = None\<rparr>,
          sm_cli = \<lparr>cl_args = [], cl_params_as_flags = False, cl_passthrough = False\<rparr>,
          sm_local = None, sm_signup = None, sm_params = ps, sm_gated = []\<rparr>],
      ss_listing = \<lparr>sl_display_name = [], sl_tagline = [], sl_app_description = [], sl_license = [], sl_homepage = [],
        sl_source_url = [], sl_categories = [], sl_keywords = [], sl_requires_binary = False, sl_binary_url = []\<rparr>,
      ss_vendor = \<lparr>sv_name = [], sv_url = [], sv_contact = [], sv_agent_usage = [], sv_capabilities = []\<rparr>,
      ss_pricing = None, ss_product_demo = None, ss_next_steps = None, ss_artifacts = []\<rparr>"

definition place_param :: sub_param where
  "place_param = \<lparr>sp_name = ''place'', sp_type = ''string'', sp_required = True, sp_description = [], sp_in = ''path''\<rparr>"

theorem submission_builds_witness:
  "validate_config (to_config (\<lambda>_. []) (one_route ''geo.find'' ''/places/{place}'' [place_param])) = []"
proof -
  have "validate_submission (\<lambda>_ _. None) (one_route ''geo.find'' ''/places/{place}'' [place_param]) = []" by code_simp
  moreover have "build_ready (one_route ''geo.find'' ''/places/{place}'' [place_param])" by code_simp
  ultimately show ?thesis by (rule submission_builds)
qed

text \<open>Observation: The server accepts a submission whose spec its own generator's validation refuses.\<close>

lemma accepted_spec_refused:
  "validate_submission regex (one_route ''geo.help'' ''/places/{place}'' []) = [] \<and>
   validate_config (to_config txt (one_route ''geo.help'' ''/places/{place}'' [])) =
     [BadMethod 0 NameReserved, BadMethod 0 (PlaceholderUndeclared ''place'')]"
proof
  show "validate_submission regex (one_route ''geo.help'' ''/places/{place}'' []) = []" by code_simp
  show "validate_config (to_config txt (one_route ''geo.help'' ''/places/{place}'' [])) =
     [BadMethod 0 NameReserved, BadMethod 0 (PlaceholderUndeclared ''place'')]" by code_simp
qed

end
