(* ===== verification/Publish_Names.thy ===== *)
theory Publish_Names
  imports Submission_Build
begin

text \<open>
  The characters of app ids and versions, and where an id ends in a text that joins the two.
\<close>

lemma digits_slash: "list_all is_digit p \<Longrightarrow> c \<in> set p \<Longrightarrow> is_alnum c"
  by (auto simp: list_all_iff is_alnum_def)

lemma join_chars: "c \<in> set (join_on d ws) \<Longrightarrow> c = d \<or> (\<exists>w \<in> set ws. c \<in> set w)"
  by (induction d ws rule: join_on.induct) auto

lemma core_chars:
  assumes "list_all (\<lambda>p. p \<noteq> [] \<and> list_all is_digit p) (split_on CHR ''.'' s)" "c \<in> set s"
  shows "is_alnum c \<or> c = CHR ''.''"
proof -
  have "c \<in> set (join_on CHR ''.'' (split_on CHR ''.'' s))" using assms(2) by (simp add: join_on_split_on)
  from join_chars[OF this] assms(1) digits_slash show ?thesis by (auto simp: list_all_iff)
qed

lemma semver_chars: "semver_pattern s \<Longrightarrow> c \<in> set s \<Longrightarrow> is_alnum c \<or> c = CHR ''.'' \<or> c = CHR ''-''"
  using core_chars by (fastforce simp: semver_pattern_def Let_def list_all_iff split: option.splits dest!: cut_at_SomeD)

lemma semver_no_slash: "semver_pattern s \<Longrightarrow> CHR ''/'' \<notin> set s"
proof
  assume "semver_pattern s" "CHR ''/'' \<in> set s"
  from semver_chars[OF this] show False by (simp add: is_alnum_def is_digit_def is_lower_chr_def is_upper_chr_def byte_def)
qed

lemma semver_plain: "semver_pattern s \<Longrightarrow> c \<in> {CHR ''/'', CHR ''_'', CHR '' ''} \<Longrightarrow> c \<notin> set s"
  using semver_chars[of s c] by (auto simp: is_alnum_def is_digit_def is_lower_chr_def is_upper_chr_def byte_def)

lemma id_plain: assumes "sub_id_pattern s" "c \<in> {CHR ''/'', CHR ''_'', CHR '' ''}" shows "c \<notin> set s"
proof -
  obtain r where r: "s = ''io.pilot.'' @ r" "id_label False r"
    using assms(1) by (auto simp: sub_id_pattern_def cut_prefix_def has_prefix_iff split: option.splits if_splits)
  have "c \<notin> set r" using r(2) assms(2)
    by (auto simp: id_label_def list_all_iff label_end_def is_lower_chr_def is_digit_def byte_def dest!: bspec[of "set r" _ c])
  then show ?thesis using r(1) assms(2) by auto
qed

text \<open>What precedes a dash of a version has a dot.\<close>

lemma semver_dot_first:
  assumes "semver_pattern (y @ CHR ''-'' # z)" shows "CHR ''.'' \<in> set y"
proof -
  obtain a b where ab: "cut_at CHR ''-'' (y @ CHR ''-'' # z) = Some (a, b)"
    using cut_at_None_iff[of "CHR ''-''" "y @ CHR ''-'' # z"] by auto
  then have eq: "y @ CHR ''-'' # z = a @ CHR ''-'' # b" "CHR ''-'' \<notin> set a" using cut_at_SomeD by blast+
  then obtain u where "y = a @ u" by (auto simp: append_eq_append_conv2 Cons_eq_append_conv)
  moreover have "length (split_on CHR ''.'' a) = 3" using assms ab by (simp add: semver_pattern_def Let_def)
  then have "CHR ''.'' \<in> set a" using split_on_no_sep[of "CHR ''.''" a] by (cases "CHR ''.'' \<in> set a") simp_all
  ultimately show ?thesis by simp
qed

lemma dash_cases:
  assumes "r @ d # v = r' @ d # v'"
  shows "r = r' \<or> (\<exists>y. r' = r @ d # y \<and> v = y @ d # v') \<or> (\<exists>y. r = r' @ d # y \<and> v' = y @ d # v)"
proof -
  from assms obtain us where "r = r' @ us \<and> us @ d # v = d # v' \<or> r @ us = r' \<and> d # v = us @ d # v'"
    unfolding append_eq_append_conv2 by blast
  then show ?thesis by (cases us) auto
qed

lemma id_version_split:
  assumes "sub_id_pattern i" "semver_pattern v" "sub_id_pattern i'" "semver_pattern v'"
    and "i @ CHR ''-'' # v = i' @ CHR ''-'' # v'"
  shows "i = i' \<and> v = v'"
proof -
  have short: False
    if "id_label False (r @ CHR ''-'' # y)" "semver_pattern (y @ CHR ''-'' # w)" for r y w
    using id_label_no_dot[OF that(1)] semver_dot_first[OF that(2)] by simp
  obtain r r' where r: "i = ''io.pilot.'' @ r" "id_label False r" and r': "i' = ''io.pilot.'' @ r'" "id_label False r'"
    using assms(1,3) by (auto simp: sub_id_pattern_def cut_prefix_def has_prefix_iff split: option.splits if_splits)
  have eq: "r @ CHR ''-'' # v = r' @ CHR ''-'' # v'" using assms(5) r(1) r'(1) by simp
  from eq consider (same) "r = r'" | (left) y where "r' = r @ CHR ''-'' # y" "v = y @ CHR ''-'' # v'"
    | (right) y where "r = r' @ CHR ''-'' # y" "v' = y @ CHR ''-'' # v"
    using dash_cases[OF eq] by blast
  then show ?thesis
  proof cases
    case same
    then show ?thesis using eq r(1) r'(1) by simp
  next
    case left
    then have False using short[of r y v'] r'(2) assms(2) by simp
    then show ?thesis ..
  next
    case right
    then have False using short[of r' y v] r(2) assms(4) by simp
    then show ?thesis ..
  qed
qed

end
