(* ===== verification/Artifact.thy ===== *)
theory Artifact
  imports Http Publish_Names
begin

text \<open>
  internal/publish/artifact.go and the presign handler of cmd/publish-server/main.go: the key of an
  uploaded artifact, the percent encoding and the signature of its upload URL, and the guard that
  answers for a key only once. SHA-256 and HMAC are the arguments \<open>sha\<close> and \<open>mac\<close>, the clock is the
  formatted day and time, the answer of the bucket to a HEAD request is the argument \<open>head\<close>.
\<close>

section \<open>The registry of artifacts\<close>

record r2_config =
  r2_endpoint :: string
  r2_bucket :: string
  r2_access :: string
  r2_secret :: string
  r2_region :: string
  r2_public :: string

definition r2_from_env :: "(string \<Rightarrow> string) \<Rightarrow> r2_config" where
  "r2_from_env getenv =
     (let endpoint = trim_right_of CHR ''/'' (getenv ''R2_ENDPOINT''); acct = getenv ''R2_ACCOUNT_ID''
      in \<lparr>r2_endpoint = (if endpoint = [] \<and> acct \<noteq> [] then ''https://'' @ acct @ ''.r2.cloudflarestorage.com'' else endpoint),
          r2_bucket = default_str ''pilot-artifacts-prod'' (getenv ''R2_BUCKET''),
          r2_access = getenv ''R2_ACCESS_KEY_ID'', r2_secret = getenv ''R2_SECRET_ACCESS_KEY'',
          r2_region = default_str ''auto'' (getenv ''R2_REGION''),
          r2_public = default_str ''https://artifacts.pilotprotocol.network'' (trim_right_of CHR ''/'' (getenv ''R2_PUBLIC_BASE''))\<rparr>)"

definition r2_configured :: "r2_config \<Rightarrow> bool" where
  "r2_configured c \<longleftrightarrow> r2_endpoint c \<noteq> [] \<and> r2_access c \<noteq> [] \<and> r2_secret c \<noteq> []"

definition artifact_key :: "string \<Rightarrow> string \<Rightarrow> string \<Rightarrow> string \<Rightarrow> string \<Rightarrow> string" where
  "artifact_key i ver os arch file = i @ ''/'' @ ver @ ''/'' @ os @ ''-'' @ arch @ ''/'' @ file"

definition public_url :: "r2_config \<Rightarrow> string \<Rightarrow> string" where
  "public_url c key = trim_right_of CHR ''/'' (r2_public c) @ ''/'' @ key"

section \<open>Percent encoding\<close>

definition uri_chr :: "bool \<Rightarrow> char \<Rightarrow> string" where
  "uri_chr slash c =
     (if query_safe c \<or> (c = CHR ''/'' \<and> \<not> slash) then [c]
      else [CHR ''%'', hex_upper (byte c div 16), hex_upper (byte c mod 16)])"

definition uri_encode :: "bool \<Rightarrow> string \<Rightarrow> string" where
  "uri_encode slash s = concat (map (uri_chr slash) s)"

definition uri_encode_path :: "string \<Rightarrow> string" where
  "uri_encode_path p = join_on CHR ''/'' (map (uri_encode False) (split_on CHR ''/'' p))"

definition encode_query_sorted :: "string gmap \<Rightarrow> string" where
  "encode_query_sorted q =
     join_on CHR ''&'' (map (\<lambda>(k, v). uri_encode True k @ ''='' @ uri_encode True v) (sort_key fst q))"

section \<open>The signed URL\<close>

definition sigv4_key :: "(string \<Rightarrow> string \<Rightarrow> string) \<Rightarrow> string \<Rightarrow> string \<Rightarrow> string \<Rightarrow> string \<Rightarrow> string" where
  "sigv4_key mac secret day region service =
     mac (mac (mac (mac (''AWS4'' @ secret) day) region) service) ''aws4_request''"

definition line_feed :: char where "line_feed = CHR 0x0A"

definition canonical_uri :: "string \<Rightarrow> string \<Rightarrow> string" where
  "canonical_uri bucket key = (if bucket \<noteq> [] then ''/'' @ bucket @ ''/'' @ uri_encode_path key else ''/'' @ uri_encode_path key)"

definition auth_query :: "string \<Rightarrow> string \<Rightarrow> string \<Rightarrow> int \<Rightarrow> string gmap" where
  "auth_query access scope amz expires =
     [(''X-Amz-Algorithm'', ''AWS4-HMAC-SHA256''), (''X-Amz-Credential'', access @ ''/'' @ scope), (''X-Amz-Date'', amz),
      (''X-Amz-Expires'', itoa expires), (''X-Amz-SignedHeaders'', ''host'')]"

definition canonical_request :: "string \<Rightarrow> string \<Rightarrow> string \<Rightarrow> string \<Rightarrow> string" where
  "canonical_request verb uri query host =
     join_on line_feed [verb, uri, query, ''host:'' @ host @ [line_feed], ''host'', ''UNSIGNED-PAYLOAD'']"

definition presign_s3 ::
  "(string \<Rightarrow> string) \<Rightarrow> (string \<Rightarrow> string \<Rightarrow> string) \<Rightarrow> string \<Rightarrow> r2_config \<Rightarrow> string \<Rightarrow> string \<Rightarrow> int \<Rightarrow> string \<Rightarrow> string \<Rightarrow> string option" where
  "presign_s3 sha mac verb c key service expires day tod =
     (case url_parse (r2_endpoint c) of
        None \<Rightarrow> None
      | Some u \<Rightarrow>
          let uri = canonical_uri (r2_bucket c) key; amz = day @ ''T'' @ tod @ ''Z'';
              scope = day @ ''/'' @ r2_region c @ ''/'' @ service @ ''/aws4_request'';
              q = auth_query (r2_access c) scope amz expires;
              text = join_on line_feed [''AWS4-HMAC-SHA256'', amz, scope,
                hex_encode (sha (canonical_request verb uri (encode_query_sorted q) (ur_host u)))];
              sig = hex_encode (mac (sigv4_key mac (r2_secret c) day (r2_region c) service) text)
          in Some (ur_scheme u @ ''://'' @ ur_host u @ uri @ ''?''
                   @ encode_query_sorted (AList.update ''X-Amz-Signature'' sig q)))"

definition presign_put ::
  "(string \<Rightarrow> string) \<Rightarrow> (string \<Rightarrow> string \<Rightarrow> string) \<Rightarrow> r2_config \<Rightarrow> string \<Rightarrow> int \<Rightarrow> string \<Rightarrow> string \<Rightarrow> string option" where
  "presign_put sha mac c key expires day tod = presign_s3 sha mac ''PUT'' c key ''s3'' expires day tod"

text \<open>Whether an object is there: None when the request cannot be made or the answer is another.\<close>

definition object_exists ::
  "(string \<Rightarrow> string) \<Rightarrow> (string \<Rightarrow> string \<Rightarrow> string) \<Rightarrow> (string \<Rightarrow> int option) \<Rightarrow> r2_config \<Rightarrow> string \<Rightarrow> string \<Rightarrow> string \<Rightarrow> bool option" where
  "object_exists sha mac head c key day tod =
     (case presign_s3 sha mac ''HEAD'' c key ''s3'' 120 day tod of
        None \<Rightarrow> None
      | Some u \<Rightarrow> (case head u of
          None \<Rightarrow> None
        | Some code \<Rightarrow> if code = 200 then Some True else if code = 404 \<or> code = 403 then Some False else None))"

section \<open>The presign handler\<close>

record artifact_req =
  aq_id :: string
  aq_version :: string
  aq_os :: string
  aq_arch :: string
  aq_file :: string

datatype presign_problem = ReqId | ReqVersion | ReqOs | ReqArch | ReqFile

definition presign_problems :: "artifact_req \<Rightarrow> presign_problem list" where
  "presign_problems q =
     demand (has_prefix ''io.'' (aq_id q) \<and> to_lower (aq_id q) = aq_id q) ReqId @ demand (semver_pattern (aq_version q)) ReqVersion
     @ demand (known_os (aq_os q)) ReqOs @ demand (known_arch (aq_arch q)) ReqArch
     @ demand (aq_file q \<noteq> [] \<and> CHR ''/'' \<notin> set (aq_file q) \<and> CHR 0x5C \<notin> set (aq_file q) \<and> \<not> sublist ''..'' (aq_file q)) ReqFile"

definition req_key :: "artifact_req \<Rightarrow> string" where
  "req_key q = artifact_key (aq_id q) (aq_version q) (aq_os q) (aq_arch q) (aq_file q)"

datatype presign_reply =
    NotConfigured | BadRequestBody | Unprocessable "presign_problem list" | RegistryDown | KeyTaken | PresignFailed
  | Granted (gr_put: string) (gr_public: string) (gr_key: string)

text \<open>The body is decoded before: None when it is not a request.\<close>

definition api_artifact_presign ::
  "(string \<Rightarrow> string) \<Rightarrow> (string \<Rightarrow> string \<Rightarrow> string) \<Rightarrow> (string \<Rightarrow> int option) \<Rightarrow> r2_config \<Rightarrow> string \<Rightarrow> string \<Rightarrow>
    artifact_req option \<Rightarrow> presign_reply" where
  "api_artifact_presign sha mac head c day tod body =
     (if \<not> r2_configured c then NotConfigured
      else case body of
        None \<Rightarrow> BadRequestBody
      | Some q \<Rightarrow>
          if presign_problems q \<noteq> [] then Unprocessable (presign_problems q)
          else (case object_exists sha mac head c (req_key q) day tod of
                  None \<Rightarrow> RegistryDown
                | Some True \<Rightarrow> KeyTaken
                | Some False \<Rightarrow>
                    (case presign_put sha mac c (req_key q) 900 day tod of
                       None \<Rightarrow> PresignFailed
                     | Some u \<Rightarrow> Granted u (public_url c (req_key q)) (req_key q))))"


section \<open>Encoding loses nothing\<close>

lemma uri_chr_back: "query_unescape (uri_chr slash c @ s) = map_option ((#) c) (query_unescape s)"
proof (cases "query_safe c \<or> (c = CHR ''/'' \<and> \<not> slash)")
  case True
  then have "c \<noteq> CHR ''%''" "c \<noteq> CHR ''+''"
    by (auto simp: query_safe_def is_lower_chr_def is_upper_chr_def is_digit_def byte_def)
  with True show ?thesis by (auto simp: uri_chr_def)
next
  case False
  have "char_of (16 * (byte c div 16) + byte c mod 16) = c" by simp
  moreover have "byte c div 16 < 16" "byte c mod 16 < 16" using byte_lt[of c] by (simp_all add: div_less_iff_less_mult)
  ultimately show ?thesis using False by (auto simp: uri_chr_def hex_val_upper)
qed

lemma uri_encode_back: "query_unescape (uri_encode slash s) = Some s"
  by (induction s) (simp_all add: uri_encode_def uri_chr_back)

lemma uri_encode_inject: "uri_encode slash a = uri_encode slash b \<longleftrightarrow> a = b"
  by (metis uri_encode_back option.inject)

lemma uri_encode_path_is: "uri_encode_path p = uri_encode False p"
proof -
  have "join_on CHR ''/'' (map (uri_encode False) ws) = uri_encode False (join_on CHR ''/'' ws)" for ws
    by (induction "CHR ''/''" ws rule: join_on.induct) (simp_all add: uri_encode_def uri_chr_def)
  then show ?thesis by (simp add: uri_encode_path_def join_on_split_on)
qed

lemma uri_chars: "x \<in> set (uri_encode slash s) \<Longrightarrow> query_safe x \<or> x = CHR ''%'' \<or> x = CHR ''/'' \<and> \<not> slash"
proof -
  assume "x \<in> set (uri_encode slash s)"
  then obtain c where "x \<in> set (uri_chr slash c)" by (auto simp: uri_encode_def)
  moreover have "query_safe (hex_upper (byte c div 16))" "query_safe (hex_upper (byte c mod 16))"
    using byte_lt[of c] by (simp_all add: hex_upper_safe div_less_iff_less_mult)
  ultimately show ?thesis by (auto simp: uri_chr_def split: if_splits)
qed

lemma uri_no_line_feed: "line_feed \<notin> set (uri_encode slash s)" "CHR ''='' \<notin> set (uri_encode slash s)" "CHR ''&'' \<notin> set (uri_encode slash s)"
proof -
  have "\<not> query_safe line_feed" "\<not> query_safe CHR ''=''" "\<not> query_safe CHR ''&''" "line_feed \<noteq> CHR ''%''" "line_feed \<noteq> CHR ''/''"
    by code_simp+
  then show "line_feed \<notin> set (uri_encode slash s)" "CHR ''='' \<notin> set (uri_encode slash s)" "CHR ''&'' \<notin> set (uri_encode slash s)"
    using uri_chars by fastforce+
qed

section \<open>What the signature covers\<close>

lemma encode_query_inject:
  assumes "map fst q = map fst q'" "sorted (map fst q)" "sorted (map fst q')" "encode_query_sorted q = encode_query_sorted q'"
  shows "q = q'"
proof (cases "q = []")
  case False
  let ?f = "\<lambda>(k, v). uri_encode True k @ ''='' @ uri_encode True v"
  have s: "sort_key fst q = q" "sort_key fst q' = q'"
    using assms(2,3) by (simp_all add: sorted_sort_id sort_key_id_if_sorted)
  have amp: "w \<in> set (map ?f r) \<Longrightarrow> CHR ''&'' \<notin> set w" for w r using uri_no_line_feed(3) by auto
  have "q' \<noteq> []" using False assms(1) by auto
  then have "map ?f q = map ?f q'"
    using assms(4) False split_on_join_on[of "map ?f q" "CHR ''&''"] split_on_join_on[of "map ?f q'" "CHR ''&''"] amp
    unfolding encode_query_sorted_def s by (metis map_is_Nil_conv)
  moreover have "?f a = ?f b \<longleftrightarrow> a = b" for a b
    using sep_inject[OF uri_no_line_feed(2) uri_no_line_feed(2)]
    by (auto simp: case_prod_beta uri_encode_inject prod_eq_iff)
  then have "inj ?f" by (intro injI) blast
  ultimately show ?thesis by (rule map_injective)
qed (use assms(1) in simp)

lemma auth_query_sorted: "sorted (map fst (auth_query access scope amz expires))"
  unfolding auth_query_def list.map fst_conv by code_simp

lemma canonical_request_inject:
  assumes "line_feed \<notin> set verb" "line_feed \<notin> set verb'" "line_feed \<notin> set host" "line_feed \<notin> set host'"
    and "line_feed \<notin> set bucket" "line_feed \<notin> set bucket'"
    and "CHR ''/'' \<notin> set bucket" "CHR ''/'' \<notin> set bucket'" "bucket \<noteq> []" "bucket' \<noteq> []"
    and "canonical_request verb (canonical_uri bucket key) (encode_query_sorted (auth_query access scope amz expires)) host =
         canonical_request verb' (canonical_uri bucket' key') (encode_query_sorted (auth_query access' scope' amz' expires')) host'"
  shows "verb = verb' \<and> bucket = bucket' \<and> key = key' \<and> host = host' \<and> access @ ''/'' @ scope = access' @ ''/'' @ scope' \<and>
    amz = amz' \<and> expires = expires'"
proof -
  let ?q = "auth_query access scope amz expires" and ?q' = "auth_query access' scope' amz' expires'"
  have query: "line_feed \<notin> set (encode_query_sorted q)" for q
  proof -
    have "line_feed \<notin> set w" if "w \<in> set (map (\<lambda>(k, v). uri_encode True k @ ''='' @ uri_encode True v) (sort_key fst q))" for w
      using that uri_no_line_feed(1) by (auto simp: line_feed_def)
    moreover have "(\<And>w. w \<in> set ws \<Longrightarrow> line_feed \<notin> set w) \<Longrightarrow> line_feed \<notin> set (join_on CHR ''&'' ws)" for ws
      by (induction "CHR ''&''" ws rule: join_on.induct) (auto simp: line_feed_def)
    ultimately show ?thesis unfolding encode_query_sorted_def by blast
  qed
  have uri: "line_feed \<notin> set (canonical_uri b k)" if "line_feed \<notin> set b" for b k
    using that uri_no_line_feed(1) by (auto simp: canonical_uri_def uri_encode_path_is line_feed_def)
  have parts: "verb = verb'" "canonical_uri bucket key = canonical_uri bucket' key'" "encode_query_sorted ?q = encode_query_sorted ?q'"
    "''host:'' @ host @ line_feed # line_feed # ''host'' @ line_feed # ''UNSIGNED-PAYLOAD'' =
     ''host:'' @ host' @ line_feed # line_feed # ''host'' @ line_feed # ''UNSIGNED-PAYLOAD''"
    using assms(11) assms(1-6) query uri
    by (auto simp: canonical_request_def sep_inject)
  have "bucket = bucket' \<and> key = key'"
    using parts(2) assms(7-10) by (auto simp: canonical_uri_def sep_inject uri_encode_path_is uri_encode_inject)
  moreover have "host = host'" using parts(4) assms(3,4) by (simp add: sep_inject)
  moreover have "?q = ?q'" by (rule encode_query_inject) (simp_all add: auth_query_sorted parts(3), simp add: auth_query_def)
  then have "access @ ''/'' @ scope = access' @ ''/'' @ scope' \<and> amz = amz' \<and> expires = expires'"
    by (simp add: auth_query_def itoa_inject)
  ultimately show ?thesis using parts(1) by blast
qed

text \<open>Observation: The text a signature is made over is another one for another verb, bucket, key, host,
  credential with its day and region, time or lifetime: a signature for one upload is one for no
  other.\<close>

theorem canonical_request_binds:
  assumes "line_feed \<notin> set (verb @ verb' @ host @ host' @ bucket @ bucket')"
    and "CHR ''/'' \<notin> set (bucket @ bucket')" "bucket \<noteq> []" "bucket' \<noteq> []"
    and "(verb, bucket, key, host, access @ ''/'' @ scope, amz, expires) \<noteq> (verb', bucket', key', host', access' @ ''/'' @ scope', amz', expires')"
  shows "canonical_request verb (canonical_uri bucket key) (encode_query_sorted (auth_query access scope amz expires)) host \<noteq>
         canonical_request verb' (canonical_uri bucket' key') (encode_query_sorted (auth_query access' scope' amz' expires')) host'"
  using canonical_request_inject[of verb verb' host host' bucket bucket' key access scope amz expires key' access' scope' amz' expires'] assms
  by auto

theorem canonical_request_binds_witness:
  "canonical_request ''PUT'' (canonical_uri ''art'' ''io.pilot.geo/1.0.0/linux-amd64/geo'')
     (encode_query_sorted (auth_query ''AK'' ''20250101/auto/s3/aws4_request'' ''20250101T000000Z'' 900)) ''r2.example'' \<noteq>
   canonical_request ''PUT'' (canonical_uri ''art'' ''io.pilot.geo/1.0.1/linux-amd64/geo'')
     (encode_query_sorted (auth_query ''AK'' ''20250101/auto/s3/aws4_request'' ''20250101T000000Z'' 900)) ''r2.example''"
  by (rule canonical_request_binds) (simp_all add: line_feed_def)

section \<open>One key for one upload\<close>

lemma req_key_inject:
  assumes "presign_problems q = []" "presign_problems q' = []" "req_key q = req_key q'"
  shows "q = q'"
proof -
  have ok: "semver_pattern (aq_version r) \<and> known_os (aq_os r) \<and> known_arch (aq_arch r) \<and> CHR ''/'' \<notin> set (aq_file r)"
    if "presign_problems r = []" for r using that by (simp add: presign_problems_def)
  define plat where "plat r = aq_os r @ ''-'' @ aq_arch r" for r :: artifact_req
  have plat: "CHR ''/'' \<notin> set (plat r)" if "presign_problems r = []" for r
    using ok[OF that] by (auto simp: plat_def known_os_def known_arch_def)
  have key: "req_key r = ((aq_id r @ CHR ''/'' # aq_version r) @ CHR ''/'' # plat r) @ CHR ''/'' # aq_file r" for r
    by (simp add: req_key_def artifact_key_def plat_def)
  have no: "CHR ''/'' \<notin> set (aq_version q)" "CHR ''/'' \<notin> set (aq_version q')"
    using semver_no_slash ok[OF assms(1)] ok[OF assms(2)] by blast+
  have "aq_file q = aq_file q' \<and> plat q = plat q' \<and> aq_version q = aq_version q' \<and> aq_id q = aq_id q'"
    using assms(3) ok[OF assms(1)] ok[OF assms(2)] plat[OF assms(1)] plat[OF assms(2)] no
    unfolding key by (simp only: sep_inject_back conj_assoc simp_thms)
  moreover have "aq_os q = aq_os q' \<and> aq_arch q = aq_arch q'"
    using calculation ok[OF assms(1)] ok[OF assms(2)] by (auto simp: plat_def known_os_def known_arch_def)
  ultimately show ?thesis by (intro artifact_req.equality) simp_all
qed

text \<open>Observation: Two different upload requests that pass the checks have different keys: an upload never lands on
  the object of another app, version, platform or file.\<close>

theorem artifact_keys_apart:
  assumes "presign_problems q = []" "presign_problems q' = []" "q \<noteq> q'"
  shows "req_key q \<noteq> req_key q'"
  using req_key_inject assms by blast

definition upload :: "string \<Rightarrow> artifact_req" where
  "upload v = \<lparr>aq_id = ''io.pilot.geo'', aq_version = v, aq_os = ''linux'', aq_arch = ''amd64'', aq_file = ''geo''\<rparr>"

theorem artifact_keys_apart_witness: "req_key (upload ''1.0.0'') \<noteq> req_key (upload ''1.0.1'')"
proof (rule artifact_keys_apart)
  show "presign_problems (upload ''1.0.0'') = []" by code_simp
  show "presign_problems (upload ''1.0.1'') = []" by code_simp
  show "upload ''1.0.0'' \<noteq> upload ''1.0.1''" by (simp add: upload_def)
qed


definition example_bucket :: r2_config where
  "example_bucket = r2_from_env (\<lambda>n. if n = ''R2_ACCOUNT_ID'' then ''acct'' else if n = ''R2_ACCESS_KEY_ID'' then ''AK''
     else if n = ''R2_SECRET_ACCESS_KEY'' then ''SK'' else [])"

definition example_spec :: config where
  "example_spec = sample_spec\<lparr>co_artifact_base := ''https://artifacts.pilotprotocol.network/'', co_id := ''io.pilot.geo'', co_app_version := ''1.0.0''\<rparr>"

definition example_put :: string where
  "example_put = the (presign_put (\<lambda>_. ''h'') (\<lambda>_ _. ''m'') example_bucket (req_key (upload ''1.0.0'')) 900 ''20250101'' ''000000'')"


text \<open>Observation: The app id of an upload is not checked to be one, only its prefix and its case are.\<close>

lemma id_with_slash_accepted:
  "presign_problems ((upload ''1.0.0'')\<lparr>aq_id := ''io.pilot.geo/1.0.0/linux-amd64''\<rparr>) = []"
  by code_simp

end
