(* ===== verification/Publish_Store.thy ===== *)
theory Publish_Store
  imports Publish_Names
begin

text \<open>
  internal/publish/case.go and helpers.go: a submission under review as a case in a directory of its
  own. A directory maps file names to contents; times are passed in, in the format they are stored
  in. The disk is taken not to fail: a write succeeds, and reading fails only where there is no case.
\<close>

section \<open>Cases\<close>

datatype case_status = Submitted | Building | Build_Failed | Pending | Approved | Rejected

text \<open>strings.NewReplacer: at each position the first pattern that matches is replaced, left to right.\<close>

fun safe_key :: "string \<Rightarrow> string" where
  "safe_key [] = []"
| "safe_key [c] = (if c = CHR ''/'' \<or> c = CHR '' '' then ''_'' else [c])"
| "safe_key (c # d # s) =
     (if c = CHR ''/'' \<or> c = CHR '' '' then CHR ''_'' # safe_key (d # s)
      else if c = CHR ''.'' \<and> d = CHR ''.'' then CHR ''_'' # safe_key s
      else c # safe_key (d # s))"

record case_event =
  ev_at :: string
  ev_status :: case_status
  ev_note :: string

record build_info =
  bi_bundle_name :: string
  bi_bundle_sha :: string
  bi_publisher :: string

record case_rec =
  kc_id :: string
  kc_status :: case_status
  kc_sub :: submission
  kc_build :: build_info
  kc_history :: "case_event list"
  kc_created :: string
  kc_updated :: string

record plat_bundle =
  pb_platform :: string
  pb_tarball :: string
  pb_name :: string
  pb_sha :: string

record pub_bundle =
  bu_name :: string
  bu_sha :: string
  bu_metadata :: string
  bu_platforms :: "plat_bundle list"

datatype stored = Bytes string | Doc json | CaseFile case_rec

type_synonym case_dir = "stored gmap"
type_synonym case_store = "case_dir gmap"

definition no_build :: build_info where
  "no_build = \<lparr>bi_bundle_name = [], bi_bundle_sha = [], bi_publisher = []\<rparr>"

definition case_key :: "submission \<Rightarrow> string" where
  "case_key s = safe_key (ss_id s @ ''-'' @ ss_version s)"

definition get_case :: "case_store \<Rightarrow> string \<Rightarrow> case_rec option" where
  "get_case st i =
     (case Option.bind (map_of st (safe_key i)) (\<lambda>d. map_of d ''case.json'') of Some (CaseFile c) \<Rightarrow> Some c | _ \<Rightarrow> None)"

definition case_dir_of :: "case_store \<Rightarrow> string \<Rightarrow> case_dir" where
  "case_dir_of st i = (case map_of st (safe_key i) of None \<Rightarrow> [] | Some d \<Rightarrow> d)"

definition write_case :: "case_rec \<Rightarrow> case_store \<Rightarrow> case_store" where
  "write_case c st = AList.update (safe_key (kc_id c)) (AList.update ''case.json'' (CaseFile c) (case_dir_of st (kc_id c))) st"

text \<open>The files of a bundle: every platform's archive, the metadata, and the payload of the publish workflow.\<close>

definition payload_doc :: "submission \<Rightarrow> pub_bundle \<Rightarrow> json" where
  "payload_doc s b = JObj
     [(''id'', JStr (ss_id s)), (''version'', JStr (ss_version s)), (''namespace'', JStr (sub_namespace s)),
      (''description'', JStr (ss_description s)), (''bundle'', JStr (bu_name b)), (''bundle_sha256'', JStr (bu_sha b)),
      (''bundles'', JObj (fold (\<lambda>p m. AList.update (pb_platform p)
          (JObj [(''file'', JStr (pb_name p)), (''sha256'', JStr (pb_sha p))]) m) (bu_platforms b) []))]"

definition write_bundle_artifacts :: "submission \<Rightarrow> pub_bundle \<Rightarrow> case_dir \<Rightarrow> case_dir" where
  "write_bundle_artifacts s b d =
     AList.update ''submission.json'' (Doc (payload_doc s b))
       (AList.update ''metadata.json'' (Bytes (bu_metadata b))
         (fold (\<lambda>p. AList.update (pb_name p) (Bytes (pb_tarball p))) (bu_platforms b) d))"

definition log_event :: "string \<Rightarrow> case_status \<Rightarrow> string \<Rightarrow> case_rec \<Rightarrow> case_rec" where
  "log_event now s note c =
     c\<lparr>kc_status := s, kc_updated := now, kc_history := kc_history c @ [\<lparr>ev_at = now, ev_status = s, ev_note = note\<rparr>]\<rparr>"

definition fresh_case :: "string \<Rightarrow> case_status \<Rightarrow> string \<Rightarrow> submission \<Rightarrow> build_info \<Rightarrow> case_rec" where
  "fresh_case now s note sub build =
     \<lparr>kc_id = case_key sub, kc_status = s, kc_sub = sub, kc_build = build,
      kc_history = [\<lparr>ev_at = now, ev_status = s, ev_note = note\<rparr>], kc_created = now, kc_updated = now\<rparr>"

text \<open>None is the refusal to touch an approved version.\<close>

definition taken :: "case_store \<Rightarrow> submission \<Rightarrow> bool" where
  "taken st sub \<longleftrightarrow> (case get_case st (case_key sub) of None \<Rightarrow> False | Some c \<Rightarrow> kc_status c = Approved)"

definition create_submitted :: "string \<Rightarrow> submission \<Rightarrow> case_store \<Rightarrow> case_rec option \<times> case_store" where
  "create_submitted now sub st =
     (if taken st sub then (None, st)
      else let c = fresh_case now Submitted ''submitted; awaiting build'' sub no_build in (Some c, write_case c st))"

definition create_case :: "string \<Rightarrow> submission \<Rightarrow> pub_bundle option \<Rightarrow> build_info \<Rightarrow> case_store \<Rightarrow> case_rec option \<times> case_store" where
  "create_case now sub b build st =
     (if taken st sub then (None, st)
      else let c = fresh_case now Pending ''submitted'' sub build; k = safe_key (case_key sub);
               st1 = (case b of None \<Rightarrow> st | Some x \<Rightarrow> AList.update k (write_bundle_artifacts sub x (case_dir_of st (case_key sub))) st)
           in (Some c, write_case c st1))"

definition attach_bundle :: "string \<Rightarrow> string \<Rightarrow> pub_bundle \<Rightarrow> build_info \<Rightarrow> case_store \<Rightarrow> case_rec option \<times> case_store" where
  "attach_bundle now i b build st =
     (case get_case st i of
        None \<Rightarrow> (None, st)
      | Some c0 \<Rightarrow>
          let st1 = AList.update (safe_key i) (write_bundle_artifacts (kc_sub c0) b (case_dir_of st i)) st;
              c = log_event now Pending ''bundle built'' (c0\<lparr>kc_build := build\<rparr>)
          in (Some c, write_case c st1))"

definition set_status :: "string \<Rightarrow> string \<Rightarrow> case_status \<Rightarrow> string \<Rightarrow> case_store \<Rightarrow> case_rec option \<times> case_store" where
  "set_status now i s note st =
     (case get_case st i of
        None \<Rightarrow> (None, st)
      | Some c0 \<Rightarrow> let c = log_event now s note c0 in (Some c, write_case c st))"

section \<open>Keys\<close>

definition expand_key :: "string \<Rightarrow> string" where
  "expand_key t = concat (map (\<lambda>c. if c = CHR ''_'' then ''..'' else [c]) t)"

lemma expand_safe_key:
  "CHR ''_'' \<notin> set s \<Longrightarrow> CHR ''/'' \<notin> set s \<Longrightarrow> CHR '' '' \<notin> set s \<Longrightarrow> expand_key (safe_key s) = s"
  by (induction s rule: safe_key.induct) (auto simp: expand_key_def)

lemma safe_key_chars: "CHR ''/'' \<notin> set (safe_key s) \<and> CHR '' '' \<notin> set (safe_key s)"
  by (induction s rule: safe_key.induct) auto

lemma safe_key_head: "safe_key s = CHR ''.'' # t \<Longrightarrow> hd s = CHR ''.'' \<and> s \<noteq> []"
  by (cases s rule: safe_key.cases) (auto split: if_splits)

lemma dots_Cons: "sublist ''..'' (c # s) \<longleftrightarrow> (c = CHR ''.'' \<and> (\<exists>t. s = CHR ''.'' # t)) \<or> sublist ''..'' s"
  by (auto simp: sublist_Cons_right prefix_def Cons_eq_append_conv)

lemma safe_key_no_dots: "\<not> sublist ''..'' (safe_key s)"
proof (induction s rule: safe_key.induct)
  case (3 c d s)
  then show ?case using safe_key_head[of "d # s"] by (auto simp: dots_Cons)
qed (auto simp: dots_Cons)

lemma safe_key_id: "CHR ''/'' \<notin> set s \<Longrightarrow> CHR '' '' \<notin> set s \<Longrightarrow> \<not> sublist ''..'' s \<Longrightarrow> safe_key s = s"
  by (induction s rule: safe_key.induct) (auto simp: dots_Cons)

lemma safe_key_idem [simp]: "safe_key (safe_key s) = safe_key s"
  using safe_key_id safe_key_chars safe_key_no_dots by blast

lemma case_key_safe [simp]: "safe_key (case_key s) = case_key s"
  by (simp add: case_key_def)

lemma case_key_inject:
  assumes "sub_id_pattern (ss_id s)" "semver_pattern (ss_version s)" "sub_id_pattern (ss_id s')" "semver_pattern (ss_version s')"
    and "case_key s = case_key s'"
  shows "ss_id s = ss_id s' \<and> ss_version s = ss_version s'"
proof -
  have "expand_key (case_key x) = ss_id x @ CHR ''-'' # ss_version x" if "sub_id_pattern (ss_id x)" "semver_pattern (ss_version x)" for x
    unfolding case_key_def using id_plain[OF that(1)] semver_plain[OF that(2)] by (subst expand_safe_key) auto
  then have "ss_id s @ CHR ''-'' # ss_version s = ss_id s' @ CHR ''-'' # ss_version s'" using assms by metis
  then show ?thesis using id_version_split assms by blast
qed

end
