(* ===== verification/Broker_Register.thy ===== *)
theory Broker_Register
  imports Publish_Names Registry
begin

text \<open>
  internal/publish/broker_register.go: the registry entry of an approved managed app, its place in
  the broker's registry file, and that the broker's own loader takes it. The text of the file is a
  parameter: the list of entries is what readEntries decodes and writeEntries encodes.
\<close>

section \<open>Names of the secrets\<close>

definition sub_env_name :: "submission \<Rightarrow> string \<Rightarrow> string" where
  "sub_env_name s part = env_name (sub_namespace s) @ ''_'' @ part"

definition master_key_env :: "submission \<Rightarrow> string" where "master_key_env s = sub_env_name s ''MASTER_KEY''"
definition derive_secret_env :: "submission \<Rightarrow> string" where "derive_secret_env s = sub_env_name s ''DERIVE_SECRET''"
definition admin_key_env :: "submission \<Rightarrow> string" where "admin_key_env s = sub_env_name s ''ADMIN_KEY''"

section \<open>The entry\<close>

text \<open>strings.Fields: the words between white space.\<close>

fun fields_from :: "string \<Rightarrow> string \<Rightarrow> string list" where
  "fields_from w [] = (if w = [] then [] else [w])"
| "fields_from w (c # s) = (if is_space c then (if w = [] then fields_from [] s else w # fields_from [] s) else fields_from (w @ [c]) s)"

definition auth_of_headers :: "sub_header list \<Rightarrow> string \<times> string" where
  "auth_of_headers hs =
     (case find (\<lambda>h. \<not> blank (sh_name h)) hs of
        None \<Rightarrow> (''Authorization'', [])
      | Some h \<Rightarrow> (sh_name h, case fields_from [] (sh_value h) of w # _ # _ \<Rightarrow> w | _ \<Rightarrow> []))"

definition bare_entry :: "string \<Rightarrow> string \<Rightarrow> string \<Rightarrow> string list \<Rightarrow> app_config" where
  "bare_entry i upstream key allow =
     \<lparr>ae_id = i, ae_upstream = upstream, ae_key_env = key, ae_auth_style = [], ae_auth_header = [], ae_auth_scheme = [],
      ae_auth_param = [], ae_auth_user = [], ae_allow = allow, ae_quota = 0, ae_cost_field = [], ae_timeout_ms = 0,
      ae_breaker_threshold = 0, ae_breaker_cooldown_ms = 0, ae_provision = None, ae_credit = None, ae_tenancy = None,
      ae_require_access_key = False, ae_forward_content_types = [], ae_max_body_bytes = 0\<rparr>"

definition listed_paths :: "sub_method list \<Rightarrow> string list" where
  "listed_paths ms = filter (\<lambda>p. p \<noteq> []) (map (\<lambda>m. trim_space (sr_path (sm_http m))) ms)"

definition provision_of :: "submission \<Rightarrow> provision_spec" where
  "provision_of s = (let b = ss_backend s in
     \<lparr>pv_provider = sb_provider b, pv_secret_env = derive_secret_env s, pv_key_version = 1, pv_seed_credits = sb_seed_credits b,
      pv_cost_credits = sb_cost_credits b, pv_max_identities_per_ip = sb_max_identities_per_ip b,
      pv_mint_cooldown_ms = sb_mint_cooldown_ms b, pv_provision_path = [], pv_balance_path = sb_balance_path b, pv_key_path = [],
      pv_rotate_path = [], pv_push_path = sb_push_path b, pv_list_path = [], pv_artifact_max_bytes = sb_artifact_max_bytes b,
      pv_owner_env_key = sb_owner_env_key b,
      pv_admin_key_env = (if sb_provider b = ''tokenmint'' \<and> sb_admin_key_env b = [] then admin_key_env s else sb_admin_key_env b),
      pv_meter_interval_ms = 0, pv_cpu_hour_micros = 0, pv_mem_gb_hour_micros = 0, pv_disk_gb_hour_micros = 0\<rparr>)"

definition provisioned_broker_entry :: "submission \<Rightarrow> app_config" where
  "provisioned_broker_entry s =
     (bare_entry (ss_id s) (trim_right_of CHR ''/'' (sub_cloud_base (ss_backend s))) (master_key_env s)
        (listed_paths (filter sm_has_http (ss_methods s))))\<lparr>ae_provision := Some (provision_of s)\<rparr>"

definition broker_entry :: "submission \<Rightarrow> app_config" where
  "broker_entry s =
     (if sub_provisioned (ss_backend s) then provisioned_broker_entry s
      else let (header, scheme) = auth_of_headers (sb_headers (ss_backend s)) in
        (bare_entry (ss_id s) (trim_right_of CHR ''/'' (sb_base_url (ss_backend s))) (master_key_env s) (listed_paths (ss_methods s)))
          \<lparr>ae_auth_header := header, ae_auth_scheme := scheme, ae_quota := sb_quota (ss_backend s)\<rparr>)"

text \<open>FileRegistrar.Register: the first entry of the id is replaced, otherwise the entry is added.\<close>

fun put_entry :: "app_config \<Rightarrow> app_config list \<Rightarrow> app_config list" where
  "put_entry e [] = [e]"
| "put_entry e (x # xs) = (if ae_id x = ae_id e then e # xs else x # put_entry e xs)"

text \<open>registerManaged of the publish server; \<open>registrar\<close> tells whether a registry file is configured.\<close>

definition register_managed :: "bool \<Rightarrow> submission \<Rightarrow> app_config list \<Rightarrow> app_config list" where
  "register_managed registrar s es =
     (if \<not> sub_managed (ss_backend s) \<or> \<not> registrar then es else put_entry (broker_entry s) es)"

section \<open>The file\<close>

lemma put_entry_ids: "map ae_id (put_entry e es) = (if ae_id e \<in> ae_id ` set es then map ae_id es else map ae_id es @ [ae_id e])"
  by (induction es) auto

lemma put_entry_in: "e \<in> set (put_entry e es)"
  by (induction es) auto

lemma put_entry_other: "ae_id x \<noteq> ae_id e \<Longrightarrow> x \<in> set (put_entry e es) \<longleftrightarrow> x \<in> set es"
  by (induction es) auto

section \<open>The loader takes it\<close>

lemma no_space_first: "trim_space (c # s) = [] \<Longrightarrow> is_space c"
  using not_blank_in[of c "c # s"] by (auto simp: blank_def)

lemma trim_keeps_head: "\<not> is_space c \<Longrightarrow> \<exists>r. trim_space (c # s) = c # r"
proof -
  assume c: "\<not> is_space c"
  have "dropWhile is_space (rev s @ [c]) = dropWhile is_space (rev s) @ [c]" if "\<forall>x \<in> set s. is_space x" using that c
    by (simp add: dropWhile_append)
  moreover have "dropWhile is_space (rev s @ [c]) = dropWhile is_space (rev s) @ [c]" if "\<exists>x \<in> set s. \<not> is_space x"
    using that by (auto simp: dropWhile_append)
  ultimately have "dropWhile is_space (rev s @ [c]) = dropWhile is_space (rev s) @ [c]" by blast
  then show ?thesis using c by (simp add: trim_space_def)
qed

lemma path_entry_allows:
  assumes "has_prefix ''/'' p" "CHR '' '' \<notin> set verb"
  shows "allow_entry_matches (trim_space p) (to_upper verb) (trim_space p)"
proof -
  obtain r where "trim_space p = CHR ''/'' # r"
    using assms(1) trim_keeps_head[of "CHR ''/''"] by (auto simp: has_prefix_iff is_space_def)
  then have "parse_cost_key (trim_space p) = ([], trim_space p)" by (auto simp: parse_cost_key_def split: option.splits)
  moreover have "segments_match ps ps" for ps
    by (induction ps) (auto simp: is_template_seg_def)
  ultimately show ?thesis by (simp add: allow_entry_matches_def)
qed

text \<open>What the operator has to provide for an entry: its address, its secrets, a provider the broker knows.\<close>

definition operator_ready :: "(string \<Rightarrow> string) \<Rightarrow> app_config \<Rightarrow> bool" where
  "operator_ready getenv e \<longleftrightarrow> ae_upstream e \<noteq> [] \<and> getenv (ae_key_env e) \<noteq> [] \<and>
     (case ae_provision e of
        None \<Rightarrow> True
      | Some p \<Rightarrow> getenv (pv_secret_env p) \<noteq> [] \<and> pv_provider p \<in> {[], ''master'', ''tokenmint''} \<and>
          (pv_provider p \<noteq> ''tokenmint'' \<or> getenv (pv_admin_key_env p) \<noteq> []))"

lemma load_bare:
  assumes "ae_id c \<noteq> []" "ae_upstream c \<noteq> []" "getenv (ae_key_env c) \<noteq> []" "ae_forward_content_types c = []"
    "ae_credit c = None" "ae_tenancy c = None" "ae_provision c = None" "trim_space (ae_auth_header c) \<noteq> []"
  shows "\<exists>a. load_entry getenv c = Inr a"
  using assms by (simp add: load_entry_def and_then_def Let_def load_tenancy_def)

lemma load_provisioned:
  assumes "ae_id c \<noteq> []" "ae_upstream c \<noteq> []" "getenv (ae_key_env c) \<noteq> []" "ae_forward_content_types c = []"
    "ae_credit c = None" "ae_tenancy c = None" "ae_provision c = Some p" "pv_key_version p = 1" "getenv (pv_secret_env p) \<noteq> []"
    "pv_provider p \<in> {[], ''master'', ''tokenmint''}" "pv_provider p = ''tokenmint'' \<Longrightarrow> getenv (pv_admin_key_env p) \<noteq> []"
  shows "\<exists>a. load_entry getenv c = Inr a"
  using assms by (auto simp: load_entry_def and_then_def Let_def load_tenancy_def resolve_provision_def fill_provision_def)

section \<open>An approved app is served as declared\<close>

lemma loaded_allows:
  assumes "load_entry getenv c = Inr a" "CHR '' '' \<notin> set m"
  shows "allowed a m p \<longleftrightarrow> (\<exists>e \<in> set (ae_allow c). allow_entry_matches e (to_upper m) p)"
proof -
  from load_entry_view[OF assms(1)] obtain cts where "route_view a = route_view (routed_entry getenv c cts)" .
  then have "rt_allow_set a = rt_allow_set (load_allow (start_entry getenv c))"
    "rt_allow_patterns a = rt_allow_patterns (load_allow (start_entry getenv c))"
    unfolding routed_entry_fields by (simp_all add: route_view_def)
  then have "allowed a m p = allowed (load_allow (start_entry getenv c)) m p" by (simp add: allowed_def)
  with load_allow_allowed[OF assms(2)] show ?thesis by simp
qed

text \<open>A path of the submission, or one that fits its placeholders.\<close>

definition declares_path :: "submission \<Rightarrow> string \<Rightarrow> bool" where
  "declares_path s p \<longleftrightarrow>
     (\<exists>m \<in> set (ss_methods s). sm_has_http m \<and>
        (let q = trim_space (sr_path (sm_http m)) in if has_brace q then segments_match (path_segs q) (path_segs p) else p = q))"

lemma broker_entry_fields [simp]:
  "ae_id (broker_entry s) = ss_id s" "ae_key_env (broker_entry s) = master_key_env s"
  "ae_forward_content_types (broker_entry s) = []" "ae_credit (broker_entry s) = None" "ae_tenancy (broker_entry s) = None"
  "ae_provision (broker_entry s) = (if sub_provisioned (ss_backend s) then Some (provision_of s) else None)"
  by (simp_all add: broker_entry_def provisioned_broker_entry_def bare_entry_def case_prod_beta)

lemma broker_entry_allow [simp]: "set (ae_allow (broker_entry s)) = (trim_space \<circ> sr_path \<circ> sm_http) ` {m \<in> set (ss_methods s). sm_has_http m}"
  by (auto simp: broker_entry_def provisioned_broker_entry_def bare_entry_def listed_paths_def sm_has_http_def blank_def case_prod_beta)

lemma auth_of_headers_name: "trim_space (fst (auth_of_headers hs)) \<noteq> []"
proof (cases "find (\<lambda>h. \<not> blank (sh_name h)) hs")
  case None
  have "trim_space ''Authorization'' \<noteq> []" by code_simp
  with None show ?thesis by (simp add: auth_of_headers_def)
next
  case (Some h)
  then have "\<not> blank (sh_name h)" by (auto simp: find_Some_iff)
  with Some show ?thesis by (simp add: auth_of_headers_def blank_def)
qed

text \<open>Every path of an accepted submission starts with a slash.\<close>

lemma accepted_paths:
  assumes "validate_submission rx s = []" "sub_managed (ss_backend s)" "m \<in> set (ss_methods s)" "sm_has_http m"
  shows "has_prefix ''/'' (sr_path (sm_http m))"
proof -
  have "sub_methods_problems s 0 [] (ss_methods s) = []" using assms(1) by (simp add: validate_submission_def)
  then have "sub_method_problems s [] m = []" using assms(3) by (auto simp: sub_methods_Nil list_all_iff)
  then have "sub_routing_problems (ss_backend s) m = []" by (simp add: sub_method_problems_def Let_def)
  moreover have "\<not> sub_is_cli (ss_backend s)" using assms(2) by (simp add: sub_managed_def)
  ultimately show ?thesis using assms(4)
    by (auto simp: sub_routing_problems_def sub_http_problems_def sub_local_problems_def sub_signup_problems_def sm_has_signup_def
          split: if_splits option.splits)
qed

lemma path_entry_matches:
  assumes "has_prefix ''/'' q"
  shows "allow_entry_matches (trim_space q) verb p \<longleftrightarrow>
    (if has_brace (trim_space q) then segments_match (path_segs (trim_space q)) (path_segs p) else p = trim_space q)"
proof -
  obtain r where "trim_space q = CHR ''/'' # r"
    using assms trim_keeps_head[of "CHR ''/''"] by (auto simp: has_prefix_iff is_space_def)
  then have "parse_cost_key (trim_space q) = ([], trim_space q)" by (auto simp: parse_cost_key_def split: option.splits)
  then show ?thesis by (auto simp: allow_entry_matches_def to_upper_def)
qed

lemma trim_right_keeps: "x \<in> set s \<Longrightarrow> x \<noteq> c \<Longrightarrow> trim_right_of c s \<noteq> []"
  by (auto simp: trim_right_of_def dropWhile_eq_Nil_conv)

text \<open>The address the broker forwards to; only an http backend has to give one when it is submitted.\<close>
lemma url_upstream: "url_pattern (trim_space u) \<Longrightarrow> trim_right_of CHR ''/'' u \<noteq> []"
proof -
  assume "url_pattern (trim_space u)"
  then have "CHR ''h'' \<in> set (trim_space u)" by (auto simp: url_pattern_def cut_prefix_def has_prefix_iff split: option.splits if_splits)
  then have "CHR ''h'' \<in> set u" by (auto simp: trim_space_def dest!: set_dropWhileD)
  then show ?thesis by (rule trim_right_keeps) simp
qed

lemma http_upstream_given:
  assumes "validate_submission rx s = []" "sub_managed (ss_backend s)" "\<not> sub_is_hybrid (ss_backend s)" "\<not> sub_provisioned (ss_backend s)"
  shows "ae_upstream (broker_entry s) \<noteq> []"
proof -
  have "sub_backend_problems s = []" using assms(1) by (simp add: validate_submission_def)
  then have "url_pattern (trim_space (sb_base_url (ss_backend s)))"
    using assms(2,3) by (simp add: sub_backend_problems_def sub_managed_def Let_def)
  then show ?thesis using assms(4) url_upstream
    by (simp add: broker_entry_def bare_entry_def case_prod_beta)
qed

lemma accepted_id: "validate_submission rx s = [] \<Longrightarrow> ss_id s \<noteq> []"
  by (auto simp: validate_submission_def sub_id_pattern_def cut_prefix_def has_prefix_iff)

lemma approved_entry_loads:
  assumes "validate_submission rx s = []" "sub_managed (ss_backend s)" "operator_ready getenv (broker_entry s)"
  shows "\<exists>a. load_entry getenv (broker_entry s) = Inr a"
proof (cases "sub_provisioned (ss_backend s)")
  case True
  then show ?thesis
    using accepted_id[OF assms(1)] assms(3)
    by (intro load_provisioned[where p = "provision_of s"])
      (auto simp: operator_ready_def provision_of_def Let_def)
next
  case False
  then have "trim_space (ae_auth_header (broker_entry s)) \<noteq> []"
    using auth_of_headers_name by (simp add: broker_entry_def bare_entry_def case_prod_beta)
  with False show ?thesis
    using accepted_id[OF assms(1)] assms(3)
    by (intro load_bare) (auto simp: operator_ready_def)
qed


text \<open>A managed submission of one method, over http or as a hybrid without an address.\<close>

definition managed_route :: "string \<Rightarrow> string \<Rightarrow> submission" where
  "managed_route kind url =
     (let s = one_route ''geo.find'' ''/places/{place}'' [place_param]
      in s\<lparr>ss_backend := (ss_backend s)\<lparr>sb_type := kind, sb_base_url := url, sb_auth := ''managed''\<rparr>\<rparr>)"

definition example_env :: "string \<Rightarrow> string" where
  "example_env n = (if n = ''GEO_MASTER_KEY'' then ''k1'' else [])"

lemma managed_accepted:
  "validate_submission rx (managed_route ''http'' ''https://api.acme.io/'') = []"
  "validate_submission rx (managed_route ''hybrid'' []) = []"
  by code_simp+


text \<open>Observation: A hybrid submission may be accepted without an address to forward to; its entry then keeps the whole
  registry from loading.\<close>

lemma hybrid_blocks_registry:
  "load_entries example_env reg (Some (broker_entry (managed_route ''hybrid'' [])) # cs) = Inl RegMissing"
proof -
  have "load_entry example_env (broker_entry (managed_route ''hybrid'' [])) = Inl RegMissing" by code_simp
  then show ?thesis by simp
qed

end
