(* ===== verification/Live_Catalogue.thy ===== *)
theory Live_Catalogue
  imports Catalogue Identity
begin

text \<open>
  internal/catalogue/remote.go: the owners of the published apps, read from the live catalogue only
  when its detached signature verifies, and the gate an update passes.
\<close>

record owner =
  ow_version :: string
  ow_publisher :: string

definition default_trust_key :: string where
  "default_trust_key = ''iHdBWayA/hYjkwUOZopTXY70qOlR90d6ii/hin0ZMdI=''"

definition default_catalogue_url :: string where
  "default_catalogue_url = ''https://raw.githubusercontent.com/pilot-protocol/pilotprotocol/main/catalogue/catalogue.json''"

text \<open>The URL of the catalogue and its trust key, each overridden by the environment.\<close>

definition catalogue_url :: "string \<Rightarrow> string" where
  "catalogue_url override = (if trim_space override \<noteq> [] then trim_space override else default_catalogue_url)"

definition trust_key :: "string \<Rightarrow> string" where
  "trust_key override = (if trim_space override \<noteq> [] then trim_space override else default_trust_key)"

definition verify_catalogue_sig :: "gate_env \<Rightarrow> crypto \<Rightarrow> string \<Rightarrow> string \<Rightarrow> string \<Rightarrow> bool" where
  "verify_catalogue_sig env cy override url body \<longleftrightarrow>
     (let b64 = trust_key override in
      if b64 = ''-'' then True
      else case b64_pad_decode b64_std b64 of
        None \<Rightarrow> False
      | Some pub \<Rightarrow>
          length pub = ed_public_size \<and>
          (case fetch env (url @ ''.sig'') of
             None \<Rightarrow> False
           | Some raw \<Rightarrow>
               (case b64_pad_decode b64_std (trim_space raw) of
                  None \<Rightarrow> False
                | Some sg \<Rightarrow> length sg = ed_signature_size \<and> cy_ed_verify cy pub body sg)))"

definition decode_live :: "json \<Rightarrow> (string \<times> owner) \<times> bool" where
  "decode_live v =
     (let (m, ok0) = (case struct_members v of None \<Rightarrow> ([], False) | Some m \<Rightarrow> (m, True));
          (i, ok1) = get_str ''id'' m; (ver, ok2) = get_str ''version'' m; (p, ok3) = get_str ''publisher'' m
      in ((i, \<lparr>ow_version = ver, ow_publisher = p\<rparr>), ok0 \<and> ok1 \<and> ok2 \<and> ok3))"

definition fetch_owners :: "gate_env \<Rightarrow> crypto \<Rightarrow> string \<Rightarrow> string \<Rightarrow> owner gmap option" where
  "fetch_owners env cy override url =
     (case fetch env url of
        None \<Rightarrow> None
      | Some raw \<Rightarrow>
          if \<not> verify_catalogue_sig env cy override url raw then None
          else (case Option.bind (raw_doc raw) struct_members of
                  None \<Rightarrow> None
                | Some m \<Rightarrow> let (n, ok1) = get_int ''version'' m; (es, ok2) = get_list ''apps'' decode_live m
                           in if ok1 \<and> ok2 then Some (fold (\<lambda>(i, o1) mp. AList.update i o1 mp) es []) else None))"

definition check_update :: "owner gmap \<Rightarrow> string \<Rightarrow> string \<Rightarrow> string \<Rightarrow> report" where
  "check_update owners i new_version new_publisher =
     (case map_of owners i of
        None \<Rightarrow> [(''app ownership'', True)]
      | Some o1 \<Rightarrow>
          (''version is not a downgrade'', 0 \<le> compare_semver new_version (ow_version o1))
          # (if ow_publisher o1 = [] then [(''owned by a pinned publisher'', False)]
             else if new_publisher = [] then [(''signed by the owning publisher'', True)]
             else [(''signed by the owning publisher'', new_publisher = ow_publisher o1)]))"

lemma check_update_ok:
  "report_ok (check_update owners i v p) \<longleftrightarrow>
     (case map_of owners i of None \<Rightarrow> True
      | Some o1 \<Rightarrow> 0 \<le> compare_semver v (ow_version o1) \<and> ow_publisher o1 \<noteq> [] \<and> (p = [] \<or> p = ow_publisher o1))"
  by (auto simp: check_update_def report_ok_def split: option.splits)

lemma fetch_owners_signed:
  "fetch_owners env cy override url = Some owners \<Longrightarrow> \<exists>raw. fetch env url = Some raw \<and> verify_catalogue_sig env cy override url raw"
  by (auto simp: fetch_owners_def split: option.splits if_splits)

end
