(* ===== verification/Publish_Server.thy ===== *)
theory Publish_Server
  imports Publish_Store Broker_Register Live_Catalogue
begin

text \<open>
  cmd/publish-server/main.go: submissions and updates, the admin's builds, approvals and rejections,
  as steps on the case store. A build and an approval go on in the background of other requests, so
  each has a first and a last step with anything in between; the file operations of one step are not
  interleaved. What a build yields and whether the pull request was opened are inputs of the last
  step. Mail is not modelled.
\<close>

section \<open>State\<close>

record pub_conf =
  pc_regex :: regex
  pc_admin_token :: string
  pc_publisher :: string
  pc_registrar :: bool

text \<open>\<open>ps_log\<close> is history for the statements: the bundles that were attached, with what they were built from.\<close>

record pub_state =
  ps_cases :: case_store
  ps_builds :: "(string \<times> submission) list"
  ps_approvals :: "string list"
  ps_registry :: "app_config list"
  ps_log :: "(string \<times> submission \<times> pub_bundle) list"

definition fresh_server :: pub_state where
  "fresh_server = \<lparr>ps_cases = [], ps_builds = [], ps_approvals = [], ps_registry = [], ps_log = []\<rparr>"

section \<open>Submissions\<close>

text \<open>gateOwnership: 0 lets the submission through; the owners are None when the catalogue could not be read.\<close>

definition gate_ownership :: "pub_conf \<Rightarrow> owner gmap option \<Rightarrow> submission \<Rightarrow> bool \<Rightarrow> int" where
  "gate_ownership cf owners s is_update =
     (case owners of
        None \<Rightarrow> 502
      | Some os \<Rightarrow>
          let known = (map_of os (ss_id s) \<noteq> None) in
          if is_update \<and> \<not> known then 409
          else if \<not> is_update \<and> known then 409
          else if \<not> is_update \<and> \<not> known then 0
          else if report_ok (check_update os (ss_id s) (ss_version s) (pc_publisher cf)) then 0 else 422)"

definition ingest :: "pub_conf \<Rightarrow> string \<Rightarrow> owner gmap option \<Rightarrow> bool \<Rightarrow> submission option \<Rightarrow> pub_state \<Rightarrow> int \<times> pub_state" where
  "ingest cf now owners is_update body s =
     (case body of
        None \<Rightarrow> (400, s)
      | Some sub \<Rightarrow>
          if validate_submission (pc_regex cf) sub \<noteq> [] then (422, s)
          else let code = gate_ownership cf owners sub is_update in
            if code \<noteq> 0 then (code, s)
            else (case create_submitted now sub (ps_cases s) of
                    (None, _) \<Rightarrow> (409, s)
                  | (Some c, st) \<Rightarrow> (202, s\<lparr>ps_cases := st\<rparr>)))"

section \<open>The admin\<close>

definition admin_ok :: "pub_conf \<Rightarrow> string \<Rightarrow> bool" where
  "admin_ok cf token \<longleftrightarrow> pc_admin_token cf = [] \<or> token = pc_admin_token cf"

definition admin_build :: "pub_conf \<Rightarrow> string \<Rightarrow> string \<Rightarrow> string \<Rightarrow> pub_state \<Rightarrow> int \<times> pub_state" where
  "admin_build cf now token i s =
     (if \<not> admin_ok cf token then (401, s)
      else case get_case (ps_cases s) i of
        None \<Rightarrow> (404, s)
      | Some c \<Rightarrow>
          if kc_status c = Submitted \<or> kc_status c = Build_Failed
          then (303, s\<lparr>ps_cases := snd (set_status now i Building ''build started'' (ps_cases s)), ps_builds := ps_builds s @ [(i, kc_sub c)]\<rparr>)
          else (409, s))"

datatype build_result = BuildErr string | BuildPanic string | Built pub_bundle

definition drop_nth :: "nat \<Rightarrow> 'a list \<Rightarrow> 'a list" where
  "drop_nth n xs = take n xs @ drop (Suc n) xs"

text \<open>The end of buildAsync of the nth running build.\<close>

definition build_done :: "pub_conf \<Rightarrow> string \<Rightarrow> nat \<Rightarrow> build_result \<Rightarrow> pub_state \<Rightarrow> pub_state" where
  "build_done cf now n res s =
     (if length (ps_builds s) \<le> n then s
      else let (i, sub) = ps_builds s ! n; s1 = s\<lparr>ps_builds := drop_nth n (ps_builds s)\<rparr> in
        case res of
          BuildErr e \<Rightarrow> s1\<lparr>ps_cases := snd (set_status now i Build_Failed (''build failed: '' @ e) (ps_cases s))\<rparr>
        | BuildPanic e \<Rightarrow> s1\<lparr>ps_cases := snd (set_status now i Build_Failed (''build panicked: '' @ e) (ps_cases s))\<rparr>
        | Built b \<Rightarrow>
            (case attach_bundle now i b \<lparr>bi_bundle_name = bu_name b, bi_bundle_sha = bu_sha b, bi_publisher = pc_publisher cf\<rparr> (ps_cases s) of
               (None, _) \<Rightarrow> s1\<lparr>ps_cases := snd (set_status now i Build_Failed ''store bundle failed'' (ps_cases s))\<rparr>
             | (Some _, st) \<Rightarrow> s1\<lparr>ps_cases := st, ps_log := ps_log s @ [(safe_key i, sub, b)]\<rparr>))"

definition admin_approve :: "pub_conf \<Rightarrow> string \<Rightarrow> string \<Rightarrow> string \<Rightarrow> pub_state \<Rightarrow> int \<times> pub_state" where
  "admin_approve cf token i guide s =
     (if \<not> admin_ok cf token then (401, s)
      else if blank guide then (400, s)
      else case get_case (ps_cases s) i of
        None \<Rightarrow> (404, s)
      | Some c \<Rightarrow>
          if kc_status c \<noteq> Pending then (409, s)
          else (0, s\<lparr>ps_registry := register_managed (pc_registrar cf) (kc_sub c) (ps_registry s), ps_approvals := ps_approvals s @ [i]\<rparr>))"

text \<open>The end of the nth running approval: the error of the pull request, or its URL.\<close>

definition approve_done :: "string \<Rightarrow> nat \<Rightarrow> string + string \<Rightarrow> pub_state \<Rightarrow> pub_state" where
  "approve_done now n res s =
     (if length (ps_approvals s) \<le> n then s
      else let i = ps_approvals s ! n; s1 = s\<lparr>ps_approvals := drop_nth n (ps_approvals s)\<rparr> in
        case res of
          Inl e \<Rightarrow> s1\<lparr>ps_cases := snd (set_status now i Pending (''broker-registered; catalog PR failed (retry): '' @ e) (ps_cases s))\<rparr>
        | Inr u \<Rightarrow> s1\<lparr>ps_cases := snd (set_status now i Approved (''approved + broker-registered; catalog PR opened: '' @ u) (ps_cases s))\<rparr>)"

definition admin_reject :: "pub_conf \<Rightarrow> string \<Rightarrow> string \<Rightarrow> string \<Rightarrow> string \<Rightarrow> pub_state \<Rightarrow> int \<times> pub_state" where
  "admin_reject cf now token i reason s =
     (if \<not> admin_ok cf token then (401, s)
      else if blank reason then (400, s)
      else case get_case (ps_cases s) i of
        None \<Rightarrow> (404, s)
      | Some c \<Rightarrow> (303, s\<lparr>ps_cases := snd (set_status now i Rejected (trim_space reason) (ps_cases s))\<rparr>))"

section \<open>Runs\<close>

datatype pub_event =
    Ingest "owner gmap option" bool "submission option"
  | Build_Start string string
  | Build_End nat build_result
  | Approve_Start string string string
  | Approve_End nat "string + string"
  | Reject string string string
  | Restart

definition pub_step :: "pub_conf \<Rightarrow> string \<times> pub_event \<Rightarrow> pub_state \<Rightarrow> pub_state" where
  "pub_step cf e s =
     (case snd e of
        Ingest owners upd body \<Rightarrow> snd (ingest cf (fst e) owners upd body s)
      | Build_Start token i \<Rightarrow> snd (admin_build cf (fst e) token i s)
      | Build_End n res \<Rightarrow> build_done cf (fst e) n res s
      | Approve_Start token i guide \<Rightarrow> snd (admin_approve cf token i guide s)
      | Approve_End n res \<Rightarrow> approve_done (fst e) n res s
      | Reject token i reason \<Rightarrow> snd (admin_reject cf (fst e) token i reason s)
      | Restart \<Rightarrow> s\<lparr>ps_builds := [], ps_approvals := []\<rparr>)"

inductive pub_reachable :: "pub_conf \<Rightarrow> pub_state \<Rightarrow> bool" for cf where
  started: "pub_reachable cf fresh_server"
| stepped: "pub_reachable cf s \<Longrightarrow> pub_reachable cf (pub_step cf e s)"

end
