(* ===== verification/Publish_Safe.thy ===== *)
theory Publish_Safe
  imports Publish_Server
begin

text \<open>
  What holds of the publish server in every run: the stored cases, the broker's registry, and what an
  approved case publishes.
\<close>

section \<open>The store\<close>

lemma get_case_write [simp]:
  "get_case (write_case c st) i = (if safe_key i = safe_key (kc_id c) then Some c else get_case st i)"
  by (simp add: get_case_def write_case_def update_conv')

lemma get_case_other_dir [simp]: "safe_key i \<noteq> k \<Longrightarrow> get_case (AList.update k d st) i = get_case st i"
  by (simp add: get_case_def update_conv')

lemma case_dir_write [simp]:
  "case_dir_of (write_case c st) i =
     (if safe_key i = safe_key (kc_id c) then AList.update ''case.json'' (CaseFile c) (case_dir_of st (kc_id c)) else case_dir_of st i)"
  by (simp add: case_dir_of_def write_case_def update_conv')

lemma case_dir_update [simp]: "case_dir_of (AList.update k d st) i = (if safe_key i = k then d else case_dir_of st i)"
  by (simp add: case_dir_of_def update_conv')

lemma log_event_fields [simp]:
  "kc_id (log_event now x note c) = kc_id c" "kc_sub (log_event now x note c) = kc_sub c"
  "kc_status (log_event now x note c) = x" "kc_build (log_event now x note c) = kc_build c"
  "kc_history (log_event now x note c) = kc_history c @ [\<lparr>ev_at = now, ev_status = x, ev_note = note\<rparr>]"
  by (simp_all add: log_event_def)

lemma fresh_case_fields [simp]:
  "kc_id (fresh_case now x note sub b) = case_key sub" "kc_sub (fresh_case now x note sub b) = sub"
  "kc_status (fresh_case now x note sub b) = x" "kc_history (fresh_case now x note sub b) = [\<lparr>ev_at = now, ev_status = x, ev_note = note\<rparr>]"
  by (simp_all add: fresh_case_def)

text \<open>The case kept under a key is of an accepted submission with that key, and its last event gives its status.\<close>

definition case_good :: "regex \<Rightarrow> string \<Rightarrow> case_rec \<Rightarrow> bool" where
  "case_good rx k c \<longleftrightarrow> kc_id c = k \<and> case_key (kc_sub c) = k \<and> validate_submission rx (kc_sub c) = [] \<and>
     kc_history c \<noteq> [] \<and> ev_status (last (kc_history c)) = kc_status c"

definition cases_good :: "regex \<Rightarrow> case_store \<Rightarrow> bool" where
  "cases_good rx st \<longleftrightarrow> (\<forall>i c. get_case st i = Some c \<longrightarrow> case_good rx (safe_key i) c)"

lemma cases_goodD: "cases_good rx st \<Longrightarrow> get_case st i = Some c \<Longrightarrow> case_good rx (safe_key i) c"
  by (simp add: cases_good_def)

lemma case_good_log: "case_good rx k c \<Longrightarrow> case_good rx k (log_event now x note (c\<lparr>kc_build := b\<rparr>))"
  by (simp add: case_good_def)

lemma case_good_status: "case_good rx k c \<Longrightarrow> case_good rx k (log_event now x note c)"
  by (simp add: case_good_def)

lemma cases_good_set_status: "cases_good rx st \<Longrightarrow> cases_good rx (snd (set_status now i x note st))"
  using case_good_status by (auto simp: cases_good_def set_status_def Let_def case_good_def split: option.splits)

lemma cases_good_attach: "cases_good rx st \<Longrightarrow> cases_good rx (snd (attach_bundle now i b bi st))"
proof (cases "get_case st i")
  case (Some c)
  assume ok: "cases_good rx st"
  then have c: "case_good rx (safe_key i) c" using Some by (rule cases_goodD)
  then have "kc_id c = safe_key i" by (simp add: case_good_def)
  with ok case_good_log[OF c] show ?thesis using Some by (auto simp: attach_bundle_def Let_def cases_good_def)
qed (simp add: attach_bundle_def)

lemma cases_good_create:
  "cases_good rx st \<Longrightarrow> validate_submission rx sub = [] \<Longrightarrow> cases_good rx (snd (create_submitted now sub st))"
  by (auto simp: create_submitted_def cases_good_def Let_def case_good_def)

section \<open>Steps\<close>

lemma ingest_cases:
  "ps_cases (snd (ingest cf now owners upd body s)) =
     (case body of None \<Rightarrow> ps_cases s
      | Some sub \<Rightarrow> if validate_submission (pc_regex cf) sub = [] \<and> gate_ownership cf owners sub upd = 0
          then snd (create_submitted now sub (ps_cases s)) else ps_cases s)"
  by (auto simp: ingest_def create_submitted_def Let_def split: option.splits)

lemma step_cases_good: "cases_good (pc_regex cf) (ps_cases s) \<Longrightarrow> cases_good (pc_regex cf) (ps_cases (pub_step cf e s))"
proof (cases "snd e")
  case (Ingest owners upd body)
  moreover assume "cases_good (pc_regex cf) (ps_cases s)"
  ultimately show ?thesis using cases_good_create by (auto simp: pub_step_def ingest_cases split: option.split)
next
  case (Build_End n res)
  moreover assume "cases_good (pc_regex cf) (ps_cases s)"
  ultimately show ?thesis
    using cases_good_set_status cases_good_attach
    by (fastforce simp: pub_step_def build_done_def Let_def case_prod_beta split: build_result.split option.split)
next
  case (Approve_End n res)
  moreover assume "cases_good (pc_regex cf) (ps_cases s)"
  ultimately show ?thesis
    using cases_good_set_status by (auto simp: pub_step_def approve_done_def Let_def split: sum.split)
qed (auto simp: pub_step_def admin_build_def admin_approve_def admin_reject_def cases_good_set_status split: option.splits)

lemma reachable_cases_good: "pub_reachable cf s \<Longrightarrow> cases_good (pc_regex cf) (ps_cases s)"
  by (induction rule: pub_reachable.induct) (simp_all add: fresh_server_def cases_good_def get_case_def step_cases_good[unfolded cases_good_def])

text \<open>C11: In every run the case found for an accepted submission is a case of that app id and that
  version, it holds an accepted submission, and its last event gives its status: two versions never
  share a case, though a case's directory is the id and version with some characters replaced.\<close>

theorem case_of_version:
  assumes "pub_reachable cf s" "validate_submission (pc_regex cf) sub = []" "get_case (ps_cases s) (case_key sub) = Some c"
  shows "ss_id (kc_sub c) = ss_id sub \<and> ss_version (kc_sub c) = ss_version sub \<and> validate_submission (pc_regex cf) (kc_sub c) = [] \<and>
    kc_history c \<noteq> [] \<and> ev_status (last (kc_history c)) = kc_status c"
proof -
  have good: "case_good (pc_regex cf) (case_key sub) c"
    using cases_goodD[OF reachable_cases_good[OF assms(1)] assms(3)] by simp
  have names: "sub_id_pattern (ss_id x) \<and> semver_pattern (ss_version x)" if "validate_submission (pc_regex cf) x = []" for x
    using that by (simp add: validate_submission_def)
  show ?thesis using good case_key_inject[of "kc_sub c" sub] names[OF assms(2)] names[of "kc_sub c"] by (simp add: case_good_def)
qed

section \<open>The broker's registry\<close>

definition entries_good :: "regex \<Rightarrow> app_config list \<Rightarrow> bool" where
  "entries_good rx es \<longleftrightarrow> distinct (map ae_id es) \<and>
     (\<forall>e \<in> set es. \<exists>sub. validate_submission rx sub = [] \<and> sub_managed (ss_backend sub) \<and> e = broker_entry sub)"

lemma put_entry_subset: "set (put_entry e es) \<subseteq> insert e (set es)"
  by (induction es) auto

lemma register_managed_good:
  assumes "entries_good rx es" "validate_submission rx sub = []"
  shows "entries_good rx (register_managed on sub es)"
proof (cases "sub_managed (ss_backend sub) \<and> on")
  case True
  then have "register_managed on sub es = put_entry (broker_entry sub) es" by (simp add: register_managed_def)
  then show ?thesis
    using assms True put_entry_subset[of "broker_entry sub" es]
    unfolding entries_good_def by (auto simp: put_entry_ids)
qed (use assms(1) in \<open>auto simp: register_managed_def\<close>)

lemma step_entries_good:
  assumes "cases_good (pc_regex cf) (ps_cases s)" "entries_good (pc_regex cf) (ps_registry s)"
  shows "entries_good (pc_regex cf) (ps_registry (pub_step cf e s))"
proof -
  have sub: "validate_submission (pc_regex cf) (kc_sub c) = []" if "get_case (ps_cases s) i = Some c" for i c
    using cases_goodD[OF assms(1) that] by (simp add: case_good_def)
  show ?thesis
    using assms(2) register_managed_good[OF assms(2) sub]
    by (auto simp: pub_step_def ingest_def admin_build_def admin_approve_def admin_reject_def build_done_def approve_done_def Let_def
        case_prod_beta split: pub_event.split option.split build_result.split sum.split)
qed

lemma reachable_entries_good: "pub_reachable cf s \<Longrightarrow> entries_good (pc_regex cf) (ps_registry s)"
proof (induction rule: pub_reachable.induct)
  case started
  then show ?case by (simp add: fresh_server_def entries_good_def)
next
  case (stepped s e)
  then show ?case using step_entries_good reachable_cases_good by blast
qed

lemma load_entries_all:
  "(\<And>e. e \<in> set es \<Longrightarrow> \<exists>a. load_entry getenv e = Inr a) \<Longrightarrow> \<exists>reg'. load_entries getenv reg (map Some es) = Inr reg'"
proof (induction es arbitrary: reg)
  case (Cons e es)
  then obtain a where "load_entry getenv e = Inr a" by fastforce
  with Cons show ?case by simp
qed simp


section \<open>What an approval publishes\<close>

text \<open>The directory of a case holds the payload of a bundle that was built from the case's submission.\<close>

definition payload_built :: "pub_state \<Rightarrow> string \<Rightarrow> bool" where
  "payload_built s i \<longleftrightarrow>
     (\<exists>c b. get_case (ps_cases s) i = Some c \<and> (safe_key i, kc_sub c, b) \<in> set (ps_log s) \<and>
        map_of (case_dir_of (ps_cases s) i) ''submission.json'' = Some (Doc (payload_doc (kc_sub c) b)))"

definition in_flight :: "pub_state \<Rightarrow> string \<Rightarrow> bool" where
  "in_flight s k \<longleftrightarrow> (\<exists>p \<in> set (ps_builds s). safe_key (fst p) = k) \<or> (\<exists>i \<in> set (ps_approvals s). safe_key i = k)"

text \<open>Runs in which nobody submits a version while it is being built or approved.\<close>

definition quiet_event :: "pub_event \<Rightarrow> pub_state \<Rightarrow> bool" where
  "quiet_event e s \<longleftrightarrow> (case e of Ingest owners upd (Some sub) \<Rightarrow> \<not> in_flight s (case_key sub) | _ \<Rightarrow> True)"

inductive quiet_run :: "pub_conf \<Rightarrow> pub_state \<Rightarrow> bool" for cf where
  started: "quiet_run cf fresh_server"
| stepped: "quiet_run cf s \<Longrightarrow> quiet_event (snd e) s \<Longrightarrow> quiet_run cf (pub_step cf e s)"

lemma quiet_reachable: "quiet_run cf s \<Longrightarrow> pub_reachable cf s"
  by (induction rule: quiet_run.induct) (auto intro: pub_reachable.intros)

definition faithful :: "pub_state \<Rightarrow> bool" where
  "faithful s \<longleftrightarrow>
     (\<forall>i sub. (i, sub) \<in> set (ps_builds s) \<longrightarrow> (\<exists>c. get_case (ps_cases s) i = Some c \<and> kc_sub c = sub)) \<and>
     (\<forall>i \<in> set (ps_approvals s). payload_built s i) \<and>
     (\<forall>i c. get_case (ps_cases s) i = Some c \<longrightarrow> kc_status c \<in> {Pending, Approved} \<longrightarrow> payload_built s i)"

lemma faithfulD:
  assumes "faithful s"
  shows "(i, sub) \<in> set (ps_builds s) \<Longrightarrow> \<exists>c. get_case (ps_cases s) i = Some c \<and> kc_sub c = sub"
    and "i \<in> set (ps_approvals s) \<Longrightarrow> payload_built s i"
    and "get_case (ps_cases s) i = Some c \<Longrightarrow> kc_status c = Pending \<or> kc_status c = Approved \<Longrightarrow> payload_built s i"
  using assms by (auto simp: faithful_def)

lemma payload_dir: "safe_key i = safe_key j \<Longrightarrow> payload_built s i \<longleftrightarrow> payload_built s j"
  by (simp add: payload_built_def get_case_def case_dir_of_def)

lemma get_case_key: "safe_key i = safe_key j \<Longrightarrow> get_case st i = get_case st j"
  by (simp add: get_case_def)

lemma case_dir_key: "safe_key i = safe_key j \<Longrightarrow> case_dir_of st i = case_dir_of st j"
  by (simp add: case_dir_of_def)

lemma set_drop_nth: "x \<in> set (drop_nth n xs) \<Longrightarrow> x \<in> set xs"
  by (auto simp: drop_nth_def dest: in_set_takeD in_set_dropD)

text \<open>A step that gives a case another status.\<close>

lemma payload_set_status:
  assumes "cases_good rx (ps_cases s)" "payload_built s j" "ps_cases t = snd (set_status now i x note (ps_cases s))" "ps_log t = ps_log s"
  shows "payload_built t j"
proof (cases "get_case (ps_cases s) i")
  case None
  then show ?thesis using assms(2-4) by (simp add: set_status_def payload_built_def)
next
  case (Some c)
  then have "safe_key (kc_id c) = safe_key i" using cases_goodD[OF assms(1) Some] by (simp add: case_good_def)
  then show ?thesis
    using assms(2-4) Some get_case_key[of j i "ps_cases s"] case_dir_key[of j "kc_id c" "ps_cases s"]
    by (auto simp: set_status_def Let_def payload_built_def update_conv')
qed

lemma set_status_sub:
  assumes "cases_good rx st" "get_case (snd (set_status now i x note st)) j = Some c"
  shows "\<exists>c0. get_case st j = Some c0 \<and> kc_sub c = kc_sub c0 \<and> (safe_key j \<noteq> safe_key i \<longrightarrow> c = c0) \<and> (safe_key j = safe_key i \<longrightarrow> kc_status c = x)"
proof (cases "get_case st i")
  case None
  then show ?thesis using assms(2) get_case_key[of j i st] by (auto simp: set_status_def)
next
  case (Some c0)
  then have "safe_key (kc_id c0) = safe_key i" using cases_goodD[OF assms(1) Some] by (simp add: case_good_def)
  then show ?thesis using assms(2) Some get_case_key[of j i st] by (auto simp: set_status_def Let_def split: if_splits)
qed

lemma set_status_keeps:
  assumes "cases_good rx st" "get_case st j = Some c"
  shows "\<exists>c'. get_case (snd (set_status now i x note st)) j = Some c' \<and> kc_sub c' = kc_sub c"
proof (cases "get_case st i")
  case None
  then show ?thesis using assms(2) by (simp add: set_status_def)
next
  case (Some c0)
  then have "safe_key (kc_id c0) = safe_key i" using cases_goodD[OF assms(1) Some] by (simp add: case_good_def)
  then show ?thesis using assms(2) Some get_case_key[of j i st] by (auto simp: set_status_def Let_def)
qed

lemma faithful_status:
  assumes "cases_good rx (ps_cases s)" "faithful s" "ps_cases t = snd (set_status now i x note (ps_cases s))" "ps_log t = ps_log s"
    and "set (ps_builds t) \<subseteq> set (ps_builds s)" "set (ps_approvals t) \<subseteq> set (ps_approvals s)"
    and "x = Pending \<or> x = Approved \<Longrightarrow> payload_built s i"
  shows "faithful t"
proof -
  note keep = payload_set_status[OF assms(1) _ assms(3,4)]
  have "\<exists>c. get_case (ps_cases t) j = Some c \<and> kc_sub c = sub" if "(j, sub) \<in> set (ps_builds t)" for j sub
    using faithfulD(1)[OF assms(2)] that assms(3,5) set_status_keeps[OF assms(1)] by fastforce
  moreover have "payload_built t j" if "j \<in> set (ps_approvals t)" for j
    using faithfulD(2)[OF assms(2)] that assms(6) keep by blast
  moreover have "payload_built t j" if got: "get_case (ps_cases t) j = Some c" and open_or_final: "kc_status c = Pending \<or> kc_status c = Approved" for j c
  proof -
    obtain c0 where c0: "get_case (ps_cases s) j = Some c0" "safe_key j \<noteq> safe_key i \<longrightarrow> c = c0" "safe_key j = safe_key i \<longrightarrow> kc_status c = x"
      using set_status_sub[OF assms(1) got[unfolded assms(3)]] by metis
    have "payload_built s j"
    proof (cases "safe_key j = safe_key i")
      case True
      then have "payload_built s i" using c0(3) open_or_final assms(7) by blast
      then show ?thesis using payload_dir[OF True] by blast
    next
      case False
      then show ?thesis using c0(1,2) open_or_final faithfulD(3)[OF assms(2)] by simp
    qed
    then show ?thesis by (rule keep)
  qed
  ultimately show ?thesis by (auto simp: faithful_def)
qed

text \<open>The end of a build.\<close>

lemma faithful_attach:
  assumes "cases_good rx (ps_cases s)" "faithful s" "(i, sub) \<in> set (ps_builds s)"
    and "ps_cases t = snd (attach_bundle now i b bi (ps_cases s))" "ps_log t = ps_log s @ [(safe_key i, sub, b)]"
    and "set (ps_builds t) \<subseteq> set (ps_builds s)" "ps_approvals t = ps_approvals s"
  shows "faithful t"
proof -
  obtain c0 where c0: "get_case (ps_cases s) i = Some c0" "kc_sub c0 = sub" using faithfulD(1)[OF assms(2,3)] by blast
  have id: "safe_key (kc_id c0) = safe_key i" using cases_goodD[OF assms(1) c0(1)] by (simp add: case_good_def)
  define c where "c = log_event now Pending ''bundle built'' (c0\<lparr>kc_build := bi\<rparr>)"
  have t: "get_case (ps_cases t) j = (if safe_key j = safe_key i then Some c else get_case (ps_cases s) j)" for j
    using assms(4) c0(1) id by (simp add: attach_bundle_def Let_def c_def)
  have sub: "kc_sub c = sub" using c0(2) by (simp add: c_def)
  have dir: "safe_key j \<noteq> safe_key i \<Longrightarrow> case_dir_of (ps_cases t) j = case_dir_of (ps_cases s) j"
    "safe_key j = safe_key i \<Longrightarrow> map_of (case_dir_of (ps_cases t) j) ''submission.json'' = Some (Doc (payload_doc sub b))" for j
    using assms(4) c0 id by (simp_all add: attach_bundle_def Let_def write_bundle_artifacts_def update_conv')
  have here: "payload_built t j" if "safe_key j = safe_key i" for j
    using that t[of j] dir(2)[OF that] sub assms(5) by (auto simp: payload_built_def)
  have there: "payload_built t j" if "payload_built s j" for j
  proof (cases "safe_key j = safe_key i")
    case True
    then show ?thesis by (rule here)
  next
    case False
    then show ?thesis using that t[of j] dir(1)[of j] assms(5) by (auto simp: payload_built_def)
  qed
  have "\<exists>c. get_case (ps_cases t) j = Some c \<and> kc_sub c = sub'" if running: "(j, sub') \<in> set (ps_builds t)" for j sub'
  proof -
    obtain d where "get_case (ps_cases s) j = Some d" "kc_sub d = sub'" using faithfulD(1)[OF assms(2)] running assms(6) by blast
    then show ?thesis using t[of j] sub c0 get_case_key[of j i "ps_cases s"] by auto
  qed
  moreover have "payload_built t j" if "j \<in> set (ps_approvals t)" for j using faithfulD(2)[OF assms(2)] that assms(7) there by simp
  moreover have "payload_built t j" if "get_case (ps_cases t) j = Some d" "kc_status d = Pending \<or> kc_status d = Approved" for j d
    using that t[of j] here there faithfulD(3)[OF assms(2)] by (cases "safe_key j = safe_key i") simp_all
  ultimately show ?thesis by (auto simp: faithful_def)
qed

text \<open>A new submission.\<close>

lemma faithful_create:
  assumes "faithful s" "\<not> in_flight s (case_key sub)"
    and "ps_cases t = snd (create_submitted now sub (ps_cases s))" "ps_log t = ps_log s" "ps_builds t = ps_builds s" "ps_approvals t = ps_approvals s"
  shows "faithful t"
proof (cases "taken (ps_cases s) sub")
  case True
  then have "ps_cases t = ps_cases s" using assms(3) by (simp add: create_submitted_def)
  then show ?thesis using assms(1,4-6) by (simp add: faithful_def payload_built_def)
next
  case False
  define c where "c = fresh_case now Submitted ''submitted; awaiting build'' sub no_build"
  have t: "get_case (ps_cases t) j = (if safe_key j = case_key sub then Some c else get_case (ps_cases s) j)" for j
    using assms(3) False by (simp add: create_submitted_def Let_def c_def)
  have dir: "safe_key j \<noteq> case_key sub \<Longrightarrow> case_dir_of (ps_cases t) j = case_dir_of (ps_cases s) j" for j
    using assms(3) False by (simp add: create_submitted_def Let_def)
  have same: "payload_built t j \<longleftrightarrow> payload_built s j" if "safe_key j \<noteq> case_key sub" for j
    using that t dir assms(4) by (simp add: payload_built_def)
  have "\<exists>c. get_case (ps_cases t) j = Some c \<and> kc_sub c = sub'" if "(j, sub') \<in> set (ps_builds t)" for j sub'
  proof -
    have "safe_key j \<noteq> case_key sub" using that assms(2,5) by (force simp: in_flight_def)
    then show ?thesis using t faithfulD(1)[OF assms(1)] that assms(5) by simp
  qed
  moreover have "payload_built t j" if "j \<in> set (ps_approvals t)" for j
  proof -
    have "safe_key j \<noteq> case_key sub" using that assms(2,6) by (auto simp: in_flight_def)
    then show ?thesis using same faithfulD(2)[OF assms(1)] that assms(6) by simp
  qed
  moreover have "payload_built t j" if "get_case (ps_cases t) j = Some d" "kc_status d = Pending \<or> kc_status d = Approved" for j d
  proof (cases "safe_key j = case_key sub")
    case True
    then show ?thesis using that t[of j] by (auto simp: c_def)
  next
    case False
    then show ?thesis using that t[of j] same faithfulD(3)[OF assms(1)] by simp
  qed
  ultimately show ?thesis by (auto simp: faithful_def)
qed

lemma payload_built_cong: "ps_cases t = ps_cases s \<Longrightarrow> ps_log t = ps_log s \<Longrightarrow> payload_built t i \<longleftrightarrow> payload_built s i"
  by (simp add: payload_built_def)

lemma faithful_fewer:
  assumes "faithful s" "ps_cases t = ps_cases s" "ps_log t = ps_log s"
    and "\<And>i sub. (i, sub) \<in> set (ps_builds t) \<Longrightarrow> (i, sub) \<in> set (ps_builds s) \<or> (\<exists>c. get_case (ps_cases s) i = Some c \<and> kc_sub c = sub)"
    and "\<And>i. i \<in> set (ps_approvals t) \<Longrightarrow> i \<in> set (ps_approvals s) \<or> payload_built s i"
  shows "faithful t"
proof -
  note same = payload_built_cong[OF assms(2,3)]
  have "\<exists>c. get_case (ps_cases t) j = Some c \<and> kc_sub c = sub" if "(j, sub) \<in> set (ps_builds t)" for j sub
    using assms(4)[OF that] faithfulD(1)[OF assms(1)] assms(2) by auto
  moreover have "payload_built t j" if "j \<in> set (ps_approvals t)" for j
    using assms(5)[OF that] faithfulD(2)[OF assms(1)] same by blast
  moreover have "payload_built t j" if "get_case (ps_cases t) j = Some d" "kc_status d = Pending \<or> kc_status d = Approved" for j d
    using that faithfulD(3)[OF assms(1)] assms(2) same by simp
  ultimately show ?thesis by (auto simp: faithful_def)
qed

lemma faithful_build_start:
  assumes "cases_good rx (ps_cases s)" "faithful s"
  shows "faithful (snd (admin_build cf now token i s))"
proof (cases "get_case (ps_cases s) i")
  case (Some c)
  let ?t = "s\<lparr>ps_cases := snd (set_status now i Building ''build started'' (ps_cases s))\<rparr>"
  have t: "faithful ?t" using faithful_status[OF assms, of ?t now i Building "''build started''"] by simp
  obtain c' where "get_case (ps_cases ?t) i = Some c'" "kc_sub c' = kc_sub c" using set_status_keeps[OF assms(1) Some] by force
  then have "faithful (?t\<lparr>ps_builds := ps_builds s @ [(i, kc_sub c)]\<rparr>)" by (intro faithful_fewer[OF t]) auto
  then show ?thesis using Some assms(2) by (simp add: admin_build_def)
qed (use assms(2) in \<open>simp add: admin_build_def\<close>)

lemma faithful_build_done:
  assumes "cases_good rx (ps_cases s)" "faithful s"
  shows "faithful (build_done cf now n res s)"
proof (cases "n < length (ps_builds s)")
  case True
  obtain i sub where p: "ps_builds s ! n = (i, sub)" by force
  then have mem: "(i, sub) \<in> set (ps_builds s)" using True nth_mem by metis
  then obtain c where c: "get_case (ps_cases s) i = Some c" using faithfulD(1)[OF assms(2)] by blast
  have sub: "set (drop_nth n (ps_builds s)) \<subseteq> set (ps_builds s)" using set_drop_nth by fast
  show ?thesis
  proof (cases res)
    case (BuildErr e)
    show ?thesis
      by (rule faithful_status[OF assms, of _ now i Build_Failed "''build failed: '' @ e"]) (use p True BuildErr sub in \<open>simp_all add: build_done_def\<close>)
  next
    case (BuildPanic e)
    show ?thesis
      by (rule faithful_status[OF assms, of _ now i Build_Failed "''build panicked: '' @ e"]) (use p True BuildPanic sub in \<open>simp_all add: build_done_def\<close>)
  next
    case (Built b)
    show ?thesis
      by (rule faithful_attach[OF assms mem, of _ now b "\<lparr>bi_bundle_name = bu_name b, bi_bundle_sha = bu_sha b, bi_publisher = pc_publisher cf\<rparr>"])
        (use p True Built sub c in \<open>simp_all add: build_done_def attach_bundle_def Let_def\<close>)
  qed
qed (use assms(2) in \<open>simp add: build_done_def\<close>)

lemma faithful_approve_start:
  assumes "faithful s" shows "faithful (snd (admin_approve cf token i guide s))"
proof (cases "\<exists>c. get_case (ps_cases s) i = Some c \<and> kc_status c = Pending")
  case True
  then have "payload_built s i" using faithfulD(3)[OF assms] by blast
  with assms have "faithful (s\<lparr>ps_registry := r, ps_approvals := ps_approvals s @ [i]\<rparr>)" for r
    by (intro faithful_fewer[OF assms]) auto
  then show ?thesis using assms True by (auto simp: admin_approve_def)
qed (use assms in \<open>auto simp: admin_approve_def split: option.split\<close>)

lemma faithful_approve_done:
  assumes "cases_good rx (ps_cases s)" "faithful s"
  shows "faithful (approve_done now n res s)"
proof (cases "n < length (ps_approvals s)")
  case True
  then have "payload_built s (ps_approvals s ! n)" using faithfulD(2)[OF assms(2)] nth_mem by blast
  moreover have "set (drop_nth n (ps_approvals s)) \<subseteq> set (ps_approvals s)" using set_drop_nth by fast
  ultimately show ?thesis using True
    by (cases res) (auto simp: approve_done_def Let_def intro!: faithful_status[OF assms, where i = "ps_approvals s ! n"])
qed (use assms(2) in \<open>simp add: approve_done_def\<close>)

lemma ingest_state:
  "snd (ingest cf now owners upd body s) = s \<or>
     (\<exists>sub. body = Some sub \<and> snd (ingest cf now owners upd body s) = s\<lparr>ps_cases := snd (create_submitted now sub (ps_cases s))\<rparr>)"
proof (cases body)
  case (Some sub)
  then show ?thesis by (cases "create_submitted now sub (ps_cases s)") (simp add: ingest_def Let_def split: option.split)
qed (simp add: ingest_def)

lemma faithful_step:
  assumes "cases_good (pc_regex cf) (ps_cases s)" "faithful s" "quiet_event (snd e) s"
  shows "faithful (pub_step cf e s)"
proof (cases "snd e")
  case (Ingest owners upd body)
  consider (same) "snd (ingest cf (fst e) owners upd body s) = s"
    | (new) sub where "body = Some sub" "snd (ingest cf (fst e) owners upd body s) = s\<lparr>ps_cases := snd (create_submitted (fst e) sub (ps_cases s))\<rparr>"
    using ingest_state by blast
  then show ?thesis
  proof cases
    case same
    with Ingest assms(2) show ?thesis by (simp add: pub_step_def)
  next
    case new
    then have "faithful (s\<lparr>ps_cases := snd (create_submitted (fst e) sub (ps_cases s))\<rparr>)"
      using assms(3) Ingest by (intro faithful_create[OF assms(2)]) (auto simp: quiet_event_def)
    with new Ingest show ?thesis by (simp add: pub_step_def)
  qed
next
  case (Build_Start token i)
  then show ?thesis using faithful_build_start[OF assms(1,2)] by (simp add: pub_step_def)
next
  case (Build_End n res)
  then show ?thesis using faithful_build_done[OF assms(1,2)] by (simp add: pub_step_def)
next
  case (Approve_Start token i guide)
  then show ?thesis using faithful_approve_start[OF assms(2)] by (simp add: pub_step_def)
next
  case (Approve_End n res)
  then show ?thesis using faithful_approve_done[OF assms(1,2)] by (simp add: pub_step_def)
next
  case (Reject token i reason)
  have "faithful (s\<lparr>ps_cases := snd (set_status now i Rejected msg (ps_cases s))\<rparr>)" for now msg
    by (rule faithful_status[OF assms(1,2), of _ now i Rejected msg]) simp_all
  with Reject assms(2) show ?thesis by (auto simp: pub_step_def admin_reject_def split: option.split)
next
  case Restart
  then show ?thesis by (auto simp: pub_step_def intro: faithful_fewer[OF assms(2)])
qed

lemma quiet_faithful: "quiet_run cf s \<Longrightarrow> faithful s"
proof (induction rule: quiet_run.induct)
  case started
  then show ?case by (simp add: faithful_def fresh_server_def get_case_def)
next
  case (stepped s e)
  then show ?case using faithful_step reachable_cases_good quiet_reachable by blast
qed

text \<open>C10: When nobody submits a version while it is being built or approved, the payload in the directory of a
  case under review or approved - what the approval's pull request carries - names the app, the version
  and a bundle that was built from the submission the case shows, over any order of the requests, the
  ends of builds and approvals and restarts.\<close>

theorem approved_payload:
  assumes "quiet_run cf s" "get_case (ps_cases s) i = Some c" "kc_status c = Pending \<or> kc_status c = Approved"
  shows "\<exists>b. (safe_key i, kc_sub c, b) \<in> set (ps_log s) \<and>
    map_of (case_dir_of (ps_cases s) i) ''submission.json'' = Some (Doc (payload_doc (kc_sub c) b))"
  using faithfulD(3)[OF quiet_faithful[OF assms(1)] assms(2,3)] assms(2) by (auto simp: payload_built_def)

section \<open>Who may publish\<close>

text \<open>The live catalogue lets the platform publish a version: a new app is submitted, a published one is updated, by its
  owner and not to an older version.\<close>

definition may_publish :: "string \<Rightarrow> owner gmap option \<Rightarrow> bool \<Rightarrow> submission \<Rightarrow> bool" where
  "may_publish platform owners upd sub \<longleftrightarrow>
     (case owners of
        None \<Rightarrow> False
      | Some os \<Rightarrow> (case map_of os (ss_id sub) of
          None \<Rightarrow> \<not> upd
        | Some ow \<Rightarrow> upd \<and> 0 \<le> compare_semver (ss_version sub) (ow_version ow) \<and> ow_publisher ow \<noteq> [] \<and>
            (platform = [] \<or> platform = ow_publisher ow)))"

lemma gate_ownership_ok: "gate_ownership cf owners sub upd = 0 \<longleftrightarrow> may_publish (pc_publisher cf) owners upd sub"
  by (auto simp: gate_ownership_def may_publish_def check_update_ok Let_def split: option.splits)

lemma refused_unchanged: "fst (ingest cf now owners upd body s) \<noteq> 202 \<Longrightarrow> snd (ingest cf now owners upd body s) = s"
proof (cases body)
  case (Some sub)
  assume "fst (ingest cf now owners upd body s) \<noteq> 202"
  with Some show ?thesis
    by (cases "create_submitted now sub (ps_cases s)") (auto simp: ingest_def Let_def split: option.splits)
qed (simp add: ingest_def)

lemma gate_ownership_code: "gate_ownership cf owners sub upd \<noteq> 202"
  by (auto simp: gate_ownership_def Let_def split: option.splits)


text \<open>A request of the admin pages without the token changes nothing.\<close>

lemma wrong_token:
  "\<not> admin_ok cf token \<Longrightarrow> snd (admin_build cf now token i s) = s" "\<not> admin_ok cf token \<Longrightarrow> snd (admin_approve cf token i guide s) = s"
  "\<not> admin_ok cf token \<Longrightarrow> snd (admin_reject cf now token i reason s) = s"
  by (simp_all add: admin_build_def admin_approve_def admin_reject_def)

section \<open>An example, and what the runs above leave out\<close>

lemma pub_reachable_run: "pub_reachable cf s \<Longrightarrow> pub_reachable cf (fold (pub_step cf) es s)"
  by (induction es arbitrary: s) (auto intro: pub_reachable.intros)

definition example_server :: pub_conf where
  "example_server = \<lparr>pc_regex = (\<lambda>_ _. None), pc_admin_token = ''adm'', pc_publisher = ''ed25519:AAAA'', pc_registrar = True\<rparr>"

definition geo_sub :: submission where "geo_sub = managed_route ''http'' ''https://api.acme.io/''"
definition geo_key :: string where "geo_key = ''io.pilot.geo-1.0.0''"

definition geo_bundle :: pub_bundle where
  "geo_bundle = \<lparr>bu_name = ''geo.tgz'', bu_sha = ''ab'', bu_metadata = ''{}'',
     bu_platforms = [\<lparr>pb_platform = ''linux/amd64'', pb_tarball = ''T'', pb_name = ''geo.tgz'', pb_sha = ''ab''\<rparr>]\<rparr>"

definition submit_geo :: "string \<times> pub_event" where "submit_geo = (''t1'', Ingest (Some []) False (Some geo_sub))"
definition build_geo :: "string \<times> pub_event" where "build_geo = (''t2'', Build_Start ''adm'' geo_key)"
definition built_geo :: "string \<times> pub_event" where "built_geo = (''t3'', Build_End 0 (Built geo_bundle))"
definition approve_geo :: "string \<times> pub_event" where "approve_geo = (''t4'', Approve_Start ''adm'' geo_key ''look for geo'')"
definition opened_geo :: "string \<times> pub_event" where "opened_geo = (''t5'', Approve_End 0 (Inr ''https://github.com/pr/1''))"

definition geo_submitted :: pub_state where "geo_submitted = pub_step example_server submit_geo fresh_server"
definition geo_building :: pub_state where "geo_building = pub_step example_server build_geo geo_submitted"
definition geo_pending :: pub_state where "geo_pending = pub_step example_server built_geo geo_building"
definition geo_approving :: pub_state where "geo_approving = pub_step example_server approve_geo geo_pending"
definition geo_approved :: pub_state where "geo_approved = pub_step example_server opened_geo geo_approving"

lemma geo_status:
  "map_option kc_status (get_case (ps_cases geo_pending) geo_key) = Some Pending"
  "map_option kc_status (get_case (ps_cases geo_approved) geo_key) = Some Approved"
  "map ae_id (ps_registry geo_approved) = [''io.pilot.geo'']"
  by code_simp+

lemma geo_accepted: "validate_submission (pc_regex example_server) geo_sub = []"
  by (simp add: example_server_def geo_sub_def managed_accepted)

lemma geo_runs: "quiet_run example_server geo_building" "quiet_run example_server geo_approved"
proof -
  have "quiet_run example_server geo_submitted" unfolding geo_submitted_def
    by (intro quiet_run.intros) (simp add: submit_geo_def quiet_event_def in_flight_def fresh_server_def)
  then show b: "quiet_run example_server geo_building" unfolding geo_building_def
    by (intro quiet_run.stepped) (simp_all add: build_geo_def quiet_event_def)
  then have "quiet_run example_server geo_approving" unfolding geo_approving_def geo_pending_def
    by (intro quiet_run.stepped) (simp_all add: built_geo_def approve_geo_def quiet_event_def)
  then show "quiet_run example_server geo_approved" unfolding geo_approved_def
    by (intro quiet_run.stepped) (simp_all add: opened_geo_def quiet_event_def)
qed

lemma geo_found: "case_key geo_sub = geo_key" "get_case (ps_cases geo_approved) geo_key \<noteq> None" "safe_key geo_key = geo_key"
  by code_simp+

theorem case_of_version_witness:
  "\<exists>c. get_case (ps_cases geo_approved) geo_key = Some c \<and> ss_version (kc_sub c) = ''1.0.0'' \<and> ev_status (last (kc_history c)) = Approved"
proof -
  obtain c where c: "get_case (ps_cases geo_approved) geo_key = Some c" using geo_found(2) by blast
  then have "kc_status c = Approved" using geo_status(2) by simp
  moreover have "ss_version geo_sub = ''1.0.0''" by code_simp
  ultimately show ?thesis
    using case_of_version[OF quiet_reachable[OF geo_runs(2)] geo_accepted, of c] c geo_found(1) by auto
qed


theorem approved_payload_witness:
  "\<exists>c b. get_case (ps_cases geo_approved) geo_key = Some c \<and> (geo_key, kc_sub c, b) \<in> set (ps_log geo_approved) \<and>
     map_of (case_dir_of (ps_cases geo_approved) geo_key) ''submission.json'' = Some (Doc (payload_doc (kc_sub c) b))"
proof -
  obtain c where c: "get_case (ps_cases geo_approved) geo_key = Some c" using geo_found(2) by blast
  then have "kc_status c = Pending \<or> kc_status c = Approved" using geo_status(2) by simp
  then show ?thesis using approved_payload[OF geo_runs(2) c] c geo_found(3) by auto
qed

text \<open>Observation: A version submitted again while it is being built gets the bundle of the earlier submission, with the
  payload's description of the new one.\<close>

definition geo_resub :: submission where "geo_resub = geo_sub\<lparr>ss_description := ''Other places''\<rparr>"

definition geo_mixed :: pub_state where
  "geo_mixed = fold (pub_step example_server) [(''t3'', Ingest (Some []) False (Some geo_resub)), built_geo] geo_building"

lemma resubmitted_during_build:
  "map_option kc_status (get_case (ps_cases geo_mixed) geo_key) = Some Pending"
  "map_option (ss_description \<circ> kc_sub) (get_case (ps_cases geo_mixed) geo_key) = Some ''Other places''"
  "map (\<lambda>(k, sub, b). (k, ss_description sub)) (ps_log geo_mixed) = [(geo_key, ''Places'')]"
  by code_simp+

text \<open>Observation: A rejection takes back an approval; the version may then be submitted and published again.\<close>

lemma rejected_approval_reopens:
  assumes "admin_ok cf token" "\<not> blank reason" "cases_good rx (ps_cases s)"
  shows "\<not> taken (ps_cases (snd (admin_reject cf now token i reason s))) sub \<or> case_key sub \<noteq> safe_key i"
proof (cases "get_case (ps_cases s) i")
  case None
  then show ?thesis using assms(1,2) get_case_key[of "case_key sub" i "ps_cases s"] by (auto simp: admin_reject_def taken_def)
next
  case (Some c)
  then have "safe_key (kc_id c) = safe_key i" using cases_goodD[OF assms(3) Some] by (simp add: case_good_def)
  then show ?thesis using assms(1,2) Some by (auto simp: admin_reject_def taken_def set_status_def Let_def)
qed

text \<open>Observation: A case whose build a restart interrupted can be built again only after another submission.\<close>

lemma restart_strands_build:
  assumes "admin_ok cf token" "get_case (ps_cases s) i = Some c" "kc_status c = Building"
  shows "admin_build cf now token i (pub_step cf (t, Restart) s) = (409, pub_step cf (t, Restart) s)"
  using assms by (simp add: pub_step_def admin_build_def)

end
