(* ===== verification/Store_Meta.thy ===== *)
theory Store_Meta
  imports Json_Struct Semver Go_Url
begin

text \<open>
  internal/appstoremeta: the presentation document of the app store. Its schema (schema.go), the load
  of a data directory with its checks, its order and its derived fields (store.go), and the flattened
  summary of an app's copy (summary.go). A slice of the source is a list or nothing (nil). A data
  directory is the text of its index and the entries of its apps directory; nothing stands for what
  cannot be read.
\<close>

section \<open>Schema\<close>

record category =
  ct_id :: string
  ct_name :: string
  ct_blurb :: string
  ct_hue :: int

record meta_method = mm_name :: string mm_summary :: string mm_example :: string mm_gated :: string
record meta_release = re_version :: string re_date :: string re_notes :: "string list option"
record meta_limit = li_label :: string li_value :: string
record meta_bundle = mb_platform :: string mb_bytes :: int
record meta_depend = dp_id :: string dp_reason :: string dp_optional :: bool
record icon_mark = im_set :: string im_name :: string

record icon =
  ic_mode :: string
  ic_img :: string
  ic_file :: string
  ic_fit :: string
  ic_pos :: string
  ic_color :: string
  ic_ink :: bool
  ic_hue :: int
  ic_mark :: "icon_mark option"

record meta_step = ms_title :: string ms_goal :: string ms_command :: string ms_expect :: string ms_cost :: string ms_note :: string
record meta_op = mo_op :: string mo_price :: string mo_note :: string

record meta_cost =
  mc_unit :: string
  mc_free :: string
  mc_cap :: "rat option"
  mc_operations :: "meta_op list option"
  mc_worked :: string
  mc_balance :: string

record meta_demo =
  md_skill :: string
  md_title :: string
  md_when :: string
  md_metered :: bool
  md_quickstart :: meta_step
  md_examples :: "meta_step list option"
  md_cost :: "meta_cost option"
  md_gotchas :: "string list option"
  md_next :: "string list option"

record store_app =
  ma_id :: string
  ma_name :: string
  ma_tagline :: string
  ma_description :: string
  ma_summary :: string
  ma_categories :: "string list option"
  ma_primary :: string
  ma_keywords :: "string list option"
  ma_version :: string
  ma_vendor :: string
  ma_vendor_url :: string
  ma_license :: string
  ma_source_url :: string
  ma_homepage :: string
  ma_methods :: "meta_method list option"
  ma_changelog :: "meta_release list option"
  ma_grants :: "string list option"
  ma_limits :: "meta_limit list option"
  ma_bundles :: "meta_bundle list option"
  ma_installed :: int
  ma_depends :: "meta_depend list option"
  ma_protection :: string
  ma_featured :: bool
  ma_in_catalogue :: bool
  ma_icon :: icon
  ma_min_pilot :: string
  ma_runtimes :: "string list option"
  ma_published :: string
  ma_updated :: string
  ma_demo :: "meta_demo option"

record store_index =
  si_source :: string
  si_categories :: "category list"
  si_featured :: "string list option"
  si_order :: "string list option"

record store_document =
  sd_source :: string
  sd_categories :: "category list"
  sd_featured :: "string list option"
  sd_order :: "string list option"
  sd_apps :: "store_app list"

section \<open>Summaries\<close>

text \<open>Each step is one of summary.go's fixed patterns with its replacement, scanned left to right.
  The patterns that are bound to the start of a line are told whether they are there.\<close>

definition back_tick :: char where "back_tick = CHR 0x60"
definition line_end :: char where "line_end = CHR 0x0A"

text \<open>The text after the first occurrence of a mark.\<close>

fun after_mark :: "string \<Rightarrow> string \<Rightarrow> string option" where
  "after_mark m [] = cut_prefix m []"
| "after_mark m (c # s) = (case cut_prefix m (c # s) of Some r \<Rightarrow> Some r | None \<Rightarrow> after_mark m s)"

lemma cut_prefix_shorter: "cut_prefix m s = Some r \<Longrightarrow> m \<noteq> [] \<Longrightarrow> length r < length s"
  by (auto simp: cut_prefix_def has_prefix_iff split: if_splits)

lemma after_mark_shorter: "after_mark m s = Some r \<Longrightarrow> m \<noteq> [] \<Longrightarrow> length r < length s"
proof (induction m s rule: after_mark.induct)
  case (2 m c s)
  then show ?case
  proof (cases "cut_prefix m (c # s)")
    case None
    then show ?thesis using 2 by (auto simp: less_SucI)
  qed (use cut_prefix_shorter[of m "c # s"] in auto)
qed (use cut_prefix_shorter in fastforce)

function drop_fences :: "string \<Rightarrow> string" where
  "drop_fences [] = []"
| "drop_fences (c # s) =
     (case Option.bind (cut_prefix [back_tick, back_tick, back_tick] (c # s)) (after_mark [back_tick, back_tick, back_tick]) of
        Some r \<Rightarrow> CHR '' '' # drop_fences r
      | None \<Rightarrow> c # drop_fences s)"
  by pat_completeness auto
termination
proof (relation "measure length")
  fix c s r
  assume "Option.bind (cut_prefix [back_tick, back_tick, back_tick] (c # s)) (after_mark [back_tick, back_tick, back_tick]) = Some r"
  then obtain t where "cut_prefix [back_tick, back_tick, back_tick] (c # s) = Some t" "after_mark [back_tick, back_tick, back_tick] t = Some r"
    by (auto simp: bind_eq_Some_conv)
  then show "(r, c # s) \<in> measure length"
    using after_mark_shorter[of "[back_tick, back_tick, back_tick]" t r] cut_prefix_shorter[of "[back_tick, back_tick, back_tick]" "c # s" t] by simp
qed auto

definition drop_title :: "string \<Rightarrow> string" where
  "drop_title s =
     (case dropWhile re_space s of
        c # t \<Rightarrow> if c = CHR ''#'' then (case cut_at line_end t of Some (_, r) \<Rightarrow> r | None \<Rightarrow> s) else s
      | [] \<Rightarrow> s)"

text \<open>Replacing at the starts of lines: \<open>match\<close> gives what follows a match there, which is shorter.\<close>

definition line_starts_after :: "string \<Rightarrow> string \<Rightarrow> bool" where
  "line_starts_after s r \<longleftrightarrow> (let used = take (length s - length r) s in used \<noteq> [] \<and> last used = line_end)"

fun replace_lines :: "nat \<Rightarrow> (string \<Rightarrow> string option) \<Rightarrow> string \<Rightarrow> bool \<Rightarrow> string \<Rightarrow> string" where
  "replace_lines n pat new at_start [] = []"
| "replace_lines 0 pat new at_start (c # s) = c # s"
| "replace_lines (Suc n) pat new at_start (c # s) =
     (case if at_start then pat (c # s) else None of
        Some r \<Rightarrow> new @ replace_lines n pat new (line_starts_after (c # s) r) r
      | None \<Rightarrow> c # replace_lines n pat new (c = line_end) s)"

definition heading_at :: "string \<Rightarrow> string option" where
  "heading_at s =
     (let ws = takeWhile re_space s; t = dropWhile re_space s; marks = takeWhile (\<lambda>c. c = CHR ''#'') t in
      if length ws \<le> 3 \<and> marks \<noteq> []
      then Some (if length marks \<le> 6 then dropWhile re_space (drop (length marks) t) else drop 6 t)
      else None)"

definition quote_at :: "string \<Rightarrow> string option" where
  "quote_at s =
     (case dropWhile re_space s of
        c # t \<Rightarrow> if c = CHR ''>'' then Some (case t of d # r \<Rightarrow> if re_space d then r else t | [] \<Rightarrow> []) else None
      | [] \<Rightarrow> None)"

definition bullet_at :: "string \<Rightarrow> string option" where
  "bullet_at s =
     (case dropWhile re_space s of
        c # d # t \<Rightarrow> if c \<in> {CHR ''-'', CHR ''*'', CHR ''+''} \<and> re_space d then Some (dropWhile re_space t) else None
      | _ \<Rightarrow> None)"

text \<open>Marks around a piece of text; each gives the text kept and what follows.\<close>

definition link_at :: "string \<Rightarrow> (string \<times> string) option" where
  "link_at s =
     (case s of
        c # t \<Rightarrow> if c = CHR ''['' then
          (case cut_at CHR '']'' t of
             Some (a, d # r) \<Rightarrow> if d = CHR ''('' then (case cut_at CHR '')'' r of Some (_, q) \<Rightarrow> Some (a, q) | None \<Rightarrow> None) else None
           | _ \<Rightarrow> None) else None
      | [] \<Rightarrow> None)"

definition bold_at :: "string \<Rightarrow> (string \<times> string) option" where
  "bold_at s =
     (case cut_prefix ''**'' s of
        Some t \<Rightarrow> (case cut_at CHR ''*'' t of
           Some (a, d # r) \<Rightarrow> if a \<noteq> [] \<and> d = CHR ''*'' then Some (a, r) else None | _ \<Rightarrow> None)
      | None \<Rightarrow> None)"

definition starred_at :: "string \<Rightarrow> (string \<times> string) option" where
  "starred_at s =
     (case s of
        c # t \<Rightarrow> if c = CHR ''*'' then
          (case cut_at CHR ''*'' t of Some (a, r) \<Rightarrow> if a \<noteq> [] \<and> line_end \<notin> set a then Some (a, r) else None | None \<Rightarrow> None) else None
      | [] \<Rightarrow> None)"

definition italic_at :: "string \<Rightarrow> (string \<times> string) option" where
  "italic_at s =
     (case s of c # t \<Rightarrow> if c \<noteq> CHR ''*'' then map_option (\<lambda>(a, r). (c # a, r)) (starred_at t) else None | [] \<Rightarrow> None)"

definition code_at :: "string \<Rightarrow> (string \<times> string) option" where
  "code_at s =
     (case s of c # t \<Rightarrow> if c = back_tick then cut_at back_tick t else None | [] \<Rightarrow> None)"

fun unwrap :: "nat \<Rightarrow> (string \<Rightarrow> (string \<times> string) option) \<Rightarrow> string \<Rightarrow> string" where
  "unwrap n pat [] = []"
| "unwrap 0 pat (c # s) = c # s"
| "unwrap (Suc n) pat (c # s) =
     (case pat (c # s) of Some (a, r) \<Rightarrow> a @ unwrap n pat r | None \<Rightarrow> c # unwrap n pat s)"

definition unwrap_all :: "(string \<Rightarrow> (string \<times> string) option) \<Rightarrow> string \<Rightarrow> string" where
  "unwrap_all pat s = unwrap (length s) pat s"

text \<open>The italic pattern also matches a star at the very start of the text.\<close>

definition unwrap_italic :: "string \<Rightarrow> string" where
  "unwrap_italic s = (case starred_at s of Some (a, r) \<Rightarrow> a @ unwrap_all italic_at r | None \<Rightarrow> unwrap_all italic_at s)"

fun squeeze :: "bool \<Rightarrow> string \<Rightarrow> string" where
  "squeeze in_space [] = []"
| "squeeze in_space (c # s) =
     (if re_space c then (if in_space then squeeze True s else CHR '' '' # squeeze True s) else c # squeeze False s)"

definition flatten_copy :: "string \<Rightarrow> string" where
  "flatten_copy md =
     (let lines = (\<lambda>pat new s. replace_lines (length s) pat new True s);
          t1 = drop_title (drop_fences md);
          t2 = lines bullet_at ''- '' (lines quote_at [] (lines heading_at [] t1));
          t3 = unwrap_all code_at (unwrap_italic (unwrap_all bold_at (unwrap_all link_at t2)))
      in trim_space (squeeze False t3))"

definition summary_limit :: nat where "summary_limit = 420"
definition em_dash_rune :: nat where "em_dash_rune = 8212"
definition ellipsis_rune :: nat where "ellipsis_rune = 8230"

definition last_blank :: "nat list \<Rightarrow> nat option" where
  "last_blank us = (case rev (filter (\<lambda>i. us ! i \<in> {9, 10, 32}) [0..<length us]) of [] \<Rightarrow> None | i # _ \<Rightarrow> Some i)"

definition cut_runes :: "nat \<Rightarrow> nat list \<Rightarrow> nat list" where
  "cut_runes limit us =
     (let cut = take (limit - 1) us;
          word = (case last_blank cut of None \<Rightarrow> cut | Some i \<Rightarrow> if 0 < i then take i cut else cut)
      in rev (dropWhile (\<lambda>u. u \<in> {byte CHR '' '', byte CHR '','', byte CHR '';'', byte CHR '':'', em_dash_rune, byte CHR ''-''}) (rev word))
         @ [ellipsis_rune])"

definition summarize :: "string \<Rightarrow> nat \<Rightarrow> string" where
  "summarize md limit =
     (let text = flatten_copy md; us = runes text in
      if limit = 0 then text else if length us \<le> limit then text else of_runes (cut_runes limit us))"

end
