(* ===== verification/Store_Load.thy ===== *)
theory Store_Load
  imports Store_Meta
begin

text \<open>
  The load of an app store data directory (internal/appstoremeta/store.go): the decoding of the files
  into the schema's structs, the checks, the derived fields and the order of the apps.
\<close>

section \<open>Decoding\<close>

text \<open>A slice is nothing for null and when absent; a pointer to a struct likewise.\<close>

definition get_slice :: "string \<Rightarrow> (json \<Rightarrow> 'a \<times> bool) \<Rightarrow> (string \<times> json) list \<Rightarrow> 'a list option \<times> bool" where
  "get_slice name elem kvs =
     fold (\<lambda>(k, v) (x, okay). if same_field k name
             then (case v of JArr js \<Rightarrow> (Some (map (fst \<circ> elem) js), okay \<and> list_all (snd \<circ> elem) js)
                   | JNull \<Rightarrow> (None, okay) | _ \<Rightarrow> (x, False)) else (x, okay))
       kvs (None, True)"

definition get_ptr :: "string \<Rightarrow> (string \<times> json) list \<Rightarrow> (string \<times> json) list option \<times> bool" where
  "get_ptr name kvs =
     fold (\<lambda>(k, v) (x, okay). if same_field k name
             then (case v of JObj m \<Rightarrow> (Some ((case x of None \<Rightarrow> [] | Some m0 \<Rightarrow> m0) @ m), okay)
                   | JNull \<Rightarrow> (None, okay) | _ \<Rightarrow> (x, False)) else (x, okay))
       kvs (None, True)"

definition get_rat_ptr :: "string \<Rightarrow> (string \<times> json) list \<Rightarrow> rat option \<times> bool" where
  "get_rat_ptr name kvs =
     fold (\<lambda>(k, v) (x, okay). if same_field k name
             then (case v of JNum t \<Rightarrow> (Some (num_value t), okay) | JNull \<Rightarrow> (None, okay) | _ \<Rightarrow> (x, False)) else (x, okay))
       kvs (None, True)"

definition text_elem :: "json \<Rightarrow> string \<times> bool" where
  "text_elem v = (case v of JStr s \<Rightarrow> (s, True) | JNull \<Rightarrow> ([], True) | _ \<Rightarrow> ([], False))"

definition strs_ok :: "string list \<Rightarrow> (string \<times> json) list \<Rightarrow> bool" where
  "strs_ok names m \<longleftrightarrow> list_all (\<lambda>n. snd (get_str n m)) names"

definition str_of :: "string \<Rightarrow> (string \<times> json) list \<Rightarrow> string" where
  "str_of n m = fst (get_str n m)"

text \<open>An element of a list of structs.\<close>

definition struct_elem :: "((string \<times> json) list \<Rightarrow> 'a \<times> bool) \<Rightarrow> json \<Rightarrow> 'a \<times> bool" where
  "struct_elem f v = (case struct_members v of None \<Rightarrow> (fst (f []), False) | Some m \<Rightarrow> f m)"

definition decode_category :: "(string \<times> json) list \<Rightarrow> category \<times> bool" where
  "decode_category m =
     (\<lparr>ct_id = str_of ''id'' m, ct_name = str_of ''name'' m, ct_blurb = str_of ''blurb'' m, ct_hue = fst (get_int ''hue'' m)\<rparr>,
      strs_ok [''id'', ''name'', ''blurb''] m \<and> snd (get_int ''hue'' m))"

definition decode_method :: "(string \<times> json) list \<Rightarrow> meta_method \<times> bool" where
  "decode_method m =
     (\<lparr>mm_name = str_of ''name'' m, mm_summary = str_of ''summary'' m, mm_example = str_of ''example'' m, mm_gated = str_of ''gated'' m\<rparr>,
      strs_ok [''name'', ''summary'', ''example'', ''gated''] m)"

definition decode_release :: "(string \<times> json) list \<Rightarrow> meta_release \<times> bool" where
  "decode_release m =
     (\<lparr>re_version = str_of ''version'' m, re_date = str_of ''date'' m, re_notes = fst (get_slice ''notes'' text_elem m)\<rparr>,
      strs_ok [''version'', ''date''] m \<and> snd (get_slice ''notes'' text_elem m))"

definition decode_limit :: "(string \<times> json) list \<Rightarrow> meta_limit \<times> bool" where
  "decode_limit m = (\<lparr>li_label = str_of ''label'' m, li_value = str_of ''value'' m\<rparr>, strs_ok [''label'', ''value''] m)"

definition decode_meta_bundle :: "(string \<times> json) list \<Rightarrow> meta_bundle \<times> bool" where
  "decode_meta_bundle m =
     (\<lparr>mb_platform = str_of ''platform'' m, mb_bytes = fst (get_int ''bytes'' m)\<rparr>, strs_ok [''platform''] m \<and> snd (get_int ''bytes'' m))"

definition decode_depend :: "(string \<times> json) list \<Rightarrow> meta_depend \<times> bool" where
  "decode_depend m =
     (\<lparr>dp_id = str_of ''id'' m, dp_reason = str_of ''reason'' m, dp_optional = fst (get_bool ''optional'' m)\<rparr>,
      strs_ok [''id'', ''reason''] m \<and> snd (get_bool ''optional'' m))"

definition decode_icon :: "(string \<times> json) list \<Rightarrow> icon \<times> bool" where
  "decode_icon m =
     (\<lparr>ic_mode = str_of ''mode'' m, ic_img = str_of ''img'' m, ic_file = str_of ''file'' m, ic_fit = str_of ''fit'' m,
       ic_pos = str_of ''pos'' m, ic_color = str_of ''color'' m, ic_ink = fst (get_bool ''ink'' m), ic_hue = fst (get_int ''hue'' m),
       ic_mark = map_option (\<lambda>k. \<lparr>im_set = str_of ''set'' k, im_name = str_of ''name'' k\<rparr>) (fst (get_ptr ''mark'' m))\<rparr>,
      strs_ok [''mode'', ''img'', ''file'', ''fit'', ''pos'', ''color''] m \<and> snd (get_bool ''ink'' m) \<and> snd (get_int ''hue'' m)
      \<and> snd (get_ptr ''mark'' m) \<and> (case fst (get_ptr ''mark'' m) of None \<Rightarrow> True | Some k \<Rightarrow> strs_ok [''set'', ''name''] k))"

definition decode_meta_step :: "(string \<times> json) list \<Rightarrow> meta_step \<times> bool" where
  "decode_meta_step m =
     (\<lparr>ms_title = str_of ''title'' m, ms_goal = str_of ''goal'' m, ms_command = str_of ''command'' m, ms_expect = str_of ''expect'' m,
       ms_cost = str_of ''cost'' m, ms_note = str_of ''note'' m\<rparr>,
      strs_ok [''title'', ''goal'', ''command'', ''expect'', ''cost'', ''note''] m)"

definition decode_meta_op :: "(string \<times> json) list \<Rightarrow> meta_op \<times> bool" where
  "decode_meta_op m =
     (\<lparr>mo_op = str_of ''op'' m, mo_price = str_of ''price'' m, mo_note = str_of ''note'' m\<rparr>, strs_ok [''op'', ''price'', ''note''] m)"

definition decode_meta_cost :: "(string \<times> json) list \<Rightarrow> meta_cost \<times> bool" where
  "decode_meta_cost m =
     (\<lparr>mc_unit = str_of ''unit'' m, mc_free = str_of ''free_budget'' m, mc_cap = fst (get_rat_ptr ''hard_cap_usd'' m),
       mc_operations = fst (get_slice ''operations'' (struct_elem decode_meta_op) m), mc_worked = str_of ''worked_total'' m,
       mc_balance = str_of ''check_balance'' m\<rparr>,
      strs_ok [''unit'', ''free_budget'', ''worked_total'', ''check_balance''] m \<and> snd (get_rat_ptr ''hard_cap_usd'' m)
      \<and> snd (get_slice ''operations'' (struct_elem decode_meta_op) m))"

definition decode_meta_demo :: "(string \<times> json) list \<Rightarrow> meta_demo \<times> bool" where
  "decode_meta_demo m =
     (let (q, okq) = get_struct ''quickstart'' m; (st, oks) = decode_meta_step q; (c, okc) = get_ptr ''cost'' m;
          (ex, oke) = get_slice ''examples'' (struct_elem decode_meta_step) m in
      (\<lparr>md_skill = str_of ''skill'' m, md_title = str_of ''title'' m, md_when = str_of ''when_to_use'' m,
        md_metered = fst (get_bool ''metered'' m), md_quickstart = st, md_examples = ex,
        md_cost = map_option (fst \<circ> decode_meta_cost) c, md_gotchas = fst (get_slice ''gotchas'' text_elem m),
        md_next = fst (get_slice ''next'' text_elem m)\<rparr>,
       strs_ok [''skill'', ''title'', ''when_to_use''] m \<and> snd (get_bool ''metered'' m) \<and> okq \<and> oks \<and> okc \<and> oke
       \<and> (case c of None \<Rightarrow> True | Some k \<Rightarrow> snd (decode_meta_cost k)) \<and> snd (get_slice ''gotchas'' text_elem m)
       \<and> snd (get_slice ''next'' text_elem m)))"

definition decode_app :: "(string \<times> json) list \<Rightarrow> store_app \<times> bool" where
  "decode_app m =
     (let (ic, okic) = get_struct ''icon'' m; (icon, oki) = decode_icon ic; (pd, okp) = get_ptr ''product_demo'' m;
          texts = (\<lambda>n. fst (get_slice n text_elem m)) in
      (\<lparr>ma_id = str_of ''id'' m, ma_name = str_of ''name'' m, ma_tagline = str_of ''tagline'' m,
        ma_description = str_of ''description'' m, ma_summary = str_of ''summary'' m, ma_categories = texts ''categories'',
        ma_primary = str_of ''primary_category'' m, ma_keywords = texts ''keywords'', ma_version = str_of ''version'' m,
        ma_vendor = str_of ''vendor'' m, ma_vendor_url = str_of ''vendor_url'' m, ma_license = str_of ''license'' m,
        ma_source_url = str_of ''source_url'' m, ma_homepage = str_of ''homepage'' m,
        ma_methods = fst (get_slice ''methods'' (struct_elem decode_method) m),
        ma_changelog = fst (get_slice ''changelog'' (struct_elem decode_release) m), ma_grants = texts ''grants'',
        ma_limits = fst (get_slice ''limits'' (struct_elem decode_limit) m),
        ma_bundles = fst (get_slice ''bundles'' (struct_elem decode_meta_bundle) m),
        ma_installed = fst (get_int ''installed_bytes'' m), ma_depends = fst (get_slice ''depends'' (struct_elem decode_depend) m),
        ma_protection = str_of ''protection'' m, ma_featured = fst (get_bool ''featured'' m),
        ma_in_catalogue = fst (get_bool ''in_catalogue'' m), ma_icon = icon, ma_min_pilot = str_of ''min_pilot_version'' m,
        ma_runtimes = texts ''runtimes'', ma_published = str_of ''published_at'' m, ma_updated = str_of ''updated_at'' m,
        ma_demo = map_option (fst \<circ> decode_meta_demo) pd\<rparr>,
       strs_ok [''id'', ''name'', ''tagline'', ''description'', ''summary'', ''primary_category'', ''version'', ''vendor'', ''vendor_url'',
         ''license'', ''source_url'', ''homepage'', ''protection'', ''min_pilot_version'', ''published_at'', ''updated_at''] m
       \<and> list_all (\<lambda>n. snd (get_slice n text_elem m)) [''categories'', ''keywords'', ''grants'', ''runtimes'']
       \<and> snd (get_slice ''methods'' (struct_elem decode_method) m) \<and> snd (get_slice ''changelog'' (struct_elem decode_release) m)
       \<and> snd (get_slice ''limits'' (struct_elem decode_limit) m) \<and> snd (get_slice ''bundles'' (struct_elem decode_meta_bundle) m)
       \<and> snd (get_int ''installed_bytes'' m) \<and> snd (get_slice ''depends'' (struct_elem decode_depend) m)
       \<and> snd (get_bool ''featured'' m) \<and> snd (get_bool ''in_catalogue'' m) \<and> okic \<and> oki \<and> okp
       \<and> (case pd of None \<Rightarrow> True | Some k \<Rightarrow> snd (decode_meta_demo k))))"

definition decode_index :: "(string \<times> json) list \<Rightarrow> store_index \<times> bool" where
  "decode_index m =
     (\<lparr>si_source = str_of ''source'' m, si_categories = fst (get_list ''categories'' (struct_elem decode_category) m),
       si_featured = fst (get_slice ''featured_order'' text_elem m), si_order = fst (get_slice ''app_order'' text_elem m)\<rparr>,
      snd (get_int ''schema_version'' m) \<and> strs_ok [''source''] m \<and> snd (get_list ''categories'' (struct_elem decode_category) m)
      \<and> snd (get_slice ''featured_order'' text_elem m) \<and> snd (get_slice ''app_order'' text_elem m))"

definition read_struct :: "((string \<times> json) list \<Rightarrow> 'a \<times> bool) \<Rightarrow> string \<Rightarrow> 'a option" where
  "read_struct f body =
     (case Option.bind (raw_doc body) struct_members of
        None \<Rightarrow> None
      | Some m \<Rightarrow> (case f m of (a, okay) \<Rightarrow> if okay then Some a else None))"

section \<open>Checks\<close>

datatype index_err = IxRead | IxParse | IxNoCategory | IxNoId | IxNoName string | IxTwice string | IxHue string

datatype app_err =
    AeId | AeStem | AeName | AeTagline | AeSummary | AeDescription | AePrimary | AePrimaryUnknown | AePrimaryMissing | AeProtection
  | AeCategory string | AeIconMode | AeIconFile | AeIconMark | AeIconSet | AeIconImg | AeHue | AeMethod nat | AeLimit nat

datatype load_err =
    LIndex index_err | LApps | LRead string | LParse string | LApp string app_err | LTwice string string | LNone
  | LFeatured string | LOrder string

fun check_categories :: "string list \<Rightarrow> category list \<Rightarrow> index_err option" where
  "check_categories seen [] = None"
| "check_categories seen (c # cs) =
     (if ct_id c = [] then Some IxNoId
      else if ct_name c = [] then Some (IxNoName (ct_id c))
      else if ct_id c \<in> set seen then Some (IxTwice (ct_id c))
      else if ct_hue c < 0 \<or> 360 < ct_hue c then Some (IxHue (ct_id c))
      else check_categories (ct_id c # seen) cs)"

definition load_index :: "string option \<Rightarrow> index_err + store_index" where
  "load_index body =
     (case body of
        None \<Rightarrow> Inl IxRead
      | Some text \<Rightarrow>
          (case read_struct decode_index text of
             None \<Rightarrow> Inl IxParse
           | Some ix \<Rightarrow>
               if si_categories ix = [] then Inl IxNoCategory
               else (case check_categories [] (si_categories ix) of Some e \<Rightarrow> Inl e | None \<Rightarrow> Inr ix)))"

definition items :: "'a list option \<Rightarrow> 'a list" where
  "items x = (case x of None \<Rightarrow> [] | Some xs \<Rightarrow> xs)"

definition first_index :: "('a \<Rightarrow> bool) \<Rightarrow> 'a list \<Rightarrow> nat option" where
  "first_index p xs = (case filter (\<lambda>i. p (xs ! i)) [0..<length xs] of [] \<Rightarrow> None | i # _ \<Rightarrow> Some i)"

definition icon_err :: "icon \<Rightarrow> app_err option" where
  "icon_err ic =
     (if ic_mode ic \<notin> {''mask'', ''image''} then Some AeIconMode
      else if ic_mode ic = ''mask'' \<and> ic_file ic = [] then Some AeIconFile
      else if ic_mode ic = ''mask'' \<and> (case ic_mark ic of None \<Rightarrow> True | Some k \<Rightarrow> im_name k = []) then Some AeIconMark
      else if ic_mode ic = ''mask'' \<and> (case ic_mark ic of None \<Rightarrow> True | Some k \<Rightarrow> im_set k \<notin> {''simple-icons'', ''lucide''}) then Some AeIconSet
      else if ic_mode ic = ''image'' \<and> ic_img ic = [] then Some AeIconImg
      else if ic_hue ic < 0 \<or> 360 < ic_hue ic then Some AeHue
      else None)"

definition validate_app :: "string list \<Rightarrow> string \<Rightarrow> store_app \<Rightarrow> app_err option" where
  "validate_app cats stem a =
     (if ma_id a = [] then Some AeId
      else if ma_id a \<noteq> stem then Some AeStem
      else if ma_name a = [] then Some AeName
      else if ma_tagline a = [] then Some AeTagline
      else if ma_summary a \<noteq> [] then Some AeSummary
      else if ma_description a = [] then Some AeDescription
      else if ma_primary a = [] then Some AePrimary
      else if ma_primary a \<notin> set cats then Some AePrimaryUnknown
      else if ma_primary a \<notin> set (items (ma_categories a)) then Some AePrimaryMissing
      else if ma_protection a \<noteq> [] \<and> ma_protection a \<notin> {''guarded'', ''shareable''} then Some AeProtection
      else case find (\<lambda>c. c \<notin> set cats) (items (ma_categories a)) of
        Some c \<Rightarrow> Some (AeCategory c)
      | None \<Rightarrow>
          (case icon_err (ma_icon a) of
             Some e \<Rightarrow> Some e
           | None \<Rightarrow>
               (case first_index (\<lambda>m. mm_name m = []) (items (ma_methods a)) of
                  Some i \<Rightarrow> Some (AeMethod i)
                | None \<Rightarrow> map_option AeLimit (first_index (\<lambda>l. li_label l = []) (items (ma_limits a))))))"

section \<open>Derived fields\<close>

definition filled :: "'a list option \<Rightarrow> 'a list option" where
  "filled x = Some (items x)"

definition normal_demo :: "meta_demo \<Rightarrow> meta_demo" where
  "normal_demo d = d\<lparr>md_examples := filled (md_examples d), md_gotchas := filled (md_gotchas d), md_next := filled (md_next d),
     md_cost := map_option (\<lambda>c. c\<lparr>mc_operations := filled (mc_operations c)\<rparr>) (md_cost d)\<rparr>"

definition normalize :: "store_app \<Rightarrow> store_app" where
  "normalize a = a\<lparr>ma_categories := filled (ma_categories a), ma_keywords := filled (ma_keywords a), ma_grants := filled (ma_grants a),
     ma_runtimes := filled (ma_runtimes a), ma_methods := filled (ma_methods a),
     ma_changelog := Some (map (\<lambda>r. r\<lparr>re_notes := filled (re_notes r)\<rparr>) (items (ma_changelog a))),
     ma_limits := filled (ma_limits a), ma_bundles := filled (ma_bundles a), ma_depends := filled (ma_depends a),
     ma_demo := map_option normal_demo (ma_demo a)\<rparr>"

section \<open>Files\<close>

text \<open>path.Ext and the name without it.\<close>

definition path_ext :: "string \<Rightarrow> string" where
  "path_ext name = (let r = takeWhile (\<lambda>c. c \<noteq> CHR ''.'' \<and> c \<noteq> CHR ''/'') (rev name) in
     case drop (length r) (rev name) of c # _ \<Rightarrow> if c = CHR ''.'' then CHR ''.'' # rev r else [] | [] \<Rightarrow> [])"

definition path_stem :: "string \<Rightarrow> string" where
  "path_stem name = take (length name - length (path_ext name)) name"

record dir_entry =
  de_name :: string
  de_dir :: bool
  de_text :: "string option"

record data_dir =
  dd_index :: "string option"
  dd_apps :: "dir_entry list option"

definition load_app :: "string list \<Rightarrow> dir_entry \<Rightarrow> load_err + store_app" where
  "load_app cats e =
     (case de_text e of
        None \<Rightarrow> Inl (LRead (de_name e))
      | Some body \<Rightarrow>
          (case read_struct decode_app body of
             None \<Rightarrow> Inl (LParse (de_name e))
           | Some a \<Rightarrow>
               (case validate_app cats (path_stem (de_name e)) a of
                  Some x \<Rightarrow> Inl (LApp (de_name e) x)
                | None \<Rightarrow> Inr (normalize (a\<lparr>ma_summary := summarize (ma_description a) summary_limit\<rparr>)))))"

definition app_file :: "dir_entry \<Rightarrow> bool" where
  "app_file e \<longleftrightarrow> \<not> de_dir e \<and> equal_fold (path_ext (de_name e)) ''.json''"

fun load_apps :: "string list \<Rightarrow> (string \<times> string) list \<Rightarrow> dir_entry list \<Rightarrow> load_err + store_app list" where
  "load_apps cats seen [] = Inr []"
| "load_apps cats seen (e # es) =
     (if \<not> app_file e then load_apps cats seen es
      else case load_app cats e of
        Inl x \<Rightarrow> Inl x
      | Inr a \<Rightarrow>
          (case map_of seen (ma_id a) of
             Some prev \<Rightarrow> Inl (LTwice (de_name e) prev)
           | None \<Rightarrow>
               (case load_apps cats ((ma_id a, de_name e) # seen) es of Inl x \<Rightarrow> Inl x | Inr as \<Rightarrow> Inr (a # as))))"

text \<open>The curated order first, the other apps after it by id. The code's comparison is the order of these keys;
  an id listed twice has its last place.\<close>

definition order_rank :: "string list \<Rightarrow> string \<Rightarrow> nat option" where
  "order_rank order i = map_of (rev (zip order [0..<length order])) i"

definition shelf_key :: "string list \<Rightarrow> string \<Rightarrow> nat \<times> nat \<times> string" where
  "shelf_key order i = (case order_rank order i of Some r \<Rightarrow> (0, r, []) | None \<Rightarrow> (1, 0, i))"

definition load_store :: "data_dir \<Rightarrow> load_err + store_document" where
  "load_store d =
     (case load_index (dd_index d) of
        Inl e \<Rightarrow> Inl (LIndex e)
      | Inr ix \<Rightarrow>
          (case dd_apps d of
             None \<Rightarrow> Inl LApps
           | Some es \<Rightarrow>
               (case load_apps (map ct_id (si_categories ix)) [] es of
                  Inl e \<Rightarrow> Inl e
                | Inr as \<Rightarrow>
                    if as = [] then Inl LNone
                    else let apps = sort_key (shelf_key (items (si_order ix)) \<circ> ma_id) as; known = map ma_id as in
                      case find (\<lambda>i. i \<notin> set known) (items (si_featured ix)) of
                        Some i \<Rightarrow> Inl (LFeatured i)
                      | None \<Rightarrow>
                          (case find (\<lambda>i. i \<notin> set known) (items (si_order ix)) of
                             Some i \<Rightarrow> Inl (LOrder i)
                           | None \<Rightarrow> Inr \<lparr>sd_source = si_source ix, sd_categories = si_categories ix, sd_featured = filled (si_featured ix),
                               sd_order = filled (si_order ix), sd_apps = apps\<rparr>))))"

end
