(* ===== verification/Store_Sound.thy ===== *)
theory Store_Sound
  imports Store_Load
begin

text \<open>
  What a loaded app store document promises its consumers: its shape, its order, and the length of
  the summaries.
\<close>

section \<open>Summaries\<close>

definition scalar :: "nat \<Rightarrow> bool" where
  "scalar u \<longleftrightarrow> u < 1114112 \<and> \<not> (55296 \<le> u \<and> u < 57344)"

lemma cont_byte [simp]: "byte (char_of (128 + n mod 64)) = 128 + n mod 64" "utf8_cont (char_of (128 + n mod 64))"
proof -
  have "(128 + n mod 64) div 64 = 2" using mod_less_divisor[of 64 n] by (intro div_nat_eqI) simp_all
  moreover have "128 + n mod 64 < 256" using mod_less_divisor[of 64 n] by linarith
  ultimately show "byte (char_of (128 + n mod 64)) = 128 + n mod 64" "utf8_cont (char_of (128 + n mod 64))"
    by (simp_all add: utf8_cont_def)
qed

lemma base64_digits:
  fixes u :: nat
  shows "u = u div 64 * 64 + u mod 64" "u div 64 = u div 4096 * 64 + u div 64 mod 64" "u div 4096 = u div 262144 * 64 + u div 4096 mod 64"
    and "u mod 64 < 64" "u div 64 mod 64 < 64" "u div 4096 mod 64 < 64"
proof -
  have "u div 4096 = u div 64 div 64" "u div 262144 = u div 4096 div 64" by (simp_all add: div_mult2_eq[symmetric])
  then show "u div 64 = u div 4096 * 64 + u div 64 mod 64" "u div 4096 = u div 262144 * 64 + u div 4096 mod 64"
    by (metis div_mult_mod_eq)+
qed simp_all

lemma runes_encode: "scalar u \<Longrightarrow> runes (utf8_encode u @ s) = u # runes s"
proof -
  assume u: "scalar u"
  note digits = base64_digits[of u]
  consider (one) "u < 128" | (two) "128 \<le> u" "u < 2048" | (three) "2048 \<le> u" "u < 65536" | (four) "65536 \<le> u" by linarith
  then show ?thesis
  proof cases
    case one
    then show ?thesis by (simp add: utf8_encode_def decode_rune_def Let_def)
  next
    case two
    then have "2 \<le> u div 64" "u div 64 < 32" using digits by linarith+
    then show ?thesis using two digits(1) by (simp add: utf8_encode_def decode_rune_def Let_def div_less_iff_less_mult)
  next
    case three
    then have a: "u div 4096 < 16" using digits by linarith
    have b: "32 \<le> u div 64 mod 64" if "u div 4096 = 0" using that three digits by linarith
    have c: "u div 64 mod 64 < 32" if "u div 4096 = 13"
    proof -
      have "u < 57344" using that digits by linarith
      then have "u < 55296" using u by (simp add: scalar_def)
      then show ?thesis using that digits by linarith
    qed
    have "u div 4096 * 4096 + u div 64 mod 64 * 64 + u mod 64 = u" using digits by linarith
    then show ?thesis using three a b c by (simp add: utf8_encode_def decode_rune_def Let_def)
  next
    case four
    have lt: "u < 1114112" using u by (simp add: scalar_def)
    then have a: "u div 262144 < 5" using digits by linarith
    have b: "16 \<le> u div 4096 mod 64" if "u div 262144 = 0" using that four digits by linarith
    have c: "u div 4096 mod 64 < 16" if "u div 262144 = 4" using that lt digits by linarith
    have "u div 262144 * 262144 + u div 4096 mod 64 * 4096 + u div 64 mod 64 * 64 + u mod 64 = u" using digits by linarith
    then show ?thesis using four a b c by (simp add: utf8_encode_def decode_rune_def Let_def)
  qed
qed

lemma runes_of_runes: "list_all scalar us \<Longrightarrow> runes (of_runes us) = us"
  by (induction us) (simp_all add: of_runes_def runes_encode)

lemma decode_rune_scalar: "scalar (fst (decode_rune c s))"
proof -
  have two: "scalar ((b - 192) * 64 + (byte d - 128))" if "194 \<le> b" "b < 224" "utf8_cont d" for b d
    using that cont_bounds[OF that(3)] unfolding scalar_def by linarith
  have three: "scalar ((b - 224) * 4096 + (byte d - 128) * 64 + (byte e - 128))"
    if "224 \<le> b" "b < 240" "utf8_cont d" "utf8_cont e" "b = 237 \<longrightarrow> byte d < 160" for b d e
  proof -
    have "b < 237 \<or> b = 237 \<or> 237 < b" by linarith
    then show ?thesis using that cont_bounds[of d] cont_bounds[of e] unfolding scalar_def by (elim disjE) (simp_all, linarith+)
  qed
  have four: "scalar ((b - 240) * 262144 + (byte d - 128) * 4096 + (byte e - 128) * 64 + (byte f - 128))"
    if "240 \<le> b" "b < 245" "utf8_cont d" "utf8_cont e" "utf8_cont f" "b = 240 \<longrightarrow> 144 \<le> byte d" "b = 244 \<longrightarrow> byte d < 144" for b d e f
  proof -
    have "b = 240 \<or> (240 < b \<and> b < 244) \<or> b = 244" using that by linarith
    then show ?thesis using that cont_bounds[of d] cont_bounds[of e] cont_bounds[of f] unfolding scalar_def
      by (elim disjE) (simp_all, linarith+)
  qed
  have "scalar rune_error" "\<And>n. n < 128 \<Longrightarrow> scalar n" by (simp_all add: rune_error_def scalar_def)
  then show ?thesis using two three four by (simp add: decode_rune_def Let_def split: list.split)
qed

lemma runes_scalar: "list_all scalar (runes s)"
proof (induction s rule: runes.induct)
  case (2 c s)
  then show ?case using decode_rune_scalar[of c s] by (cases "decode_rune c s") simp
qed simp

text \<open>The words of a cut, without the ellipsis.\<close>

definition cut_word :: "nat \<Rightarrow> nat list \<Rightarrow> nat list" where
  "cut_word limit us = (let cut = take (limit - 1) us in case last_blank cut of None \<Rightarrow> cut | Some i \<Rightarrow> if 0 < i then take i cut else cut)"

lemma cut_word_length: "length (cut_word limit us) \<le> limit - 1"
  by (auto simp: cut_word_def Let_def split: option.split)

lemma cut_word_scalar: "list_all scalar us \<Longrightarrow> list_all scalar (cut_word limit us)"
  by (auto simp: cut_word_def Let_def list_all_iff dest!: in_set_takeD split: option.split)

lemma cut_runes_word:
  "\<exists>p. cut_runes limit us = rev (dropWhile p (rev (cut_word limit us))) @ [ellipsis_rune]"
  unfolding cut_runes_def cut_word_def Let_def by blast

lemma cut_runes_length: assumes "0 < limit" shows "length (cut_runes limit us) \<le> limit"
proof -
  obtain p where p: "cut_runes limit us = rev (dropWhile p (rev (cut_word limit us))) @ [ellipsis_rune]" using cut_runes_word by blast
  have "length (dropWhile p (rev (cut_word limit us))) \<le> limit - 1"
    using length_dropWhile_le[of p "rev (cut_word limit us)"] cut_word_length[of limit us] by simp
  then show ?thesis using assms p by simp
qed

lemma cut_runes_scalar: assumes "list_all scalar us" shows "list_all scalar (cut_runes limit us)"
proof -
  obtain p where p: "cut_runes limit us = rev (dropWhile p (rev (cut_word limit us))) @ [ellipsis_rune]" using cut_runes_word by blast
  have "scalar ellipsis_rune" by (simp add: scalar_def ellipsis_rune_def)
  then show ?thesis using cut_word_scalar[OF assms, of limit] by (auto simp: p list_all_iff dest: set_dropWhileD)
qed

lemma summary_length: "0 < limit \<Longrightarrow> length (runes (summarize md limit)) \<le> limit"
  using cut_runes_length cut_runes_scalar runes_scalar by (simp add: summarize_def Let_def runes_of_runes)

section \<open>The order of the apps\<close>

lemma map_of_rev: "distinct (map fst xs) \<Longrightarrow> map_of (rev xs) = map_of xs"
  by (rule map_of_inject_set[THEN iffD2]) (simp_all add: rev_map[symmetric])

lemma order_rank_Some: "distinct order \<Longrightarrow> n < length order \<Longrightarrow> order_rank order (order ! n) = Some n"
  by (simp add: order_rank_def map_of_rev map_of_zip_nth)

lemma order_rank_None: "i \<notin> set order \<Longrightarrow> order_rank order i = None"
  by (auto simp: order_rank_def map_of_eq_None_iff dest: set_zip_leftD)

lemma order_key_listed: "distinct order \<Longrightarrow> n < length order \<Longrightarrow> shelf_key order (order ! n) = (0, n, [])"
  by (simp add: shelf_key_def order_rank_Some)

lemma order_key_other: "i \<notin> set order \<Longrightarrow> shelf_key order i = (1, 0, i)"
  by (simp add: shelf_key_def order_rank_None)

lemma order_key_inj: "distinct order \<Longrightarrow> inj (shelf_key order)"
proof (rule injI)
  fix i j
  assume d: "distinct order" and eq: "shelf_key order i = shelf_key order j"
  show "i = j"
  proof (cases "i \<in> set order \<and> j \<in> set order")
    case True
    then obtain m n where "i = order ! m" "m < length order" "j = order ! n" "n < length order" by (auto simp: in_set_conv_nth)
    then show ?thesis using eq order_key_listed[OF d] by simp
  next
    case False
    have "fst (shelf_key order k) = (if k \<in> set order then 0 else 1)" for k
      using order_key_listed[OF d] order_key_other[of k order] by (auto simp: in_set_conv_nth)
    then show ?thesis using False eq order_key_other by (metis prod.inject zero_neq_one)
  qed
qed

lemma curated_keys_sorted:
  assumes "distinct order" "sorted rest" "set rest \<inter> set order = {}"
  shows "sorted (map (shelf_key order) (order @ rest))"
proof -
  have listed: "map (shelf_key order) order = map (\<lambda>n. (0, n, [])) [0..<length order]"
    using order_key_listed[OF assms(1)] by (intro nth_equalityI) simp_all
  have others: "map (shelf_key order) rest = map (\<lambda>i. (1, 0, i)) rest"
    using assms(3) order_key_other by (intro map_cong) auto
  have "sorted (map (\<lambda>i. (1, 0, i)) rest :: (nat \<times> nat \<times> string) list)"
    using assms(2) by (induction rest) (auto simp: less_eq_prod_def)
  moreover have "sorted (map (\<lambda>n. (0, n, [])) [0..<k] :: (nat \<times> nat \<times> string) list)" for k
    by (induction k) (auto simp: sorted_wrt_append less_eq_prod_def)
  ultimately show ?thesis unfolding map_append listed others sorted_append by (auto simp: less_eq_prod_def)
qed

lemma curated_order:
  assumes "distinct order" "distinct ids" "set order \<subseteq> set ids" "sorted (map (shelf_key order) ids)"
  shows "ids = order @ sort (filter (\<lambda>i. i \<notin> set order) ids)"
proof (rule map_sorted_distinct_set_unique[where f = "shelf_key order"])
  let ?rest = "sort (filter (\<lambda>i. i \<notin> set order) ids)"
  show "inj_on (shelf_key order) (set ids \<union> set (order @ ?rest))" using order_key_inj[OF assms(1)] by (rule inj_on_subset) simp
  show "sorted (map (shelf_key order) (order @ ?rest))" using assms(1) by (intro curated_keys_sorted) auto
  have "inj_on (shelf_key order) S" for S using order_key_inj[OF assms(1)] by (rule inj_on_subset) simp
  then show "distinct (map (shelf_key order) ids)" "distinct (map (shelf_key order) (order @ ?rest))"
    using assms(1,2) by (auto simp only: distinct_map distinct_append distinct_sort distinct_filter set_sort set_filter)
  show "set ids = set (order @ ?rest)" using assms(3) by auto
qed (rule assms(4))

section \<open>A loaded document\<close>

definition icon_sound :: "icon \<Rightarrow> bool" where
  "icon_sound ic \<longleftrightarrow> 0 \<le> ic_hue ic \<and> ic_hue ic \<le> 360 \<and>
     (ic_mode ic = ''image'' \<and> ic_img ic \<noteq> [] \<or>
      ic_mode ic = ''mask'' \<and> ic_file ic \<noteq> [] \<and>
        (\<exists>k. ic_mark ic = Some k \<and> im_name k \<noteq> [] \<and> im_set k \<in> {''simple-icons'', ''lucide''}))"

definition app_sound :: "string list \<Rightarrow> store_app \<Rightarrow> bool" where
  "app_sound cats a \<longleftrightarrow> ma_id a \<noteq> [] \<and> ma_name a \<noteq> [] \<and> ma_tagline a \<noteq> [] \<and> ma_description a \<noteq> [] \<and>
     ma_summary a = summarize (ma_description a) summary_limit \<and> length (runes (ma_summary a)) \<le> summary_limit \<and>
     (\<exists>cs. ma_categories a = Some cs \<and> ma_primary a \<in> set cs \<and> set cs \<subseteq> set cats) \<and>
     (ma_protection a = [] \<or> ma_protection a \<in> {''guarded'', ''shareable''}) \<and> icon_sound (ma_icon a) \<and>
     (\<exists>ms. ma_methods a = Some ms \<and> (\<forall>m \<in> set ms. mm_name m \<noteq> [])) \<and>
     (\<exists>ls. ma_limits a = Some ls \<and> (\<forall>l \<in> set ls. li_label l \<noteq> [])) \<and>
     None \<notin> set [ma_keywords a, ma_grants a, ma_runtimes a]"

definition document_sound :: "store_document \<Rightarrow> bool" where
  "document_sound d \<longleftrightarrow>
     (let cats = map ct_id (sd_categories d); ids = map ma_id (sd_apps d) in
      cats \<noteq> [] \<and> distinct cats \<and> [] \<notin> set cats \<and> (\<forall>c \<in> set (sd_categories d). ct_name c \<noteq> [] \<and> 0 \<le> ct_hue c \<and> ct_hue c \<le> 360) \<and>
      ids \<noteq> [] \<and> distinct ids \<and> set (items (sd_featured d)) \<subseteq> set ids \<and> set (items (sd_order d)) \<subseteq> set ids \<and>
      list_all (app_sound cats) (sd_apps d))"

lemma check_categories_None:
  "check_categories seen cs = None \<longleftrightarrow>
     distinct (map ct_id cs) \<and> [] \<notin> set (map ct_id cs) \<and> set (map ct_id cs) \<inter> set seen = {} \<and>
     (\<forall>c \<in> set cs. ct_name c \<noteq> [] \<and> 0 \<le> ct_hue c \<and> ct_hue c \<le> 360)"
  by (induction seen cs rule: check_categories.induct) auto

lemma items_filled [simp]: "items (filled x) = items x"
  by (simp add: filled_def items_def)

lemma first_index_None: "first_index p xs = None \<longleftrightarrow> (\<forall>x \<in> set xs. \<not> p x)"
proof -
  have "first_index p xs = None \<longleftrightarrow> filter (\<lambda>i. p (xs ! i)) [0..<length xs] = []" by (simp add: first_index_def split: list.split)
  also have "\<dots> \<longleftrightarrow> (\<forall>i < length xs. \<not> p (xs ! i))" by (auto simp: filter_empty_conv)
  also have "\<dots> \<longleftrightarrow> (\<forall>x \<in> set xs. \<not> p x)" by (simp add: all_set_conv_all_nth)
  finally show ?thesis .
qed

lemma icon_err_None: "icon_err ic = None \<longleftrightarrow> icon_sound ic"
  by (auto simp: icon_err_def icon_sound_def split: option.splits)

lemma normalize_fields [simp]:
  "ma_id (normalize a) = ma_id a" "ma_name (normalize a) = ma_name a" "ma_tagline (normalize a) = ma_tagline a"
  "ma_description (normalize a) = ma_description a" "ma_summary (normalize a) = ma_summary a" "ma_primary (normalize a) = ma_primary a"
  "ma_protection (normalize a) = ma_protection a" "ma_icon (normalize a) = ma_icon a" "ma_featured (normalize a) = ma_featured a"
  by (simp_all add: normalize_def)

lemma validated_sound:
  assumes "validate_app cats stem a = None"
  shows "app_sound cats (normalize (a\<lparr>ma_summary := summarize (ma_description a) summary_limit\<rparr>))"
proof -
  from assms have "find (\<lambda>c. c \<notin> set cats) (items (ma_categories a)) = None" "icon_err (ma_icon a) = None"
    "first_index (\<lambda>m. mm_name m = []) (items (ma_methods a)) = None" "first_index (\<lambda>l. li_label l = []) (items (ma_limits a)) = None"
    "ma_id a \<noteq> []" "ma_name a \<noteq> []" "ma_tagline a \<noteq> []" "ma_description a \<noteq> []" "ma_primary a \<in> set (items (ma_categories a))"
    "ma_protection a \<noteq> [] \<longrightarrow> ma_protection a \<in> {''guarded'', ''shareable''}"
    by (auto simp: validate_app_def split: if_splits option.splits)
  moreover have "0 < summary_limit" by (simp add: summary_limit_def)
  ultimately show ?thesis
    by (auto simp: app_sound_def icon_err_None first_index_None find_None_iff summary_length)
      (auto simp: normalize_def filled_def)
qed

lemma load_app_sound: "load_app cats e = Inr a \<Longrightarrow> app_sound cats a \<and> ma_id a = path_stem (de_name e)"
  using validated_sound by (auto simp: load_app_def validate_app_def split: option.splits if_splits)

lemma load_apps_sound:
  "load_apps cats seen es = Inr as \<Longrightarrow>
     list_all (app_sound cats) as \<and> distinct (map ma_id as) \<and> set (map ma_id as) \<inter> fst ` set seen = {}"
proof (induction cats seen es arbitrary: as rule: load_apps.induct)
  case (2 cats seen e es)
  show ?case
  proof (cases "app_file e")
    case True
    with "2.prems" obtain a bs where a: "load_app cats e = Inr a" "map_of seen (ma_id a) = None"
      "load_apps cats ((ma_id a, de_name e) # seen) es = Inr bs" "as = a # bs"
      by (auto split: sum.splits option.splits)
    from "2.IH"(2)[OF _ a(1,2,3)] True have "list_all (app_sound cats) bs \<and> distinct (map ma_id bs) \<and>
        set (map ma_id bs) \<inter> insert (ma_id a) (fst ` set seen) = {}"
      by simp
    moreover have "ma_id a \<notin> fst ` set seen" using a(2) by (simp add: map_of_eq_None_iff)
    ultimately show ?thesis using True load_app_sound[OF a(1)] a(4) by simp
  qed (use "2.IH"(1) "2.prems" in simp)
qed simp

lemma load_store_parts:
  assumes "load_store d = Inr doc"
  obtains ix es as where "load_index (dd_index d) = Inr ix" "dd_apps d = Some es" "load_apps (map ct_id (si_categories ix)) [] es = Inr as"
    "as \<noteq> []" "set (items (si_featured ix)) \<subseteq> set (map ma_id as)" "set (items (si_order ix)) \<subseteq> set (map ma_id as)"
    "doc = \<lparr>sd_source = si_source ix, sd_categories = si_categories ix, sd_featured = filled (si_featured ix),
      sd_order = filled (si_order ix), sd_apps = sort_key (shelf_key (items (si_order ix)) \<circ> ma_id) as\<rparr>"
proof -
  from assms obtain ix es as where parts: "load_index (dd_index d) = Inr ix" "dd_apps d = Some es"
    "load_apps (map ct_id (si_categories ix)) [] es = Inr as"
    by (auto simp: load_store_def split: sum.splits option.splits)
  with assms have rest: "as \<noteq> []" "find (\<lambda>i. i \<notin> set (map ma_id as)) (items (si_featured ix)) = None"
    "find (\<lambda>i. i \<notin> set (map ma_id as)) (items (si_order ix)) = None"
    by (auto simp: load_store_def Let_def split: option.splits if_splits)
  have "doc = \<lparr>sd_source = si_source ix, sd_categories = si_categories ix, sd_featured = filled (si_featured ix),
      sd_order = filled (si_order ix), sd_apps = sort_key (shelf_key (items (si_order ix)) \<circ> ma_id) as\<rparr>"
    using assms parts rest by (simp add: load_store_def Let_def)
  moreover have "set (items (si_featured ix)) \<subseteq> set (map ma_id as)" "set (items (si_order ix)) \<subseteq> set (map ma_id as)"
    using rest(2,3) by (auto simp: find_None_iff)
  ultimately show thesis using that parts rest(1) by blast
qed

lemma load_store_sound:
  assumes "load_store d = Inr doc"
  shows "document_sound doc"
proof (rule load_store_parts[OF assms])
  fix ix es as
  assume ix: "load_index (dd_index d) = Inr ix" and as: "load_apps (map ct_id (si_categories ix)) [] es = Inr as" "as \<noteq> []"
    and known: "set (items (si_featured ix)) \<subseteq> set (map ma_id as)" "set (items (si_order ix)) \<subseteq> set (map ma_id as)"
    and doc: "doc = \<lparr>sd_source = si_source ix, sd_categories = si_categories ix, sd_featured = filled (si_featured ix),
      sd_order = filled (si_order ix), sd_apps = sort_key (shelf_key (items (si_order ix)) \<circ> ma_id) as\<rparr>"
  have cats: "si_categories ix \<noteq> []" "check_categories [] (si_categories ix) = None"
    using ix by (auto simp: load_index_def split: option.splits if_splits)
  have apps: "list_all (app_sound (map ct_id (si_categories ix))) as" "distinct (map ma_id as)"
    using load_apps_sound[OF as(1)] by simp_all
  have "distinct (map ma_id (sd_apps doc))" using apps(2) by (simp add: doc distinct_map)
  moreover have "sd_apps doc \<noteq> []" using as(2) length_sort[of "shelf_key (items (si_order ix)) \<circ> ma_id" as] by (auto simp: doc simp del: length_sort)
  ultimately show ?thesis
    using cats apps(1) as(2) known by (simp add: document_sound_def doc check_categories_None list_all_iff Let_def)
qed


text \<open>Observation: The apps of a loaded document come in the curated order first, each of its ids once, and after it
  the apps it does not list, by id: no app is dropped because nobody listed it.\<close>

theorem loaded_order:
  assumes "load_store d = Inr doc" "distinct (items (sd_order doc))"
  shows "map ma_id (sd_apps doc) = items (sd_order doc) @ sort (filter (\<lambda>i. i \<notin> set (items (sd_order doc))) (map ma_id (sd_apps doc)))"
proof (rule curated_order[OF assms(2)])
  show "distinct (map ma_id (sd_apps doc))" "set (items (sd_order doc)) \<subseteq> set (map ma_id (sd_apps doc))"
    using load_store_sound[OF assms(1)] by (simp_all add: document_sound_def Let_def)
  show "sorted (map (shelf_key (items (sd_order doc))) (map ma_id (sd_apps doc)))"
    by (rule load_store_parts[OF assms(1)]) (simp add: sorted_sort_key del: map_map add: map_map[of "shelf_key _" ma_id])
qed

text \<open>Two apps, one of them listed.\<close>

definition quoted :: "(string \<times> string) list \<Rightarrow> string" where
  "quoted kvs = join_on CHR '','' (map (\<lambda>(k, v). json_quote k @ CHR '':'' # v) kvs)"

definition app_text :: "string \<Rightarrow> string" where
  "app_text i = ''{'' @ quoted [(''id'', json_quote i), (''name'', json_quote ''N''), (''tagline'', json_quote ''T''),
     (''description'', json_quote ''A **bold** app.''), (''primary_category'', json_quote ''data''), (''categories'', ''['' @ json_quote ''data'' @ '']''),
     (''icon'', ''{'' @ quoted [(''mode'', json_quote ''image''), (''img'', json_quote ''i.png'')] @ ''}'')] @ ''}''"

definition sample_file :: "string \<Rightarrow> dir_entry" where
  "sample_file i = \<lparr>de_name = i @ ''.json'', de_dir = False, de_text = Some (app_text i)\<rparr>"

definition sample_index :: string where
  "sample_index = ''{'' @ quoted [(''categories'', ''[{'' @ quoted [(''id'', json_quote ''data''), (''name'', json_quote ''Data'')] @ ''}]''),
     (''app_order'', ''['' @ json_quote ''z'' @ '']'')] @ ''}''"

definition sample_dir :: data_dir where
  "sample_dir = \<lparr>dd_index = Some sample_index, dd_apps = Some [sample_file ''b'', sample_file ''z'']\<rparr>"

text \<open>Names of other lengths differ: this spares the evaluation most comparisons.\<close>

lemma same_field_code [code]: "same_field k n = (if length k = length n then (if k = n then True else to_lower k = to_lower n) else False)"
  by (auto simp: same_field_def to_lower_def dest: map_eq_imp_length_eq)

lemma sample_index_loads:
  "case load_index (Some sample_index) of
     Inr ix \<Rightarrow> map ct_id (si_categories ix) = [''data''] \<and> si_order ix = Some [''z''] \<and> si_featured ix = None | Inl _ \<Rightarrow> False"
  by code_simp

definition result_of :: "'e + 'a \<Rightarrow> 'a option" where
  "result_of r = (case r of Inl _ \<Rightarrow> None | Inr x \<Rightarrow> Some x)"

lemma result_of_Some: "result_of r = Some x \<longleftrightarrow> r = Inr x"
  by (cases r) (simp_all add: result_of_def)

lemma sample_file_b: "map_option ma_id (result_of (load_app [''data''] (sample_file ''b''))) = Some ''b''" by code_simp
lemma sample_file_z: "map_option ma_id (result_of (load_app [''data''] (sample_file ''z''))) = Some ''z''" by code_simp

lemma sample_loads: "\<exists>doc. load_store sample_dir = Inr doc \<and> items (sd_order doc) = [''z'']"
proof -
  obtain ix where ix: "load_index (Some sample_index) = Inr ix" "map ct_id (si_categories ix) = [''data'']" "si_order ix = Some [''z'']" "si_featured ix = None"
    using sample_index_loads by (auto split: sum.splits)
  obtain b where b: "load_app [''data''] (sample_file ''b'') = Inr b" "ma_id b = ''b''" using sample_file_b by (auto simp: result_of_Some)
  obtain z where z: "load_app [''data''] (sample_file ''z'') = Inr z" "ma_id z = ''z''" using sample_file_z by (auto simp: result_of_Some)
  have "app_file (sample_file ''b'')" "app_file (sample_file ''z'')" by code_simp+
  then have "load_apps [''data''] [] [sample_file ''b'', sample_file ''z''] = Inr [b, z]" using b z by simp
  then show ?thesis using ix b(2) z(2) by (simp add: load_store_def sample_dir_def items_def filled_def)
qed


theorem loaded_order_witness:
  "\<exists>doc. load_store sample_dir = Inr doc \<and>
     map ma_id (sd_apps doc) = [''z''] @ sort (filter (\<lambda>i. i \<notin> {''z''}) (map ma_id (sd_apps doc)))"
proof -
  obtain doc where doc: "load_store sample_dir = Inr doc" "items (sd_order doc) = [''z'']"
    using sample_loads by blast
  have "distinct (items (sd_order doc))" using doc(2) by simp
  from loaded_order[OF doc(1) this] doc show ?thesis by simp
qed

end
