(* ===== verification/Store_Api.thy ===== *)
theory Store_Api
  imports Store_Sound
begin

text \<open>
  The read-only API over a loaded app store document (internal/appstoremeta/server.go). The bodies are
  values of what they hold; \<open>digest\<close> is the SHA-256 sum of a body's JSON text. A request's path is
  clean, its query is the list of its pairs.
\<close>

section \<open>Requests and responses\<close>

record meta_request =
  mq_method :: string
  mq_path :: string
  mq_query :: "(string \<times> string) list"
  mq_match :: string
  mq_accept :: string

datatype meta_body =
    BDocument | BCategories | BHealth nat nat | BApp store_app | BList "store_app list" | BError string

record meta_response =
  mr_status :: int
  mr_tag :: "string option"
  mr_gzip :: bool
  mr_body :: "meta_body option"

definition query_get :: "string \<Rightarrow> (string \<times> string) list \<Rightarrow> string" where
  "query_get k q = (case map_of q k of None \<Rightarrow> [] | Some v \<Rightarrow> v)"

definition body_tag :: "(meta_body \<Rightarrow> string) \<Rightarrow> meta_body \<Rightarrow> string" where
  "body_tag digest b = CHR 0x22 # hex_encode (take 16 (digest b)) @ [CHR 0x22]"

section \<open>Writing a response\<close>

definition accepts_gzip :: "string \<Rightarrow> bool" where
  "accepts_gzip header =
     list_ex (\<lambda>e. equal_fold (trim_space (takeWhile (\<lambda>c. c \<noteq> CHR '';'') e)) ''gzip'') (split_on CHR '','' header)"

definition etag_matches :: "string \<Rightarrow> string \<Rightarrow> bool" where
  "etag_matches header tag \<longleftrightarrow>
     trim_space header = ''*'' \<or> list_ex (\<lambda>c. trim_prefix ''W/'' (trim_space c) = tag) (split_on CHR '','' header)"

text \<open>The compressor does not fail on memory.\<close>

definition write_body :: "(meta_body \<Rightarrow> string) \<Rightarrow> meta_request \<Rightarrow> meta_body \<Rightarrow> meta_response" where
  "write_body digest q b =
     (let tag = body_tag digest b in
      if mq_match q \<noteq> [] \<and> etag_matches (mq_match q) tag then \<lparr>mr_status = 304, mr_tag = Some tag, mr_gzip = False, mr_body = None\<rparr>
      else if mq_method q = ''HEAD'' then \<lparr>mr_status = 200, mr_tag = Some tag, mr_gzip = False, mr_body = None\<rparr>
      else \<lparr>mr_status = 200, mr_tag = Some tag, mr_gzip = accepts_gzip (mq_accept q), mr_body = Some b\<rparr>)"

definition write_error :: "int \<Rightarrow> string \<Rightarrow> meta_response" where
  "write_error code e = \<lparr>mr_status = code, mr_tag = None, mr_gzip = False, mr_body = Some (BError e)\<rparr>"

section \<open>Handlers\<close>

definition matches_search :: "string \<Rightarrow> store_app \<Rightarrow> bool" where
  "matches_search needle a \<longleftrightarrow>
     sublist needle (to_lower (join_on CHR '' '' ([ma_id a, ma_name a, ma_tagline a, ma_summary a, ma_vendor a]
       @ items (ma_keywords a) @ items (ma_categories a))))"

definition query_category :: "meta_request \<Rightarrow> string" where
  "query_category q = trim_space (query_get ''category'' (mq_query q))"

definition matching_apps :: "store_document \<Rightarrow> meta_request \<Rightarrow> store_app list" where
  "matching_apps d q =
     (let cat = query_category q; search = to_lower (trim_space (query_get ''q'' (mq_query q)));
          only = (query_get ''featured'' (mq_query q) = ''true'')
      in filter (\<lambda>a. \<not> (cat \<noteq> [] \<and> cat \<notin> set (items (ma_categories a))) \<and> \<not> (only \<and> \<not> ma_featured a)
           \<and> \<not> (search \<noteq> [] \<and> \<not> matches_search search a)) (sd_apps d))"

definition list_apps :: "(meta_body \<Rightarrow> string) \<Rightarrow> store_document \<Rightarrow> meta_request \<Rightarrow> meta_response" where
  "list_apps digest d q =
     (if query_category q \<noteq> [] \<and> query_category q \<notin> set (map ct_id (sd_categories d)) then write_error 400 ''unknown_category''
      else write_body digest q (BList (matching_apps d q)))"

definition trim_chr :: "char \<Rightarrow> string \<Rightarrow> string" where
  "trim_chr c s = rev (dropWhile (\<lambda>x. x = c) (rev (dropWhile (\<lambda>x. x = c) s)))"

definition apps_path :: string where "apps_path = ''/v1/appstore/apps/''"

definition app_by_id :: "(meta_body \<Rightarrow> string) \<Rightarrow> store_document \<Rightarrow> meta_request \<Rightarrow> meta_response" where
  "app_by_id digest d q =
     (let i = trim_chr CHR ''/'' (trim_prefix apps_path (mq_path q)) in
      case find (\<lambda>a. ma_id a = i) (rev (sd_apps d)) of
        None \<Rightarrow> write_error 404 ''app_not_found''
      | Some a \<Rightarrow> write_body digest q (BApp a))"

definition serve_meta :: "(meta_body \<Rightarrow> string) \<Rightarrow> store_document \<Rightarrow> meta_request \<Rightarrow> meta_response" where
  "serve_meta digest d q =
     (if mq_method q = ''OPTIONS'' then \<lparr>mr_status = 204, mr_tag = None, mr_gzip = False, mr_body = None\<rparr>
      else if mq_method q \<noteq> ''GET'' \<and> mq_method q \<noteq> ''HEAD'' then write_error 405 ''method_not_allowed''
      else if mq_path q = ''/v1/appstore/metadata'' then write_body digest q BDocument
      else if mq_path q = ''/v1/appstore/categories'' then write_body digest q BCategories
      else if mq_path q = ''/healthz'' then write_body digest q (BHealth (length (sd_apps d)) (length (sd_categories d)))
      else if mq_path q = ''/v1/appstore/apps'' then list_apps digest d q
      else if has_prefix apps_path (mq_path q) then app_by_id digest d q
      else write_error 404 [])"

section \<open>Revalidation\<close>

lemma hex_lower_plain: "n < 16 \<Longrightarrow> \<not> is_space (hex_lower n) \<and> hex_lower n \<noteq> CHR '',''"
proof -
  have "list_all (\<lambda>n. \<not> is_space (hex_lower n) \<and> hex_lower n \<noteq> CHR '','') [0..<16]" by code_simp
  then show "n < 16 \<Longrightarrow> \<not> is_space (hex_lower n) \<and> hex_lower n \<noteq> CHR '',''" by (simp add: list_all_iff)
qed

lemma hex_encode_plain: "y \<in> set (hex_encode s) \<Longrightarrow> \<not> is_space y \<and> y \<noteq> CHR '',''"
proof -
  have lt: "byte c div 16 < 16" "byte c mod 16 < 16" for c using byte_lt[of c] by (simp_all add: div_less_iff_less_mult)
  assume "y \<in> set (hex_encode s)"
  then obtain c where "y = hex_lower (byte c div 16) \<or> y = hex_lower (byte c mod 16)" by (auto simp: hex_encode_def)
  then show ?thesis using hex_lower_plain[OF lt(1)[of c]] hex_lower_plain[OF lt(2)[of c]] by auto
qed

lemma tag_plain: "x \<in> set (body_tag digest b) \<Longrightarrow> \<not> is_space x \<and> x \<noteq> CHR '',''"
proof -
  have "\<not> is_space (CHR 0x22)" by code_simp
  then show "x \<in> set (body_tag digest b) \<Longrightarrow> \<not> is_space x \<and> x \<noteq> CHR '',''"
    using hex_encode_plain[of x "take 16 (digest b)"] by (auto simp: body_tag_def)
qed

lemma trim_space_plain: "(\<And>x. x \<in> set s \<Longrightarrow> \<not> is_space x) \<Longrightarrow> trim_space s = s"
proof -
  assume plain: "\<And>x. x \<in> set s \<Longrightarrow> \<not> is_space x"
  have id: "dropWhile is_space t = t" if "set t \<subseteq> set s" for t using that plain by (cases t) auto
  show ?thesis using id[of s] id[of "rev s"] by (simp add: trim_space_def)
qed

lemma own_tag_matches: "etag_matches (body_tag digest b) (body_tag digest b)"
proof -
  have "split_on CHR '','' (body_tag digest b) = [body_tag digest b]" using tag_plain by (intro split_on_no_sep) blast
  moreover have "trim_space (body_tag digest b) = body_tag digest b" using tag_plain by (intro trim_space_plain) blast
  moreover have "trim_prefix ''W/'' (body_tag digest b) = body_tag digest b" by (simp add: trim_prefix_def has_prefix_def body_tag_def)
  ultimately show ?thesis by (simp add: etag_matches_def)
qed

lemma write_revalidated:
  "write_body digest q b = r \<Longrightarrow> mr_status r = 200 \<Longrightarrow> mr_tag r = Some t \<Longrightarrow>
   write_body digest (q\<lparr>mq_match := t\<rparr>) b = \<lparr>mr_status = 304, mr_tag = Some t, mr_gzip = False, mr_body = None\<rparr>"
  using own_tag_matches[of digest b] by (auto simp: write_body_def Let_def body_tag_def split: if_splits)

text \<open>Which body is sent, and whether one is, does not depend on the client's tag.\<close>

definition tagged :: "(meta_body \<Rightarrow> string) \<Rightarrow> meta_request \<Rightarrow> (meta_request \<Rightarrow> meta_response) \<Rightarrow> bool" where
  "tagged digest q f \<longleftrightarrow> (\<exists>b. \<forall>x. f (q\<lparr>mq_match := x\<rparr>) = write_body digest (q\<lparr>mq_match := x\<rparr>) b) \<or>
     (\<forall>x. mr_tag (f (q\<lparr>mq_match := x\<rparr>)) = None)"

lemma tagged_write: "tagged digest q (\<lambda>r. write_body digest r b)"
  by (auto simp: tagged_def)

lemma tagged_cong: "(\<And>x. f (q\<lparr>mq_match := x\<rparr>) = g (q\<lparr>mq_match := x\<rparr>)) \<Longrightarrow> tagged digest q g \<Longrightarrow> tagged digest q f"
  by (simp add: tagged_def)

lemma tagged_none: "(\<And>x. mr_tag (f (q\<lparr>mq_match := x\<rparr>)) = None) \<Longrightarrow> tagged digest q f"
  by (simp add: tagged_def)

lemma query_unmatched [simp]: "query_category (q\<lparr>mq_match := x\<rparr>) = query_category q" "matching_apps d (q\<lparr>mq_match := x\<rparr>) = matching_apps d q"
  by (simp_all add: query_category_def matching_apps_def Let_def)

lemma list_tagged: "tagged digest q (list_apps digest d)"
proof (cases "query_category q \<noteq> [] \<and> query_category q \<notin> set (map ct_id (sd_categories d))")
  case True
  then show ?thesis by (intro tagged_none) (simp add: list_apps_def write_error_def)
next
  case False
  then show ?thesis by (intro tagged_cong[OF _ tagged_write[of _ _ "BList (matching_apps d q)"]]) (auto simp: list_apps_def)
qed

lemma app_tagged: "tagged digest q (app_by_id digest d)"
proof (cases "find (\<lambda>a. ma_id a = trim_chr CHR ''/'' (trim_prefix apps_path (mq_path q))) (rev (sd_apps d))")
  case None
  then show ?thesis by (intro tagged_none) (simp add: app_by_id_def write_error_def)
next
  case (Some a)
  then show ?thesis by (intro tagged_cong[OF _ tagged_write[of _ _ "BApp a"]]) (simp add: app_by_id_def)
qed

lemma serve_tagged: "tagged digest q (serve_meta digest d)"
proof -
  consider (no) "mq_method q \<noteq> ''GET'' \<and> mq_method q \<noteq> ''HEAD''" | (doc) "mq_path q = ''/v1/appstore/metadata''"
    | (cats) "mq_path q = ''/v1/appstore/categories''" | (health) "mq_path q = ''/healthz''" | (lst) "mq_path q = ''/v1/appstore/apps''"
    | (app) "has_prefix apps_path (mq_path q)" "mq_path q \<notin> {''/v1/appstore/metadata'', ''/v1/appstore/categories'', ''/healthz'', ''/v1/appstore/apps''}"
    | (other) "\<not> has_prefix apps_path (mq_path q)" "mq_path q \<notin> {''/v1/appstore/metadata'', ''/v1/appstore/categories'', ''/healthz'', ''/v1/appstore/apps''}"
    by blast
  then show ?thesis
  proof cases
    case no
    then show ?thesis by (intro tagged_none) (simp add: serve_meta_def write_error_def)
  next
    case other
    have "mr_tag (if b then \<lparr>mr_status = 204, mr_tag = None, mr_gzip = False, mr_body = None\<rparr> else write_error c e) = None" for b c e
      by (simp add: write_error_def)
    with other show ?thesis by (intro tagged_none) (simp add: serve_meta_def write_error_def)
  qed (cases "mq_method q = ''GET'' \<or> mq_method q = ''HEAD''";
      force intro: tagged_none tagged_cong[OF _ tagged_write] tagged_cong[OF _ list_tagged] tagged_cong[OF _ app_tagged] simp: serve_meta_def write_error_def)+
qed

text \<open>Observation: A client that sends back the tag of a full answer is told that nothing changed, with the same tag and
  without a body, on every path and for every filter of the list.\<close>

theorem revalidated:
  assumes "mr_status (serve_meta digest d q) = 200" "mr_tag (serve_meta digest d q) = Some t"
  shows "serve_meta digest d (q\<lparr>mq_match := t\<rparr>) = \<lparr>mr_status = 304, mr_tag = Some t, mr_gzip = False, mr_body = None\<rparr>"
proof -
  have self: "q\<lparr>mq_match := mq_match q\<rparr> = q" by simp
  obtain b where b: "\<And>x. serve_meta digest d (q\<lparr>mq_match := x\<rparr>) = write_body digest (q\<lparr>mq_match := x\<rparr>) b"
    using serve_tagged[of digest q d] assms(2) self unfolding tagged_def by (metis option.distinct(1))
  then have "serve_meta digest d q = write_body digest q b" using b[of "mq_match q"] self by simp
  then show ?thesis using b[of t] write_revalidated[of digest q b "serve_meta digest d q" t] assms by simp
qed

section \<open>Every app is served\<close>

lemma trim_chr_id: "c \<notin> set s \<Longrightarrow> trim_chr c s = s"
proof -
  assume c: "c \<notin> set s"
  have id: "dropWhile (\<lambda>x. x = c) t = t" if "c \<notin> set t" for t using that by (cases t) auto
  show ?thesis using id[of s] id[of "rev s"] c by (simp add: trim_chr_def)
qed

lemma find_unique: "a \<in> set xs \<Longrightarrow> distinct (map f xs) \<Longrightarrow> find (\<lambda>x. f x = f a) xs = Some a"
  by (induction xs) (auto simp: image_iff)

text \<open>C18: Every app of a loaded document is answered with its own record under its id.\<close>

theorem every_app_served:
  assumes "load_store dir = Inr d" "a \<in> set (sd_apps d)" "CHR ''/'' \<notin> set (ma_id a)"
    and "mq_path q = apps_path @ ma_id a" "mq_method q = ''GET''" "mq_match q = []"
  shows "mr_status (serve_meta digest d q) = 200 \<and> mr_body (serve_meta digest d q) = Some (BApp a)"
proof -
  have "distinct (map ma_id (rev (sd_apps d)))" using load_store_sound[OF assms(1)] by (simp add: document_sound_def rev_map[symmetric] Let_def)
  then have "find (\<lambda>x. ma_id x = ma_id a) (rev (sd_apps d)) = Some a" using assms(2) by (intro find_unique) simp_all
  moreover have "ma_id a \<noteq> []" using load_store_sound[OF assms(1)] assms(2) by (auto simp: document_sound_def list_all_iff app_sound_def Let_def)
  ultimately show ?thesis using assms(3-6)
    by (simp add: serve_meta_def app_by_id_def apps_path_def trim_prefix_def has_prefix_def trim_chr_id write_body_def Let_def)
qed

definition ask :: "string \<Rightarrow> meta_request" where
  "ask path = \<lparr>mq_method = ''GET'', mq_path = path, mq_query = [], mq_match = [], mq_accept = []\<rparr>"

definition bare_document :: store_document where
  "bare_document = \<lparr>sd_source = [], sd_categories = [], sd_featured = Some [], sd_order = Some [], sd_apps = []\<rparr>"

theorem revalidated_witness:
  "serve_meta (\<lambda>_. ''s'') bare_document ((ask ''/healthz'')\<lparr>mq_match := body_tag (\<lambda>_. ''s'') (BHealth 0 0)\<rparr>) =
     \<lparr>mr_status = 304, mr_tag = Some (body_tag (\<lambda>_. ''s'') (BHealth 0 0)), mr_gzip = False, mr_body = None\<rparr>"
proof (rule revalidated)
  show "mr_status (serve_meta (\<lambda>_. ''s'') bare_document (ask ''/healthz'')) = 200" by code_simp
  show "mr_tag (serve_meta (\<lambda>_. ''s'') bare_document (ask ''/healthz'')) = Some (body_tag (\<lambda>_. ''s'') (BHealth 0 0))" by code_simp
qed

theorem every_app_served_witness:
  "\<exists>d a. load_store sample_dir = Inr d \<and> ma_id a = ''z'' \<and> mr_body (serve_meta (\<lambda>_. ''s'') d (ask ''/v1/appstore/apps/z'')) = Some (BApp a)"
proof -
  obtain d where d: "load_store sample_dir = Inr d" "items (sd_order d) = [''z'']" using sample_loads by blast
  then obtain a where a: "a \<in> set (sd_apps d)" "ma_id a = ''z''" using load_store_sound[OF d(1)] by (auto simp: document_sound_def Let_def)
  have "mr_status (serve_meta (\<lambda>_. ''s'') d (ask ''/v1/appstore/apps/z'')) = 200 \<and>
      mr_body (serve_meta (\<lambda>_. ''s'') d (ask ''/v1/appstore/apps/z'')) = Some (BApp a)"
    by (rule every_app_served[OF d(1) a(1)]) (simp_all add: a(2) ask_def apps_path_def)
  with d(1) a(2) show ?thesis by blast
qed

end
