(* ===== verification/Demo_Score.thy ===== *)
theory Demo_Score
  imports Submission Json_Struct Semver
begin

text \<open>
  internal/demoeval: the quality score of a demo (score.go, helpers.go), the simulated first call of an
  agent that copies it (firstcall.go), and the report over a tree of submissions (dir.go). A float64 is
  an exact rational here, and a reason is a value, not its text.
\<close>

section \<open>Helpers\<close>

definition ns_from_id :: "string \<Rightarrow> string" where
  "ns_from_id i = after_last CHR ''.'' i"

definition calls_namespace :: "string \<Rightarrow> string \<Rightarrow> bool" where
  "calls_namespace cmd ns \<longleftrightarrow> ns \<noteq> [] \<and> sublist (CHR '' '' # ns @ ''.'') cmd"

definition is_single_sentence :: "string \<Rightarrow> bool" where
  "is_single_sentence s0 \<longleftrightarrow>
     (let s = trim_space s0 in
      s \<noteq> [] \<and> CHR 0x0A \<notin> set s \<and> CHR 0x0D \<notin> set s \<and>
      (let core = rev (dropWhile (\<lambda>c. c \<in> {CHR ''.'', CHR ''!'', CHR ''?''}) (rev s)) in
       \<not> sublist ''. '' core \<and> \<not> sublist ''! '' core \<and> \<not> sublist ''? '' core))"

text \<open>math.Round of numbers that are not negative.\<close>

definition round1 :: "rat \<Rightarrow> rat" where
  "round1 f = of_int \<lfloor>f * 10 + 1 / 2\<rfloor> / 10"

definition round2 :: "rat \<Rightarrow> rat" where
  "round2 f = of_int \<lfloor>f * 100 + 1 / 2\<rfloor> / 100"

section \<open>The rubric\<close>

datatype reason =
    RNoCommand | RNoPrefix | RNoNamespace | RNoExpect | RNoExamples | ROneExample | RManyExamples | RForeign nat | RNoSteps
  | RUnprefixed nat | RUnexpected nat | RTooBig nat | RBig nat | RSkill string | RNoNext | RGotchas nat | RUnmetered | RNoCost
  | RNoPrices | RNoBalance | ROverBudget rat rat | RUnannotated nat | RNoWhen | RLongWhen nat | RSentences | RNoDemo

datatype rubric = Quickstart_C | Examples_C | Copy_C | Brevity_C | Skill_C | Cost_C | When_C

record criterion =
  cr_line :: rubric
  cr_weight :: rat
  cr_earned :: rat
  cr_reasons :: "reason list"

definition demo_prefixed :: "demo_step \<Rightarrow> bool" where
  "demo_prefixed s \<longleftrightarrow> has_prefix call_prefix (trim_space (ds_command s))"

definition ratio :: "nat \<Rightarrow> nat \<Rightarrow> rat" where
  "ratio a b = of_nat a / of_nat b"

definition because :: "bool \<Rightarrow> reason \<Rightarrow> reason list" where
  "because b r = (if b then [r] else [])"

definition score_quickstart :: "demo \<Rightarrow> string \<Rightarrow> criterion" where
  "score_quickstart d ns =
     (let q = de_quickstart d; cmd = trim_space (ds_command q); expect = trim_space (ds_expect q);
          (run, why) = (if cmd = [] then (0, [RNoCommand])
                        else if \<not> has_prefix call_prefix cmd then (0, [RNoPrefix])
                        else if \<not> calls_namespace cmd ns then (0, [RNoNamespace])
                        else (12, []))
      in \<lparr>cr_line = Quickstart_C, cr_weight = 18, cr_earned = run + (if expect \<noteq> [] then 6 else 0),
          cr_reasons = why @ because (expect = []) RNoExpect\<rparr>)"

definition real_call :: "string \<Rightarrow> demo_step \<Rightarrow> bool" where
  "real_call ns s \<longleftrightarrow> demo_prefixed s \<and> calls_namespace (trim_space (ds_command s)) ns"

definition score_examples :: "demo \<Rightarrow> string \<Rightarrow> criterion" where
  "score_examples d ns =
     (let es = de_examples d; n = length es; valid = count_if (real_call ns) es;
          (base, why) = (if n = 0 then (0, [RNoExamples]) else if n < 2 then (3, [ROneExample]) else if 6 < n then (4, [RManyExamples]) else (7, []))
      in \<lparr>cr_line = Examples_C, cr_weight = 16, cr_earned = base + (if 0 < n then 9 * ratio valid n else 0),
          cr_reasons = why @ because (valid < n) (RForeign (n - valid))\<rparr>)"

definition score_copy :: "demo \<Rightarrow> criterion" where
  "score_copy d =
     (let ss = demo_steps d; n = length ss; pre = count_if demo_prefixed ss; ex = count_if (\<lambda>s. trim_space (ds_expect s) \<noteq> []) ss
      in \<lparr>cr_line = Copy_C, cr_weight = 16, cr_earned = 8 * ratio pre n + 8 * ratio ex n,
          cr_reasons = because (pre < n) (RUnprefixed (n - pre)) @ because (ex < n) (RUnexpected (n - ex))\<rparr>)"

definition max_skill_len :: nat where "max_skill_len = 3000"

definition score_brevity :: "demo \<Rightarrow> string \<Rightarrow> criterion" where
  "score_brevity d app =
     (let n = length (render_skill app d);
          (earned, why) = (if n \<le> max_skill_len then (14, [])
            else if 2 * max_skill_len \<le> n then (0, [RTooBig n])
            else (round1 (14 * (1 - ratio (n - max_skill_len) max_skill_len)), [RBig n]))
      in \<lparr>cr_line = Brevity_C, cr_weight = 14, cr_earned = earned, cr_reasons = why\<rparr>)"

definition score_skill :: "demo \<Rightarrow> string \<Rightarrow> criterion" where
  "score_skill d app =
     \<lparr>cr_line = Skill_C, cr_weight = 14,
      cr_earned = (if de_skill d = app then 6 else 0) + (if de_next d \<noteq> [] then 5 else 0) + (if length (de_gotchas d) \<le> 6 then 3 else 0),
      cr_reasons = because (de_skill d \<noteq> app) (RSkill (de_skill d)) @ because (de_next d = []) RNoNext
        @ because (6 < length (de_gotchas d)) (RGotchas (length (de_gotchas d)))\<rparr>"

definition score_metered :: "demo \<Rightarrow> criterion" where
  "score_metered d =
     (if \<not> de_metered d then \<lparr>cr_line = Cost_C, cr_weight = 12, cr_earned = 12, cr_reasons = [RUnmetered]\<rparr>
      else case de_cost d of
        None \<Rightarrow> \<lparr>cr_line = Cost_C, cr_weight = 12, cr_earned = 0, cr_reasons = [RNoCost]\<rparr>
      | Some c \<Rightarrow>
          let (total, dyn) = worked_cost d; ss = demo_steps d; silent = count_if (\<lambda>s. trim_space (ds_cost s) = []) ss;
              over = (0 < dc_hard_cap c \<and> dc_hard_cap c + 1 / 10 ^ 9 < total);
              notes = (if dyn \<or> silent = 0 then 3 else 3 * ratio (length ss - silent) (length ss))
          in \<lparr>cr_line = Cost_C, cr_weight = 12,
              cr_earned = (if dc_operations c \<noteq> [] then 3 else 0) + (if trim_space (dc_check_balance c) \<noteq> [] then 3 else 0)
                + (if over then 0 else 3) + notes,
              cr_reasons = because (dc_operations c = []) RNoPrices @ because (trim_space (dc_check_balance c) = []) RNoBalance
                @ because over (ROverBudget total (dc_hard_cap c)) @ because (\<not> dyn \<and> silent \<noteq> 0) (RUnannotated silent)\<rparr>)"

definition score_when :: "demo \<Rightarrow> criterion" where
  "score_when d =
     (let s = trim_space (de_when d) in
      if s = [] then \<lparr>cr_line = When_C, cr_weight = 10, cr_earned = 0, cr_reasons = [RNoWhen]\<rparr>
      else \<lparr>cr_line = When_C, cr_weight = 10,
             cr_earned = 4 + (if length s \<le> 240 then 3 else 0) + (if is_single_sentence s then 3 else 0),
             cr_reasons = because (240 < length s) (RLongWhen (length s)) @ because (\<not> is_single_sentence s) RSentences\<rparr>)"

definition criteria :: "demo \<Rightarrow> string \<Rightarrow> string \<Rightarrow> criterion list" where
  "criteria d app ns =
     [score_quickstart d ns, score_examples d ns, score_copy d, score_brevity d app, score_skill d app, score_metered d, score_when d]"

definition cr_pass :: "criterion \<Rightarrow> bool" where
  "cr_pass c \<longleftrightarrow> cr_weight c - 1 / 10 ^ 9 \<le> cr_earned c"

definition collect_issues :: "criterion list \<Rightarrow> reason list" where
  "collect_issues cs = concat (map (\<lambda>c. if cr_pass c then [] else cr_reasons c) cs)"

record demo_report =
  dr_app :: string
  dr_namespace :: string
  dr_has_demo :: bool
  dr_metered :: bool
  dr_score :: rat
  dr_criteria :: "criterion list"
  dr_worked :: rat
  dr_budget :: rat
  dr_issues :: "reason list"

definition score_demo :: "demo option \<Rightarrow> string \<Rightarrow> string \<Rightarrow> demo_report" where
  "score_demo dopt app ns0 =
     (let ns = (if blank ns0 then ns_from_id app else ns0) in
      case dopt of
        None \<Rightarrow> \<lparr>dr_app = app, dr_namespace = ns, dr_has_demo = False, dr_metered = False, dr_score = 0, dr_criteria = [],
                  dr_worked = 0, dr_budget = 0, dr_issues = [RNoDemo]\<rparr>
      | Some d \<Rightarrow>
          let cs = criteria d app ns; total = sum_list (map cr_weight cs); earned = sum_list (map cr_earned cs)
          in \<lparr>dr_app = app, dr_namespace = ns, dr_has_demo = True, dr_metered = de_metered d,
              dr_score = (if 0 < total then round1 (earned / total * 100) else 0), dr_criteria = cs,
              dr_worked = fst (worked_cost d), dr_budget = (case de_cost d of None \<Rightarrow> 0 | Some c \<Rightarrow> dc_hard_cap c),
              dr_issues = collect_issues cs\<rparr>)"

definition default_min_score :: rat where "default_min_score = 60"

section \<open>The first call\<close>

record method_spec =
  mt_name :: string
  mt_params :: "bool gmap"
  mt_pass :: bool

definition declared_params :: "sub_method \<Rightarrow> bool gmap" where
  "declared_params m = fold (\<lambda>p ps. if sp_name p = [] then ps else AList.update (sp_name p) (sp_required p) ps) (sm_params m) []"

definition spec_of :: "sub_method \<Rightarrow> method_spec" where
  "spec_of m = \<lparr>mt_name = trim_space (sm_name m), mt_params = declared_params m, mt_pass = cl_passthrough (sm_cli m)\<rparr>"

definition method_set :: "submission \<Rightarrow> method_spec gmap" where
  "method_set s =
     fold (\<lambda>m ms. let n = trim_space (sm_name m) in if n = [] then ms else AList.update n (spec_of m) ms) (ss_methods s) []"

record cmd_analysis =
  ca_parsed :: bool
  ca_app :: string
  ca_method :: string
  ca_method_valid :: bool
  ca_args_parsed :: bool
  ca_keys :: "string list"
  ca_unknown :: "string list"
  ca_missing :: "string list"

definition no_analysis :: cmd_analysis where
  "no_analysis = \<lparr>ca_parsed = False, ca_app = [], ca_method = [], ca_method_valid = False, ca_args_parsed = False, ca_keys = [],
     ca_unknown = [], ca_missing = []\<rparr>"

definition cut_field :: "string \<Rightarrow> (string \<times> string) option" where
  "cut_field s0 =
     (let s = trim_space s0; f = takeWhile (\<lambda>c. c \<noteq> CHR '' '' \<and> c \<noteq> CHR 0x09) s in
      if s = [] then None else Some (f, trim_space (drop (length f + 1) s)))"

definition trim_suffix_chr :: "char \<Rightarrow> string \<Rightarrow> string" where
  "trim_suffix_chr c s = (if s \<noteq> [] \<and> last s = c then butlast s else s)"

definition payload_text :: "string \<Rightarrow> string" where
  "payload_text s =
     (let p = trim_space (trim_suffix_chr (CHR 0x27) (trim_prefix [CHR 0x27] (trim_space s))) in if p = [] then ''{}'' else p)"

text \<open>json.Unmarshal into a map: the keys, sorted; None when the payload is no object.\<close>

definition payload_keys :: "string \<Rightarrow> string list option" where
  "payload_keys p = map_option (\<lambda>m. sort (remdups (map fst m))) (Option.bind (raw_doc p) struct_members)"

definition analyze_command :: "string \<Rightarrow> method_spec gmap \<Rightarrow> cmd_analysis" where
  "analyze_command command ms =
     (let cmd = trim_space command in
      if \<not> has_prefix call_prefix cmd then no_analysis
      else case cut_field (trim_space (drop (length call_prefix) cmd)) of
        None \<Rightarrow> no_analysis
      | Some (app, rest) \<Rightarrow>
          (case cut_field rest of
             None \<Rightarrow> no_analysis
           | Some (meth, payload) \<Rightarrow>
               let spec = map_of ms meth; keys = payload_keys (payload_text payload);
                   a = \<lparr>ca_parsed = True, ca_app = app, ca_method = meth, ca_method_valid = (spec \<noteq> None), ca_args_parsed = (keys \<noteq> None),
                        ca_keys = (case keys of None \<Rightarrow> [] | Some ks \<Rightarrow> ks), ca_unknown = [], ca_missing = []\<rparr>
               in (case (spec, keys) of
                     (Some sp, Some ks) \<Rightarrow>
                       a\<lparr>ca_unknown := filter (\<lambda>k. map_of (mt_params sp) k = None \<and> \<not> (mt_pass sp \<and> (k = ''args'' \<or> k = ''stdin''))) ks,
                         ca_missing := sort (map fst (filter (\<lambda>(n, req). req \<and> n \<notin> set ks) (mt_params sp)))\<rparr>
                   | _ \<Rightarrow> a)))"

datatype call_note =
    NNoDemo | NNoMethods | NNotRunnable | NUnknownMethod string | NBadArgs | NUnknownKeys "string list" | NMissing "string list" | NExamples nat

record first_call =
  fc_reachable :: bool
  fc_method_valid :: bool
  fc_args_plausible :: bool
  fc_score :: rat
  fc_skipped :: bool
  fc_notes :: "call_note list"

definition no_call :: "bool \<Rightarrow> call_note list \<Rightarrow> first_call" where
  "no_call skipped notes =
     \<lparr>fc_reachable = False, fc_method_valid = False, fc_args_plausible = False, fc_score = 0, fc_skipped = skipped, fc_notes = notes\<rparr>"

definition plausible :: "cmd_analysis \<Rightarrow> bool" where
  "plausible a \<longleftrightarrow> ca_parsed a \<and> ca_method_valid a \<and> ca_args_parsed a \<and> ca_unknown a = []"

definition call_notes :: "cmd_analysis \<Rightarrow> call_note list" where
  "call_notes q =
     (if \<not> ca_parsed q then [NNotRunnable] else [])
     @ (if \<not> ca_method_valid q \<and> ca_parsed q then [NUnknownMethod (ca_method q)] else [])
     @ (if \<not> plausible q \<and> ca_parsed q \<and> ca_method_valid q
        then (if \<not> ca_args_parsed q then [NBadArgs] else if ca_unknown q \<noteq> [] then [NUnknownKeys (ca_unknown q)] else []) else [])
     @ (if ca_method_valid q \<and> ca_missing q \<noteq> [] then [NMissing (ca_missing q)] else [])"

definition call_base :: "cmd_analysis \<Rightarrow> rat" where
  "call_base q =
     (if ca_parsed q then 25 / 100 else 0) + (if ca_method_valid q then 35 / 100 else 0) + (if plausible q then 30 / 100 else 0)
     + (if ca_method_valid q \<and> ca_missing q = [] then 10 / 100 else 0)"

definition simulate_first_call :: "demo option \<Rightarrow> method_spec gmap \<Rightarrow> first_call" where
  "simulate_first_call dopt ms =
     (case dopt of
        None \<Rightarrow> no_call False [NNoDemo]
      | Some d \<Rightarrow>
          if ms = [] then no_call True [NNoMethods]
          else let q = analyze_command (ds_command (de_quickstart d)) ms; n = length (de_examples d);
                   valid = count_if (\<lambda>e. plausible (analyze_command (ds_command e) ms)) (de_examples d);
                   share = (if 0 < n then ratio valid n else 1)
               in \<lparr>fc_reachable = ca_parsed q, fc_method_valid = ca_method_valid q, fc_args_plausible = plausible q,
                   fc_score = round2 (call_base q * (8 / 10) + share * (2 / 10)), fc_skipped = False,
                   fc_notes = call_notes q @ (if valid < n then [NExamples (n - valid)] else [])\<rparr>)"

section \<open>A tree of submissions\<close>

text \<open>The directories of the tree with their decoded submissions (None for text that does not decode), in the order of
  their names; the ones without a submission are left out.\<close>

definition dir_report :: "string \<times> submission \<Rightarrow> demo_report \<times> first_call option" where
  "dir_report e =
     (let (name, s) = e; app = (if ss_id s = [] then name else ss_id s) in
      (score_demo (ss_product_demo s) app (sub_namespace s),
       (case ss_product_demo s of None \<Rightarrow> None | Some d \<Rightarrow> Some (simulate_first_call (Some d) (method_set s)))))"

definition score_dir :: "(string \<times> submission option) list \<Rightarrow> (demo_report \<times> first_call option) list option" where
  "score_dir es =
     (if list_ex (\<lambda>(_, s). s = None) es then None
      else Some (sort_key (\<lambda>(r, _). (dr_has_demo r, dr_score r)) (map (\<lambda>(n, s). dir_report (n, the s)) es)))"

record demo_summary =
  dm_total :: nat
  dm_with :: nat
  dm_without :: nat
  dm_mean :: rat
  dm_below :: "string list"

definition summarize_reports :: "demo_report list \<Rightarrow> rat \<Rightarrow> demo_summary" where
  "summarize_reports rs threshold =
     (let ds = filter dr_has_demo rs in
      \<lparr>dm_total = length rs, dm_with = length ds, dm_without = length rs - length ds,
       dm_mean = (if ds \<noteq> [] then round1 (sum_list (map dr_score ds) / of_nat (length ds)) else 0),
       dm_below = sort (map dr_app (filter (\<lambda>r. dr_score r < threshold) ds))\<rparr>)"

end
