(* ===== verification/Demo_Gate.thy ===== *)
theory Demo_Gate
  imports Demo_Score Submission_Build
begin

text \<open>
  What the score and the simulated first call promise: the bounds of the score, that the publish
  checks alone carry a demo over the gate, and what a plausible first call calls.
\<close>

section \<open>Bounds\<close>

lemma ratio_range: "a \<le> b \<Longrightarrow> 0 \<le> ratio a b \<and> ratio a b \<le> 1"
  by (cases "b = 0") (simp_all add: ratio_def)

lemma ratio_full: "0 < b \<Longrightarrow> ratio b b = 1"
  by (simp add: ratio_def)

lemma count_if_le [simp]: "count_if p xs \<le> length xs"
  by (simp add: count_if_def)

lemma count_if_all: "(\<And>x. x \<in> set xs \<Longrightarrow> p x) \<Longrightarrow> count_if p xs = length xs"
  by (simp add: count_if_def)

lemma round1_bounds: assumes "0 \<le> f" "f \<le> of_int n" shows "0 \<le> round1 f \<and> round1 f \<le> of_int n"
proof -
  have "0 \<le> \<lfloor>f * 10 + 1 / 2\<rfloor>" using assms(1) by (simp add: le_floor_iff)
  moreover have "\<lfloor>f * 10 + 1 / 2\<rfloor> \<le> n * 10"
  proof -
    have "f * 10 + 1 / 2 < of_int (n * 10) + 1" using assms(2) by simp
    then show ?thesis by (simp add: floor_le_iff)
  qed
  then have "(of_int \<lfloor>f * 10 + 1 / 2\<rfloor> :: rat) \<le> of_int (n * 10)" by (simp only: of_int_le_iff)
  ultimately show ?thesis by (simp add: round1_def)
qed

lemma round1_at_least: assumes "of_int n \<le> f" shows "of_int n \<le> round1 f"
proof -
  have "(of_int (n * 10) :: rat) \<le> f * 10 + 1 / 2" using assms by simp
  then have "n * 10 \<le> \<lfloor>f * 10 + 1 / 2\<rfloor>" by (simp only: le_floor_iff)
  then have "(of_int (n * 10) :: rat) \<le> of_int \<lfloor>f * 10 + 1 / 2\<rfloor>" by (simp only: of_int_le_iff)
  then show ?thesis by (simp add: round1_def)
qed

definition in_weight :: "criterion \<Rightarrow> bool" where
  "in_weight c \<longleftrightarrow> 0 \<le> cr_earned c \<and> cr_earned c \<le> cr_weight c"

lemma quickstart_range: "in_weight (score_quickstart d ns)"
  by (simp add: in_weight_def score_quickstart_def Let_def)

lemma examples_range: "in_weight (score_examples d ns)"
  using ratio_range[of "count_if (real_call ns) (de_examples d)" "length (de_examples d)"]
  by (auto simp: in_weight_def score_examples_def Let_def)

lemma copy_range: "in_weight (score_copy d)"
  using ratio_range[of "count_if demo_prefixed (demo_steps d)" "length (demo_steps d)"]
    ratio_range[of "count_if (\<lambda>s. trim_space (ds_expect s) \<noteq> []) (demo_steps d)" "length (demo_steps d)"]
  by (simp add: in_weight_def score_copy_def Let_def)

lemma brevity_range: "in_weight (score_brevity d app)"
proof -
  let ?n = "length (render_skill app d)"
  have "0 \<le> round1 (14 * (1 - ratio (?n - max_skill_len) max_skill_len)) \<and> round1 (14 * (1 - ratio (?n - max_skill_len) max_skill_len)) \<le> of_int 14"
    if "?n \<le> 2 * max_skill_len"
  proof (rule round1_bounds)
    have "?n - max_skill_len \<le> max_skill_len" using that by simp
    from ratio_range[OF this] show "0 \<le> 14 * (1 - ratio (?n - max_skill_len) max_skill_len)"
      "14 * (1 - ratio (?n - max_skill_len) max_skill_len) \<le> of_int 14" by simp_all
  qed
  then show ?thesis by (simp add: in_weight_def score_brevity_def Let_def)
qed

lemma skill_range: "in_weight (score_skill d app)"
  by (simp add: in_weight_def score_skill_def)

lemma metered_range: "in_weight (score_metered d)"
  using ratio_range[of "length (demo_steps d) - count_if (\<lambda>s. trim_space (ds_cost s) = []) (demo_steps d)" "length (demo_steps d)"]
  by (simp add: in_weight_def score_metered_def Let_def split: option.split prod.split)

lemma when_range: "in_weight (score_when d)"
  by (simp add: in_weight_def score_when_def Let_def)

lemmas ranges = quickstart_range examples_range copy_range brevity_range skill_range metered_range when_range

definition earned :: "demo \<Rightarrow> string \<Rightarrow> string \<Rightarrow> rat" where
  "earned d app ns = sum_list (map cr_earned (criteria d app ns))"

lemma weights: "sum_list (map cr_weight (criteria d app ns)) = 100"
  by (simp add: criteria_def score_quickstart_def score_examples_def score_copy_def score_brevity_def score_skill_def score_metered_def
      score_when_def Let_def split: option.split prod.split)

lemma score_of_demo: "dr_score (score_demo (Some d) app ns) = round1 (earned d app (if blank ns then ns_from_id app else ns))"
  by (simp add: score_demo_def Let_def weights earned_def)

text \<open>Observation: The quality score of a demo is between 0 and 100.\<close>

theorem demo_score_range: "0 \<le> dr_score (score_demo dopt app ns) \<and> dr_score (score_demo dopt app ns) \<le> 100"
proof (cases dopt)
  case None
  then show ?thesis by (simp add: score_demo_def Let_def)
next
  case (Some d)
  have "0 \<le> earned d app n \<and> earned d app n \<le> of_int 100" for n
  proof -
    have "\<forall>c \<in> set (criteria d app n). in_weight c" using ranges by (simp add: criteria_def)
    then have "0 \<le> sum_list (map cr_earned (criteria d app n))"
      "sum_list (map cr_earned (criteria d app n)) \<le> sum_list (map cr_weight (criteria d app n))"
      by (auto simp: in_weight_def intro!: sum_list_nonneg sum_list_mono)
    then show ?thesis using weights[of d app n] by (simp add: earned_def)
  qed
  then show ?thesis using Some round1_bounds[of _ 100] by (simp add: score_of_demo)
qed

section \<open>Accepted demos pass the gate\<close>

lemma valid_real_call: "step_valid ns s \<Longrightarrow> ns \<noteq> [] \<Longrightarrow> real_call ns s \<and> demo_prefixed s"
  by (simp add: step_valid_def real_call_def demo_prefixed_def calls_namespace_def Let_def)

lemma quickstart_valid: "step_valid ns (de_quickstart d) \<Longrightarrow> ns \<noteq> [] \<Longrightarrow> 12 \<le> cr_earned (score_quickstart d ns)"
  by (auto simp: score_quickstart_def step_valid_def calls_namespace_def has_prefix_def call_prefix_def Let_def)

lemma examples_valid:
  assumes "\<forall>s \<in> set (de_examples d). step_valid ns s" "ns \<noteq> []" "2 \<le> length (de_examples d)" "length (de_examples d) \<le> 6"
  shows "cr_earned (score_examples d ns) = 16"
proof -
  have "count_if (real_call ns) (de_examples d) = length (de_examples d)" using assms(1,2) valid_real_call by (intro count_if_all) blast
  moreover have "ratio (length (de_examples d)) (length (de_examples d)) = 1" using assms(3) by (intro ratio_full) linarith
  moreover have "de_examples d \<noteq> []" using assms(3) by (cases "de_examples d") simp_all
  ultimately show ?thesis using assms(3,4) by (simp add: score_examples_def Let_def)
qed

lemma copy_valid: assumes "\<forall>s \<in> set (demo_steps d). step_valid ns s" "ns \<noteq> []" shows "8 \<le> cr_earned (score_copy d)"
proof -
  have "count_if demo_prefixed (demo_steps d) = length (demo_steps d)" using assms valid_real_call by (intro count_if_all) blast
  moreover have "0 < length (demo_steps d)" by (simp add: demo_steps_def)
  ultimately show ?thesis
    using ratio_full[of "length (demo_steps d)"] ratio_range[of "count_if (\<lambda>s. trim_space (ds_expect s) \<noteq> []) (demo_steps d)" "length (demo_steps d)"]
    by (simp add: score_copy_def Let_def)
qed

text \<open>With every example annotated at most the quickstart is silent.\<close>

lemma annotated_share:
  assumes "\<forall>s \<in> set es. trim_space (ds_cost s) \<noteq> []" "2 \<le> length es"
  shows "2 \<le> 3 * ratio (length (q # es) - count_if (\<lambda>s. trim_space (ds_cost s) = []) (q # es)) (length (q # es))"
proof -
  let ?silent = "count_if (\<lambda>s. trim_space (ds_cost s) = []) (q # es)" and ?n = "length (q # es)"
  have "filter (\<lambda>s. trim_space (ds_cost s) = []) es = []" using assms(1) by (simp add: filter_empty_conv)
  then have silent: "?silent \<le> 1" by (simp add: count_if_def)
  have "2 * ?n \<le> 3 * (?n - ?silent)" using silent assms(2) by simp
  then have "(of_nat (2 * ?n) :: rat) \<le> of_nat (3 * (?n - ?silent))" by (simp only: of_nat_le_iff)
  then have "2 * (of_nat ?n :: rat) \<le> 3 * of_nat (?n - ?silent)" by (simp only: of_nat_mult of_nat_numeral)
  moreover have "(0 :: rat) < of_nat ?n" by simp
  ultimately show ?thesis unfolding ratio_def by (simp add: pos_le_divide_eq del: of_nat_Suc list.size)
qed

lemma metered_valid:
  assumes "budget_valid d" "2 \<le> length (de_examples d)" "\<And>c. de_metered d \<Longrightarrow> de_cost d = Some c \<Longrightarrow> 0 < dc_hard_cap c"
  shows "8 \<le> cr_earned (score_metered d)"
proof (cases "de_metered d")
  case True
  then obtain c where c: "de_cost d = Some c" using assms(1) by (auto simp: budget_valid_def split: option.splits)
  have cap: "0 < dc_hard_cap c" using assms(3) True c by blast
  have fits: "dc_operations c \<noteq> []" "sum_list (map step_price (demo_steps d)) \<le> dc_hard_cap c + 1 / 10 ^ 9"
    "list_ex is_dynamic (demo_steps d) \<or> list_all (\<lambda>s. trim_space (ds_cost s) \<noteq> []) (de_examples d)"
    using assms(1) c cap by (simp_all add: budget_valid_def)
  have "2 \<le> 3 * ratio (length (demo_steps d) - count_if (\<lambda>s. trim_space (ds_cost s) = []) (demo_steps d)) (length (demo_steps d))"
    if "\<not> list_ex is_dynamic (demo_steps d)"
    using annotated_share[of "de_examples d" "de_quickstart d"] that fits(3) assms(2) by (simp add: list_all_iff demo_steps_def del: list.size)
  then show ?thesis
    using True c fits(1,2)
      ratio_range[of "length (demo_steps d) - count_if (\<lambda>s. trim_space (ds_cost s) = []) (demo_steps d)" "length (demo_steps d)"]
    by (simp add: score_metered_def worked_cost_sum demo_steps_def[symmetric] Let_def)
qed (simp add: score_metered_def)

text \<open>C16: A demo that passes the publish checks, of an app that is not metered or metered in dollars, scores at
  least 60 whatever else it says: it passes the score gate of the CI.\<close>

theorem valid_demo_passes_gate:
  assumes "validate_demo app ns d = []" "\<not> blank ns" "\<And>c. de_metered d \<Longrightarrow> de_cost d = Some c \<Longrightarrow> 0 < dc_hard_cap c"
  shows "default_min_score \<le> dr_score (score_demo (Some d) app ns)"
proof -
  have v: "de_skill d = app" "trim_space (de_when d) \<noteq> []" "length (trim_space (de_when d)) \<le> 240" "2 \<le> length (de_examples d)"
    "length (de_examples d) \<le> 6" "\<forall>s \<in> set (demo_steps d). step_valid ns s" "length (de_gotchas d) \<le> 6" "budget_valid d"
    using assms(1) unfolding demo_valid_iff by (simp_all add: list_all_iff max_when_def min_examples_def max_examples_def max_gotchas_def)
  have ns: "ns \<noteq> []" using assms(2) by (auto simp: blank_def trim_space_def)
  have "12 \<le> cr_earned (score_quickstart d ns)" using quickstart_valid v(6) ns by (simp add: demo_steps_def)
  moreover have "cr_earned (score_examples d ns) = 16" using examples_valid v(4,5,6) ns by (simp add: demo_steps_def)
  moreover have "8 \<le> cr_earned (score_copy d)" using copy_valid v(6) ns by blast
  moreover have "0 \<le> cr_earned (score_brevity d app)" using brevity_range by (simp add: in_weight_def)
  moreover have "9 \<le> cr_earned (score_skill d app)" using v(1,7) by (simp add: score_skill_def)
  moreover have "8 \<le> cr_earned (score_metered d)" using metered_valid v(4,8) assms(3) by blast
  moreover have "7 \<le> cr_earned (score_when d)" using v(2,3) by (simp add: score_when_def Let_def)
  ultimately have "of_int 60 \<le> earned d app ns" by (simp add: earned_def criteria_def)
  then have "of_int 60 \<le> round1 (earned d app ns)" by (rule round1_at_least)
  then show ?thesis using assms(2) by (simp add: score_of_demo default_min_score_def)
qed

text \<open>A metered demo of two examples, priced, with the least that the checks ask for.\<close>

definition gate_step :: "string \<Rightarrow> demo_step" where
  "gate_step cost = \<lparr>ds_title = [], ds_goal = [], ds_command = ''pilotctl appstore call io.pilot.geo geo.find'', ds_expect = [], ds_cost = cost, ds_note = []\<rparr>"

definition gate_demo :: demo where
  "gate_demo = \<lparr>de_skill = ''io.pilot.geo'', de_title = [], de_when = ''Find a place'', de_metered = True, de_quickstart = gate_step [],
     de_examples = [gate_step ''$0.01'', gate_step ''$0.02''],
     de_cost = Some \<lparr>dc_unit = ''USD'', dc_free_budget = ''$1'', dc_hard_cap = 1,
       dc_operations = [\<lparr>op_name = ''find'', op_price = ''$0.01'', op_note = []\<rparr>], dc_worked_total = [], dc_check_balance = []\<rparr>,
     de_gotchas = [], de_next = []\<rparr>"

theorem valid_demo_passes_gate_witness: "60 \<le> dr_score (score_demo (Some gate_demo) ''io.pilot.geo'' ''geo'')"
proof -
  have "validate_demo ''io.pilot.geo'' ''geo'' gate_demo = []" by code_simp
  moreover have "\<not> blank ''geo''" by code_simp
  moreover have "0 < dc_hard_cap c" if "de_cost gate_demo = Some c" for c using that by (auto simp: gate_demo_def)
  ultimately show ?thesis using valid_demo_passes_gate unfolding default_min_score_def by blast
qed

text \<open>Observation: The dollar cap matters above: a metered demo without one is accepted with 6 points for its costs,
  where the least that the bound rests on is 8.\<close>

definition uncapped_demo :: demo where
  "uncapped_demo = gate_demo\<lparr>de_examples := [gate_step [], gate_step []],
     de_cost := Some \<lparr>dc_unit = ''requests'', dc_free_budget = ''50'', dc_hard_cap = 0,
       dc_operations = [\<lparr>op_name = ''find'', op_price = ''1'', op_note = []\<rparr>], dc_worked_total = [], dc_check_balance = []\<rparr>\<rparr>"

lemma uncapped_accepted: "validate_demo ''io.pilot.geo'' ''geo'' uncapped_demo = []"
  by code_simp

lemma uncapped_cost: "cr_earned (score_metered uncapped_demo) = 6"
  by code_simp

section \<open>The first call\<close>

lemma declared_params_in: "map_of (declared_params m) k \<noteq> None \<Longrightarrow> k \<in> sp_name ` set (sm_params m)"
proof -
  have "map_of ps k \<noteq> None \<or> k \<in> sp_name ` set xs"
    if "map_of (fold (\<lambda>p ps. if sp_name p = [] then ps else AList.update (sp_name p) (sp_required p) ps) xs ps) k \<noteq> None" for xs ps
    using that
  proof (induction xs arbitrary: ps)
    case (Cons x xs)
    then show ?case by (fastforce simp: update_conv' split: if_splits)
  qed simp
  from this[of "sm_params m" "[]"] show "map_of (declared_params m) k \<noteq> None \<Longrightarrow> k \<in> sp_name ` set (sm_params m)"
    by (simp add: declared_params_def)
qed

lemma method_set_in:
  assumes "map_of (method_set s) n = Some sp"
  shows "\<exists>m \<in> set (ss_methods s). trim_space (sm_name m) = n \<and> sp = spec_of m"
proof -
  have "map_of (fold (\<lambda>m ms. let n = trim_space (sm_name m) in if n = [] then ms else AList.update n (spec_of m) ms) xs ms) n = Some sp \<Longrightarrow>
     map_of ms n = Some sp \<or> (\<exists>m \<in> set xs. trim_space (sm_name m) = n \<and> sp = spec_of m)" for xs ms
  proof (induction xs arbitrary: ms)
    case (Cons x xs)
    then show ?case by (fastforce simp: Let_def update_conv' split: if_splits)
  qed simp
  from this[of "ss_methods s" "[]"] assms show ?thesis by (simp add: method_set_def)
qed

lemma plausible_command:
  assumes "plausible (analyze_command command ms)"
  obtains app rest payload keys sp where "has_prefix call_prefix (trim_space command)"
    "cut_field (trim_space (drop (length call_prefix) (trim_space command))) = Some (app, rest)"
    "cut_field rest = Some (ca_method (analyze_command command ms), payload)" "map_of ms (ca_method (analyze_command command ms)) = Some sp"
    "payload_keys (payload_text payload) = Some keys" "ca_keys (analyze_command command ms) = keys"
    "\<forall>k \<in> set keys. map_of (mt_params sp) k \<noteq> None \<or> mt_pass sp \<and> (k = ''args'' \<or> k = ''stdin'')"
  using assms
  by (auto simp: analyze_command_def plausible_def no_analysis_def Let_def filter_empty_conv split: if_splits option.splits prod.splits)

definition quickstart_call :: "demo \<Rightarrow> submission \<Rightarrow> cmd_analysis" where
  "quickstart_call d s = analyze_command (ds_command (de_quickstart d)) (method_set s)"

text \<open>Observation: When the proxy calls a demo's first call plausible, an agent that copies the quickstart calls a method the
  submission declares, and every argument it passes is a parameter of that method, or one of the two a
  passthrough method takes.\<close>

theorem plausible_first_call:
  assumes "fc_args_plausible (simulate_first_call (Some d) (method_set s))"
  shows "\<exists>m \<in> set (ss_methods s). trim_space (sm_name m) = ca_method (quickstart_call d s) \<and>
    set (ca_keys (quickstart_call d s)) \<subseteq> sp_name ` set (sm_params m) \<union> (if cl_passthrough (sm_cli m) then {''args'', ''stdin''} else {})"
proof -
  have "plausible (quickstart_call d s)"
    using assms by (auto simp: simulate_first_call_def no_call_def quickstart_call_def Let_def split: if_splits)
  then obtain sp where sp: "map_of (method_set s) (ca_method (quickstart_call d s)) = Some sp"
    "\<forall>k \<in> set (ca_keys (quickstart_call d s)). map_of (mt_params sp) k \<noteq> None \<or> mt_pass sp \<and> (k = ''args'' \<or> k = ''stdin'')"
    unfolding quickstart_call_def by (elim plausible_command) blast
  obtain m where m: "m \<in> set (ss_methods s)" "trim_space (sm_name m) = ca_method (quickstart_call d s)" "sp = spec_of m"
    using method_set_in[OF sp(1)] by blast
  have "set (ca_keys (quickstart_call d s)) \<subseteq> sp_name ` set (sm_params m) \<union> (if cl_passthrough (sm_cli m) then {''args'', ''stdin''} else {})"
    using sp(2) declared_params_in[of m] by (fastforce simp: m(3) spec_of_def)
  with m(1,2) show ?thesis by blast
qed

definition call_demo :: "string \<Rightarrow> demo" where
  "call_demo payload = gate_demo\<lparr>de_quickstart := (gate_step [])\<lparr>ds_command := ''pilotctl appstore call io.pilot.geo geo.find '' @ payload\<rparr>\<rparr>"

definition place_payload :: string where
  "place_payload = [CHR 0x27, CHR ''{'', CHR 0x22] @ ''place'' @ [CHR 0x22] @ '':1}'' @ [CHR 0x27]"

theorem plausible_first_call_witness:
  "\<exists>m \<in> set (ss_methods (one_route ''geo.find'' ''/places/{place}'' [place_param])). trim_space (sm_name m) = ''geo.find'' \<and>
    {''place''} \<subseteq> sp_name ` set (sm_params m) \<union> (if cl_passthrough (sm_cli m) then {''args'', ''stdin''} else {})"
proof -
  let ?s = "one_route ''geo.find'' ''/places/{place}'' [place_param]" and ?d = "call_demo place_payload"
  have "fc_args_plausible (simulate_first_call (Some ?d) (method_set ?s))" by code_simp
  moreover have "ca_method (quickstart_call ?d ?s) = ''geo.find''" "ca_keys (quickstart_call ?d ?s) = [''place'']" by code_simp+
  ultimately show ?thesis using plausible_first_call[of ?d ?s] by simp
qed

text \<open>Observation: A payload that does not parse still earns the tenth of the proxy's score for its required parameters.\<close>

lemma unparsed_earns_required:
  assumes "ca_parsed q" "ca_method_valid q" "\<not> ca_args_parsed q" "ca_missing q = []"
  shows "call_base q = 70 / 100"
  using assms by (simp add: call_base_def plausible_def)

lemma unparsed_none_missing:
  assumes "\<not> ca_args_parsed (analyze_command command ms)" shows "ca_missing (analyze_command command ms) = []"
  using assms by (auto simp: analyze_command_def no_analysis_def Let_def split: option.split prod.split)

end
