(* ===== verification/Install_Spec.thy ===== *)
theory Install_Spec
  imports Submission_Build Catalogue
begin

text \<open>
  internal/scaffold/install.go: the install contract of a bundle, each platform's assets in their
  resolved order, and the platform blocks of the install script, with how a POSIX shell splits the
  words they hold. The fixed head of the script is not modelled; the text of the contract is the JSON
  of its record.
\<close>

section \<open>The contract\<close>

record install_asset =
  ia_name :: string
  ia_role :: string
  ia_os :: string
  ia_arch :: string
  ia_url :: string
  ia_sha256 :: string
  ia_unpack :: string
  ia_exec_path :: string
  ia_deps :: "string list"
  ia_order :: nat
  ia_args :: "string list"

record install_spec =
  is_schema :: int
  is_app :: string
  is_version :: string
  is_command :: string
  is_assets :: "install_asset list"

definition install_asset_of :: "nat \<Rightarrow> asset \<Rightarrow> install_asset" where
  "install_asset_of i a =
     \<lparr>ia_name = asset_name a, ia_role = (if ba_role a = [] then ''binary'' else ba_role a), ia_os = ba_os a, ia_arch = ba_arch a,
      ia_url = ba_url a, ia_sha256 = ba_sha256 a, ia_unpack = ba_unpack a, ia_exec_path = clean_path (ba_exec_path a),
      ia_deps = ba_deps a, ia_order = i, ia_args = ba_args a\<rparr>"

fun gather_assets :: "asset list \<Rightarrow> (string \<times> string) list \<Rightarrow> asset_err + install_asset list" where
  "gather_assets as [] = Inr []"
| "gather_assets as ((os, arch) # ps) =
     (case resolve_order as os arch of
        Inl e \<Rightarrow> Inl e
      | Inr seq \<Rightarrow> (case gather_assets as ps of Inl e \<Rightarrow> Inl e | Inr rest \<Rightarrow> Inr (map (\<lambda>(i, a). install_asset_of i a) (enumerate 0 seq) @ rest)))"

text \<open>The platforms are distinct, so the code's order of them is the order of pairs of strings.\<close>

fun insert_platform :: "string \<times> string \<Rightarrow> (string \<times> string) list \<Rightarrow> (string \<times> string) list" where
  "insert_platform p [] = [p]"
| "insert_platform p (q # qs) =
     (if (if fst p \<noteq> fst q then str_le (fst p) (fst q) else str_le (snd p) (snd q)) then p # q # qs else q # insert_platform p qs)"

definition resolved_assets :: "config \<Rightarrow> asset_err + install_asset list" where
  "resolved_assets c = gather_assets (co_assets c) (foldr insert_platform (asset_platforms (co_assets c)) [])"

definition install_spec_of :: "config \<Rightarrow> asset_err + install_spec" where
  "install_spec_of c =
     (case resolved_assets c of
        Inl e \<Rightarrow> Inl e
      | Inr as \<Rightarrow> Inr \<lparr>is_schema = 1, is_app = co_id c, is_version = co_app_version c,
          is_command = (case ab_command (co_backend c) of [] \<Rightarrow> [] | x # _ \<Rightarrow> x), is_assets = as\<rparr>)"

section \<open>The script\<close>

definition sq :: char where "sq = CHR 0x27"
definition dq :: char where "dq = CHR 0x22"
definition bs :: char where "bs = CHR 0x5C"

definition sh_quote :: "string \<Rightarrow> string" where
  "sh_quote a = sq # concat (map (\<lambda>c. if c = sq then [sq, bs, sq, sq] else [c]) a) @ [sq]"

definition sh_join :: "string list \<Rightarrow> string" where
  "sh_join args = join_on CHR '' '' (map sh_quote args)"

text \<open>The %q of fmt, on printable text: other bytes than quotes, backslashes and control characters stay.\<close>

definition go_quote :: "string \<Rightarrow> string" where
  "go_quote s = dq # concat (map (\<lambda>c.
     if c = dq \<or> c = bs then [bs, c]
     else if c = CHR 0x07 then [bs, CHR ''a''] else if c = CHR 0x08 then [bs, CHR ''b''] else if c = CHR 0x0C then [bs, CHR ''f'']
     else if c = CHR 0x0A then [bs, CHR ''n''] else if c = CHR 0x0D then [bs, CHR ''r''] else if c = CHR 0x09 then [bs, CHR ''t'']
     else if c = CHR 0x0B then [bs, CHR ''v'']
     else if byte c < 32 \<or> byte c = 127 then [bs, CHR ''x'', hex_digit (byte c div 16), hex_digit (byte c mod 16)]
     else [c]) s) @ [dq]"

definition stage_lines :: "install_asset \<Rightarrow> string list" where
  "stage_lines a =
     (''  stage_one '' @ join_on CHR '' '' (map go_quote [ia_url a, ia_sha256 a, ia_unpack a, ia_exec_path a, ia_role a]))
     # (if ia_args a = [] then []
        else [''  echo '' @ [dq] @ ''  run    '' @ ia_exec_path a @ '' '' @ sh_join (ia_args a) @ [dq],
              ''  '' @ [dq] @ ''$APP/'' @ ia_exec_path a @ [dq] @ '' '' @ sh_join (ia_args a)])"

definition platforms_of :: "install_asset list \<Rightarrow> (string \<times> string) list" where
  "platforms_of as = fold (\<lambda>a out. if (ia_os a, ia_arch a) \<in> set out then out else out @ [(ia_os a, ia_arch a)]) as []"

definition platform_block :: "install_asset list \<Rightarrow> string \<times> string \<Rightarrow> string list" where
  "platform_block as p =
     [''if [ '' @ [dq] @ ''$OS'' @ [dq] @ '' = '' @ [dq] @ fst p @ [dq] @ '' ] && [ '' @ [dq] @ ''$ARCH'' @ [dq] @ '' = '' @ [dq] @ snd p @ [dq] @ '' ]; then'']
     @ concat (map stage_lines (filter (\<lambda>a. ia_os a = fst p \<and> ia_arch a = snd p) as))
     @ [''  echo '' @ [dq] @ ''pilot-install: done'' @ [dq] @ ''; exit 0'', ''fi'']"

definition script_blocks :: "install_asset list \<Rightarrow> string list" where
  "script_blocks as = concat (map (platform_block as) (platforms_of as))"

section \<open>Each platform in order\<close>

definition of_platform :: "string \<Rightarrow> string \<Rightarrow> install_asset list \<Rightarrow> install_asset list" where
  "of_platform os arch as = filter (\<lambda>a. ia_os a = os \<and> ia_arch a = arch) as"

lemma insert_platform_mset: "mset (insert_platform p ps) = add_mset p (mset ps)"
  by (induction p ps rule: insert_platform.induct) auto

lemma sorted_platforms_mset: "mset (foldr insert_platform ps []) = mset ps"
  by (induction ps) (simp_all add: insert_platform_mset)

lemma resolved_members: "resolve_order as os arch = Inr seq \<Longrightarrow> set seq = {a \<in> set as. ba_os a = os \<and> ba_arch a = arch}"
  using resolve_order_exact[of os arch "as"] mset_eq_setD[of seq "on_platform os arch as"] by (simp add: on_platform_def)

lemma of_platform_gathered:
  "resolve_order as os arch = Inr seq \<Longrightarrow>
   of_platform o' a' (map (\<lambda>(i, a). install_asset_of i a) (enumerate n seq)) =
     (if (o', a') = (os, arch) then map (\<lambda>(i, a). install_asset_of i a) (enumerate n seq) else [])"
proof -
  assume "resolve_order as os arch = Inr seq"
  then have "\<forall>a \<in> set seq. ba_os a = os \<and> ba_arch a = arch" using resolved_members by fastforce
  then have "\<forall>x \<in> set (map (\<lambda>(i, a). install_asset_of i a) (enumerate n seq)). ia_os x = os \<and> ia_arch x = arch"
    by (auto simp: install_asset_of_def in_set_enumerate_eq)
  then show ?thesis unfolding of_platform_def by (auto simp: filter_empty_conv intro!: filter_True)
qed

lemma gather_assets_platform:
  "gather_assets as ps = Inr out \<Longrightarrow> distinct ps \<Longrightarrow>
   of_platform os arch out = (if (os, arch) \<in> set ps then
     (case resolve_order as os arch of Inr seq \<Rightarrow> map (\<lambda>(i, a). install_asset_of i a) (enumerate 0 seq) | Inl _ \<Rightarrow> []) else [])"
proof (induction as ps arbitrary: out rule: gather_assets.induct)
  case (2 as o' a' ps)
  then obtain seq rest where seq: "resolve_order as o' a' = Inr seq" "gather_assets as ps = Inr rest"
    "out = map (\<lambda>(i, a). install_asset_of i a) (enumerate 0 seq) @ rest"
    by (auto split: sum.splits)
  have split: "of_platform os arch out = of_platform os arch (map (\<lambda>(i, a). install_asset_of i a) (enumerate 0 seq)) @ of_platform os arch rest"
    by (simp add: seq(3) of_platform_def)
  show ?case using "2.IH"[OF seq(1,2)] "2.prems"(2) seq(1)
    unfolding split of_platform_gathered[OF seq(1)] by auto
qed (simp add: of_platform_def)

lemma insert_platform_distinct: "distinct ps \<Longrightarrow> distinct (foldr insert_platform ps [])"
proof -
  have "distinct xs \<longleftrightarrow> distinct ys" if "mset xs = mset ys" for xs ys :: "(string \<times> string) list"
    using that mset_eq_imp_distinct_iff by blast
  from this[OF sorted_platforms_mset] show "distinct ps \<Longrightarrow> distinct (foldr insert_platform ps [])" by simp
qed

lemma asset_platforms_distinct: "distinct (asset_platforms as)"
proof -
  let ?f = "\<lambda>a out. if list_ex (\<lambda>p. fst p @ ''/'' @ snd p = ba_os a @ ''/'' @ ba_arch a) out then out else out @ [(ba_os a, ba_arch a)]"
  have "distinct out \<Longrightarrow> distinct (fold ?f xs out)" for xs :: "asset list" and out
  proof (induction xs arbitrary: out)
    case (Cons a xs)
    have "distinct (?f a out)" using Cons.prems by (auto simp: list_ex_iff)
    from Cons.IH[OF this] show ?case by simp
  qed simp
  from this[of "[]" "as"] show ?thesis by (simp add: asset_platforms_def)
qed

lemma gather_resolves: "gather_assets as ps = Inr out \<Longrightarrow> (os, arch) \<in> set ps \<Longrightarrow> \<exists>seq. resolve_order as os arch = Inr seq"
  by (induction "as" ps arbitrary: out rule: gather_assets.induct) (auto split: sum.splits)

text \<open>C19: For a spec with valid assets the install contract lists, for every platform, exactly the assets of that
  platform, numbered from zero in an order in which each asset comes after the ones it depends on.\<close>

theorem install_contract_exact:
  assumes "validate_assets c = []" "install_spec_of c = Inr spec" "a \<in> set (co_assets c)"
  shows "\<exists>seq. mset seq = mset (on_platform (ba_os a) (ba_arch a) (co_assets c)) \<and>
    ordered_from (on_platform (ba_os a) (ba_arch a) (co_assets c)) [] seq \<and>
    of_platform (ba_os a) (ba_arch a) (is_assets spec) = map (\<lambda>(i, x). install_asset_of i x) (enumerate 0 seq)"
proof -
  let ?as = "co_assets c" and ?os = "ba_os a" and ?arch = "ba_arch a"
  have out: "gather_assets ?as (foldr insert_platform (asset_platforms ?as) []) = Inr (is_assets spec)"
    using assms(2) by (auto simp: install_spec_of_def resolved_assets_def split: sum.splits)
  have "\<forall>x \<in> set ?as. known_os (ba_os x)"
    using assms(1,3) assets_known by (auto simp: validate_assets_Nil assets_sound_def list_all_iff)
  then have p: "(?os, ?arch) \<in> set (asset_platforms ?as)" using assms(3) by (auto simp: asset_platforms_set)
  have sorted: "set (foldr insert_platform (asset_platforms ?as) []) = set (asset_platforms ?as)"
    using sorted_platforms_mset mset_eq_setD by blast
  then have eq: "of_platform ?os ?arch (is_assets spec) =
      (case resolve_order ?as ?os ?arch of Inr seq \<Rightarrow> map (\<lambda>(i, x). install_asset_of i x) (enumerate 0 seq) | Inl _ \<Rightarrow> [])"
    using gather_assets_platform[OF out insert_platform_distinct[OF asset_platforms_distinct]] p by simp
  obtain seq where "resolve_order ?as ?os ?arch = Inr seq" using gather_resolves[OF out] p sorted by blast
  with eq show ?thesis using resolve_order_exact[of ?os ?arch ?as] by auto
qed

definition staged_asset :: "string \<Rightarrow> string list \<Rightarrow> int \<Rightarrow> asset" where
  "staged_asset name deps n = \<lparr>ba_role = [], ba_name = name, ba_os = ''linux'', ba_arch = ''amd64'', ba_file = [],
     ba_url = ''https://a.io/x'', ba_sha256 = replicate 64 CHR ''a'', ba_unpack = [], ba_exec_path = ''bin/'' @ name, ba_deps = deps, ba_order = n, ba_args = []\<rparr>"

definition staged_spec :: config where
  "staged_spec = sample_spec\<lparr>co_backend := blank_backend\<lparr>ab_type := ''cli''\<rparr>, co_assets := [staged_asset ''app'' [''lib''] 0, staged_asset ''lib'' [] 1]\<rparr>"

theorem install_contract_exact_witness:
  "\<exists>spec seq. install_spec_of staged_spec = Inr spec \<and> mset seq = {# staged_asset ''app'' [''lib''] 0, staged_asset ''lib'' [] 1 #} \<and>
     of_platform ''linux'' ''amd64'' (is_assets spec) = map (\<lambda>(i, x). install_asset_of i x) (enumerate 0 seq)"
proof -
  have "(case install_spec_of staged_spec of Inl _ \<Rightarrow> False | Inr _ \<Rightarrow> True)" by code_simp
  then obtain spec where spec: "install_spec_of staged_spec = Inr spec" by (auto split: sum.splits)
  have "validate_assets staged_spec = []" by code_simp
  moreover have "on_platform ''linux'' ''amd64'' (co_assets staged_spec) = [staged_asset ''app'' [''lib''] 0, staged_asset ''lib'' [] 1]"
    by (simp add: staged_spec_def on_platform_def staged_asset_def)
  moreover have "staged_asset ''lib'' [] 1 \<in> set (co_assets staged_spec)" by (simp add: staged_spec_def)
  moreover have "ba_os (staged_asset ''lib'' [] 1) = ''linux'' \<and> ba_arch (staged_asset ''lib'' [] 1) = ''amd64''" by (simp add: staged_asset_def)
  ultimately obtain seq where "mset seq = {# staged_asset ''app'' [''lib''] 0, staged_asset ''lib'' [] 1 #}"
    "of_platform ''linux'' ''amd64'' (is_assets spec) = map (\<lambda>(i, x). install_asset_of i x) (enumerate 0 seq)"
    using install_contract_exact[OF _ spec, of "staged_asset ''lib'' [] 1"] by auto
  with spec show ?thesis by blast
qed

section \<open>The words of the script\<close>

text \<open>How a shell splits a line into words, where it expands nothing: None for a line with an expansion, an operator
  or an open quote.\<close>

definition word_so_far :: "string option \<Rightarrow> string" where
  "word_so_far w = (case w of None \<Rightarrow> [] | Some u \<Rightarrow> u)"

datatype sh_state = Plain "string option" | Single string | Double string

fun sh_split :: "sh_state \<Rightarrow> string \<Rightarrow> string list option" where
  "sh_split (Plain w) [] = Some (case w of None \<Rightarrow> [] | Some u \<Rightarrow> [u])"
| "sh_split (Single u) [] = None"
| "sh_split (Double u) [] = None"
| "sh_split (Single u) (c # s) = (if c = sq then sh_split (Plain (Some u)) s else sh_split (Single (u @ [c])) s)"
| "sh_split (Double u) (c # s) =
     (if c = dq then sh_split (Plain (Some u)) s
      else if c = CHR ''$'' \<or> c = CHR 0x60 then None
      else if c = bs then (case s of
          [] \<Rightarrow> None
        | d # r \<Rightarrow> if d = CHR 0x0A then sh_split (Double u) r
            else if d \<in> {bs, dq, CHR ''$'', CHR 0x60} then sh_split (Double (u @ [d])) r else sh_split (Double (u @ [bs, d])) r)
      else sh_split (Double (u @ [c])) s)"
| "sh_split (Plain w) (c # s) =
     (if c = CHR '' '' \<or> c = CHR 0x09 then
        (case w of None \<Rightarrow> sh_split (Plain None) s | Some u \<Rightarrow> map_option ((#) u) (sh_split (Plain None) s))
      else if c = sq then sh_split (Single (word_so_far w)) s
      else if c = dq then sh_split (Double (word_so_far w)) s
      else if c = bs then (case s of [] \<Rightarrow> None | d # r \<Rightarrow> if d = CHR 0x0A then sh_split (Plain w) r else sh_split (Plain (Some (word_so_far w @ [d]))) r)
      else if c \<in> set (CHR 0x60 # CHR 0x0A # ''$;|&<>()#*?[~'') then None
      else sh_split (Plain (Some (word_so_far w @ [c]))) s)"

definition sh_words :: "string \<Rightarrow> string list option" where
  "sh_words line = sh_split (Plain None) line"

lemma quote_marks [simp]: "sq \<noteq> CHR '' ''" "sq \<noteq> CHR 0x09" "bs \<noteq> CHR '' ''" "bs \<noteq> CHR 0x09" "bs \<noteq> sq" "sq \<noteq> bs" "bs \<noteq> dq" "dq \<noteq> sq" "sq \<noteq> CHR 0x0A"
  by (simp_all add: sq_def dq_def bs_def)

lemma split_quoted:
  "sh_split (Single u) (concat (map (\<lambda>c. if c = sq then [sq, bs, sq, sq] else [c]) a) @ sq # s) = sh_split (Plain (Some (u @ a))) s"
  by (induction a arbitrary: u) (simp_all add: word_so_far_def)

lemma split_sh_quote: "sh_split (Plain None) (sh_quote a @ s) = sh_split (Plain (Some a)) s"
  using split_quoted[of "[]" a s] by (simp add: sh_quote_def word_so_far_def)


text \<open>Observation: The other words are quoted for Go, not for a shell: an asset that passes every check can have the
  script expand a command out of its path.\<close>

definition expanding_asset :: asset where
  "expanding_asset = \<lparr>ba_role = ''binary'', ba_name = ''x'', ba_os = ''linux'', ba_arch = ''amd64'', ba_file = [],
     ba_url = ''https://a.io/x'', ba_sha256 = replicate 64 CHR ''a'', ba_unpack = [], ba_exec_path = ''bin/$(id)'', ba_deps = [], ba_order = 0, ba_args = []\<rparr>"

lemma expanding_asset_valid: "asset_problems [] [] expanding_asset = []"
  by code_simp

lemma expanding_line: "map sh_words (stage_lines (install_asset_of 0 expanding_asset)) = [None]"
  by code_simp

end
