(* ===== verification/Spec2Isabelle.thy ===== *)
theory Spec2Isabelle
  imports Prelude Store_Iface Mem_Store Sqlite_Store App_Config Go_Std Registry Breaker Json Tenancy Http
    Credit Identity Derive Broker_Env Provision Provisioned Meter Broker Access_Log
    Json_Struct Json_Print Utf8 Blob_Store Multipart_Form Next_Steps X402 Signup_Ledger Otp_Signup Otp_Mail Otp_Flow Insforge
    Store_Refine Semver Catalogue Go_Url Demo Scaffold Scaffold_Assets Scaffold_Resolve Scaffold_Valid Submission Submission_Build
    Publish_Names Artifact Publish_Store Broker_Register Live_Catalogue Publish_Server Publish_Safe
    Store_Meta Store_Load Store_Sound Store_Api Demo_Score Demo_Gate Install_Spec
begin

text \<open>
  A model of the Pilot app template: the managed-key broker, the signup brokers and the mail server
  behind them, the generator of adapters, the pipeline that publishes them, and the store's metadata.

  THE PROGRAM. An author describes an app in a submission. The publish server checks it, an admin has it
  built and approves it, and the approved app appears in a signed catalogue that a gate reviews. The
  adapter generated for the app runs on the user's machine. When the app uses a managed key, the adapter
  signs its requests and sends them to the broker, which holds the master key of the partner: the broker
  verifies the signature, decides whether the call is allowed, checks that every resource the request names
  belongs to the caller, asks a circuit breaker, counts a quota, reserves the price in a credit ledger and
  forwards a fresh request with the master key. For partners that only have a signup form, a signup broker
  creates an account per caller, reading the one-time code from a mail server of its own. The store's
  pages are served from a directory of app records, and demos of apps are scored before they are shown.

  THE THEORIES.

  Shared. Prelude: strings as bytes, splitting, decimal text, maps as association lists, clocks.
  Go_Std, Go_Url, Utf8, Json, Json_Struct, Json_Print: what the code uses of mime, net/url,
  encoding/base64, unicode/utf8 and encoding/json.

  The broker (internal/broker). Store_Iface: the store interfaces of store.go and owner.go as records of
  operations, the abstract ledgers they promise, and the laws as locales (usage_meter, credit_ledger,
  ownership_ledger); Mem_Store and Sqlite_Store model the two implementations and interpret the locales, and
  Store_Refine shows that both refine the abstract ledger under any sequence of operations. App_Config and
  Registry: registry.go, the configuration and its loading, the allow-list and the prices. Breaker: breaker.go.
  Tenancy: tenancy.go. Http: inject.go and the outgoing request. Credit: seeding, the ledger under
  interleaving, the balance rate limit. Identity: identity.go and accesskey.go. Derive: derive.go. Broker_Env:
  the state of a broker and what it takes from outside. Provision, Provisioned, Meter: provision.go and
  meter.go. Broker: ServeHTTP, cut at its steps. Access_Log: accesslog.go around any handler.

  Signup. Signup_Ledger: what the two signup brokers share. Otp_Signup: internal/otpsignup. Otp_Mail:
  internal/otpmail, the SMTP session, the maildir and the control API. Otp_Flow composes them: a code that
  arrives is the code the broker reads. Insforge: internal/insforgesignup.

  Kits for adapters. Blob_Store and Multipart_Form: internal/multipartkit. Next_Steps: internal/nextsteps.
  X402: internal/x402.

  The generator (internal/scaffold). Scaffold: the spec of config.go and what is derived from it;
  Scaffold_Resolve: Resolve and its laws; Scaffold_Assets: the install order; Scaffold_Valid: Validate;
  Install_Spec: install.go, the contract and the blocks of install.sh, with a reader of shell words.

  Publishing. Submission and Submission_Build: submission.go, its validation and ToConfig, and how both
  relate to the validation of the spec. Semver and Catalogue: the version order and the gate of
  catalogue/verify.go. Live_Catalogue: catalogue/remote.go. Artifact: publish/artifact.go and the presign
  handler of cmd/publish-server. Publish_Names, Publish_Store: publish/case.go, a case as a directory.
  Broker_Register: publish/broker_register.go, the broker's entry of a managed submission. Publish_Server: the
  handlers of cmd/publish-server that change state, the ends of the goroutines they start and restarts, as
  steps (pub_step) of reachable states (pub_reachable); Publish_Safe: what holds in all of them.

  The store. Demo: internal/demo. Demo_Score: internal/demoeval, the rubric, the first-call proxy and the
  report over a directory; Demo_Gate: what an accepted demo scores. Store_Meta, Store_Load, Store_Api:
  internal/appstoremeta, its records and summaries, loading, and its routes; Store_Sound: what loading ensures.

  STATE AND EFFECTS. A handler maps its state to a response, the list of requests it sent out and the
  new state. A mutex-guarded method and a database transaction is one step; what concurrency can
  interleave are such steps, and the theorems about ledgers, breakers, mailboxes, uploads and cases range over
  arbitrary sequences of them, with failing writes, crashes and restarts where the code meets them. Errors
  are values: option, a sum, or a response with its code. A validator is the list of problems it would
  print, each a constructor. Integers of Go's int that count money are unbounded here; where the width decides
  (the age check of Verify, strconv) the wrap-around is written out. Floats are rationals. Case folding
  and unicode.IsSpace act on ASCII, as the files and headers in question hold it.

  PARAMETERS. SHA-256, Ed25519, HMAC and AEAD, with their documented laws as hypotheses where a theorem needs
  them; partners, clouds, payers and mail control as functions from requests to answers; the reader of
  multipart bodies, gzip and tar, and the manifest package of another repository; regular expressions, except
  those that are written out; the clock and random text at each place they are read; failing writes as inputs; the
  help texts the renderings embed; the outcome of a build and of opening a pull request.

  FUEL. The JSON reader takes the length of its input plus one (decoder_fuel_enough: more reads the same);
  the rewriting of summaries takes the length of its text; loops that wait or retry run over the list of
  what they read. Other recursions are structural or come with a measure. install_loop is total by
  install_loop_total: the loop of the code ends.

  WHAT IS SHOWN. The C-numbered theorems: what must hold before a request leaves the broker, who pays and
  when, that ledgers stay non-negative under any interleaving and both stores refine them, that tenancy
  isolates requests and lists, that keys and signatures cannot be confused, that one-time codes reach only
  their owner, that uploads are kept whole, that what the gate accepts is what it says, that an accepted
  submission derives a valid spec and, once approved, an entry the broker loads and serves, that cases keep
  to their version and payloads to their submission, that the store's document is sound and served whole,
  and that an accepted demo passes the score gate. Theorems marked as observations are further facts, or
  concrete runs that show where the code departs from what its comments say.

  NOT MODELLED. Database errors and pragmas, logging text, HTTP parsing and connection handling, YAML decoding,
  the text templates of the generator and the files it writes, the Go tool chain that builds bundles, git and
  pull requests, mail, HTML pages and CORS of the publish server, key rotation, and the command-line
  programs under cmd, which parse flags, listen and print.
\<close>

end
